(* ===== verification/Prelude.thy ===== *)
theory Prelude
  imports Main "HOL-Library.Word"
begin

text \<open>
  Shared vocabulary of the development: the machine integers and byte strings of the
  Rust sources, little-endian codes, slices and chunks of byte lists, the result type,
  and the generic interfaces (locales) that several components implement.
  Nothing in this theory models a particular file of the repository.
\<close>

unbundle bit_operations_syntax

type_synonym u8 = "8 word"
type_synonym u16 = "16 word"
type_synonym u32 = "32 word"
type_synonym u64 = "64 word"
type_synonym i16 = "16 word" \<comment> \<open>two's complement, read with \<open>sint\<close>\<close>
type_synonym i32 = "32 word"
type_synonym bytes = "u8 list"
type_synonym rstring = bytes \<comment> \<open>a Rust \<open>String\<close> as its UTF-8 bytes\<close>

named_theorems wire_simps \<open>evaluation of encoders and decoders\<close>
named_theorems inv_intros \<open>introduction rules of component invariants\<close>

section \<open>Results\<close>

text \<open>Rust's \<open>Result\<close> as a sum (\<open>Inl\<close> the error) and the \<open>?\<close> operator.\<close>

definition and_then :: "'e + 'a \<Rightarrow> ('a \<Rightarrow> 'e + 'b) \<Rightarrow> 'e + 'b" where
  "and_then r f = (case r of Inl e \<Rightarrow> Inl e | Inr x \<Rightarrow> f x)"

lemma and_then_simps [simp]:
  "and_then (Inl e) f = Inl e"
  "and_then (Inr x) f = f x"
  by (simp_all add: and_then_def)

lemma and_then_Inr_iff: "and_then r f = Inr y \<longleftrightarrow> (\<exists>x. r = Inr x \<and> f x = Inr y)"
  by (cases r) auto

definition is_ok :: "'e + 'a \<Rightarrow> bool" where
  "is_ok r = (case r of Inl e \<Rightarrow> False | Inr x \<Rightarrow> True)"

lemma is_ok_simps [simp]: "\<not> is_ok (Inl e)" "is_ok (Inr x)"
  by (simp_all add: is_ok_def)

lemma is_ok_iff: "is_ok r \<longleftrightarrow> (\<exists>x. r = Inr x)"
  by (cases r) auto

section \<open>Slices and chunks\<close>

text \<open>\<open>&xs[i..j]\<close> for \<open>i \<le> j \<le> len\<close>; the callers check the range.\<close>

definition subslice :: "'a list \<Rightarrow> nat \<Rightarrow> nat \<Rightarrow> 'a list" where
  "subslice xs i j = take (j - i) (drop i xs)"

lemma length_subslice [simp]: "length (subslice xs i j) = min (length xs - i) (j - i)"
  by (simp add: subslice_def)

lemma subslice_append_left [simp]: "j \<le> length xs \<Longrightarrow> subslice (xs @ ys) i j = subslice xs i j"
  by (simp add: subslice_def)

lemma subslice_all [simp]: "subslice xs 0 (length xs) = xs"
  by (simp add: subslice_def)

lemma subslice_full: "length xs = n \<Longrightarrow> subslice xs 0 n = xs"
  by (simp add: subslice_def)

text \<open>\<open>slice::chunks(n)\<close>: consecutive pieces of length \<open>n\<close>, the last one shorter.\<close>

function chunks :: "nat \<Rightarrow> 'a list \<Rightarrow> 'a list list" where
  "chunks n xs = (if xs = [] \<or> n = 0 then [] else take n xs # chunks n (drop n xs))"
  by pat_completeness auto
termination
  by (relation "measure (\<lambda>(n, xs). length xs)") auto

declare chunks.simps [simp del]

lemma chunks_Nil [simp]: "chunks n [] = []"
  by (simp add: chunks.simps)

lemma chunks_step: "xs \<noteq> [] \<Longrightarrow> 0 < n \<Longrightarrow> chunks n xs = take n xs # chunks n (drop n xs)"
  by (simp add: chunks.simps [of n xs])

lemma concat_chunks: "0 < n \<Longrightarrow> concat (chunks n xs) = xs"
proof (induction n xs rule: chunks.induct)
  case (1 n xs)
  then show ?case by (cases "xs = []") (simp_all add: chunks_step)
qed

lemma chunks_bounds: "c \<in> set (chunks n xs) \<Longrightarrow> c \<noteq> [] \<and> length c \<le> n"
proof (induction n xs rule: chunks.induct)
  case (1 n xs)
  then show ?case
    by (cases "xs = [] \<or> n = 0") (auto simp: chunks.simps [of n xs])
qed

lemma length_chunks:
  "0 < n \<Longrightarrow> length (chunks n xs) = (length xs + n - 1) div n"
proof (induction n xs rule: chunks.induct)
  case (1 n xs)
  show ?case
  proof (cases xs)
    case Nil
    then show ?thesis using 1 by simp
  next
    case (Cons y ys)
    then have rec: "length (chunks n xs) = Suc ((length xs - n + n - 1) div n)"
      using 1 by (simp add: chunks_step)
    have target: "(length xs + n - 1) div n = Suc (length ys div n)"
      using Cons 1(2) by (simp add: div_add_self2)
    show ?thesis
    proof (cases "n \<le> length xs")
      case True
      then have "length xs - n + n - 1 = length ys" using Cons by simp
      then show ?thesis using rec target by simp
    next
      case False
      then have "length xs - n + n - 1 = n - 1" "length ys < n" using Cons by simp_all
      then show ?thesis using rec target 1(2) by simp
    qed
  qed
qed

section \<open>Little-endian codes\<close>

text \<open>
  \<open>uN::to_le_bytes\<close> and \<open>uN::from_le_bytes\<close>, for a word of any width read or written
  as \<open>n\<close> bytes.
\<close>

fun to_le :: "nat \<Rightarrow> 'a::len word \<Rightarrow> bytes" where
  "to_le 0 w = []"
| "to_le (Suc n) w = ucast w # to_le n (drop_bit 8 w)"

fun from_le :: "bytes \<Rightarrow> 'a::len word" where
  "from_le [] = 0"
| "from_le (b # bs) = ucast b OR push_bit 8 (from_le bs)"

lemma length_to_le [simp]: "length (to_le n w) = n"
  by (induction n arbitrary: w) auto

lemma from_le_to_le_take: "from_le (to_le n w) = take_bit (8 * n) (w :: 'a::len word)"
proof (induction n arbitrary: w)
  case 0
  show ?case by simp
next
  case (Suc n)
  have "bit (from_le (to_le (Suc n) w) :: 'a word) i = bit (take_bit (8 * Suc n) w) i"
    if "i < LENGTH('a)" for i
    using that by (cases "i < 8") (auto simp: Suc bit_simps)
  then show ?case by (intro bit_word_eqI)
qed

lemma from_le_to_le [simp]:
  "LENGTH('a) \<le> 8 * n \<Longrightarrow> from_le (to_le n w) = (w :: 'a::len word)"
  by (simp add: from_le_to_le_take take_bit_word_eq_self)

lemma to_le_from_le:
  "8 * length bs \<le> LENGTH('a) \<Longrightarrow> to_le (length bs) (from_le bs :: 'a::len word) = bs"
proof (induction bs)
  case Nil
  then show ?case by simp
next
  case (Cons b bs)
  have low: "ucast (ucast b OR push_bit 8 (from_le bs) :: 'a word) = b"
    using Cons.prems by (intro bit_word_eqI) (auto simp: bit_simps)
  have high: "\<not> bit b (8 + i)" for i
    using bit_imp_le_length [of b "8 + i"] by auto
  have "bit (drop_bit 8 (ucast b OR push_bit 8 (from_le bs) :: 'a word)) i
      = bit (take_bit (LENGTH('a) - 8) (from_le bs :: 'a word)) i" if "i < LENGTH('a)" for i
    using that by (auto simp: bit_simps high)
  then have "drop_bit 8 (ucast b OR push_bit 8 (from_le bs) :: 'a word)
      = take_bit (LENGTH('a) - 8) (from_le bs)"
    by (intro bit_word_eqI)
  also have "\<dots> = from_le bs"
  proof -
    have "take_bit (8 * length bs) (from_le bs :: 'a word) = from_le bs"
      using Cons.IH Cons.prems from_le_to_le_take [of "length bs" "from_le bs :: 'a word"] by simp
    moreover have "8 * length bs \<le> LENGTH('a) - 8" using Cons.prems by simp
    ultimately show ?thesis
      by (metis min.absorb2 take_bit_take_bit)
  qed
  finally show ?case using low Cons by simp
qed

text \<open>The integer at byte offset \<open>i\<close>.\<close>

definition u16_at :: "bytes \<Rightarrow> nat \<Rightarrow> u16" where
  "u16_at bs i = from_le (subslice bs i (i + 2))"

definition u32_at :: "bytes \<Rightarrow> nat \<Rightarrow> u32" where
  "u32_at bs i = from_le (subslice bs i (i + 4))"

definition u64_at :: "bytes \<Rightarrow> nat \<Rightarrow> u64" where
  "u64_at bs i = from_le (subslice bs i (i + 8))"

lemma subslice_shift: "length xs = i \<Longrightarrow> subslice (xs @ ys) (i + a) (i + b) = subslice ys a b"
  by (auto simp: subslice_def)

lemma subslice_to_le [simp]: "n = m \<Longrightarrow> subslice (to_le n w @ ys) 0 m = to_le n w"
  by (simp add: subslice_def)

end
