(* ===== verification/Errors.thy ===== *)
theory Errors
  imports Prelude
begin

text \<open>
  \<open>crates/wiredesk-core/src/error.rs\<close>. The formatted texts of \<open>Protocol\<close> errors become a
  datatype of reasons that carries the formatted values; no code inspects them. The text
  of a \<open>Transport\<close> error stays a string because \<open>tick\<close>, the session thread and the
  client's reader test it for the substring \<open>timeout\<close>.
\<close>

datatype protocol_reason =
    PayloadTooLarge nat nat
  | PacketTooShort nat
  | BadMagic u8 u8
  | UnknownMessageType u8
  | PacketTruncated nat nat
  | CrcMismatch u16 u16
  | PayloadTooShort nat nat
  | MissingStringLength
  | StringTruncated
  | InvalidUtf8
  | PtyResizeLength nat
  | InvalidBrowserFrame
  | CobsUnexpectedZero nat
  | CobsTruncated
  | FrameTooLarge nat

datatype werror =
    Transport string
  | Protocol protocol_reason
  | Input string
  | Clipboard string
  | Config string
  | Io string

text \<open>\<open>str::contains\<close> on the error text.\<close>

fun str_prefix :: "'a list \<Rightarrow> 'a list \<Rightarrow> bool" where
  "str_prefix [] ys = True"
| "str_prefix (x # xs) [] = False"
| "str_prefix (x # xs) (y # ys) = (x = y \<and> str_prefix xs ys)"

fun str_contains :: "'a list \<Rightarrow> 'a list \<Rightarrow> bool" where
  "str_contains [] pat = (pat = [])"
| "str_contains (x # xs) pat = (str_prefix pat (x # xs) \<or> str_contains xs pat)"

lemma str_prefix_iff: "str_prefix xs ys \<longleftrightarrow> (\<exists>zs. ys = xs @ zs)"
  by (induction xs ys rule: str_prefix.induct) auto

lemma str_contains_iff: "str_contains xs pat \<longleftrightarrow> (\<exists>a b. xs = a @ pat @ b)"
proof (induction xs)
  case (Cons x xs)
  note IH = Cons.IH
  show ?case
  proof
    assume "str_contains (x # xs) pat"
    then consider b where "x # xs = pat @ b" | a b where "xs = a @ pat @ b"
      using Cons by (auto simp: str_prefix_iff)
    then show "\<exists>a b. x # xs = a @ pat @ b"
    proof cases
      case 1
      then show ?thesis by (metis append_Nil)
    next
      case 2
      then show ?thesis by (metis append_Cons)
    qed
  next
    assume "\<exists>a b. x # xs = a @ pat @ b"
    then obtain a b where eq: "x # xs = a @ pat @ b" by blast
    have "str_prefix pat (x # xs) \<or> str_contains xs pat"
    proof (cases a)
      case Nil
      then show ?thesis using eq str_prefix_iff by fastforce
    next
      case (Cons y ys)
      then have "xs = ys @ pat @ b" using eq by simp
      then show ?thesis using IH by blast
    qed
    then show "str_contains (x # xs) pat" by simp
  qed
qed auto

text \<open>The arm \<open>Err(WireDeskError::Transport(ref msg)) if msg.contains("timeout")\<close>.\<close>

definition is_recv_timeout :: "werror \<Rightarrow> bool" where
  "is_recv_timeout e = (case e of Transport msg \<Rightarrow> str_contains msg ''timeout'' | _ \<Rightarrow> False)"

end
