(* ===== verification/Interfaces.thy ===== *)
theory Interfaces
  imports Prelude
begin

text \<open>
  The contracts between components, as locales. Each is interpreted on the model's own
  definitions in the theory of the component that provides it; the lemmas proved here
  once are what the clients and the properties use.
\<close>

section \<open>Encoders and decoders\<close>

text \<open>
  An encoder, a decoder that returns an error or a value, and the values for which the
  round trip is promised.
\<close>

locale codec =
  fixes enc :: "'a \<Rightarrow> 'b list"
    and dec :: "'b list \<Rightarrow> 'e + 'a"
    and wf :: "'a \<Rightarrow> bool"
  assumes dec_enc: "wf x \<Longrightarrow> dec (enc x) = Inr x"
begin

lemma enc_inject: "wf x \<Longrightarrow> wf y \<Longrightarrow> enc x = enc y \<longleftrightarrow> x = y"
  by (metis dec_enc sum.inject(2))

lemma dec_enc_all: "list_all wf xs \<Longrightarrow> map (\<lambda>x. dec (enc x)) xs = map Inr xs"
  by (induction xs) (simp_all add: dec_enc)

end

text \<open>
  A codec whose encodings are zero-free bodies followed by one delimiter: what a stream
  reader relies on to find frame boundaries.
\<close>

locale delimited_codec = codec enc dec wf
  for enc :: "'a \<Rightarrow> 'b list" and dec :: "'b list \<Rightarrow> 'e + 'a" and wf :: "'a \<Rightarrow> bool" +
  fixes delim :: 'b
  assumes enc_delim: "wf x \<Longrightarrow> \<exists>body. enc x = body @ [delim] \<and> body \<noteq> [] \<and> delim \<notin> set body"
begin

lemma enc_butlast:
  assumes "wf x"
  shows "enc x = butlast (enc x) @ [delim]" and "butlast (enc x) \<noteq> []"
    and "delim \<notin> set (butlast (enc x))"
  using enc_delim [OF assms] by auto

text \<open>Concatenated encodings can be cut apart in one way only.\<close>

lemma enc_prefix_free:
  assumes "wf x" "wf y" "enc x @ xs = enc y @ ys"
  shows "x = y \<and> xs = ys"
proof -
  obtain b1 b2 where b: "enc x = b1 @ [delim]" "delim \<notin> set b1" "enc y = b2 @ [delim]"
      "delim \<notin> set b2"
    using enc_delim [OF assms(1)] enc_delim [OF assms(2)] by auto
  have "takeWhile (\<lambda>c. c \<noteq> delim) (b @ delim # zs) = b" if "delim \<notin> set b" for b zs
    using that by (induction b) auto
  then have "b1 = b2" using b assms(3) by (metis append.assoc append_Cons append_Nil)
  then have "enc x = enc y" using b by simp
  then show ?thesis using assms enc_inject by simp
qed

end

section \<open>Machines with an invariant\<close>

text \<open>
  A component as a step function over events, the invariant of its state and the events
  the environment may send. One preservation law gives the invariant for every run.
\<close>

locale inv_machine =
  fixes step :: "'s \<Rightarrow> 'e \<Rightarrow> 's"
    and inv :: "'s \<Rightarrow> bool"
    and ok :: "'e \<Rightarrow> bool"
  assumes step_inv: "inv s \<Longrightarrow> ok e \<Longrightarrow> inv (step s e)"
begin

lemma run_inv: "inv s \<Longrightarrow> list_all ok es \<Longrightarrow> inv (foldl step s es)"
  by (induction es arbitrary: s) (auto intro: step_inv)

lemma run_prefix_inv: "inv s \<Longrightarrow> list_all ok (es @ es') \<Longrightarrow> inv (foldl step s es)"
  by (rule run_inv) simp_all

end

text \<open>A machine that also has a start state: every reachable state satisfies the invariant.\<close>

locale init_machine = inv_machine step inv ok
  for step :: "'s \<Rightarrow> 'e \<Rightarrow> 's" and inv :: "'s \<Rightarrow> bool" and ok :: "'e \<Rightarrow> bool" +
  fixes start :: 's
  assumes start_inv: "inv start"
begin

lemma reachable_inv: "list_all ok es \<Longrightarrow> inv (foldl step start es)"
  by (rule run_inv [OF start_inv])

end

end
