(* ===== verification/Utf8.thy ===== *)
theory Utf8
  imports Interfaces
begin

text \<open>
  UTF-8 as the Rust standard library checks it, and
  \<open>crates/wiredesk-exec-core/src/utf8_stream.rs\<close>, the incremental decoder of
  \<open>wd --exec\<close> output. A Rust string is the list of its UTF-8 bytes. The main lemma says
  that cutting a byte stream into chunks anywhere never changes what is decoded.
\<close>

section \<open>The standard library's validation\<close>

text \<open>
  What \<open>core::str::from_utf8\<close> sees at the head of its input: a whole character of \<open>n\<close>
  bytes, a sequence damaged after \<open>k\<close> bytes (\<open>error_len = Some k\<close>), or an input that
  stops inside a character (\<open>error_len = None\<close>).
\<close>

datatype utf8_head = Whole nat | Damaged nat | Early

definition is_cont :: "u8 \<Rightarrow> bool" where
  "is_cont b = (0x80 \<le> b \<and> b \<le> 0xBF)"

definition second_of_three :: "u8 \<Rightarrow> u8 \<Rightarrow> bool" where
  "second_of_three b0 b1 =
     (if b0 = 0xE0 then 0xA0 \<le> b1 \<and> b1 \<le> 0xBF
      else if b0 = 0xED then 0x80 \<le> b1 \<and> b1 \<le> 0x9F
      else is_cont b1)"

definition second_of_four :: "u8 \<Rightarrow> u8 \<Rightarrow> bool" where
  "second_of_four b0 b1 =
     (if b0 = 0xF0 then 0x90 \<le> b1 \<and> b1 \<le> 0xBF
      else if b0 = 0xF4 then 0x80 \<le> b1 \<and> b1 \<le> 0x8F
      else is_cont b1)"

text \<open>\<open>utf8_char_width\<close>: 0 for a byte that cannot start a character.\<close>

definition utf8_width :: "u8 \<Rightarrow> nat" where
  "utf8_width b =
     (if b < 0x80 then 1
      else if 0xC2 \<le> b \<and> b \<le> 0xDF then 2
      else if 0xE0 \<le> b \<and> b \<le> 0xEF then 3
      else if 0xF0 \<le> b \<and> b \<le> 0xF4 then 4
      else 0)"

fun utf8_next :: "bytes \<Rightarrow> utf8_head" where
  "utf8_next [] = Early"
| "utf8_next (b0 # r1) =
     (if utf8_width b0 = 1 then Whole 1
      else if utf8_width b0 = 2 then
        (case r1 of [] \<Rightarrow> Early
         | b1 # r2 \<Rightarrow> if is_cont b1 then Whole 2 else Damaged 1)
      else if utf8_width b0 = 3 then
        (case r1 of [] \<Rightarrow> Early
         | b1 # r2 \<Rightarrow>
             if \<not> second_of_three b0 b1 then Damaged 1
             else (case r2 of [] \<Rightarrow> Early
                   | b2 # r3 \<Rightarrow> if is_cont b2 then Whole 3 else Damaged 2))
      else if utf8_width b0 = 4 then
        (case r1 of [] \<Rightarrow> Early
         | b1 # r2 \<Rightarrow>
             if \<not> second_of_four b0 b1 then Damaged 1
             else (case r2 of [] \<Rightarrow> Early
                   | b2 # r3 \<Rightarrow>
                       if \<not> is_cont b2 then Damaged 2
                       else (case r3 of [] \<Rightarrow> Early
                             | b3 # r4 \<Rightarrow> if is_cont b3 then Whole 4 else Damaged 3)))
      else Damaged 1)"

declare utf8_next.simps(2) [simp del]

lemma utf8_next_cases_all:
  "(\<forall>n. utf8_next bs = Whole n \<longrightarrow> 1 \<le> n \<and> n \<le> length bs \<and> n \<le> 4) \<and>
   (\<forall>k. utf8_next bs = Damaged k \<longrightarrow> 1 \<le> k \<and> k < Suc (length bs) \<and> k \<le> 3) \<and>
   (utf8_next bs = Early \<longrightarrow> length bs \<le> 3)"
  by (cases bs) (auto simp: utf8_next.simps(2) split: if_splits list.splits)

lemma utf8_next_Whole: "utf8_next bs = Whole n \<Longrightarrow> 1 \<le> n \<and> n \<le> length bs \<and> n \<le> 4"
  using utf8_next_cases_all [of bs] by blast

lemma utf8_next_Damaged: "utf8_next bs = Damaged k \<Longrightarrow> 1 \<le> k \<and> k \<le> length bs \<and> k \<le> 3"
  using utf8_next_cases_all [of bs] by auto

lemma utf8_next_Early: "utf8_next bs = Early \<Longrightarrow> length bs \<le> 3"
  using utf8_next_cases_all [of bs] by blast

text \<open>More input never changes a verdict that was already reached.\<close>

lemma list_upto4:
  obtains "a = []" | b0 where "a = [b0]" | b0 b1 where "a = [b0, b1]"
    | b0 b1 b2 where "a = [b0, b1, b2]" | b0 b1 b2 b3 r where "a = b0 # b1 # b2 # b3 # r"
  by (metis neq_Nil_conv)

lemma utf8_next_append: "utf8_next a \<noteq> Early \<Longrightarrow> utf8_next (a @ b) = utf8_next a"
  by (cases a rule: list_upto4) (simp_all add: utf8_next.simps(2) split: if_splits)

lemma utf8_next_take_Whole: "utf8_next bs = Whole n \<Longrightarrow> utf8_next (take n bs) = Whole n"
  by (cases bs rule: list_upto4; cases "n = 1") (auto simp: utf8_next.simps(2) split: if_splits)

text \<open>\<open>from_utf8\<close>: \<open>None\<close> for \<open>Ok\<close>, else \<open>(valid_up_to, error_len)\<close>.\<close>

function utf8_check :: "bytes \<Rightarrow> nat \<Rightarrow> (nat \<times> nat option) option" where
  "utf8_check bs i =
     (if bs = [] then None
      else (case utf8_next bs of
              Whole n \<Rightarrow> utf8_check (drop n bs) (i + n)
            | Damaged k \<Rightarrow> Some (i, Some k)
            | Early \<Rightarrow> Some (i, None)))"
  by pat_completeness auto
termination
  by (relation "measure (\<lambda>(bs, i). length bs)") (auto dest: utf8_next_Whole)

declare utf8_check.simps [simp del]

definition utf8_valid :: "bytes \<Rightarrow> bool" where
  "utf8_valid bs = (utf8_check bs 0 = None)"

lemma utf8_check_Nil [simp]: "utf8_check [] i = None"
  by (simp add: utf8_check.simps)

lemma utf8_check_shift:
  "utf8_check bs (i + j) = map_option (\<lambda>(v, e). (v + j, e)) (utf8_check bs i)"
proof (induction bs i rule: utf8_check.induct)
  case (1 bs i)
  show ?case
  proof (cases "bs = []")
    case True
    then show ?thesis by (simp add: utf8_check.simps)
  next
    case False
    then show ?thesis
      using 1 by (auto simp: utf8_check.simps [of bs] add.assoc add.commute [of j]
          split: utf8_head.splits)
  qed
qed

lemma utf8_check_Whole:
  "utf8_next bs = Whole n \<Longrightarrow>
   utf8_check bs 0 = map_option (\<lambda>(v, e). (v + n, e)) (utf8_check (drop n bs) 0)"
  using utf8_check_shift [of "drop n bs" 0 n] utf8_next_Whole [of bs n]
  by (cases "bs = []") (auto simp: utf8_check.simps [of bs])

lemma utf8_check_None_iff: "utf8_check bs i = None \<longleftrightarrow> utf8_check bs 0 = None"
  using utf8_check_shift [of bs 0 i] by simp

lemma utf8_valid_Nil [simp]: "utf8_valid []"
  by (simp add: utf8_valid_def)

lemma utf8_valid_iff:
  "bs \<noteq> [] \<Longrightarrow>
   utf8_valid bs \<longleftrightarrow> (\<exists>n. utf8_next bs = Whole n \<and> utf8_valid (drop n bs))"
  by (auto simp: utf8_valid_def utf8_check.simps [of bs] split: utf8_head.splits
      intro: utf8_check_None_iff [THEN iffD1] utf8_check_None_iff [THEN iffD2])

lemma utf8_valid_append: "utf8_valid a \<Longrightarrow> utf8_valid b \<Longrightarrow> utf8_valid (a @ b)"
proof (induction a rule: length_induct)
  case (1 a)
  show ?case
  proof (cases "a = []")
    case False
    then obtain n where n: "utf8_next a = Whole n" "utf8_valid (drop n a)"
      using 1 utf8_valid_iff by blast
    then have "utf8_valid (drop n a @ b)"
      using 1 False utf8_next_Whole [OF n(1)] by auto
    then show ?thesis
      using n False utf8_next_append [of a b] utf8_next_Whole [OF n(1)]
      by (auto simp: utf8_valid_iff [of "a @ b"])
  qed (use 1 in simp)
qed

lemma utf8_valid_whole: "utf8_next bs = Whole n \<Longrightarrow> utf8_valid (take n bs)"
  using utf8_next_take_Whole [of bs n] utf8_next_Whole [of bs n]
  by (cases "take n bs = []") (auto simp: utf8_valid_iff)

text \<open>ASCII text is valid UTF-8.\<close>

lemma utf8_valid_ascii: "list_all (\<lambda>b. b < 0x80) bs \<Longrightarrow> utf8_valid bs"
proof (induction bs)
  case (Cons b bs)
  then show ?case by (simp add: utf8_valid_iff utf8_next.simps(2) utf8_width_def)
qed simp

text \<open>\<open>char::REPLACEMENT_CHARACTER\<close>, U+FFFD.\<close>

definition replacement :: bytes where
  "replacement = [0xEF, 0xBF, 0xBD]"

lemma replacement_valid: "utf8_valid replacement"
  by (simp add: replacement_def utf8_valid_iff utf8_next.simps utf8_width_def second_of_three_def is_cont_def)

text \<open>\<open>String::from_utf8_lossy\<close>.\<close>

function utf8_lossy :: "bytes \<Rightarrow> bytes" where
  "utf8_lossy bs =
     (if bs = [] then []
      else (case utf8_next bs of
              Whole n \<Rightarrow> take n bs @ utf8_lossy (drop n bs)
            | Damaged k \<Rightarrow> replacement @ utf8_lossy (drop k bs)
            | Early \<Rightarrow> replacement))"
  by pat_completeness auto
termination
  by (relation "measure length") (auto dest: utf8_next_Whole utf8_next_Damaged)

declare utf8_lossy.simps [simp del]

lemma utf8_lossy_Nil [simp]: "utf8_lossy [] = []"
  by (simp add: utf8_lossy.simps)

lemma utf8_lossy_valid: "utf8_valid bs \<Longrightarrow> utf8_lossy bs = bs"
proof (induction bs rule: utf8_lossy.induct)
  case (1 bs)
  then show ?case
    by (cases "bs = []") (auto simp: utf8_lossy.simps [of bs] utf8_valid_iff)
qed

section \<open>The incremental decoder\<close>

record utf8_stream =
  us_tail :: bytes

definition utf8_stream_new :: utf8_stream where
  "utf8_stream_new = \<lparr>us_tail = []\<rparr>"

text \<open>The loop of \<open>Utf8Stream::decode\<close>: the text so far and the tail it leaves behind.\<close>

lemma utf8_check_bounds:
  "utf8_check bs i = Some (v, e) \<Longrightarrow>
   i \<le> v \<and> v \<le> i + length bs \<and> (\<forall>k. e = Some k \<longrightarrow> 1 \<le> k) \<and> bs \<noteq> []"
proof (induction bs i rule: utf8_check.induct)
  case (1 bs i)
  then show ?case
    by (cases "bs = []")
      (auto simp: utf8_check.simps [of bs] split: utf8_head.splits
        dest!: utf8_next_Whole utf8_next_Damaged)
qed

function decode_chunk :: "bytes \<Rightarrow> bytes \<Rightarrow> bytes \<times> bytes" where
  "decode_chunk rest out =
     (case utf8_check rest 0 of
        None \<Rightarrow> (out @ rest, [])
      | Some (valid, Some bad) \<Rightarrow>
          decode_chunk (drop (valid + bad) rest) (out @ take valid rest @ replacement)
      | Some (valid, None) \<Rightarrow> (out @ take valid rest, drop valid rest))"
  by pat_completeness auto
termination
  by (relation "measure (\<lambda>(rest, out). length rest)") (auto dest!: utf8_check_bounds)

declare decode_chunk.simps [simp del]

text \<open>
  \<open>push\<close>. Both branches of the source decode \<open>tail @ chunk\<close>; the first only avoids a copy.
\<close>

definition utf8_push :: "utf8_stream \<Rightarrow> bytes \<Rightarrow> bytes \<times> utf8_stream" where
  "utf8_push s chunk =
     (let (text, tail) = (if us_tail s = [] then decode_chunk chunk []
                          else decode_chunk (us_tail s @ chunk) [])
      in (text, s\<lparr>us_tail := tail\<rparr>))"

definition utf8_finish :: "utf8_stream \<Rightarrow> bytes \<times> utf8_stream" where
  "utf8_finish s =
     (if us_tail s = [] then ([], s) else (utf8_lossy (us_tail s), s\<lparr>us_tail := []\<rparr>))"

fun utf8_push_all :: "utf8_stream \<Rightarrow> bytes list \<Rightarrow> bytes \<times> utf8_stream" where
  "utf8_push_all s [] = ([], s)"
| "utf8_push_all s (c # cs) =
     (let (t, s') = utf8_push s c; (ts, s'') = utf8_push_all s' cs in (t @ ts, s''))"

section \<open>Correctness\<close>

text \<open>The decoder character by character.\<close>

function decode_ref :: "bytes \<Rightarrow> bytes \<times> bytes" where
  "decode_ref bs =
     (if bs = [] then ([], [])
      else (case utf8_next bs of
              Whole n \<Rightarrow> apfst (append (take n bs)) (decode_ref (drop n bs))
            | Damaged k \<Rightarrow> apfst (append replacement) (decode_ref (drop k bs))
            | Early \<Rightarrow> ([], bs)))"
  by pat_completeness auto
termination
  by (relation "measure length") (auto dest: utf8_next_Whole utf8_next_Damaged)

declare decode_ref.simps [simp del]

lemma decode_ref_Nil [simp]: "decode_ref [] = ([], [])"
  by (simp add: decode_ref.simps)

lemma decode_ref_check:
  "decode_ref bs =
     (case utf8_check bs 0 of
        None \<Rightarrow> (bs, [])
      | Some (v, Some k) \<Rightarrow> apfst (append (take v bs @ replacement)) (decode_ref (drop (v + k) bs))
      | Some (v, None) \<Rightarrow> (take v bs, drop v bs))"
proof (induction bs rule: decode_ref.induct)
  case (1 bs)
  show ?case
  proof (cases "bs = []")
    case True
    then show ?thesis by simp
  next
    case ne: False
    show ?thesis
    proof (cases "utf8_next bs")
      case (Whole n)
      have n: "n \<le> length bs" using utf8_next_Whole [OF Whole] by simp
      have step: "decode_ref bs = apfst (append (take n bs)) (decode_ref (drop n bs))"
        using ne Whole by (simp add: decode_ref.simps [of bs])
      have tk: "take (v + n) bs = take n bs @ take v (drop n bs)" for v
        by (metis add.commute take_add)
      have tk': "take (n + v) bs = take n bs @ take v (drop n bs)" for v
        by (rule take_add)
      show ?thesis
        unfolding step "1.IH"(1) [OF ne Whole] utf8_check_Whole [OF Whole]
        by (auto simp: tk tk' apfst_def map_prod_def ac_simps split: option.splits prod.splits)
    qed (use ne in \<open>simp_all add: decode_ref.simps [of bs] utf8_check.simps [of bs]\<close>)
  qed
qed

lemma decode_chunk_ref: "decode_chunk rest out = apfst (append out) (decode_ref rest)"
proof (induction rest out rule: decode_chunk.induct)
  case (1 rest out)
  show ?case
  proof (cases "utf8_check rest 0")
    case None
    then show ?thesis by (simp add: decode_chunk.simps decode_ref_check [of rest])
  next
    case (Some ve)
    then obtain v e where ve: "ve = (v, e)" by (cases ve)
    show ?thesis
    proof (cases e)
      case None
      then show ?thesis
        using Some ve by (simp add: decode_chunk.simps [of rest] decode_ref_check [of rest])
    next
      case (Some k)
      have chk: "utf8_check rest 0 = Some (v, Some k)"
        using \<open>utf8_check rest 0 = Some ve\<close> ve Some by simp
      then show ?thesis
        using "1.IH" [OF chk refl refl]
        by (simp add: decode_chunk.simps [of rest] decode_ref_check [of rest] apfst_def map_prod_def
            split: prod.splits)
    qed
  qed
qed

lemma decode_ref_append:
  "decode_ref (a @ b) =
     apfst (append (fst (decode_ref a))) (decode_ref (snd (decode_ref a) @ b))"
proof (induction a rule: decode_ref.induct)
  case (1 a)
  show ?case
  proof (cases "a = []")
    case True
    then show ?thesis by (simp add: decode_ref.simps [of "[]"] apfst_def map_prod_def)
  next
    case ne: False
    show ?thesis
    proof (cases "utf8_next a")
      case (Whole n)
      then show ?thesis
        using 1(1) [OF ne Whole] ne utf8_next_append [of a b] utf8_next_Whole [OF Whole]
        by (simp add: decode_ref.simps [of "a @ b"] decode_ref.simps [of a] apfst_def map_prod_def
            split: prod.splits)
    next
      case (Damaged k)
      then show ?thesis
        using 1(2) [OF ne Damaged] ne utf8_next_append [of a b] utf8_next_Damaged [OF Damaged]
        by (simp add: decode_ref.simps [of "a @ b"] decode_ref.simps [of a] apfst_def map_prod_def
            split: prod.splits)
    next
      case Early
      then show ?thesis using ne by (simp add: decode_ref.simps [of a] apfst_def map_prod_def)
    qed
  qed
qed

lemma decode_ref_tail:
  "snd (decode_ref bs) = [] \<or> utf8_next (snd (decode_ref bs)) = Early"
proof (induction bs rule: decode_ref.induct)
  case (1 bs)
  then show ?case
    by (cases "bs = []") (auto simp: decode_ref.simps [of bs] split: utf8_head.splits)
qed

lemma decode_ref_lossy:
  "utf8_lossy bs = fst (decode_ref bs) @ utf8_lossy (snd (decode_ref bs))"
proof (induction bs rule: decode_ref.induct)
  case (1 bs)
  show ?case
  proof (cases "bs = []")
    case True
    then show ?thesis by (simp add: decode_ref.simps utf8_lossy.simps)
  next
    case ne: False
    then show ?thesis
      using 1 by (cases "utf8_next bs") (auto simp: decode_ref.simps [of bs] utf8_lossy.simps [of bs])
  qed
qed

lemma decode_ref_valid: "utf8_valid (fst (decode_ref bs))"
proof (induction bs rule: decode_ref.induct)
  case (1 bs)
  then show ?case
    by (cases "bs = []")
      (auto simp: decode_ref.simps [of bs] utf8_valid_append utf8_valid_whole replacement_valid
        split: utf8_head.splits)
qed

lemma utf8_push_ref:
  "utf8_push s chunk =
     (fst (decode_ref (us_tail s @ chunk)), s\<lparr>us_tail := snd (decode_ref (us_tail s @ chunk))\<rparr>)"
  by (simp add: utf8_push_def decode_chunk_ref apfst_def map_prod_def split: prod.splits)

lemma utf8_push_all_ref:
  "us_tail s = snd (decode_ref seen) \<Longrightarrow>
   fst (decode_ref seen) @ fst (utf8_push_all s cs) = fst (decode_ref (seen @ concat cs)) \<and>
   us_tail (snd (utf8_push_all s cs)) = snd (decode_ref (seen @ concat cs))"
proof (induction cs arbitrary: s seen)
  case Nil
  then show ?case by simp
next
  case (Cons c cs)
  define s' where "s' = snd (utf8_push s c)"
  have push: "utf8_push s c = (fst (decode_ref (us_tail s @ c)), s')"
    by (simp add: utf8_push_ref s'_def)
  have "us_tail s' = snd (decode_ref (seen @ c))"
    using Cons.prems decode_ref_append [of seen c] by (simp add: s'_def utf8_push_ref)
  from Cons.IH [OF this] show ?case
    using Cons.prems decode_ref_append [of seen c] push
    by (simp add: case_prod_beta)
qed

text \<open>Pushing the pieces of a stream and finishing decodes the whole stream at once.\<close>

lemma utf8_stream_lossy:
  "(let (text, s) = utf8_push_all utf8_stream_new cs in text @ fst (utf8_finish s))
     = utf8_lossy (concat cs)"
proof -
  obtain tx s where run: "utf8_push_all utf8_stream_new cs = (tx, s)"
    by (cases "utf8_push_all utf8_stream_new cs")
  have "us_tail utf8_stream_new = snd (decode_ref [])"
    by (simp add: utf8_stream_new_def decode_ref.simps)
  from utf8_push_all_ref [OF this, of cs]
  have "tx = fst (decode_ref (concat cs))" "us_tail s = snd (decode_ref (concat cs))"
    by (simp_all add: run decode_ref.simps [of "[]"])
  then show ?thesis
    using decode_ref_lossy [of "concat cs"] run
    by (auto simp: utf8_finish_def utf8_lossy.simps [of "[]"])
qed

text \<open>The tail stays shorter than a character and every emitted text is a valid string.\<close>

lemma utf8_push_tail_bound: "length (us_tail (snd (utf8_push s c))) \<le> 3"
  using decode_ref_tail [of "us_tail s @ c"] utf8_next_Early
  by (auto simp: utf8_push_ref)

lemma utf8_push_valid: "utf8_valid (fst (utf8_push s c))"
  by (simp add: utf8_push_ref decode_ref_valid)

interpretation utf8m: init_machine "\<lambda>s c. snd (utf8_push s c)" "\<lambda>s. length (us_tail s) \<le> 3"
  "\<lambda>_. True" utf8_stream_new
  by unfold_locales (simp_all add: utf8_push_tail_bound utf8_stream_new_def)

end
