(* ===== verification/Message.thy ===== *)
theory Message
  imports Errors Utf8
begin

text \<open>
  \<open>crates/wiredesk-protocol/src/message.rs\<close>: the message types and their wire codes, the
  capability checks, and the payload encoder and decoder. The lemmas give the round trip
  for every message whose strings fit, what happens to the strings that do not, and what a
  successfully decoded message satisfies.
\<close>

section \<open>Versions, error codes and formats\<close>

definition VERSION :: u8 where "VERSION = 1"
definition HOST_PROTO_VERSION :: u8 where "HOST_PROTO_VERSION = 5"

definition desktop_supported :: "u8 \<Rightarrow> bool" where "desktop_supported v = (v \<ge> 5)"
definition browser_supported :: "u8 \<Rightarrow> bool" where "browser_supported v = (v \<ge> 4)"
definition pty_slot_supported :: "u8 \<Rightarrow> bool" where "pty_slot_supported v = (v \<ge> 2)"
definition rx_progress_supported :: "u8 \<Rightarrow> bool" where "rx_progress_supported v = (v \<ge> 3)"

definition ERR_VERSION :: u16 where "ERR_VERSION = 1"
definition ERR_SHELL_BUSY :: u16 where "ERR_SHELL_BUSY = 2"
definition ERR_SHELL_SPAWN :: u16 where "ERR_SHELL_SPAWN = 3"
definition ERR_PTY_BUSY :: u16 where "ERR_PTY_BUSY = 4"
definition ERR_PTY_SPAWN :: u16 where "ERR_PTY_SPAWN = 5"

definition FORMAT_TEXT_UTF8 :: u8 where "FORMAT_TEXT_UTF8 = 0"
definition FORMAT_PNG_IMAGE :: u8 where "FORMAT_PNG_IMAGE = 1"
definition FORMAT_FILE :: u8 where "FORMAT_FILE = 2"

lemmas protocol_consts =
  VERSION_def HOST_PROTO_VERSION_def ERR_VERSION_def ERR_SHELL_BUSY_def ERR_SHELL_SPAWN_def
  ERR_PTY_BUSY_def ERR_PTY_SPAWN_def FORMAT_TEXT_UTF8_def FORMAT_PNG_IMAGE_def FORMAT_FILE_def

section \<open>Message types\<close>

datatype message_type =
    MT_Hello | MT_HelloAck
  | MT_MouseMove | MT_MouseButton | MT_MouseScroll | MT_KeyDown | MT_KeyUp
  | MT_ClipOffer | MT_ClipChunk | MT_ClipAck | MT_ClipDecline
  | MT_Heartbeat | MT_Error | MT_Disconnect
  | MT_ShellOpen | MT_ShellInput | MT_ShellOutput | MT_ShellClose | MT_ShellExit
  | MT_ShellOpenPty | MT_PtyResize | MT_ShellClosed
  | MT_PtyOpen | MT_PtyInput | MT_PtyOutput | MT_PtyClose | MT_PtyExit
  | MT_RxProgress | MT_Browser

text \<open>\<open>msg_type as u8\<close>.\<close>

fun type_code :: "message_type \<Rightarrow> u8" where
  "type_code MT_Hello = 0x01"
| "type_code MT_HelloAck = 0x02"
| "type_code MT_MouseMove = 0x10"
| "type_code MT_MouseButton = 0x11"
| "type_code MT_MouseScroll = 0x12"
| "type_code MT_KeyDown = 0x13"
| "type_code MT_KeyUp = 0x14"
| "type_code MT_ClipOffer = 0x20"
| "type_code MT_ClipChunk = 0x21"
| "type_code MT_ClipAck = 0x22"
| "type_code MT_ClipDecline = 0x23"
| "type_code MT_Heartbeat = 0x30"
| "type_code MT_Error = 0x31"
| "type_code MT_Disconnect = 0x32"
| "type_code MT_ShellOpen = 0x40"
| "type_code MT_ShellInput = 0x41"
| "type_code MT_ShellOutput = 0x42"
| "type_code MT_ShellClose = 0x43"
| "type_code MT_ShellExit = 0x44"
| "type_code MT_ShellOpenPty = 0x45"
| "type_code MT_PtyResize = 0x46"
| "type_code MT_ShellClosed = 0x47"
| "type_code MT_PtyOpen = 0x48"
| "type_code MT_PtyInput = 0x49"
| "type_code MT_PtyOutput = 0x4A"
| "type_code MT_PtyClose = 0x4B"
| "type_code MT_PtyExit = 0x4C"
| "type_code MT_RxProgress = 0x4D"
| "type_code MT_Browser = 0x50"

definition type_try_from :: "u8 \<Rightarrow> werror + message_type" where
  "type_try_from v =
     (if v = 0x01 then Inr MT_Hello
      else if v = 0x02 then Inr MT_HelloAck
      else if v = 0x10 then Inr MT_MouseMove
      else if v = 0x11 then Inr MT_MouseButton
      else if v = 0x12 then Inr MT_MouseScroll
      else if v = 0x13 then Inr MT_KeyDown
      else if v = 0x14 then Inr MT_KeyUp
      else if v = 0x20 then Inr MT_ClipOffer
      else if v = 0x21 then Inr MT_ClipChunk
      else if v = 0x22 then Inr MT_ClipAck
      else if v = 0x23 then Inr MT_ClipDecline
      else if v = 0x30 then Inr MT_Heartbeat
      else if v = 0x31 then Inr MT_Error
      else if v = 0x32 then Inr MT_Disconnect
      else if v = 0x40 then Inr MT_ShellOpen
      else if v = 0x41 then Inr MT_ShellInput
      else if v = 0x42 then Inr MT_ShellOutput
      else if v = 0x43 then Inr MT_ShellClose
      else if v = 0x44 then Inr MT_ShellExit
      else if v = 0x45 then Inr MT_ShellOpenPty
      else if v = 0x46 then Inr MT_PtyResize
      else if v = 0x47 then Inr MT_ShellClosed
      else if v = 0x48 then Inr MT_PtyOpen
      else if v = 0x49 then Inr MT_PtyInput
      else if v = 0x4A then Inr MT_PtyOutput
      else if v = 0x4B then Inr MT_PtyClose
      else if v = 0x4C then Inr MT_PtyExit
      else if v = 0x4D then Inr MT_RxProgress
      else if v = 0x50 then Inr MT_Browser
      else Inl (Protocol (UnknownMessageType v)))"

lemma type_code_roundtrip: "type_try_from (type_code t) = Inr t"
  by (cases t) (simp_all add: type_try_from_def)

lemma type_try_from_sound: "type_try_from v = Inr t \<Longrightarrow> type_code t = v"
  by (auto simp: type_try_from_def split: if_splits)

section \<open>Messages\<close>

datatype message =
    Hello u8 rstring \<comment> \<open>version, client name\<close>
  | HelloAck u8 rstring u16 u16 \<comment> \<open>version, host name, screen width and height\<close>
  | MouseMove u16 u16
  | MouseButton u8 bool
  | MouseScroll i16 i16
  | KeyDown u16 u8 \<comment> \<open>scancode, modifiers\<close>
  | KeyUp u16 u8
  | ClipOffer u8 u32 \<comment> \<open>format, total length\<close>
  | ClipChunk u16 bytes
  | ClipAck u16
  | ClipDecline u8
  | Heartbeat
  | Error u16 rstring
  | Disconnect
  | ShellOpen rstring
  | ShellInput bytes
  | ShellOutput bytes
  | ShellClose
  | ShellClosed
  | ShellExit i32
  | ShellOpenPty rstring u16 u16 \<comment> \<open>shell, columns, rows\<close>
  | PtyResize u16 u16
  | PtyOpen rstring u16 u16
  | PtyInput bytes
  | PtyOutput bytes
  | PtyClose
  | PtyExit i32
  | RxProgress u64
  | Browser u32 u8 u64 bytes \<comment> \<open>stream, kind, offset, data\<close>

fun msg_type :: "message \<Rightarrow> message_type" where
  "msg_type (Hello v n) = MT_Hello"
| "msg_type (HelloAck v n w h) = MT_HelloAck"
| "msg_type (MouseMove x y) = MT_MouseMove"
| "msg_type (MouseButton b p) = MT_MouseButton"
| "msg_type (MouseScroll x y) = MT_MouseScroll"
| "msg_type (KeyDown s m) = MT_KeyDown"
| "msg_type (KeyUp s m) = MT_KeyUp"
| "msg_type (ClipOffer f t) = MT_ClipOffer"
| "msg_type (ClipChunk i d) = MT_ClipChunk"
| "msg_type (ClipAck i) = MT_ClipAck"
| "msg_type (ClipDecline f) = MT_ClipDecline"
| "msg_type Heartbeat = MT_Heartbeat"
| "msg_type (Error c m) = MT_Error"
| "msg_type Disconnect = MT_Disconnect"
| "msg_type (ShellOpen s) = MT_ShellOpen"
| "msg_type (ShellInput d) = MT_ShellInput"
| "msg_type (ShellOutput d) = MT_ShellOutput"
| "msg_type ShellClose = MT_ShellClose"
| "msg_type ShellClosed = MT_ShellClosed"
| "msg_type (ShellExit c) = MT_ShellExit"
| "msg_type (ShellOpenPty s c r) = MT_ShellOpenPty"
| "msg_type (PtyResize c r) = MT_PtyResize"
| "msg_type (PtyOpen s c r) = MT_PtyOpen"
| "msg_type (PtyInput d) = MT_PtyInput"
| "msg_type (PtyOutput d) = MT_PtyOutput"
| "msg_type PtyClose = MT_PtyClose"
| "msg_type (PtyExit c) = MT_PtyExit"
| "msg_type (RxProgress b) = MT_RxProgress"
| "msg_type (Browser s k off d) = MT_Browser"

definition needs_ack :: "message \<Rightarrow> bool" where
  "needs_ack m = (case m of ClipOffer f t \<Rightarrow> True | ClipChunk i d \<Rightarrow> True | _ \<Rightarrow> False)"

section \<open>Payloads\<close>

text \<open>\<open>write_string\<close> cuts the bytes at \<open>max_len\<close>, wherever that falls in a character.\<close>

definition write_string :: "rstring \<Rightarrow> nat \<Rightarrow> bytes" where
  "write_string s max_len =
     (let len = min (min (length s) max_len) 255 in of_nat len # take len s)"

definition read_string_with_rest :: "bytes \<Rightarrow> werror + (rstring \<times> bytes)" where
  "read_string_with_rest data =
     (if data = [] then Inl (Protocol MissingStringLength)
      else let len = unat (data ! 0) in
        if length data < 1 + len then Inl (Protocol StringTruncated)
        else let s = subslice data 1 (1 + len) in
          if utf8_valid s then Inr (s, drop (1 + len) data)
          else Inl (Protocol InvalidUtf8))"

definition read_string :: "bytes \<Rightarrow> werror + rstring" where
  "read_string data =
     (if data = [] then Inl (Protocol MissingStringLength)
      else let len = unat (data ! 0) in
        if length data < 1 + len then Inl (Protocol StringTruncated)
        else let s = subslice data 1 (1 + len) in
          if utf8_valid s then Inr s else Inl (Protocol InvalidUtf8))"

fun serialize :: "message \<Rightarrow> bytes" where
  "serialize (Hello version client_name) = version # write_string client_name 32"
| "serialize (HelloAck version host_name screen_w screen_h) =
     version # write_string host_name 32 @ to_le 2 screen_w @ to_le 2 screen_h"
| "serialize (MouseMove x y) = to_le 2 x @ to_le 2 y"
| "serialize (MouseButton button pressed) = [button, (if pressed then 1 else 0)]"
| "serialize (MouseScroll delta_x delta_y) = to_le 2 delta_x @ to_le 2 delta_y"
| "serialize (KeyDown scancode modifiers) = to_le 2 scancode @ [modifiers]"
| "serialize (KeyUp scancode modifiers) = to_le 2 scancode @ [modifiers]"
| "serialize (ClipOffer format total_len) = format # to_le 4 total_len"
| "serialize (ClipChunk index data) = to_le 2 index @ data"
| "serialize (ClipAck index) = to_le 2 index"
| "serialize (ClipDecline format) = [format]"
| "serialize Heartbeat = []"
| "serialize Disconnect = []"
| "serialize ShellClose = []"
| "serialize ShellClosed = []"
| "serialize PtyClose = []"
| "serialize (Error code msg) = to_le 2 code @ write_string msg 256"
| "serialize (ShellOpen shell) = write_string shell 32"
| "serialize (ShellInput data) = data"
| "serialize (ShellOutput data) = data"
| "serialize (PtyInput data) = data"
| "serialize (PtyOutput data) = data"
| "serialize (ShellExit code) = to_le 4 code"
| "serialize (PtyExit code) = to_le 4 code"
| "serialize (ShellOpenPty shell cols rows) = to_le 2 cols @ to_le 2 rows @ write_string shell 32"
| "serialize (PtyOpen shell cols rows) = to_le 2 cols @ to_le 2 rows @ write_string shell 32"
| "serialize (PtyResize cols rows) = to_le 2 cols @ to_le 2 rows"
| "serialize (RxProgress n) = to_le 8 n"
| "serialize (Browser stream kind offset data) =
     to_le 4 stream @ kind # to_le 8 offset @ data"

definition ensure_min_len :: "bytes \<Rightarrow> nat \<Rightarrow> (unit \<Rightarrow> werror + 'a) \<Rightarrow> werror + 'a" where
  "ensure_min_len data min_len k =
     (if length data < min_len then Inl (Protocol (PayloadTooShort (length data) min_len)) else k ())"

text \<open>The field conditions of a browser frame.\<close>

definition browser_frame_ok :: "u32 \<Rightarrow> u8 \<Rightarrow> u64 \<Rightarrow> bytes \<Rightarrow> bool" where
  "browser_frame_ok stream kind offset data =
     (\<not> (\<not> (1 \<le> kind \<and> kind \<le> 8)
        \<or> (kind \<noteq> 3 \<and> data \<noteq> [])
        \<or> (kind = 3 \<and> data = [])
        \<or> (stream = 0 \<and> (kind \<noteq> 6 \<or> offset \<noteq> 0))
        \<or> (kind \<in> {1, 2, 6, 8} \<and> offset \<noteq> 0)))"

fun deserialize :: "message_type \<Rightarrow> bytes \<Rightarrow> werror + message" where
  "deserialize MT_Hello payload =
     ensure_min_len payload (1 + 1) (\<lambda>_.
       and_then (read_string (drop 1 payload)) (\<lambda>client_name.
         Inr (Hello (payload ! 0) client_name)))"
| "deserialize MT_HelloAck payload =
     ensure_min_len payload (1 + 1 + 4) (\<lambda>_.
       and_then (read_string_with_rest (drop 1 payload)) (\<lambda>(host_name, rest).
         ensure_min_len rest 4 (\<lambda>_.
           Inr (HelloAck (payload ! 0) host_name (u16_at rest 0) (u16_at rest 2)))))"
| "deserialize MT_MouseMove payload =
     ensure_min_len payload 4 (\<lambda>_. Inr (MouseMove (u16_at payload 0) (u16_at payload 2)))"
| "deserialize MT_MouseButton payload =
     ensure_min_len payload 2 (\<lambda>_. Inr (MouseButton (payload ! 0) (payload ! 1 \<noteq> 0)))"
| "deserialize MT_MouseScroll payload =
     ensure_min_len payload 4 (\<lambda>_. Inr (MouseScroll (u16_at payload 0) (u16_at payload 2)))"
| "deserialize MT_KeyDown payload =
     ensure_min_len payload 3 (\<lambda>_. Inr (KeyDown (u16_at payload 0) (payload ! 2)))"
| "deserialize MT_KeyUp payload =
     ensure_min_len payload 3 (\<lambda>_. Inr (KeyUp (u16_at payload 0) (payload ! 2)))"
| "deserialize MT_ClipOffer payload =
     ensure_min_len payload 5 (\<lambda>_. Inr (ClipOffer (payload ! 0) (u32_at payload 1)))"
| "deserialize MT_ClipChunk payload =
     ensure_min_len payload 2 (\<lambda>_. Inr (ClipChunk (u16_at payload 0) (drop 2 payload)))"
| "deserialize MT_ClipAck payload =
     ensure_min_len payload 2 (\<lambda>_. Inr (ClipAck (u16_at payload 0)))"
| "deserialize MT_ClipDecline payload =
     ensure_min_len payload 1 (\<lambda>_. Inr (ClipDecline (payload ! 0)))"
| "deserialize MT_Heartbeat payload = Inr Heartbeat"
| "deserialize MT_Disconnect payload = Inr Disconnect"
| "deserialize MT_Error payload =
     ensure_min_len payload (2 + 1) (\<lambda>_.
       and_then (read_string (drop 2 payload)) (\<lambda>msg. Inr (Error (u16_at payload 0) msg)))"
| "deserialize MT_ShellOpen payload =
     (if payload = [] then Inr (ShellOpen [])
      else and_then (read_string payload) (\<lambda>shell. Inr (ShellOpen shell)))"
| "deserialize MT_ShellInput payload = Inr (ShellInput payload)"
| "deserialize MT_ShellOutput payload = Inr (ShellOutput payload)"
| "deserialize MT_ShellClose payload = Inr ShellClose"
| "deserialize MT_ShellClosed payload = Inr ShellClosed"
| "deserialize MT_ShellExit payload =
     ensure_min_len payload 4 (\<lambda>_. Inr (ShellExit (u32_at payload 0)))"
| "deserialize MT_ShellOpenPty payload =
     ensure_min_len payload 4 (\<lambda>_.
       and_then (read_string (drop 4 payload)) (\<lambda>shell.
         Inr (ShellOpenPty shell (u16_at payload 0) (u16_at payload 2))))"
| "deserialize MT_PtyOpen payload =
     ensure_min_len payload 4 (\<lambda>_.
       and_then (read_string (drop 4 payload)) (\<lambda>shell.
         Inr (PtyOpen shell (u16_at payload 0) (u16_at payload 2))))"
| "deserialize MT_PtyInput payload = Inr (PtyInput payload)"
| "deserialize MT_PtyOutput payload = Inr (PtyOutput payload)"
| "deserialize MT_PtyClose payload = Inr PtyClose"
| "deserialize MT_PtyExit payload =
     ensure_min_len payload 4 (\<lambda>_. Inr (PtyExit (u32_at payload 0)))"
| "deserialize MT_PtyResize payload =
     (if length payload \<noteq> 4 then Inl (Protocol (PtyResizeLength (length payload)))
      else Inr (PtyResize (u16_at payload 0) (u16_at payload 2)))"
| "deserialize MT_RxProgress payload =
     ensure_min_len payload 8 (\<lambda>_. Inr (RxProgress (u64_at payload 0)))"
| "deserialize MT_Browser payload =
     ensure_min_len payload 13 (\<lambda>_.
       let stream = u32_at payload 0; kind = payload ! 4;
           offset = u64_at payload 5; data = drop 13 payload in
       if \<not> browser_frame_ok stream kind offset data then Inl (Protocol InvalidBrowserFrame)
       else Inr (Browser stream kind offset data))"

section \<open>Evaluation lemmas\<close>

lemma u16_at_Cons [wire_simps]:
  "u16_at (b # bs) (Suc i) = u16_at bs i"
  "u16_at (b # bs) 1 = u16_at bs 0"
  "u16_at (b # bs) (numeral k) = u16_at bs (pred_numeral k)"
  by (simp_all add: u16_at_def subslice_def numeral_eq_Suc)

lemma u32_at_Cons [wire_simps]:
  "u32_at (b # bs) (Suc i) = u32_at bs i"
  "u32_at (b # bs) 1 = u32_at bs 0"
  "u32_at (b # bs) (numeral k) = u32_at bs (pred_numeral k)"
  by (simp_all add: u32_at_def subslice_def numeral_eq_Suc)

lemma u64_at_Cons [wire_simps]:
  "u64_at (b # bs) (Suc i) = u64_at bs i"
  "u64_at (b # bs) (numeral k) = u64_at bs (pred_numeral k)"
  by (simp_all add: u64_at_def subslice_def numeral_eq_Suc)

lemma u16_at_skip [wire_simps]: "length xs \<le> i \<Longrightarrow> u16_at (xs @ bs) i = u16_at bs (i - length xs)"
  by (simp add: u16_at_def subslice_def)

lemma u64_at_skip [wire_simps]: "length xs \<le> i \<Longrightarrow> u64_at (xs @ bs) i = u64_at bs (i - length xs)"
  by (simp add: u64_at_def subslice_def)

lemma at_to_le [wire_simps]:
  "u16_at (to_le 2 w16 @ bs) 0 = w16"
  "u32_at (to_le 4 w32 @ bs) 0 = w32"
  "u64_at (to_le 8 w64 @ bs) 0 = w64"
  "u16_at (to_le 2 w16) 0 = w16"
  "u32_at (to_le 4 w32) 0 = w32"
  "u64_at (to_le 8 w64) 0 = w64"
  by (simp_all add: u16_at_def u32_at_def u64_at_def subslice_def)

lemma ensure_min_len_ok [wire_simps]: "n \<le> length data \<Longrightarrow> ensure_min_len data n k = k ()"
  by (simp add: ensure_min_len_def)

lemma ensure_min_len_Inr_iff:
  "ensure_min_len data n k = Inr m \<longleftrightarrow> n \<le> length data \<and> k () = Inr m"
  by (simp add: ensure_min_len_def)

section \<open>Strings on the wire\<close>

lemma unat_of_nat_u8: "n \<le> 255 \<Longrightarrow> unat (of_nat n :: u8) = n"
  unfolding unat_of_nat by simp

lemma length_write_string: "length (write_string s n) = Suc (min (min (length s) n) 255)"
  by (simp add: write_string_def Let_def)

lemma write_string_nonempty [simp]: "write_string s n \<noteq> []"
  by (simp add: write_string_def Let_def)

text \<open>What a peer reads back: the cut prefix if it is valid, else a protocol error.\<close>

lemma read_write_string_with_rest:
  "read_string_with_rest (write_string s n @ rest) =
     (let cut = take (min n 255) s in
      if utf8_valid cut then Inr (cut, rest) else Inl (Protocol InvalidUtf8))"
proof -
  define len where "len = min (min (length s) n) 255"
  have len: "len \<le> 255" "len \<le> length s" by (auto simp: len_def)
  have cut: "take len s = take (min n 255) s" by (auto simp: len_def min_def)
  show ?thesis
    using len unat_of_nat_u8 [OF len(1)]
    by (simp add: read_string_with_rest_def write_string_def Let_def subslice_def
        len_def [symmetric] cut [symmetric])
qed

lemma read_string_eq: "read_string data = and_then (read_string_with_rest data) (\<lambda>(s, _). Inr s)"
  by (simp add: read_string_def read_string_with_rest_def Let_def)

lemma read_write_string:
  "read_string (write_string s n) =
     (let cut = take (min n 255) s in if utf8_valid cut then Inr cut else Inl (Protocol InvalidUtf8))"
  using read_write_string_with_rest [of s n "[]"] by (simp add: read_string_eq Let_def)

lemma unat_u8_bound: "unat (b :: u8) \<le> 255"
proof -
  have "unat b < 2 ^ LENGTH(8)" by (rule unsigned_less)
  then show ?thesis by simp
qed

lemma read_string_with_rest_valid:
  "read_string_with_rest data = Inr (s, rest) \<Longrightarrow> utf8_valid s \<and> length s \<le> 255"
  using unat_u8_bound [of "data ! 0"]
  by (auto simp: read_string_with_rest_def Let_def subslice_def split: if_splits)

lemma read_string_valid: "read_string data = Inr s \<Longrightarrow> utf8_valid s \<and> length s \<le> 255"
  by (auto simp: read_string_eq and_then_Inr_iff dest: read_string_with_rest_valid)

section \<open>The round trip\<close>

definition fits :: "rstring \<Rightarrow> nat \<Rightarrow> bool" where
  "fits s n = (utf8_valid s \<and> length s \<le> n)"

text \<open>The messages the wire carries unchanged.\<close>

fun wf_message :: "message \<Rightarrow> bool" where
  "wf_message (Hello v n) = fits n 32"
| "wf_message (HelloAck v n w h) = fits n 32"
| "wf_message (Error c m) = fits m 255"
| "wf_message (ShellOpen s) = fits s 32"
| "wf_message (ShellOpenPty s c r) = fits s 32"
| "wf_message (PtyOpen s c r) = fits s 32"
| "wf_message (Browser s k off d) = browser_frame_ok s k off d"
| "wf_message m = True"

lemma read_write_fits:
  "fits s n \<Longrightarrow> n \<le> 255 \<Longrightarrow> read_string (write_string s n) = Inr s"
  "fits s 255 \<Longrightarrow> read_string (write_string s 256) = Inr s"
  "fits s n \<Longrightarrow> n \<le> 255 \<Longrightarrow> read_string_with_rest (write_string s n @ rest) = Inr (s, rest)"
  by (simp_all add: fits_def read_write_string read_write_string_with_rest min_def Let_def)

lemma deserialize_serialize: "wf_message m \<Longrightarrow> deserialize (msg_type m) (serialize m) = Inr m"
  by (cases m) (simp_all add: wire_simps read_write_fits length_write_string nth_append Let_def)

text \<open>A decoded message has the type it was tagged with, and only valid strings.\<close>

lemma deserialize_type: "deserialize t p = Inr m \<Longrightarrow> msg_type m = t"
  by (cases t) (auto simp: ensure_min_len_Inr_iff and_then_Inr_iff Let_def split: if_splits)

fun message_strings_valid :: "message \<Rightarrow> bool" where
  "message_strings_valid (Hello v n) = utf8_valid n"
| "message_strings_valid (HelloAck v n w h) = utf8_valid n"
| "message_strings_valid (Error c m) = utf8_valid m"
| "message_strings_valid (ShellOpen s) = utf8_valid s"
| "message_strings_valid (ShellOpenPty s c r) = utf8_valid s"
| "message_strings_valid (PtyOpen s c r) = utf8_valid s"
| "message_strings_valid (Browser s k off d) = browser_frame_ok s k off d"
| "message_strings_valid m = True"

lemma deserialize_valid: "deserialize t p = Inr m \<Longrightarrow> message_strings_valid m"
  by (cases t) (auto simp: ensure_min_len_Inr_iff and_then_Inr_iff Let_def split: if_splits
      dest: read_string_valid read_string_with_rest_valid)

end
