(* ===== verification/Cobs.thy ===== *)
theory Cobs
  imports Interfaces
begin

text \<open>
  \<open>crates/wiredesk-protocol/src/cobs.rs\<close>: Consistent Overhead Byte Stuffing. The
  encoder patches a placeholder byte in its output as it goes and the decoder walks an
  index; both are translated in that form and then related to a reference encoder on
  lists. The lemmas give the round trip, the zero-freeness of encodings, the length
  bound the frame readers rely on, and the rejection of every input with an inner zero.
\<close>

section \<open>The code\<close>

datatype decode_error = UnexpectedZero nat | Truncated

text \<open>The local variables of \<open>encode\<close>: the output, the placeholder's index, the code.\<close>

record cobs_enc =
  ce_out :: bytes
  ce_index :: nat
  ce_code :: u8

definition encode_byte :: "cobs_enc \<Rightarrow> u8 \<Rightarrow> cobs_enc" where
  "encode_byte s byte =
     (if byte = 0
      then s\<lparr>ce_out := (ce_out s)[ce_index s := ce_code s] @ [0],
             ce_code := 1,
             ce_index := length (ce_out s)\<rparr>
      else
        let out = ce_out s @ [byte]; code = ce_code s + 1 in
        if code = 0xFF
        then s\<lparr>ce_out := out[ce_index s := code] @ [0],
               ce_code := 1,
               ce_index := length out\<rparr>
        else s\<lparr>ce_out := out, ce_code := code\<rparr>)"

definition cobs_encode :: "bytes \<Rightarrow> bytes" where
  "cobs_encode data =
     (let s = foldl encode_byte \<lparr>ce_out = [0], ce_index = 0, ce_code = 1\<rparr> data
      in (ce_out s)[ce_index s := ce_code s] @ [0])"

text \<open>The inner \<open>for _ in 1..code\<close> loop of \<open>decode\<close>.\<close>

fun copy_run :: "bytes \<Rightarrow> nat \<Rightarrow> nat \<Rightarrow> bytes \<Rightarrow> decode_error + (nat \<times> bytes)" where
  "copy_run data 0 i out = Inr (i, out)"
| "copy_run data (Suc k) i out =
     (if i \<ge> length data then Inl Truncated
      else if data ! i = 0 then Inl (UnexpectedZero i)
      else copy_run data k (Suc i) (out @ [data ! i]))"

lemma copy_run_index: "copy_run data k i out = Inr (i', res) \<Longrightarrow> i' = i + k"
  by (induction data k i out rule: copy_run.induct) (auto split: if_splits)

function decode_loop :: "bytes \<Rightarrow> nat \<Rightarrow> bytes \<Rightarrow> decode_error + bytes" where
  "decode_loop data i out =
     (if i < length data then
        let code = unat (data ! i) in
        if code = 0 then Inl (UnexpectedZero i)
        else (case copy_run data (code - 1) (Suc i) out of
                Inl e \<Rightarrow> Inl e
              | Inr (i', res) \<Rightarrow>
                  decode_loop data i'
                    (if code < 0xFF \<and> i' < length data then res @ [0] else res))
      else Inr out)"
  by pat_completeness auto
termination
  by (relation "measure (\<lambda>(data, i, out). length data - i)") (auto dest!: copy_run_index)

declare decode_loop.simps [simp del]

definition cobs_decode :: "bytes \<Rightarrow> decode_error + bytes" where
  "cobs_decode data =
     (let data = (if data \<noteq> [] \<and> last data = 0 then butlast data else data)
      in if data = [] then Inr [] else decode_loop data 0 [])"

section \<open>A reference encoder\<close>

text \<open>
  \<open>enc_ref run data\<close>: the blocks still to be written when \<open>run\<close> is the zero-free run
  collected since the last code byte.
\<close>

fun enc_ref :: "bytes \<Rightarrow> bytes \<Rightarrow> bytes" where
  "enc_ref run [] = of_nat (length run + 1) # run"
| "enc_ref run (b # bs) =
     (if b = 0 then of_nat (length run + 1) # run @ enc_ref [] bs
      else if length run = 253 then 0xFF # run @ b # enc_ref [] bs
      else enc_ref (run @ [b]) bs)"

lemma enc_ref_nonempty [simp]: "enc_ref run bs \<noteq> []"
  by (induction run bs rule: enc_ref.induct) auto

lemma unat_code: "n < 255 \<Longrightarrow> unat (of_nat (n + 1) :: u8) = n + 1"
  unfolding unat_of_nat by simp

lemma of_nat_u8_eq_255: "n < 255 \<Longrightarrow> (of_nat (n + 1) :: u8) = 0xFF \<longleftrightarrow> n = 254"
proof
  assume n: "n < 255" and eq: "(of_nat (n + 1) :: u8) = 0xFF"
  then show "n = 254" using unat_code [OF n] unfolding eq by simp
qed simp

lemma code_nonzero: "n < 255 \<Longrightarrow> (of_nat (n + 1) :: u8) \<noteq> 0"
  using unat_code [of n] by (metis Suc_eq_plus1 nat.simps(3) unat_0)

lemma foldl_encode_byte:
  assumes "ce_out s = pre @ 0 # run" "ce_index s = length pre"
    and "ce_code s = of_nat (length run + 1)" "length run < 254"
  shows "(let t = foldl encode_byte s data in (ce_out t)[ce_index t := ce_code t])
       = pre @ enc_ref run data"
  using assms
proof (induction data arbitrary: s pre run)
  case Nil
  then show ?case by (simp add: list_update_append)
next
  case (Cons b bs)
  have code: "ce_code s + 1 = of_nat (length (run @ [b]) + 1)"
    using Cons.prems by simp
  have full: "ce_code s + 1 = 0xFF \<longleftrightarrow> length run = 253"
    using of_nat_u8_eq_255 [of "length run + 1"] Cons.prems by auto
  consider "b = 0" | "b \<noteq> 0" "length run = 253" | "b \<noteq> 0" "length run < 253"
    using Cons.prems by linarith
  then show ?case
  proof cases
    case 1
    then show ?thesis
      using Cons.IH [of "encode_byte s b" "pre @ of_nat (length run + 1) # run" "[]"] Cons.prems
      by (simp add: encode_byte_def list_update_append)
  next
    case 2
    then show ?thesis
      using Cons.IH [of "encode_byte s b" "pre @ 0xFF # run @ [b]" "[]"] Cons.prems full
      by (simp add: encode_byte_def list_update_append)
  next
    case 3
    then show ?thesis
      using Cons.IH [of "encode_byte s b" pre "run @ [b]"] Cons.prems full code
      by (simp add: encode_byte_def)
  qed
qed

lemma cobs_encode_ref: "cobs_encode data = enc_ref [] data @ [0]"
  using foldl_encode_byte [of "\<lparr>ce_out = [0], ce_index = 0, ce_code = 1\<rparr>" "[]" "[]" data]
  by (simp add: cobs_encode_def Let_def)

section \<open>Zero-freeness and length\<close>

lemma enc_ref_zero_free:
  "0 \<notin> set run \<Longrightarrow> length run < 254 \<Longrightarrow> 0 \<notin> set (enc_ref run bs)"
proof (induction run bs rule: enc_ref.induct)
  case (1 run)
  have "(of_nat (length run + 1) :: u8) \<noteq> 0"
    using 1 by (intro code_nonzero) simp
  then show ?case using 1 by simp
next
  case (2 run b bs)
  have "(of_nat (length run + 1) :: u8) \<noteq> 0"
    using 2 by (intro code_nonzero) simp
  then show ?case using 2 by auto
qed

lemma length_enc_ref:
  "length run < 254 \<Longrightarrow>
   length (enc_ref run bs) \<le> length run + length bs + (length run + length bs) div 254 + 1"
proof (induction run bs rule: enc_ref.induct)
  case (1 run)
  then show ?case by simp
next
  case (2 run b bs)
  consider "b = 0" | "b \<noteq> 0" "length run = 253" | "b \<noteq> 0" "length run \<noteq> 253" by blast
  then show ?case
  proof cases
    case 1
    then have "length (enc_ref [] bs) \<le> length bs + length bs div 254 + 1"
      using 2 by simp
    moreover have "length bs div 254 \<le> (length run + Suc (length bs)) div 254"
      by (rule div_le_mono) simp
    ultimately show ?thesis using 1 by simp
  next
    case full: 2
    then have "length (enc_ref [] bs) \<le> length bs + length bs div 254 + 1"
      using 2 by simp
    then show ?thesis using full by simp
  next
    case 3
    then show ?thesis using 2 by simp
  qed
qed

lemma cobs_encode_delim: "cobs_encode data = enc_ref [] data @ [0] \<and> 0 \<notin> set (enc_ref [] data)"
  by (simp add: cobs_encode_ref enc_ref_zero_free)

lemma length_cobs_encode: "length (cobs_encode data) \<le> length data + length data div 254 + 2"
  using length_enc_ref [of "[]" data] by (simp add: cobs_encode_ref)

section \<open>Decoding\<close>

lemma copy_run_append:
  "0 \<notin> set run \<Longrightarrow>
   copy_run (pre @ run @ post) (length run) (length pre) out
     = Inr (length pre + length run, out @ run)"
proof (induction run arbitrary: pre out)
  case Nil
  then show ?case by simp
next
  case (Cons b run)
  then show ?case using Cons.IH [of "pre @ [b]" "out @ [b]"] by (auto simp: nth_append)
qed

lemma decode_loop_block:
  assumes "0 \<notin> set run" "length run < 255"
  shows "decode_loop (pre @ of_nat (length run + 1) # run @ post) (length pre) out
       = decode_loop (pre @ of_nat (length run + 1) # run @ post) (length pre + length run + 1)
           (if length run < 254 \<and> post \<noteq> [] then out @ run @ [0] else out @ run)"
proof -
  have code: "unat (of_nat (length run + 1) :: u8) = length run + 1"
    using assms(2) by (rule unat_code)
  have copy: "copy_run (pre @ of_nat (length run + 1) # run @ post) (length run) (Suc (length pre))
      out = Inr (length pre + length run + 1, out @ run)"
    using copy_run_append [OF assms(1), of "pre @ [of_nat (length run + 1)]" post out] by simp
  show ?thesis
    by (subst decode_loop.simps) (use code copy in \<open>auto simp del: of_nat_add of_nat_Suc\<close>)
qed

lemma decode_loop_end: "length data \<le> i \<Longrightarrow> decode_loop data i out = Inr out"
  by (simp add: decode_loop.simps)

lemma decode_loop_enc_ref:
  "0 \<notin> set run \<Longrightarrow> length run < 254 \<Longrightarrow>
   decode_loop (pre @ enc_ref run bs) (length pre) out = Inr (out @ run @ bs)"
proof (induction run bs arbitrary: pre out rule: enc_ref.induct)
  case (1 run)
  then show ?case
    using decode_loop_block [of run pre "[]" out] by (simp add: decode_loop_end)
next
  case (2 run b bs)
  consider "b = 0" | "b \<noteq> 0" "length run = 253" | "b \<noteq> 0" "length run \<noteq> 253" by blast
  then show ?case
  proof cases
    case 1
    have "decode_loop (pre @ enc_ref run (b # bs)) (length pre) out
        = decode_loop ((pre @ of_nat (length run + 1) # run) @ enc_ref [] bs)
            (length (pre @ of_nat (length run + 1) # run)) (out @ run @ [0])"
      using decode_loop_block [of run pre "enc_ref [] bs" out] 1 "2.prems" by simp
    also have "\<dots> = Inr ((out @ run @ [0]) @ [] @ bs)"
      using 1 by (intro "2.IH"(1)) auto
    finally show ?thesis using 1 by simp
  next
    case full: 2
    have code: "(of_nat (length (run @ [b]) + 1) :: u8) = 0xFF" using full by simp
    have "decode_loop (pre @ enc_ref run (b # bs)) (length pre) out
        = decode_loop ((pre @ 0xFF # run @ [b]) @ enc_ref [] bs)
            (length (pre @ 0xFF # run @ [b])) (out @ run @ [b])"
      using decode_loop_block [of "run @ [b]" pre "enc_ref [] bs" out] full "2.prems"
      unfolding code by (simp add: add.commute)
    also have "\<dots> = Inr ((out @ run @ [b]) @ [] @ bs)"
      using full by (intro "2.IH"(2)) auto
    finally show ?thesis by simp
  next
    case 3
    then show ?thesis using "2.IH"(3) [of pre out] "2.prems" by simp
  qed
qed

lemma cobs_roundtrip: "cobs_decode (cobs_encode data) = Inr data"
  using decode_loop_enc_ref [of "[]" "[]" data "[]"]
  by (simp add: cobs_decode_def cobs_encode_ref butlast_append)

interpretation cobs: delimited_codec cobs_encode cobs_decode "\<lambda>_. True" 0
proof unfold_locales
  show "cobs_decode (cobs_encode x) = Inr x" for x by (rule cobs_roundtrip)
  show "\<exists>body. cobs_encode x = body @ [0] \<and> body \<noteq> [] \<and> 0 \<notin> set body" for x
    using cobs_encode_delim [of x] enc_ref_nonempty by blast
qed

section \<open>Rejection\<close>

lemma copy_run_ok:
  "copy_run data k i out = Inr (i', res) \<Longrightarrow>
   (\<forall>j. i \<le> j \<longrightarrow> j < i' \<longrightarrow> data ! j \<noteq> 0) \<and> i' \<le> max i (length data)
     \<and> length res = length out + k"
proof (induction data k i out rule: copy_run.induct)
  case (1 data i out)
  then show ?case by simp
next
  case (2 data k i out)
  then have step: "i < length data" "data ! i \<noteq> 0"
      "copy_run data k (Suc i) (out @ [data ! i]) = Inr (i', res)"
    by (auto split: if_splits)
  with 2 show ?case by (metis Suc_leI add_Suc_right add_Suc_shift le_eq_less_or_eq length_append_singleton max.absorb2 max_def not_less_eq_eq)
qed

lemma decode_loop_ok:
  "decode_loop data i out = Inr r \<Longrightarrow>
   (\<forall>j. i \<le> j \<longrightarrow> j < length data \<longrightarrow> data ! j \<noteq> 0)
     \<and> length r \<le> length out + (length data - i)"
proof (induction data i out rule: decode_loop.induct)
  case (1 data i out)
  show ?case
  proof (cases "i < length data")
    case False
    then show ?thesis using "1.prems" by (simp add: decode_loop.simps)
  next
    case True
    define code where "code = unat (data ! i)"
    obtain i' res where run: "code \<noteq> 0"
        "copy_run data (code - 1) (Suc i) out = Inr (i', res)"
      using "1.prems" True
      by (subst (asm) decode_loop.simps) (auto simp: code_def Let_def split: if_splits sum.splits)
    define out2 where "out2 = (if code < 0xFF \<and> i' < length data then res @ [0] else res)"
    have rec: "decode_loop data i' out2 = Inr r"
      using "1.prems" True run
      by (subst (asm) decode_loop.simps) (auto simp: code_def [symmetric] out2_def Let_def)
    have IH: "(\<forall>j. i' \<le> j \<longrightarrow> j < length data \<longrightarrow> data ! j \<noteq> 0)
        \<and> length r \<le> length out2 + (length data - i')"
      using "1.IH" [OF True refl _ _ refl] run rec by (simp add: code_def [symmetric] out2_def)
    have i': "i' = i + code" using copy_run_index [OF run(2)] run(1) by simp
    have nz: "data ! i \<noteq> 0" using run(1) by (auto simp: code_def)
    note ok = copy_run_ok [OF run(2)]
    have "data ! j \<noteq> 0" if "i \<le> j" "j < length data" for j
      using that nz ok IH by (cases "j = i"; cases "j < i'") auto
    moreover have "length r \<le> length out + (length data - i)"
      using IH ok i' run(1) True by (auto simp: out2_def split: if_splits)
    ultimately show ?thesis by blast
  qed
qed

text \<open>An input with a zero before its final delimiter never decodes.\<close>

lemma cobs_decode_inner_zero: "0 \<in> set data \<Longrightarrow> \<not> is_ok (cobs_decode (data @ [0]))"
  using decode_loop_ok [of data 0 "[]"]
  by (auto simp: cobs_decode_def is_ok_iff in_set_conv_nth)

lemma length_cobs_decode: "cobs_decode data = Inr r \<Longrightarrow> length r \<le> length data"
  using decode_loop_ok [of data 0 "[]" r] decode_loop_ok [of "butlast data" 0 "[]" r]
  by (auto simp: cobs_decode_def Let_def split: if_splits)

end
