(* ===== verification/Packet.thy ===== *)
theory Packet
  imports Message Cobs
begin

text \<open>
  \<open>crates/wiredesk-protocol/src/packet.rs\<close> and \<open>crc.rs\<close>: the packet header, its encoder
  and its decoder. The CRC-16 itself comes from the \<open>crc\<close> crate, so it is the parameter
  \<open>crc\<close> of every definition that uses it; the round trip needs nothing of it, and the
  rejection lemma says exactly when a damaged packet can still be accepted.
\<close>

section \<open>The code\<close>

definition MAGIC :: bytes where "MAGIC = [0x57, 0x44]"
definition HEADER_SIZE :: nat where "HEADER_SIZE = 8"
definition CRC_SIZE :: nat where "CRC_SIZE = 2"
definition MAX_PAYLOAD :: nat where "MAX_PAYLOAD = 4096"

lemmas packet_consts = MAGIC_def HEADER_SIZE_def CRC_SIZE_def MAX_PAYLOAD_def

text \<open>\<open>crc.rs\<close>: \<open>compute\<close> is the crate's checksum, \<open>verify\<close> compares against it.\<close>

definition crc_verify :: "(bytes \<Rightarrow> u16) \<Rightarrow> bytes \<Rightarrow> u16 \<Rightarrow> bool" where
  "crc_verify crc data expected = (crc data = expected)"

type_synonym packet_flags = u8

definition FLAGS_NONE :: packet_flags where "FLAGS_NONE = 0"
definition ACK_REQUIRED :: packet_flags where "ACK_REQUIRED = 0x01"

definition flags_from_message :: "message \<Rightarrow> packet_flags" where
  "flags_from_message msg = (if needs_ack msg then ACK_REQUIRED else FLAGS_NONE)"

record packet =
  p_type :: message_type
  p_flags :: packet_flags
  p_seq :: u16
  p_message :: message

definition packet_new :: "message \<Rightarrow> u16 \<Rightarrow> packet" where
  "packet_new message seq =
     \<lparr>p_type = msg_type message, p_flags = flags_from_message message,
      p_seq = seq, p_message = message\<rparr>"

definition to_bytes :: "(bytes \<Rightarrow> u16) \<Rightarrow> packet \<Rightarrow> werror + bytes" where
  "to_bytes crc p =
     (let payload = serialize (p_message p) in
      if length payload > MAX_PAYLOAD
      then Inl (Protocol (PayloadTooLarge (length payload) MAX_PAYLOAD))
      else
        let buf = MAGIC @ [type_code (p_type p), p_flags p]
                  @ to_le 2 (p_seq p) @ to_le 2 (of_nat (length payload) :: u16) @ payload
        in Inr (buf @ to_le 2 (crc buf)))"

definition from_bytes :: "(bytes \<Rightarrow> u16) \<Rightarrow> bytes \<Rightarrow> werror + packet" where
  "from_bytes crc data =
     (if length data < HEADER_SIZE + CRC_SIZE then Inl (Protocol (PacketTooShort (length data)))
      else if subslice data 0 2 \<noteq> MAGIC then Inl (Protocol (BadMagic (data ! 0) (data ! 1)))
      else and_then (type_try_from (data ! 2)) (\<lambda>ty.
        let flags = data ! 3;
            seq = u16_at data 4;
            payload_len = unat (u16_at data 6);
            expected_total = HEADER_SIZE + payload_len + CRC_SIZE
        in if length data < expected_total
           then Inl (Protocol (PacketTruncated (length data) expected_total))
           else
             let crc_offset = HEADER_SIZE + payload_len;
                 received_crc = u16_at data crc_offset;
                 computed_crc = crc (take crc_offset data)
             in if received_crc \<noteq> computed_crc
                then Inl (Protocol (CrcMismatch received_crc computed_crc))
                else and_then (deserialize ty (subslice data HEADER_SIZE (HEADER_SIZE + payload_len)))
                  (\<lambda>message. Inr \<lparr>p_type = ty, p_flags = flags, p_seq = seq, p_message = message\<rparr>)))"

section \<open>Round trip\<close>

text \<open>
  The packets a sender builds and the wire carries unchanged: the type is the message's,
  the strings fit, the payload is within the cap.
\<close>

definition wf_packet :: "packet \<Rightarrow> bool" where
  "wf_packet p =
     (p_type p = msg_type (p_message p) \<and> wf_message (p_message p)
      \<and> length (serialize (p_message p)) \<le> MAX_PAYLOAD)"

definition packet_bytes :: "(bytes \<Rightarrow> u16) \<Rightarrow> packet \<Rightarrow> bytes" where
  "packet_bytes crc p = (case to_bytes crc p of Inl e \<Rightarrow> [] | Inr bs \<Rightarrow> bs)"

lemma to_bytes_ok_iff:
  "is_ok (to_bytes crc p) \<longleftrightarrow> length (serialize (p_message p)) \<le> MAX_PAYLOAD"
  by (simp add: to_bytes_def Let_def)

lemma to_bytes_packet_bytes:
  "length (serialize (p_message p)) \<le> MAX_PAYLOAD \<Longrightarrow> to_bytes crc p = Inr (packet_bytes crc p)"
  by (simp add: packet_bytes_def to_bytes_def Let_def)

lemma length_packet_bytes:
  "length (serialize (p_message p)) \<le> MAX_PAYLOAD \<Longrightarrow>
   length (packet_bytes crc p) = length (serialize (p_message p)) + 10"
  by (simp add: packet_bytes_def to_bytes_def Let_def packet_consts)

lemma from_bytes_layout:
  assumes payload: "length payload < 2 ^ 16"
    and head: "buf = MAGIC @ [c, flags] @ to_le 2 seq @ to_le 2 (of_nat (length payload) :: u16)"
    and crc: "ck = crc (buf @ payload)"
  shows "from_bytes crc (buf @ payload @ to_le 2 ck @ trailing) =
     and_then (type_try_from c) (\<lambda>ty. and_then (deserialize ty payload)
       (\<lambda>m. Inr \<lparr>p_type = ty, p_flags = flags, p_seq = seq, p_message = m\<rparr>))"
proof -
  have len: "unat (of_nat (length payload) :: u16) = length payload"
    using payload unfolding unat_of_nat by simp
  have buf: "length buf = 8" by (simp add: head MAGIC_def)
  have at: "buf ! 2 = c" "buf ! 3 = flags" "u16_at (buf @ xs) 4 = seq"
    "u16_at (buf @ xs) 6 = of_nat (length payload)" "take 2 buf = MAGIC" for xs
    by (simp_all add: head MAGIC_def wire_simps)
  let ?data = "buf @ payload @ to_le 2 ck @ trailing"
  have "u16_at ?data (8 + length payload) = ck"
    using buf u16_at_skip [of "buf @ payload" "8 + length payload" "to_le 2 ck @ trailing"]
    by (simp add: wire_simps)
  moreover have "take (8 + length payload) ?data = buf @ payload"
    using buf by simp
  moreover have "subslice ?data 8 (8 + length payload) = payload"
    using buf by (simp add: subslice_def)
  moreover have "subslice ?data 0 2 = MAGIC"
    using buf at(5) by (simp add: subslice_def)
  ultimately show ?thesis
    using buf len at
    by (simp add: from_bytes_def Let_def HEADER_SIZE_def CRC_SIZE_def nth_append crc)
qed

lemma from_bytes_to_bytes:
  assumes "wf_packet p"
  shows "from_bytes crc (packet_bytes crc p @ trailing) = Inr p"
proof -
  have small: "length (serialize (p_message p)) \<le> 4096"
    using assms by (simp add: wf_packet_def MAX_PAYLOAD_def)
  show ?thesis
    using assms small
      from_bytes_layout [OF _ refl refl, of "serialize (p_message p)" crc "type_code (p_type p)"
        "p_flags p" "p_seq p" trailing]
    by (simp add: wf_packet_def packet_bytes_def to_bytes_def Let_def type_code_roundtrip
        deserialize_serialize MAX_PAYLOAD_def)
qed

interpretation packets: codec "packet_bytes crc" "from_bytes crc" wf_packet for crc
  using from_bytes_to_bytes [where trailing = "[]"] by unfold_locales simp

section \<open>What acceptance means\<close>

text \<open>An accepted packet has the magic, a known type, room for its payload, and its CRC.\<close>

lemma from_bytes_accepts:
  assumes "from_bytes crc data = Inr p"
  shows "take 2 data = MAGIC \<and> type_code (p_type p) = data ! 2
    \<and> msg_type (p_message p) = p_type p
    \<and> HEADER_SIZE + unat (u16_at data 6) + CRC_SIZE \<le> length data
    \<and> u16_at data (HEADER_SIZE + unat (u16_at data 6))
        = crc (take (HEADER_SIZE + unat (u16_at data 6)) data)
    \<and> message_strings_valid (p_message p)"
  using assms
  by (auto simp: from_bytes_def Let_def subslice_def and_then_Inr_iff split: if_splits
      dest: type_try_from_sound deserialize_type deserialize_valid)

text \<open>
  The bytes behind the declared length are not looked at: whatever follows a valid packet
  does not change the verdict.
\<close>

lemma from_bytes_ok_prefix:
  assumes "from_bytes crc data = Inr p"
  shows "from_bytes crc (data @ trailing) = Inr p"
proof -
  have len: "10 \<le> length data" "8 + unat (u16_at data 6) + 2 \<le> length data"
    using assms from_bytes_accepts [OF assms]
    by (auto simp: from_bytes_def packet_consts split: if_splits)
  have at: "u16_at (data @ trailing) i = u16_at data i" if "i + 2 \<le> length data" for i
    using that by (simp add: u16_at_def subslice_def)
  have nth: "(data @ trailing) ! i = data ! i" if "i < 10" for i
    using that len by (simp add: nth_append)
  show ?thesis
    using assms len
    by (simp add: from_bytes_def Let_def at nth packet_consts subslice_def cong: if_cong
        split: if_splits)
qed

end
