(* ===== verification/Framing.thy ===== *)
theory Framing
  imports Packet
begin

text \<open>
  \<open>crates/wiredesk-transport/src/framing.rs\<close>: the frame writer and the incremental frame
  reader of the stream transports. The lemmas say that the reader finds every frame,
  in order, however the stream is cut into reads, and from any state it may be in
  (garbage in front of a frame costs at most that garbage).
\<close>

section \<open>The code\<close>

definition MAX_FRAME_SIZE :: nat where "MAX_FRAME_SIZE = 8192"

definition encode_frame :: "(bytes \<Rightarrow> u16) \<Rightarrow> packet \<Rightarrow> werror + bytes" where
  "encode_frame crc p = and_then (to_bytes crc p) (\<lambda>raw. Inr (0x00 # cobs_encode raw))"

record frame_reader =
  fr_partial :: bytes
  fr_resyncing :: bool
  fr_ready :: "bytes list"
  fr_oversize :: u32

definition frame_reader_new :: frame_reader where
  "frame_reader_new = \<lparr>fr_partial = [], fr_resyncing = False, fr_ready = [], fr_oversize = 0\<rparr>"

text \<open>The body of the loop in \<open>feed\<close>.\<close>

definition feed_byte :: "frame_reader \<Rightarrow> u8 \<Rightarrow> frame_reader" where
  "feed_byte r b =
     (if fr_resyncing r then (if b = 0x00 then r\<lparr>fr_resyncing := False\<rparr> else r)
      else if b = 0x00 then
        (if fr_partial r \<noteq> []
         then r\<lparr>fr_ready := fr_ready r @ [fr_partial r @ [0x00]], fr_partial := []\<rparr>
         else r)
      else
        let r = r\<lparr>fr_partial := fr_partial r @ [b]\<rparr> in
        if length (fr_partial r) > MAX_FRAME_SIZE
        then r\<lparr>fr_partial := [], fr_resyncing := True, fr_oversize := fr_oversize r + 1\<rparr>
        else r)"

definition feed :: "frame_reader \<Rightarrow> bytes \<Rightarrow> frame_reader" where
  "feed r bs = foldl feed_byte r bs"

definition has_frame :: "frame_reader \<Rightarrow> bool" where
  "has_frame r = (fr_ready r \<noteq> [])"

definition partial_len :: "frame_reader \<Rightarrow> nat" where
  "partial_len r = length (fr_partial r)"

definition abandon_partial :: "frame_reader \<Rightarrow> frame_reader" where
  "abandon_partial r = r\<lparr>fr_partial := []\<rparr>"

definition cobs_error :: "decode_error \<Rightarrow> werror" where
  "cobs_error e = Protocol (case e of UnexpectedZero i \<Rightarrow> CobsUnexpectedZero i | Truncated \<Rightarrow> CobsTruncated)"

text \<open>COBS decoding and packet parsing of one delimited frame.\<close>

definition decode_frame :: "(bytes \<Rightarrow> u16) \<Rightarrow> bytes \<Rightarrow> werror + packet" where
  "decode_frame crc frame =
     (case cobs_decode frame of Inl e \<Rightarrow> Inl (cobs_error e) | Inr raw \<Rightarrow> from_bytes crc raw)"

definition next_packet ::
    "(bytes \<Rightarrow> u16) \<Rightarrow> frame_reader \<Rightarrow> (werror + packet option) \<times> frame_reader" where
  "next_packet crc r =
     (if fr_oversize r > 0
      then (Inl (Protocol (FrameTooLarge (unat (fr_oversize r)))), r\<lparr>fr_oversize := 0\<rparr>)
      else (case fr_ready r of
              [] \<Rightarrow> (Inr None, r)
            | frame # rest \<Rightarrow>
                (and_then (decode_frame crc frame) (\<lambda>p. Inr (Some p)), r\<lparr>fr_ready := rest\<rparr>)))"

section \<open>The reader's invariant\<close>

definition reader_inv :: "frame_reader \<Rightarrow> bool" where
  "reader_inv r \<longleftrightarrow>
     0 \<notin> set (fr_partial r) \<and> length (fr_partial r) \<le> MAX_FRAME_SIZE
     \<and> (fr_resyncing r \<longrightarrow> fr_partial r = [])
     \<and> (\<forall>f \<in> set (fr_ready r). \<exists>body. f = body @ [0] \<and> body \<noteq> [] \<and> 0 \<notin> set body
           \<and> length body \<le> MAX_FRAME_SIZE)"

lemma reader_inv_new [inv_intros]: "reader_inv frame_reader_new"
  by (simp add: reader_inv_def frame_reader_new_def)

lemma feed_byte_inv [inv_intros]: "reader_inv r \<Longrightarrow> reader_inv (feed_byte r b)"
  by (auto simp: reader_inv_def feed_byte_def Let_def)

lemma abandon_partial_inv [inv_intros]: "reader_inv r \<Longrightarrow> reader_inv (abandon_partial r)"
  by (simp add: reader_inv_def abandon_partial_def)

lemma next_packet_inv [inv_intros]: "reader_inv r \<Longrightarrow> reader_inv (snd (next_packet crc r))"
  by (auto simp: reader_inv_def next_packet_def split: list.splits)

datatype reader_event = Fed bytes | Polled | Abandoned

fun reader_step :: "(bytes \<Rightarrow> u16) \<Rightarrow> frame_reader \<Rightarrow> reader_event \<Rightarrow> frame_reader" where
  "reader_step crc r (Fed bs) = feed r bs"
| "reader_step crc r Polled = snd (next_packet crc r)"
| "reader_step crc r Abandoned = abandon_partial r"

interpretation feedm: inv_machine feed_byte reader_inv "\<lambda>_. True"
  by unfold_locales (rule feed_byte_inv)

lemma feed_inv [inv_intros]: "reader_inv r \<Longrightarrow> reader_inv (feed r bs)"
  using feedm.run_inv [of r bs] by (simp add: feed_def list_all_iff)

interpretation readerm: init_machine "reader_step crc" reader_inv "\<lambda>_. True" frame_reader_new for crc
proof unfold_locales
  show "reader_inv (reader_step crc r e)" if "reader_inv r" for r e
    using that by (cases e) (simp_all add: inv_intros)
qed (rule reader_inv_new)

section \<open>Feeding\<close>

lemma feed_append: "feed r (a @ b) = feed (feed r a) b"
  by (simp add: feed_def)

lemma feed_concat: "foldl feed r cs = feed r (concat cs)"
  by (induction cs arbitrary: r) (simp_all add: feed_append, simp add: feed_def)

lemma feed_Nil [simp]: "feed r [] = r"
  by (simp add: feed_def)

lemma feed_Cons: "feed r (b # bs) = feed (feed_byte r b) bs"
  by (simp add: feed_def)

text \<open>A zero-free body that fits is collected, and the delimiter turns it into a frame.\<close>

lemma feed_body:
  assumes "\<not> fr_resyncing r" "0 \<notin> set body" "length (fr_partial r) + length body \<le> MAX_FRAME_SIZE"
  shows "feed r body = r\<lparr>fr_partial := fr_partial r @ body\<rparr>"
  using assms
proof (induction body arbitrary: r)
  case (Cons b body)
  then have "feed_byte r b = r\<lparr>fr_partial := fr_partial r @ [b]\<rparr>"
    by (simp add: feed_byte_def)
  then show ?case using Cons by (simp add: feed_Cons)
qed simp

definition fits_frame :: "bytes \<Rightarrow> bool" where
  "fits_frame body \<longleftrightarrow> body \<noteq> [] \<and> 0 \<notin> set body \<and> length body \<le> MAX_FRAME_SIZE"

text \<open>
  The state after the leading delimiter: whatever was being collected or skipped is over,
  and at most one frame of garbage was queued.
\<close>

lemma feed_zero:
  "\<exists>junk. feed_byte r 0 =
     r\<lparr>fr_partial := if fr_resyncing r then fr_partial r else [],
       fr_resyncing := False, fr_ready := fr_ready r @ junk\<rparr>
   \<and> length junk \<le> 1 \<and> (fr_partial r = [] \<longrightarrow> junk = [])"
proof (cases "fr_resyncing r \<or> fr_partial r = []")
  case True
  then show ?thesis by (intro exI [of _ "[]"]) (auto simp: feed_byte_def)
next
  case False
  then show ?thesis
    by (intro exI [of _ "[fr_partial r @ [0]]"]) (auto simp: feed_byte_def)
qed

lemma feed_delimited:
  assumes inv: "reader_inv r" and body: "fits_frame body"
  shows "\<exists>junk. feed r (0 # body @ [0]) =
      r\<lparr>fr_partial := [], fr_resyncing := False, fr_ready := fr_ready r @ junk @ [body @ [0]]\<rparr>
    \<and> length junk \<le> 1 \<and> (fr_partial r = [] \<longrightarrow> junk = [])"
proof -
  obtain junk where z: "feed_byte r 0 =
      r\<lparr>fr_partial := if fr_resyncing r then fr_partial r else [],
        fr_resyncing := False, fr_ready := fr_ready r @ junk\<rparr>"
    "length junk \<le> 1" "fr_partial r = [] \<longrightarrow> junk = []"
    using feed_zero by blast
  then have z': "feed_byte r 0 =
      r\<lparr>fr_partial := [], fr_resyncing := False, fr_ready := fr_ready r @ junk\<rparr>"
    using inv by (auto simp: reader_inv_def)
  let ?r = "feed_byte r 0"
  have "feed ?r body = ?r\<lparr>fr_partial := body\<rparr>"
    using feed_body [of ?r body] body unfolding z' by (simp add: fits_frame_def)
  then have "feed r (0 # body @ [0]) = feed_byte (?r\<lparr>fr_partial := body\<rparr>) 0"
    by (simp add: feed_Cons feed_append)
  also have "\<dots> = r\<lparr>fr_partial := [], fr_resyncing := False,
      fr_ready := fr_ready r @ junk @ [body @ [0]]\<rparr>"
    using body unfolding z' by (simp add: feed_byte_def fits_frame_def)
  finally show ?thesis using z by blast
qed

section \<open>Packets through the stream\<close>

text \<open>Every well-formed packet's encoding fits the reader's frame limit.\<close>

definition frame_body :: "(bytes \<Rightarrow> u16) \<Rightarrow> packet \<Rightarrow> bytes" where
  "frame_body crc p = butlast (cobs_encode (packet_bytes crc p))"

lemma encode_frame_body:
  assumes "length (serialize (p_message p)) \<le> MAX_PAYLOAD"
  shows "encode_frame crc p = Inr (0 # frame_body crc p @ [0])"
  using assms cobs.enc_butlast(1) [of "packet_bytes crc p"]
  by (simp add: encode_frame_def to_bytes_packet_bytes frame_body_def)

lemma frame_body_fits:
  assumes "length (serialize (p_message p)) \<le> MAX_PAYLOAD"
  shows "fits_frame (frame_body crc p)"
proof -
  have raw: "length (packet_bytes crc p) \<le> 4106"
    using assms length_packet_bytes [OF assms] by (simp add: MAX_PAYLOAD_def)
  have "length (cobs_encode (packet_bytes crc p))
      \<le> length (packet_bytes crc p) + length (packet_bytes crc p) div 254 + 2"
    by (rule length_cobs_encode)
  also have "\<dots> \<le> 4106 + 4106 div 254 + 2"
    using raw by (intro add_mono div_le_mono) auto
  finally show ?thesis
    using cobs.enc_butlast(2,3) [of "packet_bytes crc p"]
    by (simp add: fits_frame_def frame_body_def MAX_FRAME_SIZE_def)
qed

lemma decode_frame_body:
  assumes "wf_packet p"
  shows "decode_frame crc (frame_body crc p @ [0]) = Inr p"
  using assms cobs.enc_butlast(1) [of "packet_bytes crc p"] packets.dec_enc [of p crc]
    cobs_roundtrip [of "packet_bytes crc p"]
  by (simp add: decode_frame_def frame_body_def)

text \<open>\<open>encode_frame\<close> of a whole sequence of packets.\<close>

definition frame_bytes :: "(bytes \<Rightarrow> u16) \<Rightarrow> packet \<Rightarrow> bytes" where
  "frame_bytes crc p = (case encode_frame crc p of Inl e \<Rightarrow> [] | Inr bs \<Rightarrow> bs)"

lemma frame_bytes_eq:
  "length (serialize (p_message p)) \<le> MAX_PAYLOAD \<Longrightarrow>
   frame_bytes crc p = 0 # frame_body crc p @ [0]"
  by (simp add: frame_bytes_def encode_frame_body)

lemma feed_frames:
  assumes "reader_inv r" "\<forall>p \<in> set ps. length (serialize (p_message p)) \<le> MAX_PAYLOAD"
  shows "\<exists>junk. fr_ready (feed r (concat (map (frame_bytes crc) ps)))
        = fr_ready r @ junk @ map (\<lambda>p. frame_body crc p @ [0]) ps
      \<and> fr_oversize (feed r (concat (map (frame_bytes crc) ps))) = fr_oversize r
      \<and> length junk \<le> 1 \<and> (fr_partial r = [] \<longrightarrow> junk = [])"
  using assms
proof (induction ps arbitrary: r)
  case Nil
  then show ?case by simp
next
  case (Cons p ps)
  have len: "length (serialize (p_message p)) \<le> MAX_PAYLOAD" using Cons.prems by simp
  obtain junk where one: "feed r (frame_bytes crc p) =
      r\<lparr>fr_partial := [], fr_resyncing := False,
        fr_ready := fr_ready r @ junk @ [frame_body crc p @ [0]]\<rparr>"
      "length junk \<le> 1" "fr_partial r = [] \<longrightarrow> junk = []"
    using feed_delimited [OF Cons.prems(1) frame_body_fits [OF len, of crc]] len
    by (auto simp: frame_bytes_eq)
  have "reader_inv (feed r (frame_bytes crc p))"
    using Cons.prems by (simp add: inv_intros)
  from Cons.IH [OF this] Cons.prems one show ?case
    by (auto simp: feed_append)
qed

text \<open>Popping every ready frame.\<close>

fun drain :: "(bytes \<Rightarrow> u16) \<Rightarrow> nat \<Rightarrow> frame_reader \<Rightarrow> (werror + packet option) list" where
  "drain crc 0 r = []"
| "drain crc (Suc n) r = (let (res, r') = next_packet crc r in res # drain crc n r')"

lemma drain_ready:
  "fr_oversize r = 0 \<Longrightarrow> n \<le> length (fr_ready r) \<Longrightarrow>
   drain crc n r = map (\<lambda>f. and_then (decode_frame crc f) (\<lambda>p. Inr (Some p))) (take n (fr_ready r))"
proof (induction n arbitrary: r)
  case (Suc n)
  then obtain f fs where "fr_ready r = f # fs" by (cases "fr_ready r") auto
  then show ?case using Suc by (simp add: next_packet_def)
qed simp

text \<open>A fresh reader returns exactly the packets sent, in order, however the bytes arrive.\<close>

lemma stream_roundtrip:
  assumes wf: "\<forall>p \<in> set ps. wf_packet p"
    and cut: "concat reads = concat (map (frame_bytes crc) ps)"
  shows "drain crc (length ps) (foldl feed frame_reader_new reads) = map (\<lambda>p. Inr (Some p)) ps"
proof -
  let ?r = "feed frame_reader_new (concat (map (frame_bytes crc) ps))"
  have small: "\<forall>p \<in> set ps. length (serialize (p_message p)) \<le> MAX_PAYLOAD"
    using wf by (simp add: wf_packet_def)
  have ready: "fr_ready ?r = map (\<lambda>p. frame_body crc p @ [0]) ps" "fr_oversize ?r = 0"
    using feed_frames [OF reader_inv_new small, of crc] by (auto simp: frame_reader_new_def)
  then have "drain crc (length ps) ?r
      = map (\<lambda>f. and_then (decode_frame crc f) (\<lambda>p. Inr (Some p))) (fr_ready ?r)"
    using drain_ready [of ?r "length ps" crc] by simp
  also have "\<dots> = map (\<lambda>p. Inr (Some p)) ps"
    using wf by (simp add: ready decode_frame_body)
  finally show ?thesis by (simp add: feed_concat cut)
qed

end
