(* ===== verification/Storm.thy ===== *)
theory Storm
  imports Interfaces
begin

text \<open>
  \<open>crates/wiredesk-core/src/storm.rs\<close>: the counter of consecutive protocol errors, and the
  reconnect schedules of the three transports' supervisors
  (\<open>bluetooth/reconnect.rs\<close>, \<open>session_thread.rs\<close>, \<open>link.rs\<close>). The lemmas say when the
  counter fires and bound and order the delays.
\<close>

section \<open>The storm counter\<close>

definition DEFAULT_STORM_THRESHOLD :: u32 where "DEFAULT_STORM_THRESHOLD = 10"

record storm_counter =
  sc_consecutive :: u32
  sc_threshold :: u32

definition storm_new :: "u32 \<Rightarrow> storm_counter" where
  "storm_new threshold = \<lparr>sc_consecutive = 0, sc_threshold = threshold\<rparr>"

text \<open>\<open>u32::saturating_add(1)\<close>.\<close>

definition saturating_inc :: "u32 \<Rightarrow> u32" where
  "saturating_inc n = (if n = 0xFFFFFFFF then n else n + 1)"

definition on_protocol_error :: "storm_counter \<Rightarrow> bool \<times> storm_counter" where
  "on_protocol_error s =
     (let s = s\<lparr>sc_consecutive := saturating_inc (sc_consecutive s)\<rparr>
      in (sc_consecutive s \<ge> sc_threshold s, s))"

definition on_valid_packet :: "storm_counter \<Rightarrow> storm_counter" where
  "on_valid_packet s = s\<lparr>sc_consecutive := 0\<rparr>"

text \<open>What the receive path reports: a decoded packet, a protocol error, or neither.\<close>

datatype rx_event = ValidPacket | ProtocolError | OtherEvent

fun storm_step :: "storm_counter \<Rightarrow> rx_event \<Rightarrow> storm_counter" where
  "storm_step s ValidPacket = on_valid_packet s"
| "storm_step s ProtocolError = snd (on_protocol_error s)"
| "storm_step s OtherEvent = s"

text \<open>Whether the last event of a run reported a storm.\<close>

definition storm_fires :: "storm_counter \<Rightarrow> rx_event list \<Rightarrow> bool" where
  "storm_fires s es = fst (on_protocol_error (foldl storm_step s es))"

text \<open>The abstract count: protocol errors since the last valid packet.\<close>

fun errors_since_valid :: "nat \<Rightarrow> rx_event list \<Rightarrow> nat" where
  "errors_since_valid n [] = n"
| "errors_since_valid n (ValidPacket # es) = errors_since_valid 0 es"
| "errors_since_valid n (ProtocolError # es) = errors_since_valid (Suc n) es"
| "errors_since_valid n (OtherEvent # es) = errors_since_valid n es"

lemma unat_saturating_inc: "unat (saturating_inc n) = min (Suc (unat n)) (2 ^ 32 - 1)"
proof (cases "n = 0xFFFFFFFF")
  case True
  then show ?thesis by (simp add: saturating_inc_def)
next
  case False
  have "unat n \<noteq> unat (0xFFFFFFFF :: u32)" using False by (simp add: word_unat_eq_iff)
  moreover have "unat n < 2 ^ LENGTH(32)" by (rule unsigned_less)
  ultimately have "unat n < 2 ^ 32 - 1" by simp
  then show ?thesis using False by (simp add: saturating_inc_def unat_word_ariths)
qed

lemma errors_since_valid_form:
  "(\<exists>m. \<forall>n. errors_since_valid n es = n + m) \<or> (\<exists>m. \<forall>n. errors_since_valid n es = m)"
proof (induction es)
  case (Cons e es)
  show ?case
  proof (cases e)
    case ProtocolError
    then show ?thesis using Cons by (metis add_Suc add_Suc_right errors_since_valid.simps(3))
  qed (use Cons in auto)
qed simp

lemma errors_since_valid_capped:
  "min (errors_since_valid (min a c) es) c = min (errors_since_valid a es) c"
  using errors_since_valid_form [of es] by auto

lemma storm_threshold_run: "sc_threshold (foldl storm_step s es) = sc_threshold s"
proof (induction es arbitrary: s)
  case (Cons e es)
  then show ?case
    by (cases e) (simp_all add: on_protocol_error_def on_valid_packet_def Let_def)
qed simp

lemma storm_count_run:
  "unat (sc_consecutive (foldl storm_step s es))
     = min (errors_since_valid (unat (sc_consecutive s)) es) (2 ^ 32 - 1)"
proof (induction es arbitrary: s)
  case Nil
  have "unat (sc_consecutive s) < 2 ^ LENGTH(32)" by (rule unsigned_less)
  then show ?case by simp
next
  case (Cons e es)
  show ?case
  proof (cases e)
    case ProtocolError
    then show ?thesis
      using Cons errors_since_valid_capped [of "Suc (unat (sc_consecutive s))" "2 ^ 32 - 1" es]
      by (simp add: on_protocol_error_def Let_def unat_saturating_inc)
  qed (use Cons in \<open>simp_all add: on_valid_packet_def\<close>)
qed

text \<open>The counter fires exactly when the errors in a row, this one included, reach the threshold.\<close>

lemma storm_fires_iff:
  assumes "sc_consecutive s = 0"
  shows "storm_fires s es \<longleftrightarrow> unat (sc_threshold s) \<le> Suc (errors_since_valid 0 es)"
proof -
  have t: "unat (sc_threshold s) \<le> 2 ^ 32 - 1"
  proof -
    have "unat (sc_threshold s) < 2 ^ LENGTH(32)" by (rule unsigned_less)
    then show ?thesis by simp
  qed
  have "storm_fires s es \<longleftrightarrow>
      sc_threshold s \<le> saturating_inc (sc_consecutive (foldl storm_step s es))"
    by (simp add: storm_fires_def on_protocol_error_def Let_def storm_threshold_run)
  also have "\<dots> \<longleftrightarrow> unat (sc_threshold s)
      \<le> min (Suc (min (errors_since_valid 0 es) (2 ^ 32 - 1))) (2 ^ 32 - 1)"
    using assms by (simp add: word_le_nat_alt unat_saturating_inc storm_count_run)
  also have "\<dots> \<longleftrightarrow> unat (sc_threshold s) \<le> Suc (errors_since_valid 0 es)"
    using t by auto
  finally show ?thesis .
qed

section \<open>Reconnect schedules, in seconds\<close>

text \<open>\<open>bluetooth/reconnect.rs\<close>: \<open>next_backoff\<close> and \<open>should_retry\<close>.\<close>

definition ble_next_backoff :: "u32 \<Rightarrow> nat" where
  "ble_next_backoff attempt =
     (if attempt = 0 then 0
      else if attempt = 1 then 2
      else if attempt = 2 then 4
      else if attempt = 3 then 8
      else if attempt = 4 then 16
      else 30)"

definition should_retry :: "u32 \<Rightarrow> u32 \<Rightarrow> bool" where
  "should_retry attempt max_attempts = (max_attempts = 0 \<or> attempt < max_attempts)"

text \<open>
  \<open>session_thread.rs\<close>: \<open>1u64.checked_shl(attempt)\<close> is \<open>None\<close> from 64 on.
\<close>

definition host_next_backoff :: "u32 \<Rightarrow> nat" where
  "host_next_backoff attempt =
     (let shl = (if unat attempt < 64 then Some (push_bit (unat attempt) (1 :: u64)) else None)
      in min (case shl of None \<Rightarrow> 30 | Some w \<Rightarrow> unat w) 30)"

text \<open>\<open>link.rs\<close>: \<open>backoff_delay\<close>.\<close>

definition backoff_delay :: "u32 \<Rightarrow> nat" where
  "backoff_delay attempt =
     (if attempt = 0 \<or> attempt = 1 then 1
      else if attempt = 2 then 2
      else if attempt = 3 then 4
      else if attempt = 4 then 8
      else if attempt = 5 then 16
      else 30)"

lemma host_next_backoff_eq: "host_next_backoff attempt = min (2 ^ unat attempt) 30"
proof (cases "unat attempt < 64")
  case True
  then have "(2 :: nat) ^ unat attempt < 2 ^ 64" by (intro power_strict_increasing) auto
  then have "unat (push_bit (unat attempt) (1 :: u64)) = 2 ^ unat attempt"
    unfolding unsigned_push_bit_eq
    by (simp add: take_bit_eq_mod push_bit_eq_mult)
  then show ?thesis using True by (simp add: host_next_backoff_def)
next
  case False
  then have "(2 :: nat) ^ 64 \<le> 2 ^ unat attempt" by (intro power_increasing) auto
  then show ?thesis using False by (simp add: host_next_backoff_def)
qed

lemma host_next_backoff_bounds: "1 \<le> host_next_backoff attempt \<and> host_next_backoff attempt \<le> 30"
  by (simp add: host_next_backoff_eq)

lemma host_next_backoff_mono: "a \<le> b \<Longrightarrow> host_next_backoff a \<le> host_next_backoff b"
  unfolding host_next_backoff_eq
  by (intro min.mono power_increasing) (simp_all add: word_le_nat_alt)

text \<open>The client's schedule is the host's, counted from 1.\<close>

lemma backoff_delay_host:
  assumes "attempt \<noteq> 0"
  shows "backoff_delay attempt = host_next_backoff (attempt - 1)"
proof -
  obtain k where k: "unat attempt = Suc k"
    using assms by (metis not0_implies_Suc unat_eq_zero)
  have pred: "unat (attempt - 1) = k"
    using k assms by (simp add: unat_minus_one)
  have eq: "attempt = n \<longleftrightarrow> unat attempt = unat n" for n
    by (simp add: word_unat_eq_iff)
  have "min (2 ^ k) 30 = (30 :: nat)" if "5 \<le> k"
  proof -
    have "(2 :: nat) ^ 5 \<le> 2 ^ k" using that by (intro power_increasing) auto
    then show ?thesis by simp
  qed
  moreover have "k = 0 \<or> k = 1 \<or> k = 2 \<or> k = 3 \<or> k = 4 \<or> 5 \<le> k" by arith
  ultimately show ?thesis
    unfolding host_next_backoff_eq pred backoff_delay_def eq k by auto
qed

interpretation stormm: inv_machine storm_step "\<lambda>s. sc_threshold s = t" "\<lambda>_. True" for t
proof unfold_locales
  show "sc_threshold (storm_step s e) = t" if "sc_threshold s = t" for s e
    using that storm_threshold_run [of s "[e]"] by simp
qed

end
