(* ===== verification/Serial.thy ===== *)
theory Serial
  imports Framing Storm
begin

text \<open>
  \<open>crates/wiredesk-transport/src/serial.rs\<close>: the frame loop of the serial transport over a
  scripted port. A port is the list of what its next \<open>read\<close> calls return; when the list
  is exhausted the line is silent and every further read times out. The lemmas give the
  delivery of a frame from a clean buffer, and the state the loop is left in after a frame
  that does not decode: its bytes stay in the buffer, so no later frame decodes until the
  buffer overflows, times out or the port is reopened.
\<close>

section \<open>The byte source\<close>

datatype io_error = IoTimedOut | IoOther string

datatype read_outcome = ReadOk bytes | ReadErr io_error

type_synonym port = "read_outcome list"

definition port_read :: "port \<Rightarrow> read_outcome \<times> port" where
  "port_read p = (case p of [] \<Rightarrow> (ReadErr IoTimedOut, []) | r # rs \<Rightarrow> (r, rs))"

text \<open>
  \<open>ByteSource\<close>: \<open>bs_rest\<close> is \<open>buf[pos..len]\<close>, the bytes read but not yet consumed; the
  rest of the block is never looked at.
\<close>

record serial =
  ss_port :: port
  bs_rest :: bytes
  ss_read_buf :: bytes
  ss_partial_timeouts :: nat

definition serial_new :: "port \<Rightarrow> serial" where
  "serial_new p = \<lparr>ss_port = p, bs_rest = [], ss_read_buf = [], ss_partial_timeouts = 0\<rparr>"

definition inbox_next :: "serial \<Rightarrow> (io_error + u8 option) \<times> serial" where
  "inbox_next s =
     (case bs_rest s of
        b # bs \<Rightarrow> (Inr (Some b), s\<lparr>bs_rest := bs\<rparr>)
      | [] \<Rightarrow>
          (case port_read (ss_port s) of
             (ReadErr e, p) \<Rightarrow> (Inl e, s\<lparr>ss_port := p\<rparr>)
           | (ReadOk [], p) \<Rightarrow> (Inr None, s\<lparr>ss_port := p\<rparr>)
           | (ReadOk (b # bs), p) \<Rightarrow> (Inr (Some b), s\<lparr>ss_port := p, bs_rest := bs\<rparr>)))"

text \<open>What is still to come: bytes buffered and reads scripted.\<close>

fun outcome_size :: "read_outcome \<Rightarrow> nat" where
  "outcome_size (ReadOk bs) = Suc (length bs)"
| "outcome_size (ReadErr e) = 1"

definition pending :: "serial \<Rightarrow> nat" where
  "pending s = length (bs_rest s) + sum_list (map outcome_size (ss_port s))"

lemma inbox_next_pending:
  "inbox_next s = (r, s') \<Longrightarrow>
   (pending s' < pending s \<or> (r = Inl IoTimedOut \<and> s' = s))
     \<and> ss_read_buf s' = ss_read_buf s \<and> ss_partial_timeouts s' = ss_partial_timeouts s"
  by (auto simp: inbox_next_def pending_def port_read_def
      split: list.splits read_outcome.splits)

section \<open>The frame loop\<close>

definition MAX_PARTIAL_TIMEOUTS :: nat where "MAX_PARTIAL_TIMEOUTS = 500"

text \<open>The inner loop after an oversize frame: skip to the next delimiter.\<close>

function skip_to_delimiter :: "serial \<Rightarrow> serial" where
  "skip_to_delimiter s =
     (case inbox_next s of
        (Inr (Some b), s') \<Rightarrow> if b = 0x00 then s' else skip_to_delimiter s'
      | (Inr None, s') \<Rightarrow> s'
      | (Inl e, s') \<Rightarrow> s')"
  by pat_completeness auto
termination
  by (relation "measure pending") (auto dest!: inbox_next_pending [OF sym])

declare skip_to_delimiter.simps [simp del]

definition recv_timeout :: werror where
  "recv_timeout = Transport ''recv timeout''"

definition recv_timeout_abandoned :: werror where
  "recv_timeout_abandoned = Transport ''recv timeout (partial frame abandoned)''"

text \<open>
  The outer loop up to its \<open>break\<close>: \<open>Inr ()\<close> when \<open>read_buf\<close> holds a delimited frame.
\<close>

function frame_loop :: "serial \<Rightarrow> (werror + unit) \<times> serial" where
  "frame_loop s =
     (case inbox_next s of
        (Inl (IoOther e), s') \<Rightarrow> (Inl (Transport (''serial read: '' @ e)), s')
      | (Inr (Some byte), s') \<Rightarrow>
          if byte = 0x00 then
            (if ss_read_buf s' = [] then frame_loop s'
             else (Inr (), s'\<lparr>ss_read_buf := ss_read_buf s' @ [0x00]\<rparr>))
          else
            let s1 = s'\<lparr>ss_read_buf := ss_read_buf s' @ [byte]\<rparr> in
            if length (ss_read_buf s1) > MAX_FRAME_SIZE
            then (Inl (Protocol (FrameTooLarge 1)), skip_to_delimiter (s1\<lparr>ss_read_buf := []\<rparr>))
            else frame_loop s1
      | (_, s') \<Rightarrow>
          if ss_read_buf s' = [] then (Inl recv_timeout, s')
          else
            let s1 = s'\<lparr>ss_partial_timeouts := ss_partial_timeouts s' + 1\<rparr> in
            if ss_partial_timeouts s1 > MAX_PARTIAL_TIMEOUTS
            then (Inl recv_timeout_abandoned, s1\<lparr>ss_read_buf := [], ss_partial_timeouts := 0\<rparr>)
            else frame_loop s1)"
  by pat_completeness auto
termination
  by (relation "measures [pending, \<lambda>s. Suc MAX_PARTIAL_TIMEOUTS - ss_partial_timeouts s]")
    (auto simp: pending_def dest!: inbox_next_pending [OF sym])

declare frame_loop.simps [simp del]

text \<open>\<open>read_frame\<close>: note that \<open>read_buf.clear()\<close> comes after the \<open>?\<close> of the COBS decoder.\<close>

definition read_frame :: "(bytes \<Rightarrow> u16) \<Rightarrow> serial \<Rightarrow> (werror + packet) \<times> serial" where
  "read_frame crc s =
     (case frame_loop s of
        (Inl e, s') \<Rightarrow> (Inl e, s')
      | (Inr u, s') \<Rightarrow>
          let s1 = s'\<lparr>ss_partial_timeouts := 0\<rparr> in
          (case cobs_decode (ss_read_buf s1) of
             Inl e \<Rightarrow> (Inl (cobs_error e), s1)
           | Inr raw \<Rightarrow> (from_bytes crc raw, s1\<lparr>ss_read_buf := []\<rparr>)))"

text \<open>\<open>SerialTransport::send\<close>: the bytes of its single write.\<close>

definition serial_send_bytes :: "(bytes \<Rightarrow> u16) \<Rightarrow> packet \<Rightarrow> werror + bytes" where
  "serial_send_bytes crc p = and_then (to_bytes crc p) (\<lambda>raw. Inr (0x00 # cobs_encode raw))"

lemma serial_send_is_encode_frame: "serial_send_bytes = encode_frame"
  by (intro ext) (simp add: serial_send_bytes_def encode_frame_def)

section \<open>Delivery from a clean buffer\<close>

text \<open>A port that keeps handing over bytes, in blocks of any size.\<close>

definition flowing :: "serial \<Rightarrow> bool" where
  "flowing s \<longleftrightarrow> (\<forall>r \<in> set (ss_port s). \<exists>b. r = ReadOk b \<and> b \<noteq> [])"

definition incoming :: "serial \<Rightarrow> bytes" where
  "incoming s = bs_rest s @ concat (map (\<lambda>r. case r of ReadOk b \<Rightarrow> b | ReadErr e \<Rightarrow> []) (ss_port s))"

lemma flowing_update [simp]:
  "flowing (s\<lparr>ss_read_buf := b\<rparr>) = flowing s" "flowing (s\<lparr>ss_partial_timeouts := n\<rparr>) = flowing s"
  by (simp_all add: flowing_def)

lemma incoming_update [simp]:
  "incoming (s\<lparr>ss_read_buf := b\<rparr>) = incoming s" "incoming (s\<lparr>ss_partial_timeouts := n\<rparr>) = incoming s"
  by (simp_all add: incoming_def)

lemma read_frame_complete:
  "frame_loop s = (Inr (), s1) \<Longrightarrow>
   read_frame crc s =
     (case cobs_decode (ss_read_buf s1) of
        Inl e \<Rightarrow> (Inl (cobs_error e), s1\<lparr>ss_partial_timeouts := 0\<rparr>)
      | Inr raw \<Rightarrow> (from_bytes crc raw, s1\<lparr>ss_partial_timeouts := 0, ss_read_buf := []\<rparr>))"
  by (simp add: read_frame_def Let_def)

lemma inbox_next_flowing:
  assumes "flowing s" "incoming s = b # rest"
  obtains s' where "inbox_next s = (Inr (Some b), s')" "flowing s'" "incoming s' = rest"
    "ss_read_buf s' = ss_read_buf s" "ss_partial_timeouts s' = ss_partial_timeouts s"
proof (cases "bs_rest s")
  case (Cons c cs)
  with assms show ?thesis
    by (intro that [of "s\<lparr>bs_rest := cs\<rparr>"]) (auto simp: inbox_next_def flowing_def incoming_def)
next
  case Nil
  then obtain blk rs where p: "ss_port s = ReadOk blk # rs" "blk \<noteq> []"
    using assms by (cases "ss_port s") (auto simp: flowing_def incoming_def)
  then have "blk = b # tl blk" using assms Nil by (cases blk) (auto simp: incoming_def)
  then show ?thesis
    using p assms Nil
    by (intro that [of "s\<lparr>ss_port := rs, bs_rest := tl blk\<rparr>"])
      (cases blk; auto simp: inbox_next_def port_read_def flowing_def incoming_def)+
qed

lemma frame_loop_body:
  assumes "flowing s" "incoming s = body @ 0 # rest" "0 \<notin> set body"
    and "ss_read_buf s @ body \<noteq> []" "length (ss_read_buf s @ body) \<le> MAX_FRAME_SIZE"
  shows "\<exists>s'. frame_loop s = (Inr (), s') \<and> flowing s' \<and> incoming s' = rest
    \<and> ss_read_buf s' = ss_read_buf s @ body @ [0]"
  using assms
proof (induction body arbitrary: s)
  case Nil
  then obtain s' where "inbox_next s = (Inr (Some 0), s')" "flowing s'" "incoming s' = rest"
      "ss_read_buf s' = ss_read_buf s"
    using inbox_next_flowing [of s 0 rest] by auto
  with Nil show ?case
    by (simp add: frame_loop.simps [of s])
next
  case (Cons b body)
  then obtain s' where n: "inbox_next s = (Inr (Some b), s')" "flowing s'"
      "incoming s' = body @ 0 # rest" "ss_read_buf s' = ss_read_buf s"
    using inbox_next_flowing [of s b "body @ 0 # rest"] by auto
  let ?s = "s'\<lparr>ss_read_buf := ss_read_buf s @ [b]\<rparr>"
  have "frame_loop s = frame_loop ?s"
    using n Cons.prems by (simp add: frame_loop.simps [of s])
  moreover have "flowing ?s" "incoming ?s = body @ 0 # rest"
    using n by simp_all
  ultimately show ?case
    using Cons.IH [of ?s] Cons.prems by simp
qed

lemma frame_loop_leading_zero:
  assumes "flowing s" "incoming s = 0 # rest" "ss_read_buf s = []"
  obtains s' where "frame_loop s = frame_loop s'" "flowing s'" "incoming s' = rest"
    "ss_read_buf s' = []"
proof -
  obtain s' where "inbox_next s = (Inr (Some 0), s')" "flowing s'" "incoming s' = rest"
      "ss_read_buf s' = ss_read_buf s"
    using inbox_next_flowing [OF assms(1,2)] by blast
  then show ?thesis
    using assms(3) by (intro that [of s']) (simp_all add: frame_loop.simps [of s])
qed

lemma read_frame_delivers:
  assumes "wf_packet p" "flowing s" "ss_read_buf s = []"
    and "incoming s = frame_bytes crc p @ rest"
  shows "\<exists>s'. read_frame crc s = (Inr p, s') \<and> flowing s' \<and> incoming s' = rest
    \<and> ss_read_buf s' = []"
proof -
  have small: "length (serialize (p_message p)) \<le> MAX_PAYLOAD"
    using assms(1) by (simp add: wf_packet_def)
  note body = frame_body_fits [OF small, of crc]
  have inc: "incoming s = 0 # frame_body crc p @ 0 # rest"
    using assms(4) by (simp add: frame_bytes_eq [OF small])
  obtain s1 where s1: "frame_loop s = frame_loop s1" "flowing s1"
      "incoming s1 = frame_body crc p @ 0 # rest" "ss_read_buf s1 = []"
    using frame_loop_leading_zero [OF assms(2) inc assms(3)] by blast
  obtain s2 where s2: "frame_loop s1 = (Inr (), s2)" "flowing s2" "incoming s2 = rest"
      "ss_read_buf s2 = frame_body crc p @ [0]"
    using frame_loop_body [OF s1(2,3)] s1(4) body by (auto simp: fits_frame_def)
  have "decode_frame crc (ss_read_buf s2) = Inr p"
    using decode_frame_body [OF assms(1), of crc] s2(4) by simp
  then obtain raw where "cobs_decode (ss_read_buf s2) = Inr raw" "from_bytes crc raw = Inr p"
    by (cases "cobs_decode (ss_read_buf s2)") (auto simp: decode_frame_def)
  then show ?thesis
    using s1(1) s2 by (simp add: read_frame_complete [of s s2])
qed

text \<open>A sequence of \<open>recv\<close> calls.\<close>

fun read_frames :: "(bytes \<Rightarrow> u16) \<Rightarrow> nat \<Rightarrow> serial \<Rightarrow> (werror + packet) list \<times> serial" where
  "read_frames crc 0 s = ([], s)"
| "read_frames crc (Suc n) s =
     (let (r, s1) = read_frame crc s; (rs, s2) = read_frames crc n s1 in (r # rs, s2))"

lemma read_frames_deliver:
  assumes "\<forall>p \<in> set ps. wf_packet p" "flowing s" "ss_read_buf s = []"
    and "incoming s = concat (map (frame_bytes crc) ps)"
  shows "fst (read_frames crc (length ps) s) = map Inr ps"
  using assms
proof (induction ps arbitrary: s)
  case (Cons p ps)
  then obtain s' where "read_frame crc s = (Inr p, s')" "flowing s'"
      "incoming s' = concat (map (frame_bytes crc) ps)" "ss_read_buf s' = []"
    using read_frame_delivers [of p s crc "concat (map (frame_bytes crc) ps)"] by auto
  with Cons show ?case by (simp add: case_prod_beta)
qed simp

section \<open>After a frame that does not decode\<close>

lemma frame_loop_byte:
  "inbox_next s = (Inr (Some b), s1) \<Longrightarrow>
   frame_loop s =
     (if b = 0 then
        (if ss_read_buf s1 = [] then frame_loop s1
         else (Inr (), s1\<lparr>ss_read_buf := ss_read_buf s1 @ [0]\<rparr>))
      else if length (ss_read_buf s1 @ [b]) > MAX_FRAME_SIZE
      then (Inl (Protocol (FrameTooLarge 1)), skip_to_delimiter (s1\<lparr>ss_read_buf := []\<rparr>))
      else frame_loop (s1\<lparr>ss_read_buf := ss_read_buf s1 @ [b]\<rparr>))"
  by (subst frame_loop.simps) (simp add: Let_def)

lemma frame_loop_nothing:
  "inbox_next s = (r, s1) \<Longrightarrow> r = Inr None \<or> r = Inl IoTimedOut \<Longrightarrow>
   frame_loop s =
     (if ss_read_buf s1 = [] then (Inl recv_timeout, s1)
      else if ss_partial_timeouts s1 + 1 > MAX_PARTIAL_TIMEOUTS
      then (Inl recv_timeout_abandoned, s1\<lparr>ss_read_buf := [], ss_partial_timeouts := 0\<rparr>)
      else frame_loop (s1\<lparr>ss_partial_timeouts := ss_partial_timeouts s1 + 1\<rparr>))"
  by (subst frame_loop.simps) (auto simp: Let_def)

lemma frame_loop_extends:
  "frame_loop s = (Inr (), s') \<Longrightarrow> \<exists>ext. ss_read_buf s' = ss_read_buf s @ ext @ [0]"
proof (induction s rule: wf_induct_rule
    [OF wf_measures [of "[pending, \<lambda>s. Suc MAX_PARTIAL_TIMEOUTS - ss_partial_timeouts s]"]])
  case (1 s)
  obtain r s1 where n: "inbox_next s = (r, s1)" by (cases "inbox_next s")
  have buf: "ss_read_buf s1 = ss_read_buf s" "ss_partial_timeouts s1 = ss_partial_timeouts s"
    and less: "pending s1 < pending s \<or> (r = Inl IoTimedOut \<and> s1 = s)"
    using inbox_next_pending [OF n] by simp_all
  have upd: "pending (s1\<lparr>ss_read_buf := x\<rparr>) = pending s1"
    "pending (s1\<lparr>ss_partial_timeouts := k\<rparr>) = pending s1" for x k
    by (simp_all add: pending_def)
  consider (byte) b where "r = Inr (Some b)" | (quiet) "r = Inr None \<or> r = Inl IoTimedOut"
    | (err) e where "r = Inl (IoOther e)"
    by (metis io_error.exhaust option.exhaust sum.exhaust)
  then show ?case
  proof cases
    case (byte b)
    have smaller: "pending s1 < pending s" using less byte by simp
    note loop = frame_loop_byte [OF n [unfolded byte]]
    show ?thesis
    proof (cases "b = 0")
      case True
      then show ?thesis
        using "1.IH" [of s1] "1.prems" buf loop smaller by (auto split: if_splits)
    next
      case False
      then have "frame_loop (s1\<lparr>ss_read_buf := ss_read_buf s1 @ [b]\<rparr>) = (Inr (), s')"
        using "1.prems" loop by (auto split: if_splits)
      then show ?thesis
        using "1.IH" [of "s1\<lparr>ss_read_buf := ss_read_buf s1 @ [b]\<rparr>"] smaller buf
        by (simp add: upd) (metis append_Cons)
    qed
  next
    case quiet
    let ?s = "s1\<lparr>ss_partial_timeouts := ss_partial_timeouts s1 + 1\<rparr>"
    have "frame_loop ?s = (Inr (), s')" "ss_partial_timeouts s1 + 1 \<le> MAX_PARTIAL_TIMEOUTS"
      using "1.prems" frame_loop_nothing [OF n quiet] by (auto split: if_splits)
    then show ?thesis
      using "1.IH" [of ?s] less buf by (auto simp: upd)
  next
    case (err e)
    then show ?thesis using "1.prems" n by (simp add: frame_loop.simps [of s])
  qed
qed

text \<open>While the buffer holds a delimiter no call returns a packet.\<close>

lemma read_frame_poisoned:
  assumes "0 \<in> set (ss_read_buf s)"
  shows "\<not> is_ok (fst (read_frame crc s))"
proof (cases "fst (frame_loop s)")
  case (Inl e)
  then show ?thesis by (simp add: read_frame_def case_prod_beta)
next
  case (Inr u)
  then obtain s' where loop: "frame_loop s = (Inr (), s')" by (cases "frame_loop s") auto
  then obtain ext where "ss_read_buf s' = (ss_read_buf s @ ext) @ [0]"
    using frame_loop_extends [of s s'] by auto
  then have "\<not> is_ok (cobs_decode (ss_read_buf s'))"
    using cobs_decode_inner_zero [of "ss_read_buf s @ ext"] assms by simp
  then show ?thesis
    by (cases "cobs_decode (ss_read_buf s')") (simp_all add: read_frame_complete [OF loop])
qed

text \<open>A COBS error leaves the buffer in that state.\<close>

lemma read_frame_cobs_error:
  assumes "frame_loop s = (Inr (), s1)" "cobs_decode (ss_read_buf s1) = Inl e"
  shows "fst (read_frame crc s) = Inl (cobs_error e)
    \<and> 0 \<in> set (ss_read_buf (snd (read_frame crc s)))"
  using assms frame_loop_extends [OF assms(1)] by (auto simp: read_frame_complete [OF assms(1)])

definition poisoned :: "serial \<Rightarrow> bool" where
  "poisoned s \<longleftrightarrow> flowing s \<and> 0 \<in> set (ss_read_buf s)"

lemma read_frame_poisoned_step:
  assumes "poisoned s" "incoming s = body @ 0 # rest" "0 \<notin> set body"
    and "length (ss_read_buf s @ body) \<le> MAX_FRAME_SIZE"
  shows "\<exists>e s'. read_frame crc s = (Inl (Protocol e), s') \<and> poisoned s' \<and> incoming s' = rest
    \<and> ss_read_buf s' = ss_read_buf s @ body @ [0]"
proof -
  have ne: "ss_read_buf s @ body \<noteq> []" using assms(1) by (auto simp: poisoned_def)
  obtain s' where s': "frame_loop s = (Inr (), s')" "flowing s'" "incoming s' = rest"
      "ss_read_buf s' = ss_read_buf s @ body @ [0]"
    using frame_loop_body [OF _ assms(2,3) ne assms(4)] assms(1) by (auto simp: poisoned_def)
  have "\<not> is_ok (cobs_decode ((ss_read_buf s @ body) @ [0]))"
    using assms(1) by (intro cobs_decode_inner_zero) (auto simp: poisoned_def)
  then obtain e where "cobs_decode (ss_read_buf s') = Inl e"
    using s'(4) by (cases "cobs_decode (ss_read_buf s')") auto
  then show ?thesis
    using s' assms(1) by (simp add: read_frame_complete [OF s'(1)] cobs_error_def poisoned_def)
qed

definition rx_event_of :: "werror + packet \<Rightarrow> rx_event" where
  "rx_event_of r =
     (case r of Inr p \<Rightarrow> ValidPacket | Inl (Protocol e) \<Rightarrow> ProtocolError | Inl _ \<Rightarrow> OtherEvent)"

text \<open>Each valid frame that follows costs two protocol errors and is lost.\<close>

lemma read_frames_poisoned:
  assumes "poisoned s" "incoming s = concat (map (frame_bytes crc) ps)"
    and "\<forall>p \<in> set ps. length (serialize (p_message p)) \<le> MAX_PAYLOAD"
    and "length (ss_read_buf s) + length (incoming s) \<le> MAX_FRAME_SIZE"
  shows "map rx_event_of (fst (read_frames crc (2 * length ps) s))
       = replicate (2 * length ps) ProtocolError"
  using assms
proof (induction ps arbitrary: s)
  case (Cons p ps)
  let ?rest = "concat (map (frame_bytes crc) ps)"
  have small: "length (serialize (p_message p)) \<le> MAX_PAYLOAD" using Cons.prems by simp
  have body: "0 \<notin> set (frame_body crc p)"
    using frame_body_fits [OF small] by (simp add: fits_frame_def)
  have inc: "incoming s = [] @ 0 # (frame_body crc p @ 0 # ?rest)"
    using Cons.prems(2) by (simp add: frame_bytes_eq [OF small])
  obtain e1 s1 where s1: "read_frame crc s = (Inl (Protocol e1), s1)" "poisoned s1"
      "incoming s1 = frame_body crc p @ 0 # ?rest" "ss_read_buf s1 = ss_read_buf s @ [0]"
    using read_frame_poisoned_step [OF Cons.prems(1) inc, of crc] Cons.prems(4) by auto
  have "length (ss_read_buf s1 @ frame_body crc p) \<le> MAX_FRAME_SIZE"
    using Cons.prems(4) s1(4) inc by simp
  then obtain e2 s2 where s2: "read_frame crc s1 = (Inl (Protocol e2), s2)" "poisoned s2"
      "incoming s2 = ?rest" "ss_read_buf s2 = ss_read_buf s1 @ frame_body crc p @ [0]"
    using read_frame_poisoned_step [OF s1(2,3) body, of crc] by auto
  have "length (ss_read_buf s2) + length (incoming s2) \<le> MAX_FRAME_SIZE"
    using Cons.prems(4) s1(4) s2(3,4) inc by simp
  with Cons.IH [of s2] Cons.prems s2 s1 show ?case
    by (simp add: case_prod_beta rx_event_of_def)
qed simp

end
