(* ===== verification/Fragment.thy ===== *)
theory Fragment
  imports Interfaces
begin

text \<open>
  \<open>crates/wiredesk-transport/src/bluetooth/fragment.rs\<close>: splitting a packet into BLE writes
  and reassembling it. The reassembler is a map from packet ids to slots; an \<open>Instant\<close> is a
  number of milliseconds. The lemmas give the invariant of the slots, the round trip of the
  header, and the delivery of a packet whose chunks arrive in any order, repeated and mixed
  with the chunks of other packets.
\<close>

section \<open>Constants and header\<close>

definition ATT_HEADER_OVERHEAD :: nat where "ATT_HEADER_OVERHEAD = 3"
definition CHUNK_HEADER_LEN :: nat where "CHUNK_HEADER_LEN = 4"
definition DEFAULT_ATT_MTU :: u16 where "DEFAULT_ATT_MTU = 247"
definition REASSEMBLY_TIMEOUT :: nat where "REASSEMBLY_TIMEOUT = 5000"
definition MAX_TOTAL_CHUNKS :: nat where "MAX_TOTAL_CHUNKS = 255"

definition max_chunk_payload :: "u16 \<Rightarrow> nat" where
  "max_chunk_payload att_mtu = unat att_mtu - ATT_HEADER_OVERHEAD - CHUNK_HEADER_LEN"

datatype fragment_error =
    HeaderTooShort nat
  | ZeroTotal
  | OutOfRange u8 u8
  | PayloadTooLarge nat nat
  | TooManyChunks nat

record chunk_header =
  ch_packet_id :: u16
  ch_chunk_idx :: u8
  ch_total_chunks :: u8

definition header_to_bytes :: "chunk_header \<Rightarrow> bytes" where
  "header_to_bytes h = to_le 2 (ch_packet_id h) @ [ch_chunk_idx h, ch_total_chunks h]"

definition header_from_bytes :: "bytes \<Rightarrow> fragment_error + chunk_header" where
  "header_from_bytes bs =
     (if length bs < CHUNK_HEADER_LEN then Inl (HeaderTooShort (length bs))
      else
        let chunk_idx = bs ! 2; total_chunks = bs ! 3 in
        if total_chunks = 0 then Inl ZeroTotal
        else if chunk_idx \<ge> total_chunks then Inl (OutOfRange chunk_idx total_chunks)
        else Inr \<lparr>ch_packet_id = u16_at bs 0, ch_chunk_idx = chunk_idx,
                  ch_total_chunks = total_chunks\<rparr>)"

section \<open>Splitting\<close>

text \<open>\<open>None\<close> is the panic of the \<open>assert!\<close>.\<close>

definition split_packet :: "u16 \<Rightarrow> bytes \<Rightarrow> nat \<Rightarrow> (fragment_error + bytes list) option" where
  "split_packet packet_id payload max_payload =
     (if max_payload = 0 then None
      else
        let tot = (if payload = [] then 1 else (length payload + max_payload - 1) div max_payload)
        in
        if tot > MAX_TOTAL_CHUNKS then Some (Inl (TooManyChunks tot))
        else if payload = []
        then Some (Inr [header_to_bytes \<lparr>ch_packet_id = packet_id, ch_chunk_idx = 0,
                                         ch_total_chunks = 1\<rparr>])
        else Some (Inr (map (\<lambda>(idx, piece).
               header_to_bytes \<lparr>ch_packet_id = packet_id, ch_chunk_idx = of_nat idx,
                                ch_total_chunks = of_nat tot\<rparr> @ piece)
             (enumerate 0 (chunks max_payload payload)))))"

section \<open>Reassembling\<close>

record slot =
  sl_first_seen :: nat
  sl_total :: u8
  sl_chunks :: "bytes option list"
  sl_received :: nat

type_synonym reassembler = "u16 \<Rightarrow> slot option"

definition reassembler_new :: reassembler where
  "reassembler_new = (\<lambda>pid. None)"

definition sweep_expired :: "nat \<Rightarrow> reassembler \<Rightarrow> reassembler" where
  "sweep_expired now slots = (\<lambda>pid.
     case slots pid of None \<Rightarrow> None
     | Some sl \<Rightarrow> if now - sl_first_seen sl < REASSEMBLY_TIMEOUT then Some sl else None)"

definition fresh_slot :: "nat \<Rightarrow> u8 \<Rightarrow> slot" where
  "fresh_slot now tot =
     \<lparr>sl_first_seen = now, sl_total = tot, sl_chunks = replicate (unat tot) None,
      sl_received = 0\<rparr>"

definition store_chunk :: "nat \<Rightarrow> bytes \<Rightarrow> slot \<Rightarrow> slot" where
  "store_chunk idx payload sl =
     (if sl_chunks sl ! idx = None
      then sl\<lparr>sl_chunks := (sl_chunks sl)[idx := Some payload], sl_received := sl_received sl + 1\<rparr>
      else sl)"

definition feed_chunk_at ::
  "reassembler \<Rightarrow> nat \<Rightarrow> bytes \<Rightarrow> (fragment_error + bytes option) \<times> reassembler" where
  "feed_chunk_at slots0 now bs =
     (let slots = sweep_expired now slots0 in
      case header_from_bytes bs of
        Inl e \<Rightarrow> (Inl e, slots)
      | Inr h \<Rightarrow>
          let pid = ch_packet_id h; tot = ch_total_chunks h;
              payload = drop CHUNK_HEADER_LEN bs;
              sl0 = (case slots pid of Some sl \<Rightarrow> sl | None \<Rightarrow> fresh_slot now tot);
              sl1 = (if sl_total sl0 \<noteq> tot then fresh_slot now tot else sl0);
              sl2 = store_chunk (unat (ch_chunk_idx h)) payload sl1
          in
          if sl_received sl2 = unat (sl_total sl2)
          then (Inr (Some (concat (map the (sl_chunks sl2)))), slots(pid := None))
          else (Inr None, slots(pid \<mapsto> sl2)))"

section \<open>Header and splitting\<close>

lemma length_header_to_bytes [simp]: "length (header_to_bytes h) = CHUNK_HEADER_LEN"
  by (simp add: header_to_bytes_def CHUNK_HEADER_LEN_def)

lemma header_fields:
  "(header_to_bytes h @ rest) ! 2 = ch_chunk_idx h" "(header_to_bytes h @ rest) ! 3 = ch_total_chunks h"
  by (simp_all add: header_to_bytes_def numeral_eq_Suc)

lemma header_packet_id: "u16_at (header_to_bytes h @ rest) 0 = ch_packet_id h"
  by (simp only: u16_at_def header_to_bytes_def append_assoc add_0 subslice_to_le [OF refl]) simp

lemma header_roundtrip_with:
  "ch_chunk_idx h < ch_total_chunks h \<Longrightarrow> header_from_bytes (header_to_bytes h @ rest) = Inr h"
  by (auto simp: header_from_bytes_def header_fields header_packet_id Let_def)

interpretation chunk_headers: codec header_to_bytes header_from_bytes
    "\<lambda>h. ch_chunk_idx h < ch_total_chunks h"
  by unfold_locales (use header_roundtrip_with [where rest = "[]"] in simp)

lemma header_from_bytes_ok:
  "header_from_bytes bs = Inr h \<Longrightarrow>
   ch_total_chunks h \<noteq> 0 \<and> unat (ch_chunk_idx h) < unat (ch_total_chunks h)"
  by (auto simp: header_from_bytes_def Let_def word_less_nat_alt not_le split: if_splits)

text \<open>The pieces of a packet, as the receiver will index them.\<close>

definition pieces :: "nat \<Rightarrow> bytes \<Rightarrow> bytes list" where
  "pieces n payload = (if payload = [] then [[]] else chunks n payload)"

definition chunk_of :: "u16 \<Rightarrow> bytes list \<Rightarrow> nat \<Rightarrow> bytes" where
  "chunk_of pid ps i =
     header_to_bytes \<lparr>ch_packet_id = pid, ch_chunk_idx = of_nat i,
                      ch_total_chunks = of_nat (length ps)\<rparr> @ ps ! i"

lemma concat_pieces: "0 < n \<Longrightarrow> concat (pieces n payload) = payload"
  by (simp add: pieces_def concat_chunks)

lemma pieces_bound: "p \<in> set (pieces n payload) \<Longrightarrow> length p \<le> n"
  by (auto simp: pieces_def dest: chunks_bounds split: if_splits)

lemma length_pieces:
  "0 < n \<Longrightarrow> length (pieces n payload)
   = (if payload = [] then 1 else (length payload + n - 1) div n)"
  by (simp add: pieces_def length_chunks)

lemma split_packet_ok_iff:
  "split_packet pid payload n = Some (Inr cs) \<longleftrightarrow>
   0 < n \<and> length (pieces n payload) \<le> MAX_TOTAL_CHUNKS
     \<and> cs = map (chunk_of pid (pieces n payload)) [0..<length (pieces n payload)]"
proof (cases "n = 0")
  case True
  then show ?thesis by (simp add: split_packet_def)
next
  case False
  show ?thesis
  proof (cases "payload = []")
    case True
    then show ?thesis
      using False by (auto simp: split_packet_def pieces_def chunk_of_def MAX_TOTAL_CHUNKS_def)
  next
    case nonempty: False
    let ?ps = "chunks n payload"
    have tot: "(length payload + n - 1) div n = length ?ps"
      using False by (simp add: length_chunks)
    have "map (\<lambda>(idx, piece). header_to_bytes \<lparr>ch_packet_id = pid, ch_chunk_idx = of_nat idx,
            ch_total_chunks = of_nat (length ?ps)\<rparr> @ piece) (enumerate 0 ?ps)
        = map (chunk_of pid ?ps) [0..<length ?ps]"
      by (rule nth_equalityI) (simp_all add: nth_enumerate_eq chunk_of_def)
    then have "split_packet pid payload n =
        (if MAX_TOTAL_CHUNKS < length ?ps then Some (Inl (TooManyChunks (length ?ps)))
         else Some (Inr (map (chunk_of pid ?ps) [0..<length ?ps])))"
      using False nonempty tot by (simp add: split_packet_def)
    then show ?thesis
      using False nonempty by (auto simp: pieces_def)
  qed
qed

section \<open>The invariant of the slots\<close>

definition filled :: "slot \<Rightarrow> nat" where
  "filled sl = length (filter (\<lambda>c. c \<noteq> None) (sl_chunks sl))"

definition slot_ok :: "slot \<Rightarrow> bool" where
  "slot_ok sl \<longleftrightarrow> length (sl_chunks sl) = unat (sl_total sl) \<and> sl_received sl = filled sl"

definition asm_inv :: "reassembler \<Rightarrow> bool" where
  "asm_inv slots \<longleftrightarrow> (\<forall>pid sl. slots pid = Some sl \<longrightarrow> slot_ok sl \<and> sl_received sl < unat (sl_total sl))"

lemma fresh_slot_ok: "slot_ok (fresh_slot now tot)"
  by (simp add: slot_ok_def fresh_slot_def filled_def)

lemma filled_update:
  assumes "i < length cs" "cs ! i = None"
  shows "length (filter (\<lambda>c. c \<noteq> None) (cs[i := Some p])) = Suc (length (filter (\<lambda>c. c \<noteq> None) cs))"
  using assms
proof (induction cs arbitrary: i)
  case (Cons c cs)
  then show ?case by (cases i) auto
qed simp

lemma store_chunk_ok:
  assumes "slot_ok sl" "i < unat (sl_total sl)"
  shows "slot_ok (store_chunk i p sl) \<and> sl_total (store_chunk i p sl) = sl_total sl
    \<and> sl_received (store_chunk i p sl) \<le> unat (sl_total sl)"
proof -
  have "slot_ok (store_chunk i p sl)"
    using assms filled_update [of i "sl_chunks sl" p]
    by (simp add: store_chunk_def slot_ok_def filled_def)
  moreover have "sl_total (store_chunk i p sl) = sl_total sl"
    by (simp add: store_chunk_def)
  moreover have "filled sl' \<le> length (sl_chunks sl')" for sl'
    by (simp add: filled_def)
  ultimately show ?thesis by (metis slot_ok_def)
qed

text \<open>A full slot has every chunk, so the \<open>expect\<close> of the collection loop holds.\<close>

lemma full_slot:
  assumes "slot_ok sl" "sl_received sl = unat (sl_total sl)"
  shows "None \<notin> set (sl_chunks sl)"
proof
  assume "None \<in> set (sl_chunks sl)"
  then have "length (filter (\<lambda>c. c \<noteq> None) (sl_chunks sl)) < length (sl_chunks sl)"
    by (intro length_filter_less) auto
  then show False using assms by (simp add: slot_ok_def filled_def)
qed

lemma sweep_inv: "asm_inv slots \<Longrightarrow> asm_inv (sweep_expired now slots)"
  by (auto simp: asm_inv_def sweep_expired_def split: option.splits if_splits)

definition touched :: "reassembler \<Rightarrow> nat \<Rightarrow> chunk_header \<Rightarrow> slot" where
  "touched slots now h =
     (case slots (ch_packet_id h) of
        Some sl \<Rightarrow> if sl_total sl = ch_total_chunks h then sl else fresh_slot now (ch_total_chunks h)
      | None \<Rightarrow> fresh_slot now (ch_total_chunks h))"

lemma feed_chunk_at_eq:
  "header_from_bytes bs = Inr h \<Longrightarrow>
   feed_chunk_at slots0 now bs =
     (let slots = sweep_expired now slots0;
          sl = store_chunk (unat (ch_chunk_idx h)) (drop CHUNK_HEADER_LEN bs) (touched slots now h)
      in if sl_received sl = unat (sl_total sl)
         then (Inr (Some (concat (map the (sl_chunks sl)))), slots(ch_packet_id h := None))
         else (Inr None, slots(ch_packet_id h \<mapsto> sl)))"
  by (simp add: feed_chunk_at_def touched_def Let_def fresh_slot_def split: option.split)

lemma touched_ok:
  "asm_inv slots \<Longrightarrow> slot_ok (touched slots now h) \<and> sl_total (touched slots now h) = ch_total_chunks h"
  by (auto simp: touched_def asm_inv_def fresh_slot_ok split: option.split)
    (simp_all add: fresh_slot_def)

lemma feed_chunk_inv:
  assumes "asm_inv slots"
  shows "asm_inv (snd (feed_chunk_at slots now bs))"
proof (cases "header_from_bytes bs")
  case (Inl e)
  then show ?thesis using assms by (simp add: feed_chunk_at_def sweep_inv)
next
  case (Inr h)
  let ?s = "sweep_expired now slots"
  let ?sl = "store_chunk (unat (ch_chunk_idx h)) (drop CHUNK_HEADER_LEN bs) (touched ?s now h)"
  have inv: "asm_inv ?s" using assms by (rule sweep_inv)
  have "slot_ok ?sl \<and> sl_received ?sl \<le> unat (sl_total ?sl)"
    using store_chunk_ok touched_ok [OF inv] header_from_bytes_ok [OF Inr] by metis
  then show ?thesis
    using inv by (auto simp: feed_chunk_at_eq [OF Inr] Let_def asm_inv_def)
qed

interpretation assembly: init_machine "\<lambda>slots (now, bs). snd (feed_chunk_at slots now bs)"
    asm_inv "\<lambda>e. True" reassembler_new
  by unfold_locales (auto simp: feed_chunk_inv, simp add: asm_inv_def reassembler_new_def)

section \<open>Delivery\<close>

text \<open>The slot of a packet with pieces \<open>ps\<close> after the indices \<open>K\<close> have arrived.\<close>

definition partial_slot :: "nat \<Rightarrow> bytes list \<Rightarrow> nat set \<Rightarrow> slot" where
  "partial_slot fs ps K =
     \<lparr>sl_first_seen = fs, sl_total = of_nat (length ps),
      sl_chunks = map (\<lambda>i. if i \<in> K then Some (ps ! i) else None) [0..<length ps],
      sl_received = card (K \<inter> {..<length ps})\<rparr>"

definition collecting :: "reassembler \<Rightarrow> u16 \<Rightarrow> bytes list \<Rightarrow> nat set \<Rightarrow> nat \<Rightarrow> bool" where
  "collecting slots pid ps K t0 \<longleftrightarrow> K \<subseteq> {..<length ps} \<and>
     (\<exists>fs \<ge> t0. slots pid = (if K = {} then None else Some (partial_slot fs ps K)))"

lemma partial_slot_empty:
  "length ps < 256 \<Longrightarrow> partial_slot fs ps {} = fresh_slot fs (of_nat (length ps))"
  by (simp add: partial_slot_def fresh_slot_def unat_of_nat map_replicate_const)

lemma store_chunk_partial:
  assumes "i < length ps"
  shows "store_chunk i (ps ! i) (partial_slot fs ps K) = partial_slot fs ps (insert i K)"
proof (cases "i \<in> K")
  case True
  then show ?thesis
    using assms by (simp add: store_chunk_def partial_slot_def insert_absorb)
next
  case False
  have "(map (\<lambda>j. if j \<in> K then Some (ps ! j) else None) [0..<length ps])[i := Some (ps ! i)]
      = map (\<lambda>j. if j \<in> insert i K then Some (ps ! j) else None) [0..<length ps]"
    using assms by (intro nth_equalityI) (auto simp: nth_list_update)
  moreover have "card (insert i K \<inter> {..<length ps}) = Suc (card (K \<inter> {..<length ps}))"
    using assms False by (simp add: Int_insert_left)
  ultimately show ?thesis
    using assms False by (simp add: store_chunk_def partial_slot_def)
qed

lemma chunk_of_header:
  assumes "i < length ps" "length ps < 256"
  shows "header_from_bytes (chunk_of pid ps i)
       = Inr \<lparr>ch_packet_id = pid, ch_chunk_idx = of_nat i, ch_total_chunks = of_nat (length ps)\<rparr>"
    and "drop CHUNK_HEADER_LEN (chunk_of pid ps i) = ps ! i"
    and "unat (of_nat i :: u8) = i" "unat (of_nat (length ps) :: u8) = length ps"
proof -
  show u: "unat (of_nat i :: u8) = i" "unat (of_nat (length ps) :: u8) = length ps"
    using assms by (simp_all add: unat_of_nat)
  show "header_from_bytes (chunk_of pid ps i)
       = Inr \<lparr>ch_packet_id = pid, ch_chunk_idx = of_nat i, ch_total_chunks = of_nat (length ps)\<rparr>"
    unfolding chunk_of_def using assms u by (intro header_roundtrip_with) (simp add: word_less_nat_alt)
  show "drop CHUNK_HEADER_LEN (chunk_of pid ps i) = ps ! i"
    by (simp add: chunk_of_def)
qed

lemma own_chunk_step:
  assumes "collecting slots pid ps K t0" "i < length ps" "length ps < 256"
    and "t0 \<le> now" "now < t0 + REASSEMBLY_TIMEOUT"
  shows "if insert i K = {..<length ps}
    then fst (feed_chunk_at slots now (chunk_of pid ps i)) = Inr (Some (concat ps))
       \<and> snd (feed_chunk_at slots now (chunk_of pid ps i)) pid = None
    else fst (feed_chunk_at slots now (chunk_of pid ps i)) = Inr None
       \<and> collecting (snd (feed_chunk_at slots now (chunk_of pid ps i))) pid ps (insert i K) t0"
proof -
  note hd = chunk_of_header [OF assms(2,3)]
  let ?h = "\<lparr>ch_packet_id = pid, ch_chunk_idx = of_nat i, ch_total_chunks = of_nat (length ps)\<rparr>"
  let ?slots = "sweep_expired now slots"
  have sub: "K \<subseteq> {..<length ps}" using assms(1) by (simp add: collecting_def)
  obtain fs where fs: "t0 \<le> fs" "slots pid = (if K = {} then None else Some (partial_slot fs ps K))"
    using assms(1) by (auto simp: collecting_def)
  define fs' where "fs' = (if K = {} then now else fs)"
  have "now - fs < REASSEMBLY_TIMEOUT" using fs(1) assms(4,5) by (simp add: REASSEMBLY_TIMEOUT_def)
  then have "?slots pid = (if K = {} then None else Some (partial_slot fs ps K))"
    using fs(2) by (simp add: sweep_expired_def partial_slot_def)
  then have "touched ?slots now ?h = partial_slot fs' ps K"
    using partial_slot_empty [OF assms(3)]
    by (auto simp: touched_def fs'_def) (simp_all add: partial_slot_def)
  then have feed: "feed_chunk_at slots now (chunk_of pid ps i) =
     (let sl = partial_slot fs' ps (insert i K)
      in if sl_received sl = unat (sl_total sl)
         then (Inr (Some (concat (map the (sl_chunks sl)))), ?slots(pid := None))
         else (Inr None, ?slots(pid \<mapsto> sl)))"
    using hd store_chunk_partial [OF assms(2)] by (simp add: feed_chunk_at_eq Let_def)
  have "fs' \<ge> t0" using fs(1) assms(4) by (simp add: fs'_def)
  moreover have "map the (sl_chunks (partial_slot fs' ps {..<length ps})) = ps"
    by (rule nth_equalityI) (simp_all add: partial_slot_def)
  moreover have "sl_received (partial_slot fs' ps (insert i K)) = unat (sl_total (partial_slot fs' ps (insert i K)))
      \<longleftrightarrow> insert i K = {..<length ps}"
  proof -
    have "insert i K \<inter> {..<length ps} = insert i K" using sub assms(2) by auto
    then have "sl_received (partial_slot fs' ps (insert i K)) = card (insert i K)"
      by (simp add: partial_slot_def)
    moreover have "unat (sl_total (partial_slot fs' ps (insert i K))) = length ps"
      using hd(4) unfolding partial_slot_def slot.simps by assumption
    moreover have "card (insert i K) = length ps \<longleftrightarrow> insert i K = {..<length ps}"
      by (metis assms(2) card_lessThan card_subset_eq finite_lessThan insert_subset lessThan_iff sub)
    ultimately show ?thesis by simp
  qed
  moreover have "insert i K \<subseteq> {..<length ps}" using sub assms(2) by simp
  ultimately show ?thesis
    by (cases "insert i K = {..<length ps}") (auto simp: feed Let_def collecting_def)
qed

text \<open>A chunk of another packet, or a write with a bad header.\<close>

definition foreign :: "u16 \<Rightarrow> bytes \<Rightarrow> bool" where
  "foreign pid bs \<longleftrightarrow> (case header_from_bytes bs of Inl e \<Rightarrow> True | Inr h \<Rightarrow> ch_packet_id h \<noteq> pid)"

lemma foreign_step:
  assumes "collecting slots pid ps K t0" "foreign pid bs" "now < t0 + REASSEMBLY_TIMEOUT"
  shows "collecting (snd (feed_chunk_at slots now bs)) pid ps K t0"
proof -
  obtain fs where fs: "t0 \<le> fs" "slots pid = (if K = {} then None else Some (partial_slot fs ps K))"
    using assms(1) by (auto simp: collecting_def)
  have "now - fs < REASSEMBLY_TIMEOUT" using fs(1) assms(3) by (simp add: REASSEMBLY_TIMEOUT_def)
  then have "sweep_expired now slots pid = slots pid"
    using fs(2) by (simp add: sweep_expired_def partial_slot_def)
  then have "snd (feed_chunk_at slots now bs) pid = slots pid"
    using assms(2) by (cases "header_from_bytes bs") (auto simp: foreign_def feed_chunk_at_def Let_def)
  then show ?thesis using assms(1) by (simp add: collecting_def)
qed

text \<open>A run of the reassembler, and the indices of \<open>pid\<close>'s packet among its events.\<close>

fun feed_all :: "reassembler \<Rightarrow> (nat \<times> bytes) list \<Rightarrow> (fragment_error + bytes option) list \<times> reassembler" where
  "feed_all slots [] = ([], slots)"
| "feed_all slots ((now, bs) # evs) =
     (let (r, s1) = feed_chunk_at slots now bs; (rs, s2) = feed_all s1 evs in (r # rs, s2))"

definition own_indices :: "u16 \<Rightarrow> bytes list \<Rightarrow> (nat \<times> bytes) list \<Rightarrow> nat set" where
  "own_indices pid ps evs = {i. i < length ps \<and> chunk_of pid ps i \<in> snd ` set evs}"

definition timely :: "nat \<Rightarrow> (nat \<times> bytes) list \<Rightarrow> bool" where
  "timely t0 evs \<longleftrightarrow> (\<forall>(t, bs) \<in> set evs. t0 \<le> t \<and> t < t0 + REASSEMBLY_TIMEOUT)"

lemma feed_all_append:
  "feed_all slots (evs @ evs') =
     (let (rs, s1) = feed_all slots evs; (rs', s2) = feed_all s1 evs' in (rs @ rs', s2))"
proof (induction evs arbitrary: slots)
  case (Cons ev evs)
  then show ?case by (cases ev) (simp add: case_prod_beta Let_def)
qed (simp add: case_prod_beta)

lemma chunk_of_inj:
  assumes "i < length ps" "j < length ps" "length ps < 256" "chunk_of pid ps i = chunk_of pid ps j"
  shows "i = j"
proof -
  have "(of_nat i :: u8) = of_nat j"
    using chunk_of_header(1) [OF assms(1,3), of pid] chunk_of_header(1) [OF assms(2,3), of pid]
      assms(4) by simp
  then show ?thesis
    by (metis chunk_of_header(3) [OF assms(1,3)] chunk_of_header(3) [OF assms(2,3)])
qed

lemma collecting_run:
  assumes "collecting slots pid ps K t0" "length ps < 256" "timely t0 evs"
    and "\<forall>(t, bs) \<in> set evs. foreign pid bs \<or> (\<exists>i < length ps. bs = chunk_of pid ps i)"
    and "K \<union> own_indices pid ps evs \<noteq> {..<length ps}"
  shows "collecting (snd (feed_all slots evs)) pid ps (K \<union> own_indices pid ps evs) t0
    \<and> (\<forall>k < length evs. \<not> foreign pid (snd (evs ! k)) \<longrightarrow> fst (feed_all slots evs) ! k = Inr None)"
  using assms
proof (induction evs arbitrary: slots K)
  case Nil
  then show ?case by (simp add: own_indices_def)
next
  case (Cons ev evs)
  obtain t bs where ev: "ev = (t, bs)" by (cases ev)
  have time: "t0 \<le> t" "t < t0 + REASSEMBLY_TIMEOUT" and rest: "timely t0 evs"
    using Cons.prems(3) ev by (auto simp: timely_def)
  let ?r = "feed_chunk_at slots t bs"
  have sub: "K \<union> own_indices pid ps (ev # evs) \<subseteq> {..<length ps}"
    using Cons.prems(1) by (auto simp: collecting_def own_indices_def)
  show ?case
  proof (cases "foreign pid bs")
    case True
    have own: "own_indices pid ps (ev # evs) = own_indices pid ps evs"
      using True chunk_of_header(1) Cons.prems(2) ev by (auto simp: own_indices_def foreign_def)
    have "collecting (snd ?r) pid ps K t0"
      using foreign_step Cons.prems(1) True time(2) by blast
    from Cons.IH [OF this Cons.prems(2) rest] Cons.prems(4,5) own True ev show ?thesis
      by (auto simp: case_prod_beta nth_Cons split: nat.split)
  next
    case False
    then obtain i where i: "i < length ps" "bs = chunk_of pid ps i"
      using Cons.prems(4) ev by auto
    have own: "K \<union> own_indices pid ps (ev # evs) = insert i K \<union> own_indices pid ps evs"
      using i ev chunk_of_inj [OF _ i(1) Cons.prems(2)] by (auto simp: own_indices_def)
    have "insert i K \<noteq> {..<length ps}" using Cons.prems(5) sub own by auto
    then have "fst ?r = Inr None" "collecting (snd ?r) pid ps (insert i K) t0"
      using own_chunk_step [OF Cons.prems(1) i(1) Cons.prems(2) time] i(2) by simp_all
    with Cons.IH [OF this(2) Cons.prems(2) rest] Cons.prems(4,5) own ev show ?thesis
      by (auto simp: case_prod_beta nth_Cons split: nat.split)
  qed
qed

lemma reassembles:
  assumes split: "split_packet pid payload n = Some (Inr cs)"
    and free: "slots pid = None"
    and evs: "\<forall>(t, bs) \<in> set evs. foreign pid bs \<or> bs \<in> set cs"
    and lst: "lst \<in> set cs" "lst \<notin> snd ` set evs" "set cs \<subseteq> insert lst (snd ` set evs)"
    and time: "timely t0 (evs @ [(t, lst)])"
  shows "\<exists>rs slots'. feed_all slots (evs @ [(t, lst)]) = (rs @ [Inr (Some payload)], slots')
    \<and> slots' pid = None
    \<and> (\<forall>k < length evs. \<not> foreign pid (snd (evs ! k)) \<longrightarrow> rs ! k = Inr None)"
proof -
  let ?ps = "pieces n payload"
  have n: "0 < n" and len: "length ?ps < 256" and cs: "cs = map (chunk_of pid ?ps) [0..<length ?ps]"
    using split by (auto simp: split_packet_ok_iff MAX_TOTAL_CHUNKS_def)
  have start: "collecting slots pid ?ps {} t0" using free by (auto simp: collecting_def)
  obtain j where j: "j < length ?ps" "lst = chunk_of pid ?ps j" using lst(1) cs by auto
  have notin: "j \<notin> own_indices pid ?ps evs" using lst(2) j by (simp add: own_indices_def)
  have all: "insert j (own_indices pid ?ps evs) = {..<length ?ps}"
  proof (intro equalityI subsetI)
    fix i assume "i \<in> insert j (own_indices pid ?ps evs)"
    then show "i \<in> {..<length ?ps}" using j(1) by (auto simp: own_indices_def)
  next
    fix i assume "i \<in> {..<length ?ps}"
    then have i: "i < length ?ps" by simp
    then have "chunk_of pid ?ps i \<in> set cs" unfolding cs by simp
    then have "chunk_of pid ?ps i = lst \<or> chunk_of pid ?ps i \<in> snd ` set evs"
      using lst(3) by blast
    then show "i \<in> insert j (own_indices pid ?ps evs)"
    proof
      assume "chunk_of pid ?ps i = lst"
      then have "i = j" using chunk_of_inj [OF i j(1) len] j(2) by metis
      then show ?thesis by simp
    next
      assume "chunk_of pid ?ps i \<in> snd ` set evs"
      then have "i \<in> own_indices pid ?ps evs" unfolding own_indices_def using i by blast
      then show ?thesis by (rule insertI2)
    qed
  qed
  let ?s = "snd (feed_all slots evs)"
  have own: "\<forall>(t, bs) \<in> set evs. foreign pid bs \<or> (\<exists>i < length ?ps. bs = chunk_of pid ?ps i)"
    using evs unfolding cs by (auto simp: image_iff) fastforce
  have times: "timely t0 evs" "t0 \<le> t" "t < t0 + REASSEMBLY_TIMEOUT"
    using time by (auto simp: timely_def)
  have run: "collecting ?s pid ?ps (own_indices pid ?ps evs) t0"
    "\<forall>k < length evs. \<not> foreign pid (snd (evs ! k)) \<longrightarrow> fst (feed_all slots evs) ! k = Inr None"
    using collecting_run [OF start len times(1) own] notin j(1) by auto
  have "fst (feed_chunk_at ?s t lst) = Inr (Some payload)" "snd (feed_chunk_at ?s t lst) pid = None"
    using own_chunk_step [OF run(1) j(1) len times(2,3)] all j(2) concat_pieces [OF n] by simp_all
  then show ?thesis
    using run(2)
    by (intro exI [of _ "fst (feed_all slots evs)"] exI [of _ "snd (feed_chunk_at ?s t lst)"])
      (simp add: feed_all_append case_prod_beta nth_append)
qed

end
