(* ===== verification/Chars.thy ===== *)
theory Chars
  imports Errors
begin

text \<open>
  Rust strings where the code works on characters: a \<open>char\<close> is its code point and a \<open>&str\<close>
  a list of code points. The theory models the methods of the standard library that the
  sources call (\<open>split\<close>, \<open>trim\<close>, \<open>find\<close>, \<open>lines\<close>, \<open>strip_prefix\<close>, \<open>char::is_whitespace\<close>
  and the ASCII classes); string literals of the sources are written \<open>lit ''...''\<close>.
\<close>

type_synonym rchar = nat
type_synonym ustring = "rchar list"

definition lit :: "string \<Rightarrow> ustring" where
  "lit s = map of_char s"

lemma length_lit: "length (lit s) = length s"
  by (simp add: lit_def)

lemma lit_simps [simp]: "lit [] = []" "lit (c # cs) = of_char c # lit cs"
  by (simp_all add: lit_def)

text \<open>Byte-string literals.\<close>

definition blit :: "string \<Rightarrow> bytes" where
  "blit s = map of_char s"

lemma blit_simps [simp]: "blit [] = []" "blit (c # cs) = of_char c # blit cs"
  by (simp_all add: blit_def)

lemma blit_append: "blit (s @ t) = blit s @ blit t"
  by (simp add: blit_def)

section \<open>Character classes\<close>

definition is_ascii_digit :: "rchar \<Rightarrow> bool" where
  "is_ascii_digit c = (48 \<le> c \<and> c \<le> 57)"

definition is_ascii_upper :: "rchar \<Rightarrow> bool" where
  "is_ascii_upper c = (65 \<le> c \<and> c \<le> 90)"

definition is_ascii_lower :: "rchar \<Rightarrow> bool" where
  "is_ascii_lower c = (97 \<le> c \<and> c \<le> 122)"

definition is_ascii_alphabetic :: "rchar \<Rightarrow> bool" where
  "is_ascii_alphabetic c = (is_ascii_upper c \<or> is_ascii_lower c)"

definition is_ascii_alphanumeric :: "rchar \<Rightarrow> bool" where
  "is_ascii_alphanumeric c = (is_ascii_alphabetic c \<or> is_ascii_digit c)"

definition to_ascii_upper :: "rchar \<Rightarrow> rchar" where
  "to_ascii_upper c = (if is_ascii_lower c then c - 32 else c)"

text \<open>\<open>char::is_whitespace\<close>: the code points of the property White\_Space.\<close>

definition is_whitespace :: "rchar \<Rightarrow> bool" where
  "is_whitespace c =
     ((9 \<le> c \<and> c \<le> 13) \<or> c = 32 \<or> c = 133 \<or> c = 160 \<or> c = 5760 \<or> (8192 \<le> c \<and> c \<le> 8202)
       \<or> c = 8232 \<or> c = 8233 \<or> c = 8239 \<or> c = 8287 \<or> c = 12288)"

section \<open>Trimming\<close>

definition trim_start_matches :: "(rchar \<Rightarrow> bool) \<Rightarrow> ustring \<Rightarrow> ustring" where
  "trim_start_matches P s = dropWhile P s"

definition trim_end_matches :: "(rchar \<Rightarrow> bool) \<Rightarrow> ustring \<Rightarrow> ustring" where
  "trim_end_matches P s = rev (dropWhile P (rev s))"

definition trim_start :: "ustring \<Rightarrow> ustring" where
  "trim_start = trim_start_matches is_whitespace"

definition trim_end :: "ustring \<Rightarrow> ustring" where
  "trim_end = trim_end_matches is_whitespace"

definition trim :: "ustring \<Rightarrow> ustring" where
  "trim s = trim_end (trim_start s)"

lemma trim_end_matches_prefix: "\<exists>t. s = trim_end_matches P s @ t \<and> (\<forall>c \<in> set t. P c)"
proof -
  have "rev s = takeWhile P (rev s) @ dropWhile P (rev s)" by simp
  then have "s = rev (dropWhile P (rev s)) @ rev (takeWhile P (rev s))"
    by (metis rev_append rev_rev_ident)
  then show ?thesis
    unfolding trim_end_matches_def by (metis set_rev set_takeWhileD)
qed

lemma trim_start_matches_suffix: "\<exists>t. s = t @ trim_start_matches P s \<and> (\<forall>c \<in> set t. P c)"
  unfolding trim_start_matches_def by (metis set_takeWhileD takeWhile_dropWhile_id)

lemma set_trim_end_matches: "set (trim_end_matches P s) \<subseteq> set s"
  using set_dropWhileD by (fastforce simp: trim_end_matches_def)

lemma set_trim_start_matches: "set (trim_start_matches P s) \<subseteq> set s"
  using set_dropWhileD by (fastforce simp: trim_start_matches_def)

lemma trim_end_matches_last:
  "trim_end_matches P s \<noteq> [] \<Longrightarrow> \<not> P (last (trim_end_matches P s))"
  by (simp add: trim_end_matches_def last_rev hd_dropWhile)

lemma trim_end_matches_hd:
  "trim_end_matches P s \<noteq> [] \<Longrightarrow> hd (trim_end_matches P s) = hd s"
  using trim_end_matches_prefix [of s P] by (metis hd_append2)

lemma trim_start_matches_hd:
  "trim_start_matches P s \<noteq> [] \<Longrightarrow> \<not> P (hd (trim_start_matches P s))"
  by (simp add: trim_start_matches_def hd_dropWhile)

section \<open>Splitting\<close>

text \<open>\<open>str::split\<close> with a character predicate: \<open>n\<close> separators give \<open>n + 1\<close> segments.\<close>

fun split_by :: "(rchar \<Rightarrow> bool) \<Rightarrow> ustring \<Rightarrow> ustring list" where
  "split_by P [] = [[]]"
| "split_by P (c # cs) =
     (if P c then [] # split_by P cs
      else (case split_by P cs of [] \<Rightarrow> [[c]] | seg # segs \<Rightarrow> (c # seg) # segs))"

lemma split_by_nonempty [simp]: "split_by P s \<noteq> []"
  by (cases s) (auto split: list.split)

lemma split_by_clean: "seg \<in> set (split_by P s) \<Longrightarrow> c \<in> set seg \<Longrightarrow> \<not> P c \<and> c \<in> set s"
proof (induction s arbitrary: seg)
  case (Cons d s)
  show ?case
  proof (cases "P d")
    case True
    then show ?thesis using Cons by auto
  next
    case False
    obtain hd_seg segs where s: "split_by P s = hd_seg # segs"
      by (metis list.exhaust split_by_nonempty)
    consider "seg = d # hd_seg" | "seg \<in> set segs"
      using Cons.prems(1) False s by auto
    then show ?thesis
      using Cons.IH [of hd_seg] Cons.IH [of seg] Cons.prems(2) False s by cases auto
  qed
qed simp

lemma split_by_none: "(\<forall>c \<in> set s. \<not> P c) \<Longrightarrow> split_by P s = [s]"
  by (induction s) auto

lemma hd_split_by: "hd (split_by P s) = takeWhile (\<lambda>c. \<not> P c) s"
  by (induction s) (auto split: list.split)

text \<open>\<open>str::lines\<close>: split at newlines, drop one trailing carriage return of each line and the
  empty piece after a final newline.\<close>

definition strip_cr :: "ustring \<Rightarrow> ustring" where
  "strip_cr s = (if s \<noteq> [] \<and> last s = 13 then butlast s else s)"

text \<open>The last piece keeps its carriage return: it has no newline after it.\<close>

definition lines :: "ustring \<Rightarrow> ustring list" where
  "lines s =
     (let segs = split_by (\<lambda>c. c = 10) s; body = map strip_cr (butlast segs) in
      if last segs = [] then body else body @ [last segs])"

section \<open>Searching\<close>

definition starts_with :: "ustring \<Rightarrow> ustring \<Rightarrow> bool" where
  "starts_with s p = str_prefix p s"

definition ends_with :: "ustring \<Rightarrow> ustring \<Rightarrow> bool" where
  "ends_with s p = str_prefix (rev p) (rev s)"

definition strip_prefix :: "ustring \<Rightarrow> ustring \<Rightarrow> ustring option" where
  "strip_prefix p s = (if str_prefix p s then Some (drop (length p) s) else None)"

text \<open>The first occurrence, as an index into the list.\<close>

fun find_sub :: "'a list \<Rightarrow> 'a list \<Rightarrow> nat option" where
  "find_sub p [] = (if p = [] then Some 0 else None)"
| "find_sub p (c # cs) =
     (if str_prefix p (c # cs) then Some 0 else map_option Suc (find_sub p cs))"

lemma str_prefix_iff_take: "str_prefix p s \<longleftrightarrow> take (length p) s = p"
  by (induction p s rule: str_prefix.induct) auto

lemma find_sub_Some:
  "find_sub p s = Some i \<Longrightarrow> i + length p \<le> length s \<and> take (length p) (drop i s) = p"
proof (induction p s arbitrary: i rule: find_sub.induct)
  case (2 p c cs)
  show ?case
  proof (cases "str_prefix p (c # cs)")
    case True
    then have t: "take (length p) (c # cs) = p" using str_prefix_iff_take by blast
    then have "length p \<le> length (c # cs)" by (metis length_take min.cobounded2 linorder_linear min_def)
    then show ?thesis using 2 True t by auto
  next
    case False
    then show ?thesis using 2 by auto
  qed
qed (auto split: if_splits)

lemma find_sub_None_iff: "find_sub p s = None \<longleftrightarrow> \<not> str_contains s p"
  by (induction p s rule: find_sub.induct) auto

lemma find_sub_first: "find_sub p s = Some i \<Longrightarrow> j < i \<Longrightarrow> \<not> str_prefix p (drop j s)"
proof (induction p s arbitrary: i j rule: find_sub.induct)
  case (2 p c cs)
  then show ?case by (cases j) (auto split: if_splits)
qed (auto split: if_splits)

lemma find_sub_append:
  "find_sub p s = Some i \<Longrightarrow> find_sub p (s @ t) = Some i"
proof (induction p s arbitrary: i rule: find_sub.induct)
  case (2 p c cs)
  have pre: "str_prefix p (c # cs) \<Longrightarrow> str_prefix p ((c # cs) @ t)"
    by (metis append.assoc str_prefix_iff)
  show ?case
  proof (cases "str_prefix p (c # cs)")
    case True
    then show ?thesis using 2 pre by auto
  next
    case False
    then obtain k where k: "find_sub p cs = Some k" "i = Suc k" using 2 by auto
    have len: "length p \<le> length cs"
      using find_sub_Some [OF k(1)] by simp
    have "take (length p) ((c # cs) @ t) = take (length p) (c # cs)"
      using len unfolding take_append by simp
    then have "\<not> str_prefix p ((c # cs) @ t)"
      using False unfolding str_prefix_iff_take by simp
    then show ?thesis using 2 False k by simp
  qed
next
  case (1 p)
  then show ?case by (cases t) (auto split: if_splits)
qed

text \<open>\<open>str::split\<close> with a string pattern.\<close>

function split_str :: "'a list \<Rightarrow> 'a list \<Rightarrow> 'a list list" where
  "split_str p s =
     (case find_sub p s of
        None \<Rightarrow> [s]
      | Some i \<Rightarrow> if p = [] then [s] else take i s # split_str p (drop (i + length p) s))"
  by pat_completeness auto
termination
  by (relation "measure (\<lambda>(p, s). length s)") (auto dest!: find_sub_Some simp: not_less, metis add_gr_0
      diff_less length_greater_0_conv less_le_trans)

declare split_str.simps [simp del]

lemma find_sub_split: "find_sub p s = Some i \<Longrightarrow> s = take i s @ p @ drop (i + length p) s"
  using find_sub_Some [of p s i] by (metis append_take_drop_id drop_drop add.commute)

definition split_once :: "rchar \<Rightarrow> ustring \<Rightarrow> (ustring \<times> ustring) option" where
  "split_once c s =
     (if c \<in> set s then Some (takeWhile (\<lambda>x. x \<noteq> c) s, tl (dropWhile (\<lambda>x. x \<noteq> c) s)) else None)"

definition eq_ignore_ascii_case :: "ustring \<Rightarrow> ustring \<Rightarrow> bool" where
  "eq_ignore_ascii_case a b = (map to_ascii_upper a = map to_ascii_upper b)"

text \<open>\<open>str::parse::<uN>\<close>: an optional plus sign and at least one digit, below \<open>2 ^ bits\<close>.\<close>

definition digits_value :: "ustring \<Rightarrow> nat" where
  "digits_value s = foldl (\<lambda>n c. 10 * n + (c - 48)) 0 s"

definition parse_unsigned :: "nat \<Rightarrow> ustring \<Rightarrow> nat option" where
  "parse_unsigned bits s =
     (let d = (if s \<noteq> [] \<and> hd s = 43 then tl s else s) in
      if d = [] \<or> \<not> list_all is_ascii_digit d then None
      else if digits_value d < 2 ^ bits then Some (digits_value d) else None)"

end
