(* ===== verification/ClipFile.thy ===== *)
theory ClipFile
  imports Chars Utf8
begin

text \<open>
  \<open>crates/wiredesk-protocol/src/clip_file.rs\<close>: the header of a file transfer and the
  sanitising of the name it carries. The name travels as bytes; \<open>sanitize_basename\<close> works
  on its characters.
\<close>

section \<open>The first chunk\<close>

definition MAX_FILE_BYTES :: nat where "MAX_FILE_BYTES = 20 * 1024 * 1024"
definition MAX_FILENAME_LEN :: nat where "MAX_FILENAME_LEN = 4096"

definition MAX_FILE_PAYLOAD_BYTES :: nat where
  "MAX_FILE_PAYLOAD_BYTES = MAX_FILE_BYTES + MAX_FILENAME_LEN + 2"

definition FALLBACK_BASENAME :: ustring where "FALLBACK_BASENAME = lit ''clipboard.bin''"

datatype clip_file_error = CfTruncated | CfBadUtf8 | CfNameTooLong | CfEmptyName

definition pack_first_chunk :: "rstring \<Rightarrow> bytes \<Rightarrow> clip_file_error + bytes" where
  "pack_first_chunk name content =
     (if name = [] then Inl CfEmptyName
      else if length name > MAX_FILENAME_LEN then Inl CfNameTooLong
      else Inr (to_le 2 (of_nat (length name) :: u16) @ name @ content))"

definition unpack_first_chunk :: "bytes \<Rightarrow> clip_file_error + (rstring \<times> bytes)" where
  "unpack_first_chunk payload =
     (if length payload < 2 then Inl CfTruncated
      else
        let name_len = unat (u16_at payload 0) in
        if name_len > MAX_FILENAME_LEN then Inl CfNameTooLong
        else
          let name_end = 2 + name_len in
          if length payload < name_end then Inl CfTruncated
          else
            let name = subslice payload 2 name_end in
            if \<not> utf8_valid name then Inl CfBadUtf8
            else Inr (name, drop name_end payload))"

lemma u16_at_to_le [simp]: "u16_at (to_le 2 w @ rest) 0 = w"
  by (simp only: u16_at_def add_0 subslice_to_le [OF refl]) simp

lemma unpack_pack:
  assumes "pack_first_chunk name content = Inr packed" "utf8_valid name"
  shows "unpack_first_chunk (packed @ rest) = Inr (name, content @ rest)"
proof -
  have p: "packed = to_le 2 (of_nat (length name) :: u16) @ name @ content"
    and len: "length name \<le> MAX_FILENAME_LEN"
    using assms(1) by (auto simp: pack_first_chunk_def split: if_splits)
  have "unat (of_nat (length name) :: u16) = length name"
    unfolding unat_of_nat using len by (simp add: MAX_FILENAME_LEN_def)
  then show ?thesis
    using assms(2) len by (simp add: unpack_first_chunk_def p Let_def subslice_def)
qed

lemma unpack_sound:
  assumes "unpack_first_chunk payload = Inr (name, content)"
  shows "utf8_valid name" "length name \<le> MAX_FILENAME_LEN"
    "payload = to_le 2 (of_nat (length name) :: u16) @ name @ content"
proof -
  have *: "2 \<le> length payload" "unat (u16_at payload 0) \<le> MAX_FILENAME_LEN"
    "2 + unat (u16_at payload 0) \<le> length payload"
    "name = subslice payload 2 (2 + unat (u16_at payload 0))" "utf8_valid name"
    "content = drop (2 + unat (u16_at payload 0)) payload"
    using assms by (auto simp: unpack_first_chunk_def Let_def not_less split: if_splits)
  then have len: "length name = unat (u16_at payload 0)" by simp
  have "to_le 2 (u16_at payload 0) = take 2 payload"
    using to_le_from_le [where 'a = 16, of "take 2 payload"] *(1)
    by (simp only: u16_at_def subslice_def length_take min.absorb2 add_0 diff_zero drop_0) simp
  moreover have "(of_nat (length name) :: u16) = u16_at payload 0"
    unfolding len by simp
  moreover have "name @ content = drop 2 payload"
    unfolding *(4,6) subslice_def by (metis append_take_drop_id drop_drop add.commute add_diff_cancel_left')
  ultimately show "payload = to_le 2 (of_nat (length name) :: u16) @ name @ content"
    by (metis append_take_drop_id)
  show "utf8_valid name" "length name \<le> MAX_FILENAME_LEN" using * len by simp_all
qed

section \<open>Characters of a name\<close>

text \<open>\<open>str::chars\<close> on the UTF-8 bytes of a valid string.\<close>

definition cont_bits :: "bytes \<Rightarrow> nat \<Rightarrow> nat" where
  "cont_bits bs i = (if i < length bs then unat (bs ! i) mod 64 else 0)"

function utf8_chars :: "rstring \<Rightarrow> ustring" where
  "utf8_chars bs =
     (case bs of
        [] \<Rightarrow> []
      | a # r \<Rightarrow>
          if a < 0x80 then unat a # utf8_chars r
          else if a < 0xE0 then (unat a mod 32 * 64 + cont_bits r 0) # utf8_chars (drop 1 r)
          else if a < 0xF0
          then (unat a mod 16 * 4096 + cont_bits r 0 * 64 + cont_bits r 1) # utf8_chars (drop 2 r)
          else (unat a mod 8 * 262144 + cont_bits r 0 * 4096 + cont_bits r 1 * 64 + cont_bits r 2)
               # utf8_chars (drop 3 r))"
  by pat_completeness auto
termination
  by (relation "measure length") auto

declare utf8_chars.simps [simp del]

section \<open>Sanitising the name\<close>

definition NTFS_RESERVED :: "ustring list" where
  "NTFS_RESERVED = map lit
     [''CON'', ''PRN'', ''AUX'', ''NUL'', ''COM1'', ''COM2'', ''COM3'', ''COM4'', ''COM5'',
      ''COM6'', ''COM7'', ''COM8'', ''COM9'', ''LPT1'', ''LPT2'', ''LPT3'', ''LPT4'', ''LPT5'',
      ''LPT6'', ''LPT7'', ''LPT8'', ''LPT9'']"

definition strip_drive_letter :: "ustring \<Rightarrow> ustring" where
  "strip_drive_letter s =
     (case s of
        c # d # rest \<Rightarrow> if d = 58 \<and> is_ascii_alphabetic c then rest else s
      | _ \<Rightarrow> s)"

text \<open>The characters \<open>/\<close> and \<open>\\<close>, and those the code replaces: \<open>< > : " | ? *\<close> and NUL.\<close>

definition is_separator :: "rchar \<Rightarrow> bool" where
  "is_separator c = (c = 47 \<or> c = 92)"

definition is_forbidden :: "rchar \<Rightarrow> bool" where
  "is_forbidden c = (c \<in> {60, 62, 58, 34, 124, 63, 42, 0})"

definition stem_of :: "ustring \<Rightarrow> ustring" where
  "stem_of s = hd (split_by (\<lambda>c. c = 46) s)"

definition is_reserved :: "ustring \<Rightarrow> bool" where
  "is_reserved s = (map to_ascii_upper (stem_of s) \<in> set NTFS_RESERVED)"

definition last_segment :: "ustring \<Rightarrow> ustring" where
  "last_segment s =
     (case find (\<lambda>seg. seg \<noteq> [] \<and> seg \<noteq> lit ''..'') (rev (split_by is_separator s)) of
        Some seg \<Rightarrow> seg | None \<Rightarrow> [])"

definition escape :: "ustring \<Rightarrow> ustring" where
  "escape = map (\<lambda>c. if is_forbidden c then 95 else c)"

definition sanitize_basename :: "ustring \<Rightarrow> ustring" where
  "sanitize_basename raw =
     (let segment = last_segment (strip_drive_letter raw);
          trimmed = trim_end (trim_start_matches (\<lambda>c. c = 58 \<or> is_whitespace c) segment) in
      if trimmed = [] then FALLBACK_BASENAME
      else
        let escaped = escape trimmed in
        if is_reserved escaped then 95 # escaped else escaped)"

text \<open>What the code promises of a name, apart from not being a directory alias.\<close>

definition safe_name :: "ustring \<Rightarrow> bool" where
  "safe_name s \<longleftrightarrow> s \<noteq> [] \<and> (\<forall>c \<in> set s. \<not> is_separator c \<and> \<not> is_forbidden c)
     \<and> \<not> is_whitespace (hd s) \<and> \<not> is_whitespace (last s) \<and> \<not> is_reserved s"

lemma last_segment_chars: "c \<in> set (last_segment s) \<Longrightarrow> \<not> is_separator c"
proof -
  assume c: "c \<in> set (last_segment s)"
  then obtain seg where "find (\<lambda>seg. seg \<noteq> [] \<and> seg \<noteq> lit ''..'') (rev (split_by is_separator s)) = Some seg"
      and seg: "c \<in> set seg"
    unfolding last_segment_def
    by (cases "find (\<lambda>seg. seg \<noteq> [] \<and> seg \<noteq> lit ''..'') (rev (split_by is_separator s))") simp_all
  then have "seg \<in> set (split_by is_separator s)"
    by (metis find_Some_iff nth_mem set_rev)
  then show ?thesis using split_by_clean seg by blast
qed

lemma escape_chars: "c \<in> set (escape s) \<Longrightarrow> \<not> is_forbidden c \<and> (c = 95 \<or> c \<in> set s)"
  by (auto simp: escape_def is_forbidden_def split: if_splits)

lemma reserved_heads: "s \<in> set NTFS_RESERVED \<Longrightarrow> s \<noteq> [] \<and> hd s \<noteq> 95"
  by (auto simp: NTFS_RESERVED_def)

lemma not_reserved_underscore: "\<not> is_reserved (95 # s)"
proof -
  have "stem_of (95 # s) = 95 # stem_of s"
    unfolding stem_of_def hd_split_by by simp
  then have "map to_ascii_upper (stem_of (95 # s)) = 95 # map to_ascii_upper (stem_of s)"
    by (simp add: to_ascii_upper_def is_ascii_lower_def)
  then show ?thesis using reserved_heads by (metis is_reserved_def list.sel(1))
qed

lemma safe_fallback: "safe_name FALLBACK_BASENAME"
  by (simp add: safe_name_def FALLBACK_BASENAME_def is_separator_def is_forbidden_def
      is_whitespace_def is_reserved_def stem_of_def hd_split_by NTFS_RESERVED_def
      to_ascii_upper_def is_ascii_lower_def)

lemma escape_hd_last:
  "s \<noteq> [] \<Longrightarrow> \<not> is_whitespace (hd s) \<Longrightarrow> \<not> is_whitespace (last s) \<Longrightarrow>
   escape s \<noteq> [] \<and> \<not> is_whitespace (hd (escape s)) \<and> \<not> is_whitespace (last (escape s))"
  by (auto simp: escape_def hd_map last_map is_whitespace_def)

lemma sanitize_safe: "safe_name (sanitize_basename raw)"
proof -
  let ?seg = "last_segment (strip_drive_letter raw)"
  let ?st = "trim_start_matches (\<lambda>c. c = 58 \<or> is_whitespace c) ?seg"
  let ?t = "trim_end ?st"
  show ?thesis
  proof (cases "?t = []")
    case True
    then show ?thesis by (simp add: sanitize_basename_def safe_fallback)
  next
    case False
    then have "hd ?t = hd ?st" "?st \<noteq> []"
      using trim_end_matches_hd [of is_whitespace ?st]
      by (auto simp: trim_end_def trim_end_matches_def)
    then have "\<not> is_whitespace (hd ?t)"
      using trim_start_matches_hd [of "\<lambda>c. c = 58 \<or> is_whitespace c" ?seg] by simp
    moreover have "\<not> is_whitespace (last ?t)"
      using trim_end_matches_last False by (simp add: trim_end_def)
    ultimately have ends: "escape ?t \<noteq> [] \<and> \<not> is_whitespace (hd (escape ?t))
        \<and> \<not> is_whitespace (last (escape ?t))"
      using False by (intro escape_hd_last)
    have "set ?t \<subseteq> set ?seg"
      using set_trim_end_matches set_trim_start_matches unfolding trim_end_def by blast
    then have "\<forall>c \<in> set (escape ?t). \<not> is_separator c \<and> \<not> is_forbidden c"
      using escape_chars last_segment_chars by (fastforce simp: is_separator_def)
    moreover have "\<not> is_separator 95 \<and> \<not> is_forbidden 95 \<and> \<not> is_whitespace 95"
      by (simp add: is_separator_def is_forbidden_def is_whitespace_def)
    moreover have "sanitize_basename raw = (if is_reserved (escape ?t) then 95 # escape ?t else escape ?t)"
      using False by (simp add: sanitize_basename_def)
    ultimately show ?thesis
      using ends not_reserved_underscore [of "escape ?t"] by (simp add: safe_name_def)
  qed
qed

text \<open>A safe name other than \<open>..\<close> is left alone.\<close>

lemma sanitize_fixed:
  assumes "safe_name s" "s \<noteq> lit ''..''"
  shows "sanitize_basename s = s"
proof -
  have chars: "\<forall>c \<in> set s. \<not> is_separator c \<and> \<not> is_forbidden c" and ne: "s \<noteq> []"
    using assms(1) by (simp_all add: safe_name_def)
  have colon: "58 \<notin> set s" using chars by (auto simp: is_forbidden_def)
  have "strip_drive_letter s = s"
    using colon by (auto simp: strip_drive_letter_def split: list.splits)
  moreover have "last_segment s = s"
    using chars ne assms(2) by (simp add: last_segment_def split_by_none)
  moreover have "trim_start_matches (\<lambda>c. c = 58 \<or> is_whitespace c) s = s"
    using assms(1) colon ne by (cases s) (auto simp: trim_start_matches_def safe_name_def)
  moreover have "trim_end s = s"
    using assms(1) ne
    by (cases s rule: rev_cases) (auto simp: trim_end_def trim_end_matches_def safe_name_def)
  moreover have "escape s = s"
    using chars by (auto simp: escape_def intro: map_idI)
  ultimately show ?thesis
    using assms(1) ne by (simp add: sanitize_basename_def safe_name_def)
qed

lemma sanitize_idempotent:
  "sanitize_basename raw \<noteq> lit ''..'' \<Longrightarrow>
   sanitize_basename (sanitize_basename raw) = sanitize_basename raw"
  by (intro sanitize_fixed sanitize_safe)

text \<open>The exception is reachable: the test for \<open>..\<close> comes before the trimming.\<close>

lemma sanitize_dotdot_space: "sanitize_basename (lit ''.. '') = lit ''..''"
  by (simp add: sanitize_basename_def strip_drive_letter_def last_segment_def is_separator_def
      trim_end_def trim_end_matches_def trim_start_matches_def is_whitespace_def Let_def
      escape_def is_forbidden_def is_reserved_def stem_of_def NTFS_RESERVED_def)

end
