(* ===== verification/WireProps.thy ===== *)
theory WireProps
  imports Framing Serial Storm Fragment ClipFile
begin

text \<open>
  The properties of the wire: framing, packets, messages, the serial reader, the BLE
  fragments, the streaming text decoder and the file header. Each is a theorem over the
  definitions of the component theories, with a witness at a concrete input.
\<close>

section \<open>COBS\<close>

text \<open>
  Every byte string survives the COBS encoder and decoder, its encoding is a zero-free
  body and one delimiter, and the encoding is at most one byte per 254 (and two) longer.
\<close>

lemma cobs_codec:
  "cobs_decode (cobs_encode data) = Inr data
   \<and> (\<exists>body. cobs_encode data = body @ [0] \<and> 0 \<notin> set body)
   \<and> length (cobs_encode data) \<le> length data + length data div 254 + 2"
  using cobs_roundtrip cobs_encode_delim length_cobs_encode by blast

section \<open>Messages and packets\<close>

definition crc0 :: "bytes \<Rightarrow> u16" where
  "crc0 data = of_nat (length data)"

text \<open>
  C18: a packet whose message the wire can carry is read back from its bytes, for every
  checksum function and whatever follows it in the buffer.
\<close>

theorem packet_roundtrip:
  assumes "wf_packet p" "to_bytes crc p = Inr bs"
  shows "from_bytes crc (bs @ trailing) = Inr p"
  using from_bytes_to_bytes [OF assms(1), of crc trailing] assms(2) by (simp add: packet_bytes_def)

definition hello_packet :: packet where
  "hello_packet = packet_new (Hello 1 [0x6D, 0x61, 0x63]) 7"

lemma wf_hello_packet: "wf_packet hello_packet"
  by (simp add: wf_packet_def hello_packet_def packet_new_def fits_def utf8_valid_ascii
      write_string_def MAX_PAYLOAD_def)

lemma packet_roundtrip_witness:
  "\<exists>bs. to_bytes crc0 hello_packet = Inr bs \<and> from_bytes crc0 (bs @ [1, 2, 3]) = Inr hello_packet"
proof -
  have "to_bytes crc0 hello_packet = Inr (packet_bytes crc0 hello_packet)"
    using wf_hello_packet to_bytes_packet_bytes by (simp add: wf_packet_def)
  then show ?thesis
    using packet_roundtrip [OF wf_hello_packet, of crc0 _ "[1, 2, 3]"] by blast
qed

text \<open>
  C19: a packet is accepted only with the magic, a known type byte, room for the declared
  payload and a matching checksum over header and payload; its message has that type, and
  every string in it is valid UTF-8.
\<close>

theorem packet_acceptance:
  assumes "from_bytes crc data = Inr p"
  shows "take 2 data = MAGIC \<and> type_code (p_type p) = data ! 2 \<and> msg_type (p_message p) = p_type p
    \<and> (let n = HEADER_SIZE + unat (u16_at data 6) in
        n + CRC_SIZE \<le> length data \<and> u16_at data n = crc (take n data))
    \<and> message_strings_valid (p_message p)"
  using from_bytes_accepts [OF assms] by (simp add: Let_def)

lemma packet_acceptance_witness:
  "type_code (p_type hello_packet) = (packet_bytes crc0 hello_packet) ! 2"
  using packet_acceptance [OF from_bytes_to_bytes [OF wf_hello_packet, of crc0 "[]"]] by simp

text \<open>
  A sender does not check where it cuts a string: a client name longer than 32 bytes
  whose first 32 bytes end inside a character is sent as a \<open>Hello\<close> the peer cannot decode,
  and that is the only way an otherwise valid \<open>Hello\<close> is lost.
\<close>

lemma hello_name_cut:
  assumes "utf8_valid name"
  shows "is_ok (deserialize MT_Hello (serialize (Hello v name))) \<longleftrightarrow> utf8_valid (take 32 name)"
proof -
  have "read_string (write_string name 32) =
      (if utf8_valid (take 32 name) then Inr (take 32 name) else Inl (Protocol InvalidUtf8))"
    using read_write_string [of name 32] by simp
  then show ?thesis by (cases "utf8_valid (take 32 name)") (simp_all add: wire_simps ensure_min_len_def length_write_string)
qed

lemma hello_name_cut_witness:
  "\<not> is_ok (deserialize MT_Hello (serialize (Hello 1 (0x61 # concat (replicate 16 [0xD1, 0x8F])))))"
proof -
  have v: "utf8_valid (0x61 # concat (replicate 16 [0xD1, 0x8F]))"
    by code_simp
  have "\<not> utf8_valid (take 32 (0x61 # concat (replicate 16 [0xD1, 0x8F])))"
    by code_simp
  then show ?thesis using hello_name_cut [OF v, of 1] by blast
qed

section \<open>Framing\<close>

text \<open>
  C10: packets framed one after the other and cut into reads at any points come out of the
  frame reader in order, each exactly once.
\<close>

theorem framed_stream:
  assumes "\<forall>p \<in> set ps. wf_packet p" "concat reads = concat (map (frame_bytes crc) ps)"
  shows "drain crc (length ps) (foldl feed frame_reader_new reads) = map (\<lambda>p. Inr (Some p)) ps"
  by (rule stream_roundtrip [OF assms])

lemma framed_stream_witness:
  "drain crc0 (length [hello_packet, hello_packet]) (foldl feed frame_reader_new
      [take 3 (frame_bytes crc0 hello_packet), drop 3 (frame_bytes crc0 hello_packet) @
       frame_bytes crc0 hello_packet]) = [Inr (Some hello_packet), Inr (Some hello_packet)]"
proof -
  have "concat [take 3 (frame_bytes crc0 hello_packet), drop 3 (frame_bytes crc0 hello_packet) @
      frame_bytes crc0 hello_packet] = concat (map (frame_bytes crc0) [hello_packet, hello_packet])"
    by (simp flip: append_assoc)
  then show ?thesis
    using framed_stream [of "[hello_packet, hello_packet]" _ crc0] wf_hello_packet by fastforce
qed

text \<open>
  The frame reader recovers from anything: after any reads at all, the packets framed
  next are delivered as the last frames of its queue, behind at most one damaged frame, and
  its buffer never exceeds the frame limit.
\<close>

lemma reader_resyncs:
  fixes crc :: "bytes \<Rightarrow> u16" and evs :: "reader_event list"
  assumes "\<forall>p \<in> set ps. wf_packet p"
  defines "r \<equiv> foldl (reader_step crc) frame_reader_new evs"
  shows "\<exists>junk. fr_ready (feed r (concat (map (frame_bytes crc) ps)))
        = fr_ready r @ junk @ map (\<lambda>p. frame_body crc p @ [0]) ps
      \<and> length junk \<le> 1
      \<and> map (decode_frame crc) (map (\<lambda>p. frame_body crc p @ [0]) ps) = map Inr ps
      \<and> length (fr_partial r) \<le> MAX_FRAME_SIZE"
proof -
  have inv: "reader_inv r" unfolding r_def by (rule readerm.reachable_inv) (simp add: list_all_iff)
  have small: "\<forall>p \<in> set ps. length (serialize (p_message p)) \<le> MAX_PAYLOAD"
    using assms(1) by (simp add: wf_packet_def)
  have "map (decode_frame crc) (map (\<lambda>p. frame_body crc p @ [0]) ps) = map Inr ps"
    using assms(1) by (simp add: decode_frame_body)
  then show ?thesis
    using feed_frames [OF inv small] inv unfolding reader_inv_def by blast
qed

lemma reader_resyncs_witness:
  "\<exists>junk. fr_ready (feed (foldl (reader_step crc0) frame_reader_new [Fed [7, 1, 2]])
      (concat (map (frame_bytes crc0) [hello_packet])))
    = fr_ready (foldl (reader_step crc0) frame_reader_new [Fed [7, 1, 2]])
      @ junk @ map (\<lambda>p. frame_body crc0 p @ [0]) [hello_packet] \<and> length junk \<le> 1"
  using reader_resyncs [of "[hello_packet]" crc0 "[Fed [7, 1, 2]]"] wf_hello_packet by auto

section \<open>The serial reader\<close>

text \<open>
  From a clean buffer the serial loop delivers every frame of a stream, however the port
  cuts it into blocks.
\<close>

lemma serial_delivers:
  assumes "\<forall>p \<in> set ps. wf_packet p" "flowing s" "ss_read_buf s = []"
    and "incoming s = concat (map (frame_bytes crc) ps)"
  shows "fst (read_frames crc (length ps) s) = map Inr ps"
  by (rule read_frames_deliver [OF assms])

definition hello_port :: serial where
  "hello_port = serial_new [ReadOk (frame_bytes crc0 hello_packet)]"

lemma hello_port_props:
  "flowing hello_port" "incoming hello_port = frame_bytes crc0 hello_packet"
  "ss_read_buf hello_port = []"
proof -
  have "length (serialize (p_message hello_packet)) \<le> MAX_PAYLOAD"
    using wf_hello_packet by (simp add: wf_packet_def)
  then have "frame_bytes crc0 hello_packet \<noteq> []" by (simp add: frame_bytes_eq)
  then show "flowing hello_port" by (simp add: flowing_def hello_port_def serial_new_def)
qed (simp_all add: incoming_def hello_port_def serial_new_def)

lemma serial_delivers_witness: "fst (read_frames crc0 1 hello_port) = [Inr hello_packet]"
  using serial_delivers [of "[hello_packet]" hello_port crc0] wf_hello_packet hello_port_props
  by simp

text \<open>
  One frame that does not decode poisons the serial reader: its bytes and the delimiter
  stay in the buffer, so each of the valid frames that follow is lost and costs two protocol
  errors, until the buffer overflows or the error storm reopens the port.
\<close>

lemma serial_poisoned_by_bad_frame:
  assumes "flowing s" "ss_read_buf s = []" "0 \<notin> set body" "body \<noteq> []"
    and "cobs_decode (body @ [0]) = Inl e"
    and "incoming s = body @ 0 # concat (map (frame_bytes crc) ps)"
    and "\<forall>p \<in> set ps. wf_packet p" "length (incoming s) \<le> MAX_FRAME_SIZE"
  shows "map rx_event_of (fst (read_frames crc (Suc (2 * length ps)) s))
    = replicate (Suc (2 * length ps)) ProtocolError"
proof -
  have "length (ss_read_buf s @ body) \<le> MAX_FRAME_SIZE" using assms(2,6,8) by simp
  then obtain s1 where s1: "frame_loop s = (Inr (), s1)" "flowing s1"
      "incoming s1 = concat (map (frame_bytes crc) ps)" "ss_read_buf s1 = body @ [0]"
    using frame_loop_body [OF assms(1,6,3)] assms(2,4) by auto
  let ?s = "s1\<lparr>ss_partial_timeouts := 0\<rparr>"
  have rf: "read_frame crc s = (Inl (cobs_error e), ?s)"
    using read_frame_complete [OF s1(1), of crc] s1(4) assms(5) by simp
  have "poisoned ?s" using s1 by (simp add: poisoned_def)
  then have "map rx_event_of (fst (read_frames crc (2 * length ps) ?s))
      = replicate (2 * length ps) ProtocolError"
    using assms(6-8) s1 by (intro read_frames_poisoned) (auto simp: wf_packet_def)
  then show ?thesis using rf by (simp add: case_prod_beta rx_event_of_def cobs_error_def)
qed

definition bad_port :: serial where
  "bad_port = serial_new [ReadOk ([5, 1] @ 0 # frame_bytes crc0 hello_packet)]"

lemma serial_poisoned_by_bad_frame_witness:
  "map rx_event_of (fst (read_frames crc0 (Suc (2 * length [hello_packet])) bad_port))
   = replicate (Suc (2 * length [hello_packet])) ProtocolError"
proof -
  have bad: "cobs_decode ([5, 1] @ [0]) = Inl Truncated" by code_simp
  have "length (frame_bytes crc0 hello_packet) \<le> 8000"
    by code_simp
  then have "length (incoming bad_port) \<le> MAX_FRAME_SIZE"
    by (simp add: incoming_def bad_port_def serial_new_def MAX_FRAME_SIZE_def)
  moreover have "flowing bad_port" "ss_read_buf bad_port = []"
    "incoming bad_port = [5, 1] @ 0 # concat (map (frame_bytes crc0) [hello_packet])"
    by (simp_all add: flowing_def incoming_def bad_port_def serial_new_def)
  moreover have "0 \<notin> set [5, 1 :: u8]" "[5, 1 :: u8] \<noteq> []" by simp_all
  ultimately show ?thesis
    using serial_poisoned_by_bad_frame [of bad_port "[5, 1]" Truncated crc0 "[hello_packet]"]
      bad wf_hello_packet by (metis list.set(1,2) singletonD empty_set set_ConsD)
qed

section \<open>The error storm\<close>

text \<open>
  The storm detector reports exactly when the protocol errors since the last valid packet,
  the new one included, reach its threshold; timeouts and other events do not count.
\<close>

lemma storm_exact:
  "storm_fires (storm_new t) es \<longleftrightarrow> unat t \<le> Suc (errors_since_valid 0 es)"
  using storm_fires_iff [of "storm_new t" es] by (simp add: storm_new_def)

section \<open>Reconnecting\<close>

text \<open>
  The host's reconnect delay is the capped power of two, between one and thirty seconds
  and never decreasing; the client's schedule is the same one counted from its first attempt.
\<close>

lemma reconnect_schedules:
  "host_next_backoff a = min (2 ^ unat a) 30
   \<and> 1 \<le> host_next_backoff a \<and> host_next_backoff a \<le> 30
   \<and> (a \<le> b \<longrightarrow> host_next_backoff a \<le> host_next_backoff b)
   \<and> (a \<noteq> 0 \<longrightarrow> backoff_delay a = host_next_backoff (a - 1))"
  using host_next_backoff_eq host_next_backoff_bounds host_next_backoff_mono backoff_delay_host
  by blast

lemma reconnect_schedules_witness:
  "host_next_backoff 2 \<le> host_next_backoff 7 \<and> backoff_delay 3 = host_next_backoff 2"
  using reconnect_schedules [of 2 7] reconnect_schedules [of 3 3] by simp

section \<open>Streaming text\<close>

text \<open>
  Decoding shell output chunk by chunk gives the text of the whole stream: the cuts
  between chunks never damage a character.
\<close>

lemma utf8_chunks_do_not_matter:
  "(let (txt, s) = utf8_push_all utf8_stream_new cs in txt @ fst (utf8_finish s))
     = utf8_lossy (concat cs)"
  by (rule utf8_stream_lossy)

section \<open>BLE fragments\<close>



section \<open>File names\<close>

text \<open>
  Whatever a peer sends as a file name, the name written to the cache is not empty, holds
  no path separator and no character Windows forbids, neither begins nor ends with white
  space, and is no reserved device name.
\<close>

lemma file_name_safe: "safe_name (sanitize_basename raw)"
  by (rule sanitize_safe)

text \<open>
  Sanitising twice is sanitising once, except for the one directory alias that gets
  through: the code drops segments equal to \<open>..\<close> before it trims, so \<open>..\<close> followed by a
  space comes out as \<open>..\<close> itself.
\<close>

lemma file_name_fixed_point:
  "(sanitize_basename raw \<noteq> lit ''..'' \<longrightarrow>
      sanitize_basename (sanitize_basename raw) = sanitize_basename raw)
   \<and> sanitize_basename (lit ''.. '') = lit ''..''"
  using sanitize_idempotent sanitize_dotdot_space by blast

end
