(* ===== verification/BrowserStream.thy ===== *)
theory BrowserStream
  imports Packet
begin

text \<open>
  The stream worker of \<open>crates/wiredesk-browser/src/lib.rs\<close>: a stop-and-wait byte stream over
  browser frames. One turn of \<open>worker\<close>'s loop is a function of the worker and of what its
  surroundings answer in that turn: the room in the output channel, the frames in the input
  channel, the socket, the credit counter and the clock. Stream offsets are naturals; the code's
  \<open>checked_add\<close> is the explicit test against \<open>2 ^ 64\<close>. The frames emitted and the bytes read
  from and written to the socket are logged in the state.
\<close>

section \<open>Frames\<close>

definition MAX_STREAMS :: nat where "MAX_STREAMS = 8"
definition CHUNK :: nat where "CHUNK = MAX_PAYLOAD - 13"
definition K_OPEN :: u8 where "K_OPEN = 1"
definition K_READY :: u8 where "K_READY = 2"
definition K_DATA :: u8 where "K_DATA = 3"
definition K_ACK :: u8 where "K_ACK = 4"
definition K_FIN :: u8 where "K_FIN = 5"
definition K_RESET :: u8 where "K_RESET = 6"
definition K_FIN_ACK :: u8 where "K_FIN_ACK = 7"
definition K_OPEN_DESKTOP :: u8 where "K_OPEN_DESKTOP = 8"
definition RETRY :: nat where "RETRY = 2000"
definition STALL :: nat where "STALL = 30000"

lemmas kind_defs = K_OPEN_def K_READY_def K_DATA_def K_ACK_def K_FIN_def K_RESET_def
  K_FIN_ACK_def K_OPEN_DESKTOP_def

text \<open>\<open>frame\<close>, without the stream id: all frames of a worker carry its own.\<close>

record bframe =
  bf_kind :: u8
  bf_offset :: nat
  bf_data :: bytes

definition bframe_of :: "u8 \<Rightarrow> nat \<Rightarrow> bytes \<Rightarrow> bframe" where
  "bframe_of kind offset data = \<lparr>bf_kind = kind, bf_offset = offset, bf_data = data\<rparr>"

section \<open>The receiving half\<close>

datatype stream_error =
    InvalidDataSize
  | ChangedRetransmission
  | AckBeyondSent
  | TcpWriteZero
  | OffsetOverflow
  | StreamStalled
  | SocketError

record receive =
  rc_offset :: nat
  rc_pending :: "(bytes \<times> nat) option"

definition receive_new :: receive where
  "receive_new = \<lparr>rc_offset = 0, rc_pending = None\<rparr>"

definition receive_data :: "receive \<Rightarrow> nat \<Rightarrow> bytes \<Rightarrow> stream_error + (bool \<times> receive)" where
  "receive_data r offset data =
     (if length data > CHUNK \<or> data = [] then Inl InvalidDataSize
      else if offset \<noteq> rc_offset r then Inr (False, r)
      else case rc_pending r of
        Some (old, n) \<Rightarrow> if old \<noteq> data then Inl ChangedRetransmission else Inr (True, r)
      | None \<Rightarrow> Inr (True, r\<lparr>rc_pending := Some (data, 0)\<rparr>))"

section \<open>The credit counter\<close>

definition credit_claim :: "nat \<Rightarrow> nat option" where
  "credit_claim used = (if used < 2 then Some (used + 1) else None)"

definition credit_drop :: "nat \<Rightarrow> nat" where
  "credit_drop used = used - 1"

section \<open>The worker\<close>

record worker =
  w_host :: bool
  w_open_kind :: u8
  w_ready :: bool
  w_queued :: "bframe list"
  w_initial :: bytes
  w_send_offset :: nat
  w_flight :: "(bytes \<times> nat) option"
  w_receive :: receive
  w_local_eof :: bool
  w_remote_eof :: bool
  w_fin_acked :: bool
  w_fin_sent :: "nat option"
  w_progress :: nat
  w_open_sent :: nat
  w_out :: "bframe list"
  w_chunks :: "bytes list"
  w_written :: bytes

definition worker_new :: "bool \<Rightarrow> u8 \<Rightarrow> bytes \<Rightarrow> nat \<Rightarrow> worker" where
  "worker_new host open_kind initial now =
     \<lparr>w_host = host, w_open_kind = open_kind, w_ready = host,
      w_queued = [bframe_of (if host then K_READY else open_kind) 0 []], w_initial = initial,
      w_send_offset = 0, w_flight = None, w_receive = receive_new, w_local_eof = False,
      w_remote_eof = False, w_fin_acked = False, w_fin_sent = None, w_progress = now,
      w_open_sent = now, w_out = [], w_chunks = [], w_written = []\<rparr>"

definition push :: "bframe \<Rightarrow> worker \<Rightarrow> worker" where
  "push f w = w\<lparr>w_queued := w_queued w @ [f]\<rparr>"

text \<open>What a turn finds around it.\<close>

datatype write_outcome = Accepts nat | WriteBlocks | WriteFails
datatype read_outcome = Yields bytes | ReadBlocks | ReadFails

record turn =
  t_now :: nat
  t_stop :: bool
  t_room :: nat
  t_output_gone :: bool
  t_input :: "bframe list"
  t_input_gone :: bool
  t_write :: write_outcome
  t_read :: read_outcome
  t_shutdown_ok :: bool
  t_credit :: nat

text \<open>A turn goes on, ends the worker without an error, or ends it with one.\<close>

datatype flow = Continue | Finished | Failed stream_error

text \<open>The flush of the queue: frames go out while there is room.\<close>

definition flush_queue :: "turn \<Rightarrow> worker \<Rightarrow> flow \<times> worker" where
  "flush_queue t w =
     (if w_queued w = [] then (Continue, w)
      else if t_output_gone t then (Finished, w)
      else (Continue, w\<lparr>w_out := w_out w @ take (t_room t) (w_queued w),
                        w_queued := drop (t_room t) (w_queued w)\<rparr>))"

text \<open>The match on one received frame, guards in the code's order.\<close>

definition handle_frame :: "turn \<Rightarrow> bframe \<Rightarrow> worker \<Rightarrow> flow \<times> worker" where
  "handle_frame t f w =
     (let kind = bf_kind f; offset = bf_offset f; r = w_receive w in
      if kind = K_RESET then (Finished, w)
      else if (kind = K_OPEN \<or> kind = K_OPEN_DESKTOP) \<and> w_host w
      then (Continue, push (bframe_of K_READY 0 []) w)
      else if kind = K_READY \<and> \<not> w_host w
      then (Continue, w\<lparr>w_ready := True, w_progress := t_now t\<rparr>)
      else if kind = K_DATA \<and> w_ready w \<and> \<not> w_remote_eof w
      then (case receive_data r offset (bf_data f) of
              Inl e \<Rightarrow> (Failed e, w)
            | Inr (ok, r') \<Rightarrow>
                let w1 = w\<lparr>w_receive := r'\<rparr> in
                (Continue, if ok then w1 else push (bframe_of K_ACK (rc_offset r') []) w1))
      else if kind = K_ACK
      then (if offset > w_send_offset w then (Failed AckBeyondSent, w)
            else case w_flight w of
              Some (data, sent) \<Rightarrow>
                if offset = w_send_offset w \<and> data \<noteq> []
                then (Continue, w\<lparr>w_flight := None, w_progress := t_now t\<rparr>) else (Continue, w)
            | None \<Rightarrow> (Continue, w))
      else if kind = K_FIN \<and> offset = rc_offset r \<and> rc_pending r = None
      then (if \<not> w_remote_eof w \<and> \<not> t_shutdown_ok t then (Failed SocketError, w)
            else (Continue, push (bframe_of K_FIN_ACK offset []) (w\<lparr>w_remote_eof := True\<rparr>)))
      else if kind = K_FIN then (Continue, push (bframe_of K_ACK (rc_offset r) []) w)
      else if kind = K_FIN_ACK \<and> w_fin_sent w \<noteq> None \<and> offset = w_send_offset w
      then (Continue, w\<lparr>w_fin_acked := True, w_progress := t_now t\<rparr>)
      else (Continue, w))"

text \<open>Up to sixteen frames a turn, until four replies are queued.\<close>

fun handle_inputs :: "turn \<Rightarrow> nat \<Rightarrow> bframe list \<Rightarrow> worker \<Rightarrow> flow \<times> worker" where
  "handle_inputs t 0 fs w = (Continue, w)"
| "handle_inputs t (Suc n) [] w = (if t_input_gone t then Finished else Continue, w)"
| "handle_inputs t (Suc n) (f # fs) w =
     (case handle_frame t f w of
        (Continue, w1) \<Rightarrow>
          if length (w_queued w1) \<ge> 4 then (Continue, w1) else handle_inputs t n fs w1
      | r \<Rightarrow> r)"

text \<open>Writing the pending chunk to the socket.\<close>

definition write_pending :: "turn \<Rightarrow> worker \<Rightarrow> flow \<times> worker" where
  "write_pending t w =
     (case rc_pending (w_receive w) of
        None \<Rightarrow> (Continue, w)
      | Some (data, written) \<Rightarrow>
          (case t_write t of
             WriteBlocks \<Rightarrow> (Continue, w)
           | WriteFails \<Rightarrow> (Failed SocketError, w)
           | Accepts k \<Rightarrow>
               let n = min k (length data - written) in
               if n = 0 then (Failed TcpWriteZero, w)
               else
                 let w1 = w\<lparr>w_written := w_written w @ take n (drop written data),
                           w_receive := (w_receive w)\<lparr>rc_pending := Some (data, written + n)\<rparr>\<rparr> in
                 if written + n = length data
                 then
                   let offset' = rc_offset (w_receive w) + length data in
                   if offset' \<ge> 2 ^ 64 then (Failed OffsetOverflow, w1)
                   else (Continue, push (bframe_of K_ACK offset' [])
                           (w1\<lparr>w_receive := \<lparr>rc_offset = offset', rc_pending = None\<rparr>,
                               w_progress := t_now t\<rparr>))
                 else (Continue, w1)))"

text \<open>An error ends the worker and its queue with it, so the push before it is not modelled.\<close>

text \<open>Taking the next chunk off the initial bytes or the socket.\<close>

definition next_chunk :: "turn \<Rightarrow> worker \<Rightarrow> flow \<times> bytes \<times> worker" where
  "next_chunk t w =
     (let data = take CHUNK (w_initial w); w1 = w\<lparr>w_initial := drop CHUNK (w_initial w)\<rparr> in
      if data \<noteq> [] then (Continue, data, w1)
      else case t_read t of
        Yields bs \<Rightarrow>
          let d = take CHUNK bs in
          if d = [] then (Continue, [], w1\<lparr>w_local_eof := True\<rparr>) else (Continue, d, w1)
      | ReadBlocks \<Rightarrow> (Continue, [], w1)
      | ReadFails \<Rightarrow> (Failed SocketError, [], w1))"

definition send_chunk :: "turn \<Rightarrow> worker \<Rightarrow> flow \<times> worker" where
  "send_chunk t w =
     (if \<not> (w_ready w \<and> w_flight w = None \<and> \<not> w_local_eof w) then (Continue, w)
      else case credit_claim (t_credit t) of
        None \<Rightarrow> (Continue, w)
      | Some used \<Rightarrow>
          (case next_chunk t w of
             (Continue, data, w1) \<Rightarrow>
               if data = [] then (Continue, w1)
               else
                 let w2 = push (bframe_of K_DATA (w_send_offset w1) data) w1;
                     offset' = w_send_offset w1 + length data in
                 if offset' \<ge> 2 ^ 64 then (Failed OffsetOverflow, w1)
                 else (Continue, w2\<lparr>w_send_offset := offset', w_flight := Some (data, t_now t),
                                    w_progress := t_now t, w_chunks := w_chunks w2 @ [data]\<rparr>)
           | (r, data, w1) \<Rightarrow> (r, w1)))"

text \<open>The retransmissions and the end of the stream.\<close>

definition retry :: "turn \<Rightarrow> worker \<Rightarrow> worker" where
  "retry t w =
     (let w1 =
        (case w_flight w of
           Some (data, sent) \<Rightarrow>
             if t_now t - sent \<ge> RETRY
             then (push (bframe_of K_DATA (w_send_offset w - length data) data) w)
                    \<lparr>w_flight := Some (data, t_now t)\<rparr>
             else w
         | None \<Rightarrow>
             if w_local_eof w \<and> \<not> w_fin_acked w
                \<and> (case w_fin_sent w of None \<Rightarrow> True | Some s \<Rightarrow> t_now t - s \<ge> RETRY)
             then (push (bframe_of K_FIN (w_send_offset w) []) w)\<lparr>w_fin_sent := Some (t_now t)\<rparr>
             else w)
      in if \<not> w_ready w1 \<and> t_now t - w_open_sent w1 \<ge> RETRY
         then (push (bframe_of (w_open_kind w1) 0 []) w1)\<lparr>w_open_sent := t_now t\<rparr>
         else w1)"

text \<open>The checks at the end of a turn.\<close>

definition finish_turn :: "turn \<Rightarrow> worker \<Rightarrow> flow" where
  "finish_turn t w =
     (if w_local_eof w \<and> w_remote_eof w \<and> w_fin_acked w \<and> w_queued w = [] then Finished
      else if (\<not> w_ready w \<or> w_flight w \<noteq> None \<or> rc_pending (w_receive w) \<noteq> None
               \<or> (w_local_eof w \<and> \<not> w_fin_acked w))
              \<and> t_now t - w_progress w \<ge> STALL
      then Failed StreamStalled
      else Continue)"

definition flow_then :: "flow \<times> worker \<Rightarrow> (worker \<Rightarrow> flow \<times> worker) \<Rightarrow> flow \<times> worker" where
  "flow_then r k = (case r of (Continue, w) \<Rightarrow> k w | (x, w) \<Rightarrow> (x, w))"

definition worker_turn :: "turn \<Rightarrow> worker \<Rightarrow> flow \<times> worker" where
  "worker_turn t w0 =
     (if t_stop t then (Finished, w0)
      else
        flow_then (flush_queue t w0) (\<lambda>w.
        flow_then (if w_queued w = [] then handle_inputs t 16 (t_input t) w else (Continue, w)) (\<lambda>w.
        flow_then
          (if w_queued w = []
           then flow_then (write_pending t w) (\<lambda>w.
                flow_then (send_chunk t w) (\<lambda>w. (Continue, retry t w)))
           else (Continue, w))
          (\<lambda>w. (finish_turn t w, w)))))"


section \<open>The invariant of one direction\<close>

text \<open>Everything a worker has emitted or is about to, and the stream position of a chunk.\<close>

definition frames :: "worker \<Rightarrow> bframe set" where
  "frames w = set (w_out w) \<union> set (w_queued w)"

definition pos :: "bytes list \<Rightarrow> nat \<Rightarrow> nat" where
  "pos cs i = length (concat (take i cs))"

definition sender_ok :: "worker \<Rightarrow> bool" where
  "sender_ok s \<longleftrightarrow>
     w_send_offset s = length (concat (w_chunks s))
     \<and> (\<forall>d \<in> set (w_chunks s). d \<noteq> [] \<and> length d \<le> CHUNK)
     \<and> (\<forall>d t. w_flight s = Some (d, t) \<longrightarrow> w_chunks s \<noteq> [] \<and> last (w_chunks s) = d)
     \<and> (\<forall>f \<in> frames s. bf_kind f = K_DATA \<longrightarrow>
          (\<exists>i < length (w_chunks s). bf_offset f = pos (w_chunks s) i \<and> bf_data f = w_chunks s ! i))
     \<and> (\<forall>f \<in> frames s. bf_kind f = K_FIN \<longrightarrow>
          w_local_eof s \<and> w_flight s = None \<and> bf_offset f = w_send_offset s)"

definition pending_part :: "receive \<Rightarrow> bytes" where
  "pending_part r = (case rc_pending r of None \<Rightarrow> [] | Some (d, n) \<Rightarrow> take n d)"

definition received_upto :: "worker \<Rightarrow> worker \<Rightarrow> nat \<Rightarrow> bool" where
  "received_upto s r k \<longleftrightarrow>
     k \<le> length (w_chunks s) \<and> rc_offset (w_receive r) = pos (w_chunks s) k
     \<and> w_written r = concat (take k (w_chunks s)) @ pending_part (w_receive r)
     \<and> (\<forall>d n. rc_pending (w_receive r) = Some (d, n) \<longrightarrow> k < length (w_chunks s) \<and> d = w_chunks s ! k)
     \<and> (w_flight s = None \<longrightarrow> k = length (w_chunks s))"

definition replies_ok :: "worker \<Rightarrow> worker \<Rightarrow> bool" where
  "replies_ok s r \<longleftrightarrow>
     (\<forall>f \<in> frames r. bf_kind f = K_ACK \<longrightarrow> bf_offset f \<le> rc_offset (w_receive r))
     \<and> (\<forall>f \<in> frames r. bf_kind f = K_FIN_ACK \<longrightarrow> w_remote_eof r)
     \<and> (w_remote_eof r \<longrightarrow> w_local_eof s \<and> w_flight s = None)
     \<and> (w_fin_acked s \<longrightarrow> w_remote_eof r)"

definition dir_inv :: "worker \<Rightarrow> worker \<Rightarrow> bool" where
  "dir_inv s r \<longleftrightarrow> sender_ok s \<and> (\<exists>k. received_upto s r k) \<and> replies_ok s r"

lemma pos_Suc: "i < length cs \<Longrightarrow> pos cs (Suc i) = pos cs i + length (cs ! i)"
  by (simp add: pos_def take_Suc_conv_app_nth)

lemma pos_mono: "i \<le> j \<Longrightarrow> pos cs i \<le> pos cs j"
proof -
  assume "i \<le> j"
  then have "take j cs = take i cs @ take (j - i) (drop i cs)"
    by (metis le_add_diff_inverse take_add)
  then show ?thesis by (simp add: pos_def)
qed

lemma pos_strict:
  assumes "i < j" "j \<le> length cs" "\<forall>d \<in> set cs. d \<noteq> []"
  shows "pos cs i < pos cs j"
proof -
  have "pos cs i < pos cs (Suc i)" using assms by (simp add: pos_Suc)
  also have "\<dots> \<le> pos cs j" using assms(1) by (intro pos_mono) simp
  finally show ?thesis .
qed

lemma pos_inj:
  "i \<le> length cs \<Longrightarrow> j \<le> length cs \<Longrightarrow> \<forall>d \<in> set cs. d \<noteq> [] \<Longrightarrow> pos cs i = pos cs j \<longleftrightarrow> i = j"
  by (metis linorder_neq_iff pos_strict)

lemma pos_length: "pos cs (length cs) = length (concat cs)"
  by (simp add: pos_def)

lemma frames_push [simp]: "frames (push f w) = insert f (frames w)"
  by (auto simp: frames_def push_def)

lemma push_fields [simp]:
  "w_host (push f w) = w_host w" "w_ready (push f w) = w_ready w" "w_initial (push f w) = w_initial w"
  "w_send_offset (push f w) = w_send_offset w" "w_flight (push f w) = w_flight w"
  "w_receive (push f w) = w_receive w" "w_local_eof (push f w) = w_local_eof w"
  "w_remote_eof (push f w) = w_remote_eof w" "w_fin_acked (push f w) = w_fin_acked w"
  "w_fin_sent (push f w) = w_fin_sent w" "w_out (push f w) = w_out w"
  "w_chunks (push f w) = w_chunks w" "w_written (push f w) = w_written w"
  "w_open_kind (push f w) = w_open_kind w" "w_open_sent (push f w) = w_open_sent w"
  by (simp_all add: push_def)

lemma frames_update [simp]:
  "frames (w\<lparr>w_ready := a\<rparr>) = frames w" "frames (w\<lparr>w_progress := n\<rparr>) = frames w"
  "frames (w\<lparr>w_receive := r\<rparr>) = frames w" "frames (w\<lparr>w_flight := x\<rparr>) = frames w"
  "frames (w\<lparr>w_remote_eof := a\<rparr>) = frames w" "frames (w\<lparr>w_fin_acked := a\<rparr>) = frames w"
  "frames (w\<lparr>w_written := bs\<rparr>) = frames w" "frames (w\<lparr>w_initial := bs\<rparr>) = frames w"
  "frames (w\<lparr>w_local_eof := a\<rparr>) = frames w" "frames (w\<lparr>w_send_offset := n\<rparr>) = frames w"
  "frames (w\<lparr>w_chunks := cs\<rparr>) = frames w" "frames (w\<lparr>w_fin_sent := y\<rparr>) = frames w"
  "frames (w\<lparr>w_open_sent := n\<rparr>) = frames w"
  by (simp_all add: frames_def)

lemma bframe_of_fields [simp]:
  "bf_kind (bframe_of k off d) = k" "bf_offset (bframe_of k off d) = off" "bf_data (bframe_of k off d) = d"
  by (simp_all add: bframe_of_def)

text \<open>The fields one direction looks at, on either side.\<close>

definition same_sender :: "worker \<Rightarrow> worker \<Rightarrow> bool" where
  "same_sender w w' \<longleftrightarrow> w_send_offset w' = w_send_offset w \<and> w_chunks w' = w_chunks w
     \<and> w_flight w' = w_flight w \<and> w_local_eof w' = w_local_eof w \<and> w_fin_acked w' = w_fin_acked w
     \<and> (\<forall>f \<in> frames w'. f \<in> frames w \<or> (bf_kind f \<noteq> K_DATA \<and> bf_kind f \<noteq> K_FIN))"

definition same_receiver :: "worker \<Rightarrow> worker \<Rightarrow> bool" where
  "same_receiver w w' \<longleftrightarrow> w_receive w' = w_receive w \<and> w_written w' = w_written w
     \<and> w_remote_eof w' = w_remote_eof w
     \<and> (\<forall>f \<in> frames w'. f \<in> frames w \<or> (bf_kind f \<noteq> K_ACK \<and> bf_kind f \<noteq> K_FIN_ACK))"

lemma same_sender_inv:
  assumes "same_sender s s'" "dir_inv s r"
  shows "dir_inv s' r"
proof -
  have eqs: "w_send_offset s' = w_send_offset s" "w_chunks s' = w_chunks s" "w_flight s' = w_flight s"
    "w_local_eof s' = w_local_eof s" "w_fin_acked s' = w_fin_acked s"
    and fr: "f \<in> frames s' \<Longrightarrow> bf_kind f = K_DATA \<or> bf_kind f = K_FIN \<Longrightarrow> f \<in> frames s" for f
    using assms(1) by (auto simp: same_sender_def)
  have "sender_ok s'" using assms(2) fr unfolding dir_inv_def sender_ok_def eqs by blast
  moreover have "received_upto s' r k = received_upto s r k" for k
    by (simp add: received_upto_def eqs)
  moreover have "replies_ok s' r = replies_ok s r" by (simp add: replies_ok_def eqs)
  ultimately show ?thesis using assms(2) by (simp add: dir_inv_def)
qed

lemma same_receiver_inv:
  assumes "same_receiver r r'" "dir_inv s r"
  shows "dir_inv s r'"
proof -
  have eqs: "w_receive r' = w_receive r" "w_written r' = w_written r" "w_remote_eof r' = w_remote_eof r"
    and fr: "f \<in> frames r' \<Longrightarrow> bf_kind f = K_ACK \<or> bf_kind f = K_FIN_ACK \<Longrightarrow> f \<in> frames r" for f
    using assms(1) by (auto simp: same_receiver_def)
  have "replies_ok s r'" using assms(2) fr unfolding dir_inv_def replies_ok_def eqs by blast
  moreover have "received_upto s r' k = received_upto s r k" for k
    by (simp add: received_upto_def eqs)
  ultimately show ?thesis using assms(2) by (simp add: dir_inv_def)
qed

lemma same_refl [simp]: "same_sender w w" "same_receiver w w"
  by (simp_all add: same_sender_def same_receiver_def)


section \<open>Every phase keeps both directions\<close>

text \<open>The frames a worker may be handed: those its peer emitted, and resets.\<close>

definition from_peer :: "worker \<Rightarrow> bframe \<Rightarrow> bool" where
  "from_peer p f \<longleftrightarrow> f \<in> frames p \<or> bf_kind f = K_RESET"

definition both_inv :: "worker \<Rightarrow> worker \<Rightarrow> bool" where
  "both_inv w p \<longleftrightarrow> dir_inv w p \<and> dir_inv p w"

lemma flush_queue_inv:
  assumes "both_inv w p"
  shows "both_inv (snd (flush_queue t w)) p"
proof -
  have "frames (w\<lparr>w_out := w_out w @ take n (w_queued w), w_queued := drop n (w_queued w)\<rparr>) = frames w" for n
    unfolding frames_def by (simp add: Un_assoc flip: set_append)
  then have "same_sender w (snd (flush_queue t w))" "same_receiver w (snd (flush_queue t w))"
    by (auto simp: flush_queue_def same_sender_def same_receiver_def)
  then show ?thesis
    using assms same_sender_inv same_receiver_inv unfolding both_inv_def by blast
qed

text \<open>A reply or a note that concerns neither direction's data.\<close>

lemma both_same:
  "same_sender w w' \<Longrightarrow> same_receiver w w' \<Longrightarrow> both_inv w p \<Longrightarrow> both_inv w' p"
  using same_sender_inv same_receiver_inv unfolding both_inv_def by blast

text \<open>A chunk that arrives: the position in the stream decides.\<close>

lemma receive_data_ok:
  assumes "both_inv w p" "f \<in> frames p" "bf_kind f = K_DATA"
  shows "\<exists>ok r'. receive_data (w_receive w) (bf_offset f) (bf_data f) = Inr (ok, r')
    \<and> rc_offset r' = rc_offset (w_receive w)
    \<and> both_inv (w\<lparr>w_receive := r'\<rparr>) p"
proof -
  have inv: "dir_inv p w" "dir_inv w p" using assms(1) by (auto simp: both_inv_def)
  have ok: "sender_ok p" using inv(1) by (simp add: dir_inv_def)
  obtain i where i: "i < length (w_chunks p)" "bf_offset f = pos (w_chunks p) i" "bf_data f = w_chunks p ! i"
    using ok assms(2,3) unfolding sender_ok_def by blast
  obtain k where k: "received_upto p w k" using inv(1) by (auto simp: dir_inv_def)
  have ne: "\<forall>d \<in> set (w_chunks p). d \<noteq> []" and sz: "\<forall>d \<in> set (w_chunks p). d \<noteq> [] \<and> length d \<le> CHUNK"
    using ok by (auto simp: sender_ok_def)
  have data: "bf_data f \<noteq> []" "length (bf_data f) \<le> CHUNK" using sz i(1,3) by auto
  have at: "bf_offset f = rc_offset (w_receive w) \<longleftrightarrow> i = k"
    using k i(1,2) pos_inj [OF _ _ ne, of i k] by (simp add: received_upto_def)
  have sender: "dir_inv (w\<lparr>w_receive := r'\<rparr>) p" for r'
    using inv(2) by (simp add: dir_inv_def sender_ok_def received_upto_def replies_ok_def)
  show ?thesis
  proof (cases "bf_offset f = rc_offset (w_receive w)")
    case False
    then show ?thesis
      using data assms(1) by (intro exI [of _ False] exI [of _ "w_receive w"]) (simp add: receive_data_def)
  next
    case True
    then have ik: "i = k" using at by simp
    show ?thesis
    proof (cases "rc_pending (w_receive w)")
      case None
      let ?r = "(w_receive w)\<lparr>rc_pending := Some (bf_data f, 0)\<rparr>"
      have "received_upto p (w\<lparr>w_receive := ?r\<rparr>) k"
        using k i ik None by (auto simp: received_upto_def pending_part_def)
      moreover have "replies_ok p (w\<lparr>w_receive := ?r\<rparr>)"
        using inv(1) by (simp add: dir_inv_def replies_ok_def)
      ultimately have "dir_inv p (w\<lparr>w_receive := ?r\<rparr>)" using ok by (auto simp: dir_inv_def)
      then show ?thesis
        using True None data sender by (auto simp: receive_data_def both_inv_def)
    next
      case (Some q)
      then obtain old n where q: "rc_pending (w_receive w) = Some (old, n)" by (cases q) auto
      then have "old = bf_data f" using k i ik by (auto simp: received_upto_def)
      then show ?thesis using True q data assms(1) by (auto simp: receive_data_def)
    qed
  qed
qed

lemma push_ack_inv:
  assumes "both_inv w p" "n \<le> rc_offset (w_receive w)"
  shows "both_inv (push (bframe_of K_ACK n []) w) p"
proof -
  let ?w = "push (bframe_of K_ACK n []) w"
  have "same_sender w ?w" by (auto simp: same_sender_def kind_defs)
  moreover have "dir_inv p ?w"
    using assms by (auto simp: both_inv_def dir_inv_def received_upto_def replies_ok_def kind_defs)
  ultimately show ?thesis using assms(1) same_sender_inv by (auto simp: both_inv_def)
qed

lemma ack_clears:
  assumes "both_inv w p" "f \<in> frames p" "bf_kind f = K_ACK" "bf_offset f = w_send_offset w"
  shows "both_inv (w\<lparr>w_flight := None, w_progress := n\<rparr>) p"
proof -
  let ?w = "w\<lparr>w_flight := None, w_progress := n\<rparr>"
  have inv: "dir_inv w p" "dir_inv p w" using assms(1) by (auto simp: both_inv_def)
  obtain k where k: "received_upto w p k" using inv(1) by (auto simp: dir_inv_def)
  have s: "sender_ok w" and r: "replies_ok w p" using inv(1) by (auto simp: dir_inv_def)
  have ne: "\<forall>d \<in> set (w_chunks w). d \<noteq> []" using s by (auto simp: sender_ok_def)
  have "w_send_offset w \<le> rc_offset (w_receive p)"
    using r assms(2-4) unfolding replies_ok_def by metis
  then have "pos (w_chunks w) (length (w_chunks w)) \<le> pos (w_chunks w) k"
    using s k by (simp add: sender_ok_def received_upto_def pos_length)
  then have "k = length (w_chunks w)"
    using k pos_strict [of k "length (w_chunks w)" "w_chunks w"] ne
    by (fastforce simp: received_upto_def)
  then have "received_upto ?w p k" using k by (simp add: received_upto_def)
  moreover have "sender_ok ?w" using s by (auto simp: sender_ok_def)
  moreover have "replies_ok ?w p" using r by (auto simp: replies_ok_def)
  moreover have "dir_inv p ?w"
    using inv(2) by (simp add: dir_inv_def received_upto_def replies_ok_def)
  ultimately show ?thesis by (auto simp: both_inv_def dir_inv_def)
qed

lemma fin_accepted:
  assumes "both_inv w p" "f \<in> frames p" "bf_kind f = K_FIN"
  shows "both_inv (push (bframe_of K_FIN_ACK (bf_offset f) []) (w\<lparr>w_remote_eof := True\<rparr>)) p"
proof -
  let ?w = "push (bframe_of K_FIN_ACK (bf_offset f) []) (w\<lparr>w_remote_eof := True\<rparr>)"
  have inv: "dir_inv w p" "dir_inv p w" using assms(1) by (auto simp: both_inv_def)
  have "w_local_eof p \<and> w_flight p = None"
    using inv(2) assms(2,3) unfolding dir_inv_def sender_ok_def by blast
  then have "dir_inv p ?w"
    using inv(2) by (auto simp: dir_inv_def received_upto_def replies_ok_def kind_defs)
  moreover have "same_sender w ?w" by (auto simp: same_sender_def kind_defs)
  ultimately show ?thesis using inv(1) same_sender_inv by (auto simp: both_inv_def)
qed

lemma fin_acked:
  assumes "both_inv w p" "f \<in> frames p" "bf_kind f = K_FIN_ACK"
  shows "both_inv (w\<lparr>w_fin_acked := True, w_progress := n\<rparr>) p"
proof -
  let ?w = "w\<lparr>w_fin_acked := True, w_progress := n\<rparr>"
  have inv: "dir_inv w p" "dir_inv p w" using assms(1) by (auto simp: both_inv_def)
  have "w_remote_eof p" using inv(1) assms(2,3) unfolding dir_inv_def replies_ok_def by blast
  then have "replies_ok ?w p" using inv(1) by (simp add: dir_inv_def replies_ok_def)
  moreover have "sender_ok ?w = sender_ok w" by (simp add: sender_ok_def)
  moreover have "received_upto ?w p k = received_upto w p k" for k by (simp add: received_upto_def)
  ultimately have "dir_inv ?w p" using inv(1) by (simp add: dir_inv_def)
  moreover have "dir_inv p ?w"
    using inv(2) by (simp add: dir_inv_def received_upto_def replies_ok_def)
  ultimately show ?thesis by (simp add: both_inv_def)
qed


definition peer_fault :: "flow \<Rightarrow> bool" where
  "peer_fault r \<longleftrightarrow>
     r = Failed InvalidDataSize \<or> r = Failed ChangedRetransmission \<or> r = Failed AckBeyondSent"

lemma same_notes:
  "same_sender w (w\<lparr>w_ready := b, w_progress := n\<rparr>)" "same_receiver w (w\<lparr>w_ready := b, w_progress := n\<rparr>)"
  "same_sender w (push (bframe_of K_READY 0 []) w)" "same_receiver w (push (bframe_of K_READY 0 []) w)"
  by (auto simp: same_sender_def same_receiver_def kind_defs)

lemma handle_frame_inv:
  assumes "both_inv w p" "from_peer p f"
  shows "both_inv (snd (handle_frame t f w)) p \<and> \<not> peer_fault (fst (handle_frame t f w))"
proof (cases "bf_kind f = K_RESET")
  case True
  then show ?thesis using assms(1) by (simp add: handle_frame_def peer_fault_def)
next
  case False
  then have f: "f \<in> frames p" using assms(2) by (simp add: from_peer_def)
  have inv: "dir_inv w p" "dir_inv p w" using assms(1) by (auto simp: both_inv_def)
  consider (op) "bf_kind f = K_OPEN \<or> bf_kind f = K_OPEN_DESKTOP" | (ready) "bf_kind f = K_READY"
    | (data) "bf_kind f = K_DATA" | (ack) "bf_kind f = K_ACK" | (fin) "bf_kind f = K_FIN"
    | (finack) "bf_kind f = K_FIN_ACK"
    | (other) "bf_kind f \<notin> {K_OPEN, K_OPEN_DESKTOP, K_READY, K_DATA, K_ACK, K_FIN, K_FIN_ACK}"
    by auto
  then show ?thesis
  proof cases
    case op
    then show ?thesis
      using both_same [OF same_notes(3,4) assms(1)] assms(1) False
      by (auto simp: handle_frame_def Let_def peer_fault_def kind_defs)
  next
    case ready
    then show ?thesis
      using both_same [OF same_notes(1,2) assms(1)] assms(1) False
      by (auto simp: handle_frame_def Let_def peer_fault_def kind_defs)
  next
    case data
    obtain ok r' where r': "receive_data (w_receive w) (bf_offset f) (bf_data f) = Inr (ok, r')"
        "rc_offset r' = rc_offset (w_receive w)" "both_inv (w\<lparr>w_receive := r'\<rparr>) p"
      using receive_data_ok [OF assms(1) f data] by blast
    have "both_inv (push (bframe_of K_ACK (rc_offset r') []) (w\<lparr>w_receive := r'\<rparr>)) p"
      using push_ack_inv [OF r'(3)] by simp
    then show ?thesis
      using data r' assms(1) False
      by (auto simp: handle_frame_def Let_def peer_fault_def kind_defs)
  next
    case ack
    obtain k where k: "received_upto w p k" using inv(1) by (auto simp: dir_inv_def)
    have "bf_offset f \<le> rc_offset (w_receive p)"
      using inv(1) f ack unfolding dir_inv_def replies_ok_def by blast
    also have "\<dots> \<le> w_send_offset w"
      using k inv(1) pos_mono [of k "length (w_chunks w)" "w_chunks w"]
      by (simp add: received_upto_def dir_inv_def sender_ok_def pos_length)
    finally have le: "\<not> bf_offset f > w_send_offset w" by simp
    have clear: "both_inv (w\<lparr>w_flight := None, w_progress := t_now t\<rparr>) p"
      if "bf_offset f = w_send_offset w"
      using ack_clears [OF assms(1) f ack that] .
    show ?thesis
      using ack le clear assms(1) False
      by (auto simp: handle_frame_def Let_def peer_fault_def kind_defs split: option.split)
  next
    case fin
    have acked: "both_inv (push (bframe_of K_ACK (rc_offset (w_receive w)) []) w) p"
      using push_ack_inv [OF assms(1)] by simp
    have accepted: "both_inv (push (bframe_of K_FIN_ACK (bf_offset f) []) (w\<lparr>w_remote_eof := True\<rparr>)) p"
      using fin_accepted [OF assms(1) f fin] .
    show ?thesis
      using fin acked accepted assms(1) False
      by (auto simp: handle_frame_def Let_def peer_fault_def kind_defs)
  next
    case finack
    have "both_inv (w\<lparr>w_fin_acked := True, w_progress := t_now t\<rparr>) p"
      using fin_acked [OF assms(1) f finack] .
    then show ?thesis
      using finack assms(1) False
      by (auto simp: handle_frame_def Let_def peer_fault_def kind_defs)
  next
    case other
    then show ?thesis
      using assms(1) False by (auto simp: handle_frame_def Let_def peer_fault_def)
  qed
qed

lemma handle_inputs_inv:
  "both_inv w p \<Longrightarrow> \<forall>f \<in> set fs. from_peer p f \<Longrightarrow>
   both_inv (snd (handle_inputs t n fs w)) p \<and> \<not> peer_fault (fst (handle_inputs t n fs w))"
proof (induction t n fs w rule: handle_inputs.induct)
  case (3 t n f fs w)
  obtain c w1 where h: "handle_frame t f w = (c, w1)" by (cases "handle_frame t f w")
  have w1: "both_inv w1 p" "\<not> peer_fault c"
    using handle_frame_inv [OF 3(2), of f t] 3(3) h by simp_all
  then show ?case using 3(1,3) h by (cases c) (auto simp: peer_fault_def)
qed (auto simp: peer_fault_def)

lemma write_pending_inv:
  assumes "both_inv w p"
  shows "both_inv (snd (write_pending t w)) p \<and> \<not> peer_fault (fst (write_pending t w))"
proof (cases "\<exists>data written k. rc_pending (w_receive w) = Some (data, written) \<and> t_write t = Accepts k
    \<and> min k (length data - written) \<noteq> 0")
  case False
  then show ?thesis
    using assms by (auto simp: write_pending_def peer_fault_def Let_def
        split: option.splits write_outcome.splits)
next
  case True
  then obtain data written k where pend: "rc_pending (w_receive w) = Some (data, written)"
      "t_write t = Accepts k" "min k (length data - written) \<noteq> 0" by blast
  define n where "n = min k (length data - written)"
  define w1 where "w1 = w\<lparr>w_written := w_written w @ take n (drop written data),
      w_receive := (w_receive w)\<lparr>rc_pending := Some (data, written + n)\<rparr>\<rparr>"
  have inv: "dir_inv w p" "dir_inv p w" using assms by (auto simp: both_inv_def)
  obtain i where i: "received_upto p w i" using inv(2) by (auto simp: dir_inv_def)
  have ne: "\<forall>d \<in> set (w_chunks p). d \<noteq> []" using inv(2) by (auto simp: dir_inv_def sender_ok_def)
  have chunk: "i < length (w_chunks p)" "data = w_chunks p ! i"
    using i pend(1) by (auto simp: received_upto_def)
  have written: "w_written w @ take n (drop written data) = concat (take i (w_chunks p)) @ take (written + n) data"
    using i pend(1) by (simp add: received_upto_def pending_part_def take_add)
  have s1: "same_sender w w1" by (simp add: same_sender_def w1_def)
  have r1: "dir_inv p w1"
  proof -
    have "received_upto p w1 i"
      using i chunk written unfolding w1_def by (simp add: received_upto_def pending_part_def)
    moreover have "replies_ok p w1" using inv(2) by (simp add: dir_inv_def replies_ok_def w1_def)
    ultimately show ?thesis using inv(2) by (auto simp: dir_inv_def)
  qed
  show ?thesis
  proof (cases "written + n = length data")
    case False
    then have "write_pending t w = (Continue, w1)"
      using pend by (simp add: write_pending_def Let_def n_def w1_def)
    then show ?thesis
      using r1 same_sender_inv [OF s1 inv(1)] by (simp add: both_inv_def peer_fault_def)
  next
    case True
    define off where "off = rc_offset (w_receive w) + length data"
    let ?w2 = "push (bframe_of K_ACK off []) (w1\<lparr>w_receive := \<lparr>rc_offset = off, rc_pending = None\<rparr>,
      w_progress := t_now t\<rparr>)"
    have wp: "write_pending t w = (if off \<ge> 2 ^ 64 then (Failed OffsetOverflow, w1) else (Continue, ?w2))"
      using pend True by (simp add: write_pending_def Let_def n_def w1_def off_def)
    have "received_upto p ?w2 (Suc i)"
      using i chunk written True ne unfolding w1_def off_def
      by (auto simp: received_upto_def pending_part_def pos_Suc take_Suc_conv_app_nth)
    moreover have "replies_ok p ?w2"
      using inv(2) by (auto simp: dir_inv_def replies_ok_def w1_def off_def kind_defs)
    ultimately have "dir_inv p ?w2" using inv(2) by (auto simp: dir_inv_def)
    moreover have "same_sender w ?w2" by (auto simp: same_sender_def w1_def kind_defs)
    ultimately show ?thesis
      using wp r1 same_sender_inv [OF s1 inv(1)] same_sender_inv [of w ?w2 p] inv(1)
      by (simp add: both_inv_def peer_fault_def)
  qed
qed


text \<open>A new chunk: only with nothing in flight, so the peer has everything before it.\<close>

lemma new_chunk_inv:
  assumes "both_inv w p" "w_flight w = None" "\<not> w_local_eof w" "data \<noteq> []" "length data \<le> CHUNK"
  shows "both_inv ((push (bframe_of K_DATA (w_send_offset w) data) w)
      \<lparr>w_send_offset := w_send_offset w + length data, w_flight := Some (data, n),
       w_progress := m, w_chunks := w_chunks w @ [data]\<rparr>) p"
proof -
  let ?w = "(push (bframe_of K_DATA (w_send_offset w) data) w)
      \<lparr>w_send_offset := w_send_offset w + length data, w_flight := Some (data, n),
       w_progress := m, w_chunks := w_chunks w @ [data]\<rparr>"
  have inv: "dir_inv w p" "dir_inv p w" using assms(1) by (auto simp: both_inv_def)
  have s: "sender_ok w" and r: "replies_ok w p" using inv(1) by (auto simp: dir_inv_def)
  have fr: "frames ?w = insert (bframe_of K_DATA (w_send_offset w) data) (frames w)"
    by (simp add: frames_def push_def)
  have old: "pos (w_chunks w @ [data]) i = pos (w_chunks w) i" if "i \<le> length (w_chunks w)" for i
    using that by (simp add: pos_def)
  have nofin: "f \<in> frames w \<Longrightarrow> bf_kind f \<noteq> K_FIN" for f
    using s assms(3) unfolding sender_ok_def by blast
  have "sender_ok ?w"
    unfolding sender_ok_def fr
  proof (intro conjI ballI impI allI)
    fix f assume f: "f \<in> insert (bframe_of K_DATA (w_send_offset w) data) (frames w)" "bf_kind f = K_DATA"
    show "\<exists>i < length (w_chunks ?w). bf_offset f = pos (w_chunks ?w) i \<and> bf_data f = w_chunks ?w ! i"
    proof (cases "f \<in> frames w")
      case True
      then obtain i where "i < length (w_chunks w)" "bf_offset f = pos (w_chunks w) i"
          "bf_data f = w_chunks w ! i"
        using s f(2) unfolding sender_ok_def by blast
      then show ?thesis using old by (intro exI [of _ i]) (simp add: nth_append)
    next
      case False
      then have "f = bframe_of K_DATA (w_send_offset w) data" using f(1) by simp
      then show ?thesis
        using s old by (intro exI [of _ "length (w_chunks w)"]) (simp add: sender_ok_def pos_length)
    qed
  qed (use s assms(4,5) nofin in \<open>auto simp: sender_ok_def kind_defs\<close>)
  moreover have "\<exists>k. received_upto ?w p k"
  proof -
    obtain k where k: "received_upto w p k" using inv(1) by (auto simp: dir_inv_def)
    then have "k = length (w_chunks w)" using assms(2) by (simp add: received_upto_def)
    then have "received_upto ?w p k" using k old by (auto simp: received_upto_def)
    then show ?thesis by blast
  qed
  moreover have "replies_ok ?w p"
    using r assms(3) by (auto simp: replies_ok_def)
  moreover have "same_receiver w ?w" by (auto simp: same_receiver_def fr kind_defs)
  ultimately show ?thesis
    using inv(2) same_receiver_inv by (auto simp: both_inv_def dir_inv_def)
qed

lemma next_chunk_fields:
  assumes "next_chunk t w = (c, data, w1)"
  shows "w1 = w\<lparr>w_initial := drop CHUNK (w_initial w)\<rparr>
      \<or> (w1 = w\<lparr>w_initial := drop CHUNK (w_initial w), w_local_eof := True\<rparr> \<and> data = [])"
    and "length data \<le> CHUNK" "\<not> peer_fault c" "c \<noteq> Continue \<Longrightarrow> data = []"
  using assms
  by (auto simp: next_chunk_def Let_def peer_fault_def split: if_splits read_outcome.splits)

lemma local_eof_inv:
  assumes "both_inv w p" "w_flight w = None"
  shows "both_inv (w\<lparr>w_initial := i, w_local_eof := True\<rparr>) p" "both_inv (w\<lparr>w_initial := i\<rparr>) p"
proof -
  have a: "same_receiver w (w\<lparr>w_initial := i, w_local_eof := True\<rparr>)" "same_receiver w (w\<lparr>w_initial := i\<rparr>)"
    "same_sender w (w\<lparr>w_initial := i\<rparr>)"
    by (simp_all add: same_receiver_def same_sender_def)
  have inv: "dir_inv w p" "dir_inv p w" using assms(1) by (auto simp: both_inv_def)
  have "sender_ok (w\<lparr>w_initial := i, w_local_eof := True\<rparr>)"
    using inv(1) by (auto simp: dir_inv_def sender_ok_def)
  moreover have "received_upto (w\<lparr>w_initial := i, w_local_eof := True\<rparr>) p k = received_upto w p k" for k
    by (simp add: received_upto_def)
  moreover have "replies_ok (w\<lparr>w_initial := i, w_local_eof := True\<rparr>) p"
    using inv(1) by (auto simp: dir_inv_def replies_ok_def)
  ultimately show "both_inv (w\<lparr>w_initial := i, w_local_eof := True\<rparr>) p"
    using inv same_receiver_inv [OF a(1)] by (auto simp: both_inv_def dir_inv_def)
  show "both_inv (w\<lparr>w_initial := i\<rparr>) p" using both_same [OF a(3,2) assms(1)] .
qed

lemma send_chunk_inv:
  assumes "both_inv w p"
  shows "both_inv (snd (send_chunk t w)) p \<and> \<not> peer_fault (fst (send_chunk t w))"
proof (cases "w_ready w \<and> w_flight w = None \<and> \<not> w_local_eof w \<and> credit_claim (t_credit t) \<noteq> None")
  case False
  then show ?thesis
    using assms by (auto simp: send_chunk_def peer_fault_def split: option.split)
next
  case True
  obtain c data w1 where n: "next_chunk t w = (c, data, w1)" by (cases "next_chunk t w")
  note nf = next_chunk_fields [OF n]
  have w1: "both_inv w1 p" using nf(1) local_eof_inv [OF assms] True by auto
  have keep: "w_flight w1 = None" using nf(1) True by auto
  show ?thesis
  proof (cases "c = Continue \<and> data \<noteq> []")
    case False
    then show ?thesis
      using True n w1 nf(3) by (cases c) (auto simp: send_chunk_def peer_fault_def split: option.split)
  next
    case cd: True
    then have "\<not> w_local_eof w1" using nf(1) True by auto
    then have "both_inv ((push (bframe_of K_DATA (w_send_offset w1) data) w1)
      \<lparr>w_send_offset := w_send_offset w1 + length data, w_flight := Some (data, t_now t),
       w_progress := t_now t, w_chunks := w_chunks w1 @ [data]\<rparr>) p"
      using new_chunk_inv [OF w1 keep] cd nf(2) by simp
    then show ?thesis
      using True n cd w1 by (auto simp: send_chunk_def peer_fault_def Let_def split: option.split)
  qed
qed

text \<open>Retransmissions repeat what was sent.\<close>

lemma retry_data_inv:
  assumes "both_inv w p" "w_flight w = Some (data, sent)"
  shows "both_inv ((push (bframe_of K_DATA (w_send_offset w - length data) data) w)
    \<lparr>w_flight := Some (data, n)\<rparr>) p"
proof -
  let ?w = "(push (bframe_of K_DATA (w_send_offset w - length data) data) w)\<lparr>w_flight := Some (data, n)\<rparr>"
  have inv: "dir_inv w p" "dir_inv p w" using assms(1) by (auto simp: both_inv_def)
  have s: "sender_ok w" and r: "replies_ok w p" using inv(1) by (auto simp: dir_inv_def)
  have fr: "frames ?w = insert (bframe_of K_DATA (w_send_offset w - length data) data) (frames w)"
    by (simp add: frames_def push_def)
  have lst: "w_chunks w \<noteq> []" "last (w_chunks w) = data"
    using s assms(2) by (auto simp: sender_ok_def)
  let ?i = "length (w_chunks w) - 1"
  have "w_send_offset w = pos (w_chunks w) (Suc ?i)"
    using s lst(1) by (simp add: sender_ok_def pos_length)
  also have "\<dots> = pos (w_chunks w) ?i + length data"
    using lst by (subst pos_Suc) (simp_all add: last_conv_nth)
  finally have at: "w_send_offset w - length data = pos (w_chunks w) ?i" by simp
  have nofin: "f \<in> frames w \<Longrightarrow> bf_kind f \<noteq> K_FIN" for f
    using s assms(2) unfolding sender_ok_def by (metis option.distinct(1))
  have "sender_ok ?w"
    unfolding sender_ok_def fr
  proof (intro conjI ballI impI allI)
    fix f assume f: "f \<in> insert (bframe_of K_DATA (w_send_offset w - length data) data) (frames w)"
      "bf_kind f = K_DATA"
    show "\<exists>i < length (w_chunks ?w). bf_offset f = pos (w_chunks ?w) i \<and> bf_data f = w_chunks ?w ! i"
    proof (cases "f \<in> frames w")
      case True
      then show ?thesis using s f(2) unfolding sender_ok_def by auto
    next
      case False
      then have "f = bframe_of K_DATA (w_send_offset w - length data) data" using f(1) by simp
      then show ?thesis
        using at lst by (intro exI [of _ ?i]) (simp add: last_conv_nth)
    qed
  qed (use s assms(2) nofin in \<open>auto simp: sender_ok_def kind_defs\<close>)
  moreover have "\<exists>k. received_upto ?w p k"
    using inv(1) assms(2) by (auto simp: dir_inv_def received_upto_def)
  moreover have "replies_ok ?w p" using r assms(2) by (auto simp: replies_ok_def)
  moreover have "same_receiver w ?w" by (auto simp: same_receiver_def fr kind_defs)
  ultimately show ?thesis
    using inv(2) same_receiver_inv by (auto simp: both_inv_def dir_inv_def)
qed

lemma retry_fin_inv:
  assumes "both_inv w p" "w_flight w = None" "w_local_eof w"
  shows "both_inv ((push (bframe_of K_FIN (w_send_offset w) []) w)\<lparr>w_fin_sent := n\<rparr>) p"
proof -
  let ?w = "(push (bframe_of K_FIN (w_send_offset w) []) w)\<lparr>w_fin_sent := n\<rparr>"
  have inv: "dir_inv w p" "dir_inv p w" using assms(1) by (auto simp: both_inv_def)
  have fr: "frames ?w = insert (bframe_of K_FIN (w_send_offset w) []) (frames w)"
    by (simp add: frames_def push_def)
  have "sender_ok ?w"
    using inv(1) assms(2,3) unfolding dir_inv_def sender_ok_def fr by (auto simp: kind_defs)
  moreover have "received_upto ?w p k = received_upto w p k" for k by (simp add: received_upto_def)
  moreover have "replies_ok ?w p = replies_ok w p" by (simp add: replies_ok_def)
  moreover have "same_receiver w ?w" by (auto simp: same_receiver_def fr kind_defs)
  ultimately show ?thesis
    using inv same_receiver_inv by (auto simp: both_inv_def dir_inv_def)
qed

text \<open>The reopening frame: kinds 1 and 8, for whatever \<open>open_kind\<close> a worker was spawned with.\<close>

definition open_kind_ok :: "worker \<Rightarrow> bool" where
  "open_kind_ok w \<longleftrightarrow> w_open_kind w = K_OPEN \<or> w_open_kind w = K_OPEN_DESKTOP"

lemma retry_open_inv:
  assumes "both_inv w p" "open_kind_ok w"
  shows "both_inv ((push (bframe_of (w_open_kind w) 0 []) w)\<lparr>w_open_sent := n\<rparr>) p"
proof -
  let ?w = "(push (bframe_of (w_open_kind w) 0 []) w)\<lparr>w_open_sent := n\<rparr>"
  have "same_sender w ?w" "same_receiver w ?w"
    using assms(2) by (auto simp: same_sender_def same_receiver_def open_kind_ok_def kind_defs)
  then show ?thesis using both_same assms(1) by blast
qed

lemma retry_inv:
  assumes "both_inv w p" "open_kind_ok w"
  shows "both_inv (retry t w) p"
proof -
  define w1 where "w1 = (case w_flight w of
           Some (data, sent) \<Rightarrow>
             if t_now t - sent \<ge> RETRY
             then (push (bframe_of K_DATA (w_send_offset w - length data) data) w)
                    \<lparr>w_flight := Some (data, t_now t)\<rparr>
             else w
         | None \<Rightarrow>
             if w_local_eof w \<and> \<not> w_fin_acked w
                \<and> (case w_fin_sent w of None \<Rightarrow> True | Some s \<Rightarrow> t_now t - s \<ge> RETRY)
             then (push (bframe_of K_FIN (w_send_offset w) []) w)\<lparr>w_fin_sent := Some (t_now t)\<rparr>
             else w)"
  have "both_inv w1 p"
    unfolding w1_def using assms(1) retry_data_inv [OF assms(1)] retry_fin_inv [OF assms(1)]
    by (auto split: option.split)
  moreover have "open_kind_ok w1"
    unfolding w1_def using assms(2) by (auto simp: open_kind_ok_def split: option.split)
  ultimately show ?thesis
    using retry_open_inv [of w1 p] by (simp add: retry_def flip: w1_def)
qed

section \<open>A whole turn\<close>

lemma open_kind_kept:
  "w_open_kind (snd (flush_queue t w)) = w_open_kind w"
  "w_open_kind (snd (handle_inputs t n fs w)) = w_open_kind w"
  "w_open_kind (snd (write_pending t w)) = w_open_kind w"
  "w_open_kind (snd (send_chunk t w)) = w_open_kind w"
  "w_open_kind (retry t w) = w_open_kind w"
proof -
  have either: "w_open_kind (snd x) = k \<Longrightarrow> w_open_kind (snd y) = k \<Longrightarrow>
      w_open_kind (snd (if b then x else y)) = k" for x y :: "flow \<times> worker" and b k
    by simp
  have frame: "w_open_kind (snd (handle_frame t f w)) = w_open_kind w" for t f w
    unfolding handle_frame_def Let_def
    by (rule either | simp split: sum.split option.split)+
  show "w_open_kind (snd (handle_inputs t n fs w)) = w_open_kind w"
  proof (induction t n fs w rule: handle_inputs.induct)
    case (3 t n f fs w)
    then show ?case using frame [of t f w]
      by (cases "handle_frame t f w") (auto split: flow.split)
  qed auto
  have chunk: "w_open_kind (snd (snd (next_chunk t w))) = w_open_kind w"
    using next_chunk_fields(1) [of t w "fst (next_chunk t w)" "fst (snd (next_chunk t w))"
        "snd (snd (next_chunk t w))"] by auto
  show "w_open_kind (snd (send_chunk t w)) = w_open_kind w"
  proof (cases "next_chunk t w")
    case (fields c data w1)
    then have "w_open_kind w1 = w_open_kind w" using chunk by simp
    then show ?thesis
      by (cases c) (auto simp: send_chunk_def fields Let_def split: option.split)
  qed
  show "w_open_kind (snd (write_pending t w)) = w_open_kind w"
    by (auto simp: write_pending_def Let_def split: option.split write_outcome.split)
  show "w_open_kind (snd (flush_queue t w)) = w_open_kind w"
    by (simp add: flush_queue_def)
  show "w_open_kind (retry t w) = w_open_kind w"
    by (auto simp: retry_def Let_def split: option.split)
qed

lemma flow_then_inv:
  assumes "P (snd r) \<and> \<not> peer_fault (fst r)" "\<And>w. fst r = Continue \<Longrightarrow> w = snd r \<Longrightarrow> P w \<Longrightarrow>
    P (snd (k w)) \<and> \<not> peer_fault (fst (k w))"
  shows "P (snd (flow_then r k)) \<and> \<not> peer_fault (fst (flow_then r k))"
  using assms by (cases r; cases "fst r") (auto simp: flow_then_def)

lemma finish_turn_no_fault: "\<not> peer_fault (finish_turn t w)"
  by (simp add: finish_turn_def peer_fault_def)

lemma worker_turn_inv:
  assumes "both_inv w p" "open_kind_ok w" "\<forall>f \<in> set (t_input t). from_peer p f"
  shows "(both_inv (snd (worker_turn t w)) p \<and> open_kind_ok (snd (worker_turn t w)))
    \<and> \<not> peer_fault (fst (worker_turn t w))"
proof -
  let ?P = "\<lambda>w. both_inv w p \<and> open_kind_ok w"
  have kind: "open_kind_ok w \<Longrightarrow> w_open_kind w' = w_open_kind w \<Longrightarrow> open_kind_ok w'" for w w'
    by (simp add: open_kind_ok_def)
  have flush: "?P w \<Longrightarrow> ?P (snd (flush_queue t w)) \<and> \<not> peer_fault (fst (flush_queue t w))" for w
    using flush_queue_inv [of w p t] kind [OF _ open_kind_kept(1)]
    by (auto simp: flush_queue_def peer_fault_def)
  have inputs: "?P w \<Longrightarrow> ?P (snd (handle_inputs t 16 (t_input t) w))
      \<and> \<not> peer_fault (fst (handle_inputs t 16 (t_input t) w))" for w
    using handle_inputs_inv [OF _ assms(3)] kind [OF _ open_kind_kept(2)] by blast
  have body: "?P w \<Longrightarrow> ?P (snd (flow_then (write_pending t w) (\<lambda>w.
      flow_then (send_chunk t w) (\<lambda>w. (Continue, retry t w)))))
    \<and> \<not> peer_fault (fst (flow_then (write_pending t w) (\<lambda>w.
      flow_then (send_chunk t w) (\<lambda>w. (Continue, retry t w)))))" for w
  proof (intro flow_then_inv [where P = ?P])
    show "?P w \<Longrightarrow> ?P (snd (write_pending t w)) \<and> \<not> peer_fault (fst (write_pending t w))"
      using write_pending_inv [of w p t] kind [OF _ open_kind_kept(3)] by blast
    show "?P v \<Longrightarrow> ?P (snd (send_chunk t v)) \<and> \<not> peer_fault (fst (send_chunk t v))" for v
      using send_chunk_inv [of v p t] kind [OF _ open_kind_kept(4)] by blast
    show "?P v \<Longrightarrow> ?P (snd (Continue, retry t v)) \<and> \<not> peer_fault (fst (Continue, retry t v))" for v
      using retry_inv [of v p t] kind [OF _ open_kind_kept(5)] by (auto simp: peer_fault_def)
  qed
  show ?thesis
  proof (cases "t_stop t")
    case True
    then show ?thesis using assms(1,2) by (simp add: worker_turn_def peer_fault_def)
  next
    case False
    have inputs': "?P v \<Longrightarrow>
        ?P (snd (if w_queued v = [] then handle_inputs t 16 (t_input t) v else (Continue, v)))
        \<and> \<not> peer_fault (fst (if w_queued v = [] then handle_inputs t 16 (t_input t) v else (Continue, v)))" for v
      using inputs [of v] by (simp add: peer_fault_def)
    have body': "?P v \<Longrightarrow>
        ?P (snd (if w_queued v = []
           then flow_then (write_pending t v) (\<lambda>w. flow_then (send_chunk t w) (\<lambda>w. (Continue, retry t w)))
           else (Continue, v)))
        \<and> \<not> peer_fault (fst (if w_queued v = []
           then flow_then (write_pending t v) (\<lambda>w. flow_then (send_chunk t w) (\<lambda>w. (Continue, retry t w)))
           else (Continue, v)))" for v
      using body [of v] by (simp add: peer_fault_def)
    have "?P (snd (worker_turn t w)) \<and> \<not> peer_fault (fst (worker_turn t w))"
      unfolding worker_turn_def if_not_P [OF False]
      by (intro flow_then_inv [where P = ?P] flush inputs' body')
        (use assms(1,2) in \<open>auto simp: finish_turn_no_fault\<close>)
    then show ?thesis by blast
  qed
qed

section \<open>Two workers and a lossy link\<close>

text \<open>
  The link may lose, repeat and reorder frames: a turn is handed any list of frames its peer
  has emitted so far, and resets. A worker whose turn did not continue takes no further turn.
\<close>

record tunnel =
  tn_near :: worker
  tn_far :: worker
  tn_near_up :: bool
  tn_far_up :: bool

definition emitted :: "worker \<Rightarrow> bframe \<Rightarrow> bool" where
  "emitted p f \<longleftrightarrow> f \<in> set (w_out p) \<or> bf_kind f = K_RESET"

inductive tunnel_step :: "tunnel \<Rightarrow> tunnel \<Rightarrow> bool" where
  near: "tn_near_up s \<Longrightarrow> \<forall>f \<in> set (t_input t). emitted (tn_far s) f \<Longrightarrow>
    worker_turn t (tn_near s) = (r, w) \<Longrightarrow>
    tunnel_step s (s\<lparr>tn_near := w, tn_near_up := (r = Continue)\<rparr>)"
| far: "tn_far_up s \<Longrightarrow> \<forall>f \<in> set (t_input t). emitted (tn_near s) f \<Longrightarrow>
    worker_turn t (tn_far s) = (r, w) \<Longrightarrow>
    tunnel_step s (s\<lparr>tn_far := w, tn_far_up := (r = Continue)\<rparr>)"

definition tunnel_start :: "u8 \<Rightarrow> bytes \<Rightarrow> nat \<Rightarrow> nat \<Rightarrow> tunnel" where
  "tunnel_start kind initial now1 now2 =
     \<lparr>tn_near = worker_new False kind initial now1, tn_far = worker_new True kind [] now2,
      tn_near_up = True, tn_far_up = True\<rparr>"

inductive tunnel_reachable :: "u8 \<Rightarrow> bytes \<Rightarrow> nat \<Rightarrow> nat \<Rightarrow> tunnel \<Rightarrow> bool"
  for kind initial now1 now2 where
  start: "tunnel_reachable kind initial now1 now2 (tunnel_start kind initial now1 now2)"
| step: "tunnel_reachable kind initial now1 now2 s \<Longrightarrow> tunnel_step s s' \<Longrightarrow>
    tunnel_reachable kind initial now1 now2 s'"

inductive_cases tunnel_stepE: "tunnel_step s s'"

definition tunnel_inv :: "tunnel \<Rightarrow> bool" where
  "tunnel_inv s \<longleftrightarrow> both_inv (tn_near s) (tn_far s)
     \<and> open_kind_ok (tn_near s) \<and> open_kind_ok (tn_far s)"

lemma both_inv_sym: "both_inv w p \<longleftrightarrow> both_inv p w"
  by (auto simp: both_inv_def)

lemma emitted_from_peer: "emitted p f \<Longrightarrow> from_peer p f"
  by (auto simp: emitted_def from_peer_def frames_def)

lemma tunnel_step_inv: "tunnel_step s s' \<Longrightarrow> tunnel_inv s \<Longrightarrow> tunnel_inv s'"
proof (induction rule: tunnel_step.induct)
  case (near s t r w)
  then show ?case
    using worker_turn_inv [of "tn_near s" "tn_far s" t] emitted_from_peer
    by (auto simp: tunnel_inv_def)
next
  case (far s t r w)
  then show ?case
    using worker_turn_inv [of "tn_far s" "tn_near s" t] emitted_from_peer
    by (auto simp: tunnel_inv_def both_inv_sym)
qed

lemma tunnel_start_inv:
  "kind = K_OPEN \<or> kind = K_OPEN_DESKTOP \<Longrightarrow> tunnel_inv (tunnel_start kind initial now1 now2)"
  by (auto simp: tunnel_inv_def tunnel_start_def both_inv_def dir_inv_def sender_ok_def
      received_upto_def replies_ok_def worker_new_def frames_def pending_part_def receive_new_def
      pos_def open_kind_ok_def kind_defs)

lemma tunnel_reachable_inv:
  assumes "tunnel_reachable kind initial now1 now2 s" "kind = K_OPEN \<or> kind = K_OPEN_DESKTOP"
  shows "tunnel_inv s"
  using assms(1)
proof (induction rule: tunnel_reachable.induct)
  case start
  show ?case using assms(2) by (rule tunnel_start_inv)
next
  case (step s s')
  then show ?case using tunnel_step_inv by blast
qed

section \<open>What the tunnel promises\<close>

text \<open>The bytes taken from one socket, and the fact that the other socket got a prefix of them.\<close>

definition taken :: "worker \<Rightarrow> bytes" where
  "taken w = concat (w_chunks w)"

lemma dir_prefix:
  assumes "dir_inv s r"
  shows "w_written r = take (length (w_written r)) (taken s)"
proof -
  obtain k where k: "received_upto s r k" using assms by (auto simp: dir_inv_def)
  have "\<exists>rest. taken s = w_written r @ rest"
  proof (cases "rc_pending (w_receive r)")
    case None
    then have "w_written r = concat (take k (w_chunks s))"
      using k by (simp add: received_upto_def pending_part_def)
    then show ?thesis unfolding taken_def by (metis append_take_drop_id concat_append)
  next
    case (Some q)
    obtain d n where q: "rc_pending (w_receive r) = Some (d, n)" using Some by (cases q) auto
    then have d: "k < length (w_chunks s)" "d = w_chunks s ! k"
      using k by (auto simp: received_upto_def)
    have "w_chunks s = take k (w_chunks s) @ d # drop (Suc k) (w_chunks s)"
      using d by (simp add: id_take_nth_drop)
    then have "taken s = concat (take k (w_chunks s)) @ d @ concat (drop (Suc k) (w_chunks s))"
      unfolding taken_def by (metis concat.simps(2) concat_append)
    then have "taken s = concat (take k (w_chunks s)) @ take n d @ (drop n d @ concat (drop (Suc k) (w_chunks s)))"
      by (metis append.assoc append_take_drop_id)
    then show ?thesis using k q by (simp add: received_upto_def pending_part_def)
  qed
  then show ?thesis by auto
qed

lemma dir_complete:
  assumes "dir_inv s r" "w_remote_eof r"
  shows "w_written r = taken s \<and> w_local_eof s"
proof -
  obtain k where k: "received_upto s r k" using assms by (auto simp: dir_inv_def)
  have eof: "w_local_eof s" "w_flight s = None"
    using assms by (auto simp: dir_inv_def replies_ok_def)
  then have "k = length (w_chunks s)" using k by (simp add: received_upto_def)
  moreover from this have "rc_pending (w_receive r) = None"
    using k by (cases "rc_pending (w_receive r)") (auto simp: received_upto_def)
  ultimately show ?thesis
    using k eof by (simp add: received_upto_def pending_part_def taken_def)
qed

lemma dir_acked: "dir_inv s r \<Longrightarrow> w_fin_acked s \<Longrightarrow> w_written r = taken s \<and> w_local_eof s"
  using dir_complete by (auto simp: dir_inv_def replies_ok_def)

text \<open>With nothing in flight the peer has written everything taken so far.\<close>

lemma dir_caught_up: "dir_inv s r \<Longrightarrow> w_flight s = None \<Longrightarrow> w_written r = taken s"
proof -
  assume a: "dir_inv s r" "w_flight s = None"
  then obtain k where k: "received_upto s r k" "k = length (w_chunks s)"
    by (auto simp: dir_inv_def received_upto_def)
  then have "rc_pending (w_receive r) = None"
    by (cases "rc_pending (w_receive r)") (auto simp: received_upto_def)
  then show ?thesis using k by (simp add: received_upto_def pending_part_def taken_def)
qed

end
