(* ===== verification/BTree.thy ===== *)
theory BTree
  imports Prelude
begin

text \<open>
  \<open>std::collections::BTreeMap\<close> as an association list in strictly ascending key order: the
  order in which the sources iterate over it. The lemmas relate it to a map.
\<close>

type_synonym ('k, 'v) btree = "('k \<times> 'v) list"

definition bt_wf :: "('k::linorder, 'v) btree \<Rightarrow> bool" where
  "bt_wf t \<longleftrightarrow> sorted_wrt (<) (map fst t)"

fun bt_insert :: "'k::linorder \<Rightarrow> 'v \<Rightarrow> ('k, 'v) btree \<Rightarrow> ('k, 'v) btree" where
  "bt_insert k v [] = [(k, v)]"
| "bt_insert k v ((k', v') # t) =
     (if k < k' then (k, v) # (k', v') # t
      else if k = k' then (k, v) # t
      else (k', v') # bt_insert k v t)"

definition bt_remove :: "'k \<Rightarrow> ('k, 'v) btree \<Rightarrow> ('k, 'v) btree" where
  "bt_remove k t = filter (\<lambda>(k', v). k' \<noteq> k) t"

lemma bt_wf_Nil [simp]: "bt_wf []"
  by (simp add: bt_wf_def)

lemma set_bt_insert_keys: "fst ` set (bt_insert k v t) = insert k (fst ` set t)"
  by (induction k v t rule: bt_insert.induct) auto

lemma bt_wf_insert [intro]: "bt_wf t \<Longrightarrow> bt_wf (bt_insert k v t)"
proof (induction k v t rule: bt_insert.induct)
  case (2 k v k' v' t)
  have "\<forall>x \<in> set t. k' < fst x" "bt_wf t" using 2(2) by (auto simp: bt_wf_def)
  moreover have "x \<in> set (bt_insert k v t) \<Longrightarrow> fst x = k \<or> (\<exists>y \<in> set t. fst x = fst y)" for x
    using set_bt_insert_keys [of k v t] by (metis image_eqI imageE insertE)
  then have "\<forall>x \<in> set (bt_insert k v t). k' < fst x" if "k' < k"
    using calculation(1) that by fastforce
  ultimately show ?case
    using 2 by (auto simp: bt_wf_def not_less order.strict_iff_order)
qed (simp add: bt_wf_def)

lemma map_of_bt_insert: "bt_wf t \<Longrightarrow> map_of (bt_insert k v t) = (map_of t)(k \<mapsto> v)"
proof (induction k v t rule: bt_insert.induct)
  case (2 k v k' v' t)
  have "\<forall>x \<in> set t. k' < fst x" using 2(2) by (auto simp: bt_wf_def)
  then have "k < k' \<Longrightarrow> map_of t k = None" by (fastforce simp: map_of_eq_None_iff)
  then show ?case using 2 by (auto simp: bt_wf_def fun_eq_iff)
qed simp

lemma bt_wf_distinct: "bt_wf t \<Longrightarrow> distinct (map fst t)"
  by (simp add: bt_wf_def strict_sorted_iff)

lemma bt_wf_remove: "bt_wf t \<Longrightarrow> bt_wf (bt_remove k t)"
  by (induction t) (auto simp: bt_wf_def bt_remove_def)

lemma map_of_bt_remove: "map_of (bt_remove k t) = (map_of t)(k := None)"
  by (induction t) (auto simp: bt_remove_def)

text \<open>Two well-formed trees with the same map are the same list.\<close>

lemma bt_eqI:
  assumes "bt_wf s" "bt_wf t" "map_of s = map_of t"
  shows "s = t"
proof -
  have "set (map fst s) = set (map fst t)"
    using assms(3) by (metis dom_map_of_conv_image_fst list.set_map)
  then have keys: "map fst s = map fst t"
    using assms(1,2) unfolding bt_wf_def by (intro strict_sorted_equal) auto
  show ?thesis
  proof (rule nth_equalityI)
    show len: "length s = length t" using keys by (metis length_map)
    fix i assume i: "i < length s"
    have k: "fst (s ! i) = fst (t ! i)" using keys i len by (metis nth_map)
    have "map_of s (fst (s ! i)) = Some (snd (s ! i))"
      using bt_wf_distinct [OF assms(1)] i by simp
    moreover have "map_of t (fst (t ! i)) = Some (snd (t ! i))"
      using bt_wf_distinct [OF assms(2)] i len by simp
    ultimately show "s ! i = t ! i" using k assms(3) by (simp add: prod_eq_iff)
  qed
qed

lemma length_bt_insert_le: "length (bt_insert k v t) \<le> Suc (length t)"
  by (induction k v t rule: bt_insert.induct) auto

end
