(* ===== verification/BrowserHub.thy ===== *)
theory BrowserHub
  imports BrowserStream BTree Interfaces
begin

text \<open>
  The hub of \<open>crates/wiredesk-browser/src/lib.rs\<close>: the table of streams, the bounded queues
  between it and its workers, and the epoch that separates sessions. A worker thread is its
  state from \<open>BrowserStream\<close> at the start; what the threads then do to the shared queues and
  flags are the environment steps of the machine at the end. Capacities are those of the
  \<open>sync_channel\<close>s.
\<close>

section \<open>Data\<close>

definition OUTPUT_CAP :: nat where "OUTPUT_CAP = 32"
definition INPUT_CAP :: nat where "INPUT_CAP = 16"

text \<open>\<open>frame\<close>.\<close>

definition browser_frame :: "u32 \<Rightarrow> u8 \<Rightarrow> u64 \<Rightarrow> bytes \<Rightarrow> message" where
  "browser_frame stream kind offset data = Browser stream kind offset data"

record endpoint =
  ep_input :: "message list"
  ep_stop :: bool
  ep_done :: bool
  ep_gone :: bool
  ep_worker :: worker

record hub =
  hb_streams :: "(u32, endpoint) btree"
  hb_output :: "(u64 \<times> message) list"
  hb_epoch :: u64
  hb_credit :: nat
  hb_desktop :: bool

definition hub_new :: "bool \<Rightarrow> hub" where
  "hub_new desktop =
     \<lparr>hb_streams = [], hb_output = [], hb_epoch = 0, hb_credit = 0, hb_desktop = desktop\<rparr>"

section \<open>Operations\<close>

text \<open>\<open>try_send\<close> into the output channel: dropped when it is full.\<close>

definition out_try_send :: "u64 \<Rightarrow> message \<Rightarrow> hub \<Rightarrow> hub" where
  "out_try_send epoch m h =
     (if length (hb_output h) < OUTPUT_CAP then h\<lparr>hb_output := hb_output h @ [(epoch, m)]\<rparr> else h)"

definition hub_reset :: "hub \<Rightarrow> hub" where
  "hub_reset h = h\<lparr>hb_streams := [], hb_epoch := hb_epoch h + 1, hb_credit := 0, hb_output := []\<rparr>"

definition hub_active :: "hub \<Rightarrow> nat \<times> hub" where
  "hub_active h =
     (let ss = filter (\<lambda>(sid, e). \<not> ep_done e) (hb_streams h) in (length ss, h\<lparr>hb_streams := ss\<rparr>))"

definition hub_spawn :: "u32 \<Rightarrow> bool \<Rightarrow> bytes \<Rightarrow> u8 \<Rightarrow> nat \<Rightarrow> hub \<Rightarrow> hub" where
  "hub_spawn sid accepted initial open_kind now h =
     (if \<not> accepted \<and> open_kind = K_OPEN_DESKTOP \<and> \<not> hb_desktop h
      then out_try_send (hb_epoch h) (browser_frame sid K_RESET 0 []) h
      else h\<lparr>hb_streams := bt_insert sid
             \<lparr>ep_input = [], ep_stop = False, ep_done = False, ep_gone = False,
              ep_worker = worker_new (\<not> accepted) open_kind initial now\<rparr> (hb_streams h)\<rparr>)"

definition hub_attach_kind :: "u8 \<Rightarrow> u32 \<Rightarrow> bytes \<Rightarrow> nat \<Rightarrow> hub \<Rightarrow> bool \<times> hub" where
  "hub_attach_kind kind sid initial now h =
     (if sid = 0 then (False, h)
      else
        let (n, h1) = hub_active h in
        if n \<ge> MAX_STREAMS \<or> map_of (hb_streams h1) sid \<noteq> None then (False, h1)
        else (True, hub_spawn sid True initial kind now h1))"

definition hub_attach :: "u32 \<Rightarrow> bytes \<Rightarrow> nat \<Rightarrow> hub \<Rightarrow> bool \<times> hub" where
  "hub_attach = hub_attach_kind K_OPEN"

definition hub_attach_desktop :: "u32 \<Rightarrow> bytes \<Rightarrow> nat \<Rightarrow> hub \<Rightarrow> bool \<times> hub" where
  "hub_attach_desktop = hub_attach_kind K_OPEN_DESKTOP"

definition in_try_send :: "message \<Rightarrow> endpoint \<Rightarrow> bool \<times> endpoint" where
  "in_try_send m e =
     (if length (ep_input e) < INPUT_CAP \<and> \<not> ep_gone e
      then (True, e\<lparr>ep_input := ep_input e @ [m]\<rparr>) else (False, e))"

definition hub_dispatch :: "message \<Rightarrow> bool \<Rightarrow> nat \<Rightarrow> hub \<Rightarrow> hub" where
  "hub_dispatch m host now h =
     (case m of
        Browser sid kind offset data \<Rightarrow>
          if sid = 0 then (if kind = K_RESET then hub_reset h else h)
          else if host \<and> (kind = K_OPEN \<or> kind = K_OPEN_DESKTOP) then
            (case map_of (hb_streams h) sid of
               Some e \<Rightarrow> h\<lparr>hb_streams := bt_insert sid (snd (in_try_send m e)) (hb_streams h)\<rparr>
             | None \<Rightarrow>
                 let (n, h1) = hub_active h in
                 if n < MAX_STREAMS then hub_spawn sid False [] kind now h1
                 else out_try_send (hb_epoch h1) (browser_frame sid K_RESET 0 []) h1)
          else
            (case map_of (hb_streams h) sid of
               Some e \<Rightarrow>
                 let (ok, e1) = in_try_send m e in
                 if ok then h\<lparr>hb_streams := bt_insert sid e1 (hb_streams h)\<rparr>
                 else out_try_send (hb_epoch h) (browser_frame sid K_RESET 0 [])
                        (h\<lparr>hb_streams := bt_insert sid (e1\<lparr>ep_stop := True\<rparr>) (hb_streams h)\<rparr>)
             | None \<Rightarrow>
                 if kind \<noteq> K_RESET
                 then out_try_send (hb_epoch h) (browser_frame sid K_RESET 0 []) h else h)
      | _ \<Rightarrow> h)"

text \<open>\<open>poll\<close>: up to 32 entries are taken; those of another epoch are dropped.\<close>

fun poll_output :: "nat \<Rightarrow> u64 \<Rightarrow> (u64 \<times> message) list \<Rightarrow> message option \<times> (u64 \<times> message) list" where
  "poll_output 0 epoch q = (None, q)"
| "poll_output (Suc n) epoch [] = (None, [])"
| "poll_output (Suc n) epoch ((e, m) # q) =
     (if e = epoch then (Some m, q) else poll_output n epoch q)"

definition hub_poll :: "hub \<Rightarrow> message option \<times> hub" where
  "hub_poll h =
     (let h1 = snd (hub_active h); (m, q) = poll_output 32 (hb_epoch h1) (hb_output h1)
      in (m, h1\<lparr>hb_output := q\<rparr>))"

section \<open>The invariant\<close>

definition endpoint_ok :: "u32 \<Rightarrow> endpoint \<Rightarrow> bool" where
  "endpoint_ok sid e \<longleftrightarrow> sid \<noteq> 0 \<and> length (ep_input e) \<le> INPUT_CAP
     \<and> (\<forall>m \<in> set (ep_input e). \<exists>kind offset data. m = Browser sid kind offset data)"

definition hub_inv :: "hub \<Rightarrow> bool" where
  "hub_inv h \<longleftrightarrow> bt_wf (hb_streams h) \<and> length (hb_streams h) \<le> MAX_STREAMS
     \<and> (\<forall>(sid, e) \<in> set (hb_streams h). endpoint_ok sid e)
     \<and> length (hb_output h) \<le> OUTPUT_CAP"

lemma out_try_send_inv: "hub_inv h \<Longrightarrow> hub_inv (out_try_send epoch m h)"
  by (auto simp: out_try_send_def hub_inv_def)

lemma hub_reset_inv: "hub_inv (hub_reset h)"
  by (simp add: hub_reset_def hub_inv_def)

lemma hub_active_inv:
  assumes "hub_inv h"
  shows "hub_inv (snd (hub_active h))" "fst (hub_active h) = length (hb_streams (snd (hub_active h)))"
proof -
  let ?ss = "filter (\<lambda>(sid, e). \<not> ep_done e) (hb_streams h)"
  have "bt_wf ?ss" using assms by (auto simp: hub_inv_def bt_wf_def sorted_wrt_map intro: sorted_wrt_filter)
  moreover have "length ?ss \<le> length (hb_streams h)" by simp
  then have "length (hb_streams h) \<le> MAX_STREAMS \<Longrightarrow> length ?ss \<le> MAX_STREAMS"
    by (rule le_trans)
  ultimately show "hub_inv (snd (hub_active h))"
    using assms by (auto simp: hub_active_def hub_inv_def Let_def)
  show "fst (hub_active h) = length (hb_streams (snd (hub_active h)))"
    by (simp add: hub_active_def Let_def)
qed

lemma set_bt_insert: "bt_wf t \<Longrightarrow> x \<in> set (bt_insert k v t) \<Longrightarrow> x = (k, v) \<or> x \<in> set t"
  by (induction k v t rule: bt_insert.induct) (auto simp: bt_wf_def split: if_splits)

lemma length_bt_insert_old: "bt_wf t \<Longrightarrow> map_of t k \<noteq> None \<Longrightarrow> length (bt_insert k v t) = length t"
proof (induction k v t rule: bt_insert.induct)
  case (2 k v k' v' t)
  have "\<forall>x \<in> set t. k' < fst x" using 2(2) by (auto simp: bt_wf_def)
  then have "k < k' \<Longrightarrow> map_of t k = None" by (fastforce simp: map_of_eq_None_iff)
  then show ?case using 2 by (auto simp: bt_wf_def split: if_splits)
qed simp

lemma insert_new_inv:
  assumes "hub_inv h" "length (hb_streams h) < MAX_STREAMS" "endpoint_ok sid e"
  shows "hub_inv (h\<lparr>hb_streams := bt_insert sid e (hb_streams h)\<rparr>)"
proof -
  have wf: "bt_wf (hb_streams h)" using assms(1) by (simp add: hub_inv_def)
  have "length (bt_insert sid e (hb_streams h)) \<le> MAX_STREAMS"
    using length_bt_insert_le [of sid e "hb_streams h"] assms(2) by simp
  then show ?thesis
    using assms(1,3) bt_wf_insert [OF wf] set_bt_insert [OF wf] by (fastforce simp: hub_inv_def)
qed

lemma insert_old_inv:
  assumes "hub_inv h" "map_of (hb_streams h) sid \<noteq> None" "endpoint_ok sid e"
  shows "hub_inv (h\<lparr>hb_streams := bt_insert sid e (hb_streams h)\<rparr>)"
proof -
  have wf: "bt_wf (hb_streams h)" using assms(1) by (simp add: hub_inv_def)
  then show ?thesis
    using assms length_bt_insert_old [OF wf assms(2)] bt_wf_insert [OF wf] set_bt_insert [OF wf]
    by (fastforce simp: hub_inv_def)
qed

lemma hub_spawn_inv:
  "hub_inv h \<Longrightarrow> length (hb_streams h) < MAX_STREAMS \<Longrightarrow> sid \<noteq> 0 \<Longrightarrow>
   hub_inv (hub_spawn sid accepted initial kind now h)"
  using insert_new_inv [of h sid] out_try_send_inv by (simp add: hub_spawn_def endpoint_ok_def)

lemma hub_attach_inv: "hub_inv h \<Longrightarrow> hub_inv (snd (hub_attach_kind kind sid initial now h))"
  using hub_active_inv [of h] hub_spawn_inv [of "snd (hub_active h)" sid True initial kind now]
  by (auto simp: hub_attach_kind_def case_prod_beta Let_def)

lemma in_try_send_ok:
  "endpoint_ok sid e \<Longrightarrow> m = Browser sid kind offset data \<Longrightarrow> endpoint_ok sid (snd (in_try_send m e))"
  by (auto simp: in_try_send_def endpoint_ok_def INPUT_CAP_def)

lemma hub_lookup_ok: "hub_inv h \<Longrightarrow> map_of (hb_streams h) sid = Some e \<Longrightarrow> endpoint_ok sid e"
  by (auto simp: hub_inv_def dest: map_of_SomeD)

lemma hub_dispatch_inv:
  assumes "hub_inv h"
  shows "hub_inv (hub_dispatch m host now h)"
proof (cases m)
  case (Browser sid kind offset data)
  show ?thesis
  proof (cases "sid = 0")
    case True
    then show ?thesis using assms hub_reset_inv Browser by (simp add: hub_dispatch_def)
  next
    case nz: False
    show ?thesis
    proof (cases "map_of (hb_streams h) sid")
      case None
      show ?thesis
        using Browser nz None assms hub_active_inv [OF assms] out_try_send_inv
          hub_spawn_inv [of "snd (hub_active h)" sid False "[]" kind now]
        by (auto simp: hub_dispatch_def case_prod_beta Let_def)
    next
      case (Some e)
      have ok: "endpoint_ok sid (snd (in_try_send m e))"
        using in_try_send_ok [OF hub_lookup_ok [OF assms Some] Browser] .
      then have ok2: "endpoint_ok sid ((snd (in_try_send m e))\<lparr>ep_stop := True\<rparr>)"
        by (simp add: endpoint_ok_def)
      show ?thesis
        using Browser nz Some insert_old_inv [OF assms _ ok] insert_old_inv [OF assms _ ok2]
          out_try_send_inv
        by (auto simp: hub_dispatch_def case_prod_beta Let_def)
    qed
  qed
qed (simp_all add: hub_dispatch_def assms)

lemma poll_output_subset: "poll_output n epoch q = (r, q') \<Longrightarrow> \<exists>pre. q = pre @ q'"
proof (induction n epoch q rule: poll_output.induct)
  case (3 n epoch e m q)
  show ?case
  proof (cases "e = epoch")
    case True
    then show ?thesis using 3(2) by (intro exI [of _ "[(e, m)]"]) simp
  next
    case False
    then obtain pre where "q = pre @ q'" using 3 by auto
    then show ?thesis by (intro exI [of _ "(e, m) # pre"]) simp
  qed
qed auto

lemma hub_poll_inv: "hub_inv h \<Longrightarrow> hub_inv (snd (hub_poll h))"
proof -
  assume inv: "hub_inv h"
  let ?h = "snd (hub_active h)"
  obtain r q where p: "poll_output 32 (hb_epoch ?h) (hb_output ?h) = (r, q)"
    by (cases "poll_output 32 (hb_epoch ?h) (hb_output ?h)")
  then have "length q \<le> length (hb_output ?h)" using poll_output_subset by fastforce
  then show ?thesis using hub_active_inv(1) [OF inv] p by (simp add: hub_poll_def Let_def hub_inv_def)
qed

section \<open>The hub and its workers\<close>

text \<open>What the hub is asked to do, and what the worker threads do to the shared state.\<close>

datatype hub_event =
    HubReset
  | HubAttach u32 bytes nat
  | HubAttachDesktop u32 bytes nat
  | HubDispatch message bool nat
  | HubPoll
  | WorkerSends u64 message
  | WorkerTakes u32
  | WorkerDone u32
  | WorkerGone u32

definition at_stream :: "u32 \<Rightarrow> (endpoint \<Rightarrow> endpoint) \<Rightarrow> hub \<Rightarrow> hub" where
  "at_stream sid f h =
     (case map_of (hb_streams h) sid of
        None \<Rightarrow> h | Some e \<Rightarrow> h\<lparr>hb_streams := bt_insert sid (f e) (hb_streams h)\<rparr>)"

fun hub_step :: "hub \<Rightarrow> hub_event \<Rightarrow> hub" where
  "hub_step h HubReset = hub_reset h"
| "hub_step h (HubAttach sid initial now) = snd (hub_attach sid initial now h)"
| "hub_step h (HubAttachDesktop sid initial now) = snd (hub_attach_desktop sid initial now h)"
| "hub_step h (HubDispatch m host now) = hub_dispatch m host now h"
| "hub_step h HubPoll = snd (hub_poll h)"
| "hub_step h (WorkerSends epoch m) = out_try_send epoch m h"
| "hub_step h (WorkerTakes sid) = at_stream sid (\<lambda>e. e\<lparr>ep_input := tl (ep_input e)\<rparr>) h"
| "hub_step h (WorkerDone sid) = at_stream sid (\<lambda>e. e\<lparr>ep_done := True\<rparr>) h"
| "hub_step h (WorkerGone sid) = at_stream sid (\<lambda>e. e\<lparr>ep_gone := True\<rparr>) h"

lemma at_stream_inv:
  assumes "hub_inv h" "\<And>e. endpoint_ok sid e \<Longrightarrow> endpoint_ok sid (f e)"
  shows "hub_inv (at_stream sid f h)"
  using assms insert_old_inv [of h sid] hub_lookup_ok [OF assms(1)]
  by (auto simp: at_stream_def split: option.split)

lemma hub_step_inv: "hub_inv h \<Longrightarrow> hub_inv (hub_step h ev)"
proof (cases ev)
  case (WorkerTakes sid)
  assume "hub_inv h"
  moreover have "endpoint_ok sid e \<Longrightarrow> endpoint_ok sid (e\<lparr>ep_input := tl (ep_input e)\<rparr>)" for e
    by (cases "ep_input e") (auto simp: endpoint_ok_def)
  ultimately show ?thesis using WorkerTakes by (simp add: at_stream_inv)
qed (auto simp: hub_reset_inv hub_attach_inv hub_attach_def hub_attach_desktop_def hub_dispatch_inv
    hub_poll_inv out_try_send_inv intro!: at_stream_inv simp: endpoint_ok_def)

interpretation hubm: init_machine hub_step hub_inv "\<lambda>e. True" "hub_new desktop" for desktop
  by unfold_locales (simp_all add: hub_step_inv, simp add: hub_inv_def hub_new_def)

section \<open>Sessions do not mix\<close>

text \<open>A frame that \<open>poll\<close> hands out carries the hub's current epoch.\<close>

lemma poll_output_epoch:
  "poll_output n epoch q = (Some m, q') \<Longrightarrow> (epoch, m) \<in> set q"
  by (induction n epoch q rule: poll_output.induct) (auto split: if_splits)

lemma hub_poll_current: "fst (hub_poll h) = Some m \<Longrightarrow> (hb_epoch h, m) \<in> set (hb_output h)"
  using poll_output_epoch [of 32 "hb_epoch h" "hb_output h" m]
  by (cases "poll_output 32 (hb_epoch h) (hb_output h)")
    (auto simp: hub_poll_def hub_active_def Let_def)

text \<open>
  After a reset nothing of the old session comes out, even when its workers are still sending:
  every frame polled was sent under the new epoch.
\<close>

definition stale_only :: "u64 \<Rightarrow> hub_event list \<Rightarrow> bool" where
  "stale_only epoch evs \<longleftrightarrow>
     (\<forall>ev \<in> set evs. ev = HubPoll \<or> (\<exists>m e. ev = WorkerSends e m \<and> e \<noteq> epoch)
        \<or> (\<exists>sid. ev = WorkerTakes sid \<or> ev = WorkerDone sid \<or> ev = WorkerGone sid))"

lemma at_stream_fields [simp]:
  "hb_output (at_stream sid f h) = hb_output h" "hb_epoch (at_stream sid f h) = hb_epoch h"
  by (simp_all add: at_stream_def split: option.split)

lemma hub_poll_fields:
  "hb_epoch (snd (hub_poll h)) = hb_epoch h" "set (hb_output (snd (hub_poll h))) \<subseteq> set (hb_output h)"
  using poll_output_subset [of 32 "hb_epoch h" "hb_output h"]
  by (auto simp: hub_poll_def hub_active_def Let_def case_prod_beta)
    (metis Un_iff prod.collapse set_append)

lemma stale_run:
  assumes "stale_only (hb_epoch h) evs" "\<forall>(e, m) \<in> set (hb_output h). e \<noteq> hb_epoch h"
  shows "hb_epoch (foldl hub_step h evs) = hb_epoch h
    \<and> (\<forall>(e, m) \<in> set (hb_output (foldl hub_step h evs)). e \<noteq> hb_epoch h)"
  using assms
proof (induction evs arbitrary: h)
  case (Cons ev evs)
  have "hb_epoch (hub_step h ev) = hb_epoch h
      \<and> (\<forall>(e, m) \<in> set (hb_output (hub_step h ev)). e \<noteq> hb_epoch h)"
    using Cons.prems hub_poll_fields [of h]
    by (cases ev) (fastforce simp: stale_only_def out_try_send_def split: if_splits)+
  then show ?case
    using Cons.IH [of "hub_step h ev"] Cons.prems(1) by (auto simp: stale_only_def)
qed simp

lemma reset_isolates:
  assumes "stale_only (hb_epoch (hub_reset h)) evs"
  shows "fst (hub_poll (foldl hub_step (hub_reset h) evs)) = None"
proof -
  let ?h = "foldl hub_step (hub_reset h) evs"
  have "hb_epoch ?h = hb_epoch (hub_reset h)
    \<and> (\<forall>(e, m) \<in> set (hb_output ?h). e \<noteq> hb_epoch (hub_reset h))"
    using assms by (rule stale_run) (simp add: hub_reset_def)
  then show ?thesis
    using hub_poll_current [of ?h] by (cases "fst (hub_poll ?h)") auto
qed

section \<open>Credits\<close>

text \<open>Claims and drops from the workers of one session: never more than two are out.\<close>

datatype credit_event = Claim | Drop

fun credit_step :: "nat \<times> nat \<Rightarrow> credit_event \<Rightarrow> nat \<times> nat" where
  "credit_step (used, held) Claim =
     (case credit_claim used of None \<Rightarrow> (used, held) | Some u \<Rightarrow> (u, held + 1))"
| "credit_step (used, held) Drop = (if held = 0 then (used, held) else (credit_drop used, held - 1))"

interpretation creditm: init_machine credit_step "\<lambda>(used, held). used = held \<and> used \<le> 2"
    "\<lambda>e. True" "(0, 0)"
proof unfold_locales
  show "case credit_step s e of (used, held) \<Rightarrow> used = held \<and> used \<le> 2"
    if "case s of (used, held) \<Rightarrow> used = held \<and> used \<le> 2" for s e
    using that by (cases s; cases e) (auto simp: credit_claim_def credit_drop_def split: option.split)
qed simp

end
