(* ===== verification/BrowserProps.thy ===== *)
theory BrowserProps
  imports BrowserHub
begin

text \<open>
  The properties of the browser tunnel: the two byte streams, and the hub between them and the
  link. The executable runner produces the concrete runs of the witnesses.
\<close>

section \<open>Concrete runs\<close>

text \<open>\<open>(True, t)\<close> is a turn of the near worker, \<open>(False, t)\<close> one of the far worker.\<close>

fun run_tunnel :: "(bool \<times> turn) list \<Rightarrow> tunnel \<Rightarrow> tunnel option" where
  "run_tunnel [] s = Some s"
| "run_tunnel ((near, t) # ts) s =
     (if near then
        (if tn_near_up s \<and> list_all (emitted (tn_far s)) (t_input t)
         then case worker_turn t (tn_near s) of
           (r, w) \<Rightarrow> run_tunnel ts (s\<lparr>tn_near := w, tn_near_up := (r = Continue)\<rparr>)
         else None)
      else
        (if tn_far_up s \<and> list_all (emitted (tn_near s)) (t_input t)
         then case worker_turn t (tn_far s) of
           (r, w) \<Rightarrow> run_tunnel ts (s\<lparr>tn_far := w, tn_far_up := (r = Continue)\<rparr>)
         else None))"

lemma run_tunnel_reachable:
  "run_tunnel ts s = Some s' \<Longrightarrow> tunnel_reachable kind initial now1 now2 s \<Longrightarrow>
   tunnel_reachable kind initial now1 now2 s'"
proof (induction ts s rule: run_tunnel.induct)
  case (2 near t ts s)
  show ?case
  proof (cases near)
    case True
    obtain r w where w: "worker_turn t (tn_near s) = (r, w)" by (cases "worker_turn t (tn_near s)")
    have ok: "tn_near_up s" "\<forall>f \<in> set (t_input t). emitted (tn_far s) f"
      using 2(3) True by (auto simp: list_all_iff split: if_splits)
    have "tunnel_reachable kind initial now1 now2 (s\<lparr>tn_near := w, tn_near_up := (r = Continue)\<rparr>)"
      using tunnel_reachable.step [OF 2(4) tunnel_step.near [OF ok w]] .
    then show ?thesis using 2(1) [OF True _ w [symmetric]] 2(3) True w by (auto split: if_splits)
  next
    case False
    obtain r w where w: "worker_turn t (tn_far s) = (r, w)" by (cases "worker_turn t (tn_far s)")
    have ok: "tn_far_up s" "\<forall>f \<in> set (t_input t). emitted (tn_near s) f"
      using 2(3) False by (auto simp: list_all_iff split: if_splits)
    have "tunnel_reachable kind initial now1 now2 (s\<lparr>tn_far := w, tn_far_up := (r = Continue)\<rparr>)"
      using tunnel_reachable.step [OF 2(4) tunnel_step.far [OF ok w]] .
    then show ?thesis using 2(2) [OF False _ w [symmetric]] 2(3) False w by (auto split: if_splits)
  qed
qed simp

definition a_turn :: "nat \<Rightarrow> bframe list \<Rightarrow> read_outcome \<Rightarrow> turn" where
  "a_turn now fs rd =
     \<lparr>t_now = now, t_stop = False, t_room = 32, t_output_gone = False, t_input = fs,
      t_input_gone = False, t_write = Accepts 100, t_read = rd, t_shutdown_ok = True, t_credit = 0\<rparr>"

text \<open>Two bytes go through, with the data frame sent twice, and the near side closes.\<close>

definition a_run :: "(bool \<times> turn) list" where
  "a_run =
     [(True, a_turn 1 [] ReadBlocks), (False, a_turn 1 [] ReadBlocks),
      (True, a_turn 2 [bframe_of K_READY 0 []] ReadBlocks), (True, a_turn 3 [] ReadBlocks),
      (False, a_turn 4 [bframe_of K_DATA 0 [104, 105], bframe_of K_DATA 0 [104, 105]] ReadBlocks),
      (False, a_turn 5 [] ReadBlocks), (True, a_turn 6 [bframe_of K_ACK 2 []] (Yields [])),
      (True, a_turn 7 [] ReadBlocks), (False, a_turn 8 [bframe_of K_FIN 2 []] ReadBlocks),
      (False, a_turn 9 [] ReadBlocks), (True, a_turn 10 [bframe_of K_FIN_ACK 2 []] ReadBlocks)]"

text \<open>The evaluation of a run by rewriting.\<close>

lemma handle_inputs_eval:
  "handle_inputs t (numeral k) [] w = (if t_input_gone t then Finished else Continue, w)"
  "handle_inputs t (numeral k) (f # fs) w = (case handle_frame t f w of
        (Continue, w1) \<Rightarrow>
          if length (w_queued w1) \<ge> 4 then (Continue, w1)
          else handle_inputs t (pred_numeral k) fs w1
      | r \<Rightarrow> r)"
  by (simp_all add: numeral_eq_Suc)

lemma flow_then_eval:
  "flow_then (Continue, w) k = k w" "flow_then (Finished, w) k = (Finished, w)"
  "flow_then (Failed e, w) k = (Failed e, w)"
  by (simp_all add: flow_then_def)

lemma flow_then_weak: "r = r' \<Longrightarrow> flow_then r k = flow_then r' k"
  by simp

lemmas turn_eval = worker_turn_def flush_queue_def handle_frame_def write_pending_def
  next_chunk_def send_chunk_def retry_def finish_turn_def push_def bframe_of_def receive_data_def
  credit_claim_def CHUNK_def MAX_PAYLOAD_def RETRY_def STALL_def emitted_def receive_new_def
  kind_defs a_turn_def worker_new_def tunnel_start_def handle_inputs_eval flow_then_eval

lemma a_run_result:
  "\<exists>s. run_tunnel a_run (tunnel_start K_OPEN [104, 105] 0 0) = Some s \<and> w_fin_acked (tn_near s)
     \<and> w_remote_eof (tn_far s) \<and> w_written (tn_far s) = [104, 105] \<and> tn_near_up s"
  unfolding a_run_def by (simp add: turn_eval cong: flow_then_weak)

text \<open>A tunnel that has carried two bytes and seen one side close.\<close>

lemma a_tunnel:
  obtains s where "tunnel_reachable K_OPEN [104, 105] 0 0 s" "w_fin_acked (tn_near s)"
    "w_remote_eof (tn_far s)" "w_written (tn_far s) = [104, 105]" "tn_near_up s"
  using a_run_result run_tunnel_reachable [OF _ tunnel_reachable.start] by blast

section \<open>The tunnel\<close>

text \<open>
  C7: whatever the link loses, repeats or reorders, each socket has been written a prefix of
  the bytes read from the other one, in both directions at once.
\<close>

theorem tunnel_prefix:
  assumes "tunnel_reachable kind initial now1 now2 s" "kind = K_OPEN \<or> kind = K_OPEN_DESKTOP"
  shows "w_written (tn_far s) = take (length (w_written (tn_far s))) (taken (tn_near s))
    \<and> w_written (tn_near s) = take (length (w_written (tn_near s))) (taken (tn_far s))"
  using tunnel_reachable_inv [OF assms] by (auto simp: tunnel_inv_def both_inv_def intro: dir_prefix)

theorem tunnel_prefix_witness:
  "\<exists>s. tunnel_reachable K_OPEN [104, 105] 0 0 s \<and> w_written (tn_far s) = [104, 105]
     \<and> take 2 (taken (tn_near s)) = [104, 105]"
proof -
  obtain s where s: "tunnel_reachable K_OPEN [104, 105] 0 0 s" "w_written (tn_far s) = [104, 105]"
    by (rule a_tunnel)
  have "take 2 (taken (tn_near s)) = [104, 105]"
    using tunnel_prefix [OF s(1)] unfolding s(2) by (simp add: numeral_2_eq_2)
  then show ?thesis using s by blast
qed



text \<open>
  A worker whose peer follows the protocol never ends because of a protocol error, on
  any turn and with any frames the peer has emitted, in whatever order and number.
\<close>

lemma tunnel_no_fault:
  assumes "tunnel_reachable kind initial now1 now2 s" "kind = K_OPEN \<or> kind = K_OPEN_DESKTOP"
    and "\<forall>f \<in> set (t_input t). emitted (tn_far s) f"
  shows "\<not> peer_fault (fst (worker_turn t (tn_near s)))"
proof -
  have "both_inv (tn_near s) (tn_far s)" "open_kind_ok (tn_near s)"
    using tunnel_reachable_inv [OF assms(1,2)] by (simp_all add: tunnel_inv_def)
  then show ?thesis using worker_turn_inv assms(3) emitted_from_peer by blast
qed

lemma tunnel_no_fault_witness:
  "\<exists>s. tunnel_reachable K_OPEN [104, 105] 0 0 s
     \<and> \<not> peer_fault (fst (worker_turn (a_turn 5 [bframe_of K_RESET 0 []] ReadBlocks) (tn_near s)))"
proof -
  obtain s where s: "tunnel_reachable K_OPEN [104, 105] 0 0 s" by (rule a_tunnel)
  have "\<forall>f \<in> set (t_input (a_turn 5 [bframe_of K_RESET 0 []] ReadBlocks)). emitted (tn_far s) f"
    by (simp add: a_turn_def emitted_def bframe_of_def)
  then show ?thesis using tunnel_no_fault [OF s] s by blast
qed

section \<open>The hub\<close>

text \<open>
  After any history of frames, attaches, polls, resets and worker activity the hub holds
  at most eight streams with distinct non-zero ids, and no queue exceeds its capacity.
\<close>

lemma hub_bounded:
  "let h = foldl hub_step (hub_new desktop) evs in
     length (hb_streams h) \<le> 8 \<and> distinct (map fst (hb_streams h)) \<and> 0 \<notin> fst ` set (hb_streams h)
     \<and> length (hb_output h) \<le> 32 \<and> list_all (\<lambda>(sid, e). length (ep_input e) \<le> 16) (hb_streams h)"
proof -
  let ?h = "foldl hub_step (hub_new desktop) evs"
  have inv: "hub_inv ?h" by (rule hubm.reachable_inv) (simp add: list_all_iff)
  then have "distinct (map fst (hb_streams ?h))"
    by (simp add: hub_inv_def bt_wf_def strict_sorted_iff)
  then show ?thesis
    using inv by (auto simp: Let_def hub_inv_def endpoint_ok_def list_all_iff MAX_STREAMS_def OUTPUT_CAP_def INPUT_CAP_def)
qed

text \<open>
  After a reset nothing of the old session reaches the link, however long its workers go
  on sending into the shared queue.
\<close>

lemma hub_reset_isolates:
  assumes "stale_only (hb_epoch (hub_reset h)) evs"
  shows "fst (hub_poll (foldl hub_step (hub_reset h) evs)) = None"
  using assms by (rule reset_isolates)

lemma hub_reset_isolates_witness:
  "fst (hub_poll (foldl hub_step (hub_reset (hub_new True))
     [WorkerSends 0 (Browser 1 K_DATA 0 [1]), WorkerDone 1, WorkerSends 7 (Browser 1 K_FIN 0 [])])) = None"
  by (rule hub_reset_isolates) (auto simp: stale_only_def hub_reset_def hub_new_def)

text \<open>
  The two chunk credits of a session are never exceeded, and every claim is given back.
\<close>

lemma credits_bounded:
  "case foldl credit_step (0, 0) es of (used, held) \<Rightarrow> used = held \<and> used \<le> 2"
  by (rule creditm.reachable_inv) (simp add: list_all_iff)

end
