(* ===== verification/Actions.thy ===== *)
theory Actions
  imports Errors
begin

text \<open>
  Methods with \<open>&mut self\<close> that return a \<open>Result\<close>: a function from the state to the result and
  the state left behind, also when the result is an error (\<open>?\<close> returns early, the state keeps what
  was done before). The locale carries the laws a reflexive and transitive relation between the
  state before and the state after obeys along such methods; each component instantiates it with
  its invariant or with what its log records.
\<close>

type_synonym ('s, 'a) action = "'s \<Rightarrow> (werror + 'a) \<times> 's"

definition return_act :: "'a \<Rightarrow> ('s, 'a) action" where
  "return_act x s = (Inr x, s)"

definition throw_act :: "werror \<Rightarrow> ('s, 'a) action" where
  "throw_act e s = (Inl e, s)"

definition bind_act :: "('s, 'a) action \<Rightarrow> ('a \<Rightarrow> ('s, 'b) action) \<Rightarrow> ('s, 'b) action" where
  "bind_act m f s = (case m s of (Inl e, s1) \<Rightarrow> (Inl e, s1) | (Inr x, s1) \<Rightarrow> f x s1)"

definition then_act :: "('s, unit) action \<Rightarrow> ('s, 'b) action \<Rightarrow> ('s, 'b) action" where
  "then_act m n = bind_act m (\<lambda>u. n)"

definition update_act :: "('s \<Rightarrow> 's) \<Rightarrow> ('s, unit) action" where
  "update_act f s = (Inr (), f s)"

text \<open>\<open>for x in xs { act(x)?; }\<close>.\<close>

primrec each_act :: "('x \<Rightarrow> ('s, unit) action) \<Rightarrow> 'x list \<Rightarrow> ('s, unit) action" where
  "each_act f [] = return_act ()"
| "each_act f (x # xs) = then_act (f x) (each_act f xs)"

text \<open>\<open>.ok()\<close> and the arms that only log an error.\<close>

definition ignore_err :: "('s, unit) action \<Rightarrow> 's \<Rightarrow> 's" where
  "ignore_err m s = snd (m s)"

named_theorems act_simps

lemmas act_defs [act_simps] = return_act_def throw_act_def bind_act_def then_act_def
  update_act_def ignore_err_def

definition obeys :: "('s \<Rightarrow> 's \<Rightarrow> bool) \<Rightarrow> ('s, 'a) action \<Rightarrow> bool" where
  "obeys R m \<longleftrightarrow> (\<forall>s. R s (snd (m s)))"

lemma obeysD: "obeys R m \<Longrightarrow> R s (snd (m s))"
  by (simp add: obeys_def)

lemma obeys_pair: "obeys R m \<Longrightarrow> m s = (r, s') \<Longrightarrow> R s s'"
  unfolding obeys_def by (metis snd_conv)

locale action_rel =
  fixes R :: "'s \<Rightarrow> 's \<Rightarrow> bool"
  assumes refl: "R s s"
    and trans: "R a b \<Longrightarrow> R b c \<Longrightarrow> R a c"
begin

lemma obeys_return: "obeys R (return_act x)"
  by (simp add: obeys_def return_act_def refl)

lemma obeys_throw: "obeys R (throw_act e)"
  by (simp add: obeys_def throw_act_def refl)

lemma obeys_update: "(\<And>s. R s (f s)) \<Longrightarrow> obeys R (update_act f)"
  by (simp add: obeys_def update_act_def)

lemma obeys_bind:
  assumes "obeys R m" "\<And>x. obeys R (f x)"
  shows "obeys R (bind_act m f)"
  unfolding obeys_def
proof
  fix s
  obtain r s1 where m: "m s = (r, s1)" by (cases "m s")
  then have "R s s1" using assms(1) by (rule obeys_pair [rotated])
  then show "R s (snd (bind_act m f s))"
    using m assms(2) by (cases r) (auto simp: bind_act_def obeys_def intro: trans)
qed

lemma obeys_then: "obeys R m \<Longrightarrow> obeys R n \<Longrightarrow> obeys R (then_act m n)"
  by (simp add: then_act_def obeys_bind)

lemma obeys_each: "(\<And>x. x \<in> set xs \<Longrightarrow> obeys R (f x)) \<Longrightarrow> obeys R (each_act f xs)"
  by (induction xs) (simp_all add: obeys_return obeys_then)

lemma obeys_cond:
  "obeys R m \<Longrightarrow> obeys R n \<Longrightarrow> obeys R (\<lambda>s. if c s then m s else n s)"
  by (simp add: obeys_def)

lemmas obeys_intros = obeys_return obeys_throw obeys_bind obeys_then obeys_each
  obeys_cond obeys_update

end

text \<open>The two relations every component uses: keeping a predicate, and growing a log.\<close>

definition keeps :: "('s \<Rightarrow> bool) \<Rightarrow> 's \<Rightarrow> 's \<Rightarrow> bool" where
  "keeps P s t \<longleftrightarrow> (P s \<longrightarrow> P t)"

definition log_grows :: "('s \<Rightarrow> 'x list) \<Rightarrow> ('x \<Rightarrow> bool) \<Rightarrow> 's \<Rightarrow> 's \<Rightarrow> bool" where
  "log_grows lg Q s t \<longleftrightarrow> (\<exists>xs. lg t = lg s @ xs \<and> list_all Q xs)"

lemma log_growsI [intro]: "lg t = lg s \<Longrightarrow> log_grows lg Q s t"
  by (simp add: log_grows_def)

interpretation keep: action_rel "keeps P" for P
  by unfold_locales (simp_all add: keeps_def)

interpretation grow: action_rel "log_grows lg Q" for lg Q
proof unfold_locales
  show "log_grows lg Q a c" if "log_grows lg Q a b" "log_grows lg Q b c" for a b c :: 'a
    using that by (auto simp: log_grows_def)
qed (simp add: log_grows_def)

end
