(* ===== verification/HostShell.thy ===== *)
theory HostShell
  imports Chars Packet
begin

text \<open>
  \<open>apps/wiredesk-host/src/shell.rs\<close>: choosing the shell binary, the handle of a running
  shell, and the thread that feeds a pipe shell's standard input, which moves one long
  PowerShell command into a script file. The operating system is the parameter: what a spawn
  returns, what a child's status is, whether a file can be created, when a write fails. The
  lemmas give the delivery of every input byte in order, and that a spilled command becomes
  exactly one line that cannot be broken out of.
\<close>

section \<open>Choosing the shell\<close>

text \<open>
  \<open>canon\<close> is \<open>trim().to_lowercase()\<close>, whose case tables are the standard library's;
  \<open>windows\<close> selects between the two \<open>cfg\<close> bodies.
\<close>

definition resolve_shell :: "(rstring \<Rightarrow> rstring) \<Rightarrow> bool \<Rightarrow> rstring \<Rightarrow> rstring list" where
  "resolve_shell canon windows requested =
     (let req = canon requested in
      if windows then
        (if req = blit '''' \<or> req = blit ''powershell'' \<or> req = blit ''pwsh''
         then [blit ''powershell.exe'', blit ''-NoLogo'', blit ''-NoExit'']
         else if req = blit ''cmd'' then [blit ''cmd.exe'', blit ''/Q'']
         else [req])
      else
        (if req = blit '''' \<or> req = blit ''sh'' \<or> req = blit ''bash''
         then [blit ''/bin/bash'', blit ''-i'']
         else if req = blit ''zsh'' then [blit ''/bin/zsh'', blit ''-i'']
         else [req]))"

definition shell_argv :: "(rstring \<Rightarrow> rstring) \<Rightarrow> bool \<Rightarrow> rstring \<Rightarrow> rstring list" where
  "shell_argv canon windows requested = resolve_shell canon windows requested"

section \<open>A running shell\<close>

datatype shell_event = Output bytes | Exit i32

datatype shell_input = Data bytes | CloseStdin

text \<open>What \<open>try_wait\<close> reports of an exited child: \<open>status.code()\<close>, or a ConPTY status.\<close>

datatype exit_status = PipeStatus "i32 option" | PtyStatus u32

record shell_process =
  sp_pty :: bool
  sp_events :: "shell_event list"
  sp_status :: "exit_status option"
  sp_stdin :: "shell_input list"
  sp_writer_alive :: bool
  sp_size :: "(u16 \<times> u16) option"
  sp_killed :: bool

text \<open>\<open>write\<close> and \<open>close\<close> queue to the writer thread; \<open>write\<close> reports whether it is there.\<close>

definition shell_write :: "shell_process \<Rightarrow> bytes \<Rightarrow> bool \<times> shell_process" where
  "shell_write sp data =
     (if sp_writer_alive sp then (True, sp\<lparr>sp_stdin := sp_stdin sp @ [Data data]\<rparr>) else (False, sp))"

definition shell_close :: "shell_process \<Rightarrow> shell_process" where
  "shell_close sp =
     (if sp_writer_alive sp then sp\<lparr>sp_stdin := sp_stdin sp @ [CloseStdin]\<rparr> else sp)"

definition drain_pending :: "shell_process \<Rightarrow> nat \<times> shell_process" where
  "drain_pending sp = (length (sp_events sp), sp\<lparr>sp_events := []\<rparr>)"

definition shell_resize :: "shell_process \<Rightarrow> u16 \<Rightarrow> u16 \<Rightarrow> shell_process" where
  "shell_resize sp cols rows = (if sp_pty sp then sp\<lparr>sp_size := Some (cols, rows)\<rparr> else sp)"

definition try_exit_code :: "shell_process \<Rightarrow> i32 option" where
  "try_exit_code sp =
     (case sp_status sp of
        None \<Rightarrow> None
      | Some (PipeStatus c) \<Rightarrow> Some (case c of Some code \<Rightarrow> code | None \<Rightarrow> -1)
      | Some (PtyStatus c) \<Rightarrow> Some (if unat c < 2 ^ 31 then c else -1))"

definition shell_kill :: "shell_process \<Rightarrow> shell_process" where
  "shell_kill sp = sp\<lparr>sp_killed := True\<rparr>"

text \<open>
  \<open>spawn\<close>: \<open>os\<close> is what the operating system makes of an argument vector and a size. Off
  Windows a PTY is refused before it is asked.
\<close>

definition spawn_shell ::
  "(rstring \<Rightarrow> rstring) \<Rightarrow> bool \<Rightarrow> (rstring list \<Rightarrow> (u16 \<times> u16) option \<Rightarrow> werror + shell_process)
   \<Rightarrow> rstring \<Rightarrow> (u16 \<times> u16) option \<Rightarrow> werror + shell_process" where
  "spawn_shell canon windows os requested pty =
     (let argv = resolve_shell canon windows requested in
      if argv = [] then Inl (Input ''empty shell command'')
      else case pty of
        None \<Rightarrow> os argv None
      | Some dims \<Rightarrow>
          if windows then os argv (Some dims)
          else Inl (Input ''PTY-mode shell is only supported on Windows host''))"

lemma resolve_shell_nonempty: "resolve_shell canon windows requested \<noteq> []"
  by (simp add: resolve_shell_def Let_def)

text \<open>The reader thread: every read becomes one event until the stream ends.\<close>

datatype shell_read = ReadBytes bytes | ReadEof | ReadFailed

fun stream_to_channel :: "shell_read list \<Rightarrow> shell_event list" where
  "stream_to_channel [] = []"
| "stream_to_channel (ReadBytes b # rs) = (if b = [] then [] else Output b # stream_to_channel rs)"
| "stream_to_channel (ReadEof # rs) = []"
| "stream_to_channel (ReadFailed # rs) = []"

section \<open>Spilling a long line\<close>

definition SPILL_THRESHOLD :: nat where "SPILL_THRESHOLD = MAX_PAYLOAD"
definition ECHO_FINGERPRINT :: nat where "ECHO_FINGERPRINT = 192"

definition is_ascii :: "bytes \<Rightarrow> bool" where
  "is_ascii bs = list_all (\<lambda>b. b < 128) bs"

text \<open>\<open>char::is_control\<close> on an ASCII byte.\<close>

definition is_control :: "u8 \<Rightarrow> bool" where
  "is_control b = (b < 32 \<or> b = 127)"

definition spillable_path :: "rstring option \<Rightarrow> bool" where
  "spillable_path path = (case path of Some s \<Rightarrow> is_ascii s | None \<Rightarrow> False)"

text \<open>
  The spill file: its path (pure ASCII, see \<open>spill_for_argv\<close>), what \<open>create_new\<close> and
  \<open>write_all\<close> would answer, what the file holds, and whether the shell has been told of it.
\<close>

datatype fs_outcome = FsOk | FsOpenFails | FsWriteFails nat

record spill =
  spl_path :: bytes
  spl_fs :: fs_outcome
  spl_file :: "bytes option"
  spl_handed_over :: bool

definition ascii_lower :: "u8 \<Rightarrow> u8" where
  "ascii_lower b = (if 65 \<le> b \<and> b \<le> 90 then b + 32 else b)"

definition spill_for_argv :: "rstring list \<Rightarrow> rstring option \<Rightarrow> fs_outcome \<Rightarrow> spill option" where
  "spill_for_argv argv path fs =
     (case argv of
        [] \<Rightarrow> None
      | a # as \<Rightarrow>
          let exe = map ascii_lower a in
          if \<not> (str_contains exe (blit ''powershell'') \<or> str_contains exe (blit ''pwsh'')) then None
          else case path of
            None \<Rightarrow> None
          | Some p \<Rightarrow>
              if \<not> is_ascii p then None
              else Some \<lparr>spl_path = p, spl_fs = fs, spl_file = None,
                         spl_handed_over = False\<rparr>)"

text \<open>\<open>replace('\<^verbatim>\<open>'\<close>', "\<^verbatim>\<open>''\<close>")\<close>: double every quote.\<close>

definition quote_path :: "bytes \<Rightarrow> bytes" where
  "quote_path p = concat (map (\<lambda>b. if b = 39 then [39, 39] else [b]) p)"

definition strip_suffix_byte :: "u8 \<Rightarrow> bytes \<Rightarrow> bytes" where
  "strip_suffix_byte b bs = (if bs \<noteq> [] \<and> last bs = b then butlast bs else bs)"

definition block_body :: "bytes \<Rightarrow> bytes" where
  "block_body block = strip_suffix_byte 13 (strip_suffix_byte 10 block)"

definition strip_controls :: "bytes \<Rightarrow> bytes" where
  "strip_controls = filter (\<lambda>b. \<not> is_control b)"

definition trim_backticks :: "bytes \<Rightarrow> bytes" where
  "trim_backticks bs = rev (dropWhile (\<lambda>b. b = 96) (rev bs))"

definition UTF8_BOM :: bytes where "UTF8_BOM = [0xEF, 0xBB, 0xBF]"

definition dot_source_line :: "bytes \<Rightarrow> bytes \<Rightarrow> bytes" where
  "dot_source_line quoted body =
     (let head = strip_controls (take (min ECHO_FINGERPRINT (length body)) body);
          tail = trim_backticks (strip_controls (drop (length body - ECHO_FINGERPRINT) body))
      in blit ''$__wd_p = '' @ [39] @ quoted @ [39]
         @ blit ''; $__wd_c = [IO.File]::ReadAllText($__wd_p); ''
         @ blit ''Remove-Item -LiteralPath $__wd_p -Force -ErrorAction SilentlyContinue; ''
         @ blit ''. ([scriptblock]::Create($__wd_c)) ''
         @ blit ''# '' @ head @ blit '' '' @ tail @ [10])"

definition dot_source_block :: "spill \<Rightarrow> bytes \<Rightarrow> bytes option \<times> spill" where
  "dot_source_block spl block =
     (if \<not> is_ascii block then (None, spl)
      else
        let quoted = quote_path (spl_path spl) in
        if list_ex is_control quoted then (None, spl)
        else
          let body = block_body block; content = UTF8_BOM @ body in
          (case spl_fs spl of
             FsOpenFails \<Rightarrow> (None, spl)
           | FsWriteFails n \<Rightarrow> (None, spl\<lparr>spl_file := Some (take n content)\<rparr>)
           | FsOk \<Rightarrow> (Some (dot_source_line quoted body),
                      spl\<lparr>spl_file := Some content, spl_handed_over := True\<rparr>)))"

definition spill_cleanup :: "spill \<Rightarrow> spill" where
  "spill_cleanup spl = (if spl_handed_over spl then spl else spl\<lparr>spl_file := None\<rparr>)"

section \<open>The writer thread\<close>

record writer_state =
  ws_mid_line :: bool
  ws_spill_allowed :: bool

definition writer_state_new :: writer_state where
  "writer_state_new = \<lparr>ws_mid_line = False, ws_spill_allowed = True\<rparr>"

text \<open>The child's standard input: the writes made, and how many more will succeed.\<close>

record stdin_pipe =
  in_writes :: "bytes list"
  in_left :: "nat option"

definition write_flush :: "stdin_pipe \<Rightarrow> bytes \<Rightarrow> bool \<times> stdin_pipe" where
  "write_flush p bs =
     (case in_left p of
        None \<Rightarrow> (True, p\<lparr>in_writes := in_writes p @ [bs]\<rparr>)
      | Some 0 \<Rightarrow> (False, p)
      | Some (Suc n) \<Rightarrow> (True, p\<lparr>in_writes := in_writes p @ [bs], in_left := Some n\<rparr>))"

fun split_inclusive :: "bytes \<Rightarrow> bytes list" where
  "split_inclusive [] = []"
| "split_inclusive (b # bs) =
     (if b = 10 then [b] # split_inclusive bs
      else case split_inclusive bs of [] \<Rightarrow> [[b]] | l # ls \<Rightarrow> (b # l) # ls)"

text \<open>The position after the last newline.\<close>

definition line_split :: "bytes \<Rightarrow> nat" where
  "line_split buf = length (dropWhile (\<lambda>b. b \<noteq> 10) (rev buf))"

fun write_lines :: "stdin_pipe \<Rightarrow> writer_state \<Rightarrow> bytes list \<Rightarrow> bool \<times> stdin_pipe \<times> writer_state" where
  "write_lines p st [] = (True, p, st)"
| "write_lines p st (l # ls) =
     (let (ok, p') = write_flush p l in
      if ok then write_lines p' (st\<lparr>ws_spill_allowed := False\<rparr>) ls else (False, p', st))"

record pipe_writer =
  pw_buf :: bytes
  pw_state :: writer_state
  pw_stdin :: stdin_pipe
  pw_spill :: "spill option"

text \<open>The spill attempt at the head of \<open>write_buffered\<close>: the rewritten line, if any.\<close>

definition spillable :: "pipe_writer \<Rightarrow> bool" where
  "spillable w \<longleftrightarrow>
     ws_spill_allowed (pw_state w) \<and> \<not> ws_mid_line (pw_state w)
     \<and> line_split (pw_buf w) = length (pw_buf w) \<and> line_split (pw_buf w) > SPILL_THRESHOLD"

definition try_spill :: "pipe_writer \<Rightarrow> bytes option \<times> pipe_writer" where
  "try_spill w =
     (case pw_spill w of
        Some s \<Rightarrow>
          if spillable w
          then (let (line, s') = dot_source_block s (take (line_split (pw_buf w)) (pw_buf w))
                in (line, w\<lparr>pw_spill := Some s'\<rparr>))
          else (None, w)
      | None \<Rightarrow> (None, w))"

text \<open>The rest of it: the complete lines one by one, then the tail.\<close>

definition write_verbatim :: "pipe_writer \<Rightarrow> bool \<times> pipe_writer" where
  "write_verbatim w =
     (let buf = pw_buf w; split = line_split buf;
          (ok, p, st1) = write_lines (pw_stdin w) (pw_state w) (split_inclusive (take split buf))
      in if \<not> ok then (False, w\<lparr>pw_stdin := p, pw_state := st1\<rparr>)
         else
           let st2 = (if split > 0 then st1\<lparr>ws_mid_line := False\<rparr> else st1) in
           if split < length buf then
             let (ok2, p2) = write_flush p (drop split buf) in
             if ok2 then (True, w\<lparr>pw_buf := [], pw_stdin := p2,
                                 pw_state := \<lparr>ws_mid_line = True, ws_spill_allowed = False\<rparr>\<rparr>)
             else (False, w\<lparr>pw_stdin := p2, pw_state := st2\<rparr>)
           else (True, w\<lparr>pw_buf := [], pw_stdin := p, pw_state := st2\<rparr>))"

definition write_buffered :: "pipe_writer \<Rightarrow> bool \<times> pipe_writer" where
  "write_buffered w =
     (case try_spill w of
        (Some line, w1) \<Rightarrow>
          let (ok, p) = write_flush (pw_stdin w1) line in
          if ok then (True, w1\<lparr>pw_buf := [], pw_stdin := p,
                              pw_state := \<lparr>ws_mid_line = False, ws_spill_allowed = False\<rparr>\<rparr>)
          else (False, w1\<lparr>pw_stdin := p\<rparr>)
      | (None, w1) \<Rightarrow> write_verbatim w1)"

text \<open>
  What the receive of each turn returns. With an empty buffer the code waits without a
  timeout, so \<open>Grace\<close> only happens with bytes buffered.
\<close>

datatype writer_event = Received shell_input | Grace | Disconnected

fun writer_loop :: "pipe_writer \<Rightarrow> writer_event list \<Rightarrow> pipe_writer" where
  "writer_loop w [] = w"
| "writer_loop w (Received (Data data) # evs) =
     (let w1 = w\<lparr>pw_buf := pw_buf w @ data\<rparr> in
      if length data \<ge> MAX_PAYLOAD then writer_loop w1 evs
      else (let (ok, w2) = write_buffered w1 in if ok then writer_loop w2 evs else w2))"
| "writer_loop w (Received CloseStdin # evs) = snd (write_buffered w)"
| "writer_loop w (Grace # evs) =
     (if pw_buf w = [] then writer_loop w evs
      else (let (ok, w2) = write_buffered w in if ok then writer_loop w2 evs else w2))"
| "writer_loop w (Disconnected # evs) = w"

definition writer_new :: "spill option \<Rightarrow> pipe_writer" where
  "writer_new spl =
     \<lparr>pw_buf = [], pw_state = writer_state_new, pw_stdin = \<lparr>in_writes = [], in_left = None\<rparr>,
      pw_spill = spl\<rparr>"

text \<open>The whole thread: the loop, then the cleanup of a spill that was not handed over.\<close>

definition writer_thread_pipe :: "pipe_writer \<Rightarrow> writer_event list \<Rightarrow> pipe_writer" where
  "writer_thread_pipe w evs =
     (let w' = writer_loop w evs in w'\<lparr>pw_spill := map_option spill_cleanup (pw_spill w')\<rparr>)"


section \<open>Every byte reaches the shell\<close>

lemma concat_split_inclusive [simp]: "concat (split_inclusive bs) = bs"
  by (induction bs) (auto split: list.split)

lemma split_inclusive_Nil_iff [simp]: "split_inclusive bs = [] \<longleftrightarrow> bs = []"
  by (cases bs) (auto split: list.split)

lemma line_split_le: "line_split buf \<le> length buf"
  by (metis length_dropWhile_le length_rev line_split_def)

lemma line_split_last: "0 < line_split buf \<Longrightarrow> last (take (line_split buf) buf) = 10"
proof -
  assume "0 < line_split buf"
  then have ne: "dropWhile (\<lambda>b. b \<noteq> 10) (rev buf) \<noteq> []" by (simp add: line_split_def)
  have "buf = rev (dropWhile (\<lambda>b. b \<noteq> 10) (rev buf)) @ rev (takeWhile (\<lambda>b. b \<noteq> 10) (rev buf))"
    by (metis rev_append rev_rev_ident takeWhile_dropWhile_id)
  then have "take (line_split buf) buf = rev (dropWhile (\<lambda>b. b \<noteq> 10) (rev buf))"
    unfolding line_split_def by (metis append_eq_conv_conj length_rev)
  then show ?thesis
    using ne hd_dropWhile [OF ne] by (simp add: last_rev)
qed

lemma write_flush_ok:
  "in_left p = None \<Longrightarrow> write_flush p bs = (True, p\<lparr>in_writes := in_writes p @ [bs]\<rparr>)"
  by (simp add: write_flush_def)

lemma write_lines_ok:
  "in_left p = None \<Longrightarrow>
   write_lines p st ls =
     (True, p\<lparr>in_writes := in_writes p @ ls\<rparr>,
      st\<lparr>ws_spill_allowed := ws_spill_allowed st \<and> ls = []\<rparr>)"
  by (induction ls arbitrary: p st) (simp_all add: write_flush_ok)

text \<open>
  The bytes received so far were written as they came, or the first burst of complete lines
  became the one line that runs it from the spill file.
\<close>

definition verbatim :: "pipe_writer \<Rightarrow> bytes \<Rightarrow> bool" where
  "verbatim w c \<longleftrightarrow>
     concat (in_writes (pw_stdin w)) @ pw_buf w = c
     \<and> (ws_spill_allowed (pw_state w) \<longrightarrow> in_writes (pw_stdin w) = [] \<and> \<not> ws_mid_line (pw_state w))"

definition spilled :: "bytes \<Rightarrow> pipe_writer \<Rightarrow> bytes \<Rightarrow> bool" where
  "spilled path w c \<longleftrightarrow>
     (\<exists>block rest spl. c = block @ rest @ pw_buf w
        \<and> concat (in_writes (pw_stdin w)) = dot_source_line (quote_path path) (block_body block) @ rest
        \<and> pw_spill w = Some spl \<and> spl_handed_over spl
        \<and> spl_file spl = Some (UTF8_BOM @ block_body block)
        \<and> is_ascii block \<and> SPILL_THRESHOLD < length block \<and> last block = 10
        \<and> \<not> list_ex is_control (quote_path path)
        \<and> \<not> ws_spill_allowed (pw_state w))"

definition pipe_ok :: "bytes \<Rightarrow> pipe_writer \<Rightarrow> bytes \<Rightarrow> bool" where
  "pipe_ok path w c \<longleftrightarrow>
     in_left (pw_stdin w) = None \<and> (\<forall>spl. pw_spill w = Some spl \<longrightarrow> spl_path spl = path)
     \<and> (verbatim w c \<or> spilled path w c)"

lemma dot_source_block_path [simp]: "spl_path (snd (dot_source_block spl block)) = spl_path spl"
  by (auto simp: dot_source_block_def Let_def split: fs_outcome.split)

lemma dot_source_block_Some:
  "dot_source_block spl block = (Some line, spl') \<Longrightarrow>
   is_ascii block \<and> \<not> list_ex is_control (quote_path (spl_path spl))
     \<and> line = dot_source_line (quote_path (spl_path spl)) (block_body block)
     \<and> spl' = spl\<lparr>spl_file := Some (UTF8_BOM @ block_body block), spl_handed_over := True\<rparr>"
  by (auto simp: dot_source_block_def Let_def split: if_splits fs_outcome.splits)

lemma write_verbatim_ok:
  assumes "in_left (pw_stdin w) = None"
  shows "\<exists>w'. write_verbatim w = (True, w') \<and> pw_buf w' = [] \<and> pw_spill w' = pw_spill w
    \<and> in_left (pw_stdin w') = None
    \<and> concat (in_writes (pw_stdin w')) = concat (in_writes (pw_stdin w)) @ pw_buf w
    \<and> (ws_spill_allowed (pw_state w') \<longrightarrow> ws_spill_allowed (pw_state w)
         \<and> in_writes (pw_stdin w') = in_writes (pw_stdin w)
         \<and> ws_mid_line (pw_state w') = ws_mid_line (pw_state w))"
proof (cases "line_split (pw_buf w) < length (pw_buf w)")
  case True
  then show ?thesis
    using assms by (simp add: write_verbatim_def write_lines_ok write_flush_ok Let_def)
next
  case False
  then have "line_split (pw_buf w) = length (pw_buf w)" using line_split_le [of "pw_buf w"] by simp
  then show ?thesis
    using assms by (simp add: write_verbatim_def write_lines_ok Let_def)
qed

lemma try_spill_fields:
  assumes "try_spill w = (line, w1)"
  shows "pw_buf w1 = pw_buf w" "pw_stdin w1 = pw_stdin w" "pw_state w1 = pw_state w"
    "(\<forall>s. pw_spill w = Some s \<longrightarrow> spl_path s = path) \<Longrightarrow> (\<forall>s. pw_spill w1 = Some s \<longrightarrow> spl_path s = path)"
    "\<not> ws_spill_allowed (pw_state w) \<Longrightarrow> line = None \<and> w1 = w"
  using assms dot_source_block_path
  by (auto simp: try_spill_def spillable_def case_prod_beta split: option.splits if_splits)

lemma try_spill_Some:
  assumes "try_spill w = (Some line, w1)" "\<forall>s. pw_spill w = Some s \<longrightarrow> spl_path s = path"
  shows "\<exists>s. pw_spill w1 = Some s \<and> spl_handed_over s \<and> spl_file s = Some (UTF8_BOM @ block_body (pw_buf w))
    \<and> line = dot_source_line (quote_path path) (block_body (pw_buf w)) \<and> is_ascii (pw_buf w)
    \<and> \<not> list_ex is_control (quote_path path) \<and> SPILL_THRESHOLD < length (pw_buf w)
    \<and> last (pw_buf w) = 10"
proof -
  obtain s0 where s0: "pw_spill w = Some s0" "spillable w"
    using assms(1) by (auto simp: try_spill_def split: option.splits if_splits)
  obtain line' s' where d: "dot_source_block s0 (take (line_split (pw_buf w)) (pw_buf w)) = (line', s')"
    by (cases "dot_source_block s0 (take (line_split (pw_buf w)) (pw_buf w))")
  then have s: "pw_spill w = Some s0" "spillable w"
      "dot_source_block s0 (take (line_split (pw_buf w)) (pw_buf w)) = (Some line, s')"
      "w1 = w\<lparr>pw_spill := Some s'\<rparr>"
    using assms(1) s0 by (auto simp: try_spill_def)
  have k: "line_split (pw_buf w) = length (pw_buf w)" "SPILL_THRESHOLD < length (pw_buf w)"
    using s(2) by (auto simp: spillable_def)
  then have "0 < length (pw_buf w)" by linarith
  then have "last (pw_buf w) = 10" using line_split_last [of "pw_buf w"] k(1) by simp
  then show ?thesis
    using dot_source_block_Some [OF s(3)] s(1,4) k assms(2) by simp
qed

lemma write_buffered_pipe_ok:
  assumes "pipe_ok path w c"
  shows "\<exists>w'. write_buffered w = (True, w') \<and> pw_buf w' = [] \<and> pipe_ok path w' c"
proof -
  obtain line w1 where t: "try_spill w = (line, w1)" by (cases "try_spill w")
  note f = try_spill_fields [OF t]
  have left: "in_left (pw_stdin w) = None" and paths: "\<forall>s. pw_spill w = Some s \<longrightarrow> spl_path s = path"
    using assms by (auto simp: pipe_ok_def)
  have paths1: "\<forall>s. pw_spill w1 = Some s \<longrightarrow> spl_path s = path" using f(4) paths by blast
  show ?thesis
  proof (cases line)
    case None
    obtain w' where v: "write_verbatim w1 = (True, w')" "pw_buf w' = []" "pw_spill w' = pw_spill w1"
      "in_left (pw_stdin w') = None"
      "concat (in_writes (pw_stdin w')) = concat (in_writes (pw_stdin w)) @ pw_buf w"
      "ws_spill_allowed (pw_state w') \<longrightarrow> ws_spill_allowed (pw_state w)
         \<and> in_writes (pw_stdin w') = in_writes (pw_stdin w)
         \<and> ws_mid_line (pw_state w') = ws_mid_line (pw_state w)"
      using write_verbatim_ok [of w1] left f(1-3) by auto
    have "verbatim w' c \<or> spilled path w' c"
    proof (cases "verbatim w c")
      case True
      then show ?thesis using v by (auto simp: verbatim_def)
    next
      case False
      then have sp: "spilled path w c" using assms by (simp add: pipe_ok_def)
      then have "w1 = w" using f(5) by (auto simp: spilled_def)
      then show ?thesis using sp v unfolding spilled_def by fastforce
    qed
    then have "pipe_ok path w' c" using v(3,4) paths1 by (simp add: pipe_ok_def)
    then show ?thesis using t None v(1,2) by (simp add: write_buffered_def)
  next
    case (Some l)
    have allowed: "ws_spill_allowed (pw_state w)" using f(5) Some by auto
    then have "verbatim w c" using assms by (auto simp: pipe_ok_def spilled_def)
    then have c: "c = pw_buf w" "in_writes (pw_stdin w) = []" using allowed by (auto simp: verbatim_def)
    note s = try_spill_Some [OF t [unfolded Some] paths]
    let ?w = "w1\<lparr>pw_buf := [], pw_stdin := (pw_stdin w)\<lparr>in_writes := [l]\<rparr>,
      pw_state := \<lparr>ws_mid_line = False, ws_spill_allowed = False\<rparr>\<rparr>"
    have "write_buffered w = (True, ?w)"
      using t Some f(2) left c(2) by (simp add: write_buffered_def write_flush_ok)
    moreover have "spilled path ?w c" using s c by (auto simp: spilled_def)
    ultimately show ?thesis using left paths1 by (simp add: pipe_ok_def)
  qed
qed

text \<open>What the events hand over before the thread stops.\<close>

fun received :: "writer_event list \<Rightarrow> bytes" where
  "received [] = []"
| "received (Received (Data data) # evs) = data @ received evs"
| "received (Received CloseStdin # evs) = []"
| "received (Grace # evs) = received evs"
| "received (Disconnected # evs) = []"

fun ends_in_close :: "writer_event list \<Rightarrow> bool" where
  "ends_in_close [] = False"
| "ends_in_close (Received (Data data) # evs) = ends_in_close evs"
| "ends_in_close (Received CloseStdin # evs) = True"
| "ends_in_close (Grace # evs) = ends_in_close evs"
| "ends_in_close (Disconnected # evs) = False"

lemma pipe_ok_more: "pipe_ok path w c \<Longrightarrow> pipe_ok path (w\<lparr>pw_buf := pw_buf w @ data\<rparr>) (c @ data)"
  by (auto simp: pipe_ok_def verbatim_def spilled_def)

lemma writer_loop_delivers:
  "pipe_ok path w c \<Longrightarrow> ends_in_close evs \<Longrightarrow>
   pipe_ok path (writer_loop w evs) (c @ received evs) \<and> pw_buf (writer_loop w evs) = []"
proof (induction w evs arbitrary: c rule: writer_loop.induct)
  case (2 w data evs)
  let ?w = "w\<lparr>pw_buf := pw_buf w @ data\<rparr>"
  have ok: "pipe_ok path ?w (c @ data)" using pipe_ok_more 2(3) .
  show ?case
  proof (cases "length data \<ge> MAX_PAYLOAD")
    case True
    then show ?thesis using 2(1) [OF refl True ok] 2(4) by simp
  next
    case False
    obtain w' where w': "write_buffered ?w = (True, w')" "pipe_ok path w' (c @ data)"
      using write_buffered_pipe_ok [OF ok] by blast
    then show ?thesis
      using 2(2) [OF refl False w'(1) [symmetric] refl, of "c @ data"] False 2(4) by simp
  qed
next
  case (3 w evs)
  then show ?case using write_buffered_pipe_ok [OF 3(1)] by auto
next
  case (4 w evs)
  show ?case
  proof (cases "pw_buf w = []")
    case True
    then show ?thesis using 4 by simp
  next
    case False
    obtain w' where w': "write_buffered w = (True, w')" "pipe_ok path w' c"
      using write_buffered_pipe_ok [OF 4(3)] by blast
    then show ?thesis using 4(2) [OF False w'(1) [symmetric] refl, of c] False 4(4) by simp
  qed
qed simp_all

lemma writer_new_ok: "(\<forall>s. spl = Some s \<longrightarrow> spl_path s = path) \<Longrightarrow> pipe_ok path (writer_new spl) []"
  by (simp add: pipe_ok_def verbatim_def writer_new_def writer_state_new_def)

lemma writer_delivers:
  assumes "ends_in_close evs" "\<forall>s. spl = Some s \<longrightarrow> spl_path s = path"
  defines "w \<equiv> writer_thread_pipe (writer_new spl) evs"
  shows "concat (in_writes (pw_stdin w)) = received evs
    \<or> (\<exists>block rest s. received evs = block @ rest
        \<and> concat (in_writes (pw_stdin w)) = dot_source_line (quote_path path) (block_body block) @ rest
        \<and> pw_spill w = Some s \<and> spl_file s = Some (UTF8_BOM @ block_body block)
        \<and> is_ascii block \<and> SPILL_THRESHOLD < length block \<and> last block = 10
        \<and> \<not> list_ex is_control (quote_path path))"
proof -
  let ?w = "writer_loop (writer_new spl) evs"
  have ok: "pipe_ok path ?w (received evs)" "pw_buf ?w = []"
    using writer_loop_delivers [OF writer_new_ok [OF assms(2)] assms(1)] by auto
  have w: "pw_stdin w = pw_stdin ?w" "pw_spill w = map_option spill_cleanup (pw_spill ?w)"
    by (simp_all add: w_def writer_thread_pipe_def Let_def)
  show ?thesis
  proof (cases "verbatim ?w (received evs)")
    case True
    then show ?thesis using ok(2) w by (simp add: verbatim_def)
  next
    case False
    then have "spilled path ?w (received evs)" using ok(1) by (simp add: pipe_ok_def)
    then show ?thesis using ok(2) w unfolding spilled_def by (auto simp: spill_cleanup_def)
  qed
qed

text \<open>Without a spill (any shell but PowerShell) the bytes are untouched.\<close>

lemma writer_loop_spill_None: "pw_spill w = None \<Longrightarrow> pw_spill (writer_loop w evs) = None"
proof -
  have vb: "pw_spill (snd (write_buffered w)) = None" if "pw_spill w = None" for w
    using that
    by (auto simp: write_buffered_def try_spill_def write_verbatim_def Let_def case_prod_beta)
  show "pw_spill w = None \<Longrightarrow> pw_spill (writer_loop w evs) = None"
  proof (induction w evs rule: writer_loop.induct)
    case (2 w data evs)
    then show ?case
      using vb [of "w\<lparr>pw_buf := pw_buf w @ data\<rparr>"]
      by (cases "write_buffered (w\<lparr>pw_buf := pw_buf w @ data\<rparr>)") (simp add: Let_def)
  next
    case (4 w evs)
    then show ?case using vb [of w] by (cases "write_buffered w") simp
  qed (simp_all add: vb)
qed

lemma writer_delivers_plain:
  assumes "ends_in_close evs"
  shows "concat (in_writes (pw_stdin (writer_thread_pipe (writer_new None) evs))) = received evs"
  using writer_delivers [OF assms, of None "[]"] writer_loop_spill_None [of "writer_new None" evs]
  by (auto simp: writer_thread_pipe_def Let_def writer_new_def)

section \<open>A spilled command stays one statement\<close>

text \<open>How PowerShell reads a single-quoted literal after its opening quote.\<close>

fun ps_literal :: "bytes \<Rightarrow> (bytes \<times> bytes) option" where
  "ps_literal [] = None"
| "ps_literal (b # bs) =
     (if b \<noteq> 39 then map_option (\<lambda>(v, rest). (b # v, rest)) (ps_literal bs)
      else case bs of
        [] \<Rightarrow> Some ([], [])
      | c # cs \<Rightarrow>
          if c = 39 then map_option (\<lambda>(v, rest). (39 # v, rest)) (ps_literal cs)
          else Some ([], bs))"

lemma ps_literal_quote_path:
  "rest = [] \<or> hd rest \<noteq> 39 \<Longrightarrow> ps_literal (quote_path p @ 39 # rest) = Some (p, rest)"
proof (induction p)
  case Nil
  then show ?case by (cases rest) (auto simp: quote_path_def)
next
  case (Cons b p)
  have "quote_path (b # p) = (if b = 39 then [39, 39] else [b]) @ quote_path p"
    by (simp add: quote_path_def)
  then show ?case using Cons by simp
qed

lemma strip_controls_clean: "b \<in> set (strip_controls bs) \<Longrightarrow> \<not> is_control b"
  by (simp add: strip_controls_def)

lemma trim_backticks_subset: "b \<in> set (trim_backticks bs) \<Longrightarrow> b \<in> set bs"
  unfolding trim_backticks_def by (metis set_dropWhileD set_rev)

lemma dot_source_line_single:
  assumes "\<not> list_ex is_control quoted"
  shows "last (dot_source_line quoted body) = 10"
    and "b \<in> set (butlast (dot_source_line quoted body)) \<Longrightarrow> \<not> is_control b"
proof -
  define pre where "pre = blit ''$__wd_p = '' @ [39]"
  define mid where "mid = [39] @ blit ''; $__wd_c = [IO.File]::ReadAllText($__wd_p); ''
        @ blit ''Remove-Item -LiteralPath $__wd_p -Force -ErrorAction SilentlyContinue; ''
        @ blit ''. ([scriptblock]::Create($__wd_c)) '' @ blit ''# ''"
  define head where "head = strip_controls (take (min ECHO_FINGERPRINT (length body)) body)"
  define tail where "tail = trim_backticks (strip_controls (drop (length body - ECHO_FINGERPRINT) body))"
  have line: "dot_source_line quoted body = (pre @ quoted @ mid @ head @ blit '' '' @ tail) @ [10]"
    by (simp only: dot_source_line_def Let_def pre_def mid_def head_def tail_def append_assoc)
  have lits: "list_all (\<lambda>b. \<not> is_control b) pre" "list_all (\<lambda>b. \<not> is_control b) mid"
    "list_all (\<lambda>b. \<not> is_control b) (blit '' '')"
    by (simp_all add: pre_def mid_def is_control_def)
  show "last (dot_source_line quoted body) = 10"
    by (simp only: line last_snoc)
  assume "b \<in> set (butlast (dot_source_line quoted body))"
  then have "b \<in> set (pre @ quoted @ mid @ head @ blit '' '' @ tail)"
    by (simp only: line butlast_snoc)
  then consider "b \<in> set pre" | "b \<in> set quoted" | "b \<in> set mid" | "b \<in> set head"
    | "b \<in> set (blit '' '')" | "b \<in> set tail"
    unfolding set_append by blast
  then show "\<not> is_control b"
    by cases (use lits assms in \<open>auto simp: list_all_iff list_ex_iff head_def tail_def
        simp del: blit_simps dest: strip_controls_clean trim_backticks_subset\<close>)
qed

end
