(* ===== verification/HostFlow.thy ===== *)
theory HostFlow
  imports Packet
begin

text \<open>
  The pacing of shell output in \<open>apps/wiredesk-host/src/session.rs\<close>: heartbeat budgets, the
  byte budgets of the two shell slots and \<open>ShellFlow\<close>, the count of output the client has not
  confirmed. Times are milliseconds; the \<open>u64\<close> byte counters are naturals (they cannot wrap
  before \<open>2 ^ 64\<close> bytes), and the invariant shows that no subtraction of the code goes below
  zero. The refinement relates the queue of exec sends to a log with one entry per byte sent.
\<close>

section \<open>Budgets\<close>

definition HEARTBEAT_INTERVAL :: nat where "HEARTBEAT_INTERVAL = 2000"
definition HEARTBEAT_TIMEOUT_IDLE :: nat where "HEARTBEAT_TIMEOUT_IDLE = 6000"
definition HEARTBEAT_TIMEOUT_BUSY :: nat where "HEARTBEAT_TIMEOUT_BUSY = 30000"

definition heartbeat_timeout_for :: "bool \<Rightarrow> bool \<Rightarrow> nat" where
  "heartbeat_timeout_for clipboard_busy shell_open =
     (if clipboard_busy \<or> shell_open then HEARTBEAT_TIMEOUT_BUSY else HEARTBEAT_TIMEOUT_IDLE)"

definition PUMP_BUDGET :: nat where "PUMP_BUDGET = 16 * MAX_PAYLOAD"
definition PUMP_BUDGET_EXEC_SHARED :: nat where "PUMP_BUDGET_EXEC_SHARED = 4 * MAX_PAYLOAD"
definition PTY_QUIET_BEFORE_FULL_EXEC :: nat where "PTY_QUIET_BEFORE_FULL_EXEC = 2000"
definition EXEC_INFLIGHT_CAP :: nat where "EXEC_INFLIGHT_CAP = PUMP_BUDGET_EXEC_SHARED"
definition RX_PROGRESS_STALL :: nat where "RX_PROGRESS_STALL = 1000"
definition MAX_REPORTS_PER_TICK :: nat where "MAX_REPORTS_PER_TICK = 32"

lemmas pump_consts = PUMP_BUDGET_def PUMP_BUDGET_EXEC_SHARED_def EXEC_INFLIGHT_CAP_def MAX_PAYLOAD_def

definition inflight_exec_budget :: "nat \<Rightarrow> nat" where
  "inflight_exec_budget in_flight = EXEC_INFLIGHT_CAP - in_flight"

definition exec_pump_budget :: "nat option \<Rightarrow> nat" where
  "exec_pump_budget pty_quiet_for =
     (case pty_quiet_for of
        Some quiet \<Rightarrow>
          if quiet < PTY_QUIET_BEFORE_FULL_EXEC then PUMP_BUDGET_EXEC_SHARED else PUMP_BUDGET
      | None \<Rightarrow> PUMP_BUDGET)"

datatype shell_slot = SlotExec | SlotPty

definition pump_order :: "shell_slot list" where
  "pump_order = [SlotPty, SlotExec]"

section \<open>ShellFlow\<close>

record shell_flow =
  sf_sent :: nat
  sf_acked :: nat
  sf_exec_pending :: "(nat \<times> nat) list"
  sf_peer_reports :: bool
  sf_stalled :: bool
  sf_last_progress :: nat
  sf_unacked_since :: "nat option"

definition flow_new :: "nat \<Rightarrow> shell_flow" where
  "flow_new now =
     \<lparr>sf_sent = 0, sf_acked = 0, sf_exec_pending = [], sf_peer_reports = False,
      sf_stalled = False, sf_last_progress = now, sf_unacked_since = None\<rparr>"

definition note_sent :: "shell_flow \<Rightarrow> shell_slot \<Rightarrow> nat \<Rightarrow> nat \<Rightarrow> shell_flow" where
  "note_sent f slot n now =
     (if n = 0 then f
      else
        let f1 = (if sf_sent f = sf_acked f then f\<lparr>sf_unacked_since := Some now\<rparr> else f);
            f2 = f1\<lparr>sf_sent := sf_sent f1 + n\<rparr>
        in if slot = SlotExec
           then f2\<lparr>sf_exec_pending := sf_exec_pending f2 @ [(sf_sent f2, n)]\<rparr> else f2)"

definition drop_confirmed_exec :: "shell_flow \<Rightarrow> shell_flow" where
  "drop_confirmed_exec f =
     f\<lparr>sf_exec_pending := dropWhile (\<lambda>(e, n). e \<le> sf_acked f) (sf_exec_pending f)\<rparr>"

definition on_report :: "shell_flow \<Rightarrow> nat \<Rightarrow> nat \<Rightarrow> bool \<times> shell_flow" where
  "on_report f0 n now =
     (let first = (\<not> sf_peer_reports f0);
          f = f0\<lparr>sf_peer_reports := True\<rparr>;
          confirmed = min n (sf_sent f);
          f1 = (if confirmed > sf_acked f
                then (drop_confirmed_exec (f\<lparr>sf_acked := confirmed\<rparr>))
                       \<lparr>sf_last_progress := now, sf_stalled := False\<rparr>
                else f);
          f2 = (if sf_acked f1 = sf_sent f1 then f1\<lparr>sf_unacked_since := None\<rparr> else f1)
      in (first, f2))"

definition exec_in_flight :: "shell_flow \<Rightarrow> nat" where
  "exec_in_flight f = sum_list (map (\<lambda>(e, n). min n (e - sf_acked f)) (sf_exec_pending f))"

definition pacing :: "shell_flow \<Rightarrow> bool" where
  "pacing f = (sf_peer_reports f \<and> \<not> sf_stalled f)"

definition release_if_stalled :: "shell_flow \<Rightarrow> nat \<Rightarrow> bool \<times> shell_flow" where
  "release_if_stalled f now =
     (case sf_unacked_since f of
        None \<Rightarrow> (False, f)
      | Some since \<Rightarrow>
          let waiting_since = max since (sf_last_progress f) in
          if now - waiting_since < RX_PROGRESS_STALL then (False, f)
          else (True, f\<lparr>sf_acked := sf_sent f, sf_exec_pending := [], sf_unacked_since := None,
                        sf_stalled := True\<rparr>))"

section \<open>The specification: a log of the bytes sent\<close>

text \<open>One entry per send since the handshake; a byte's slot is that of its send.\<close>

type_synonym sends = "(shell_slot \<times> nat) list"

definition byte_log :: "sends \<Rightarrow> shell_slot list" where
  "byte_log sends = concat (map (\<lambda>(slot, n). replicate n slot) sends)"

text \<open>Exec's bytes among those the client has not confirmed.\<close>

definition exec_unconfirmed :: "sends \<Rightarrow> nat \<Rightarrow> nat" where
  "exec_unconfirmed sends acked = length (filter (\<lambda>s. s = SlotExec) (drop acked (byte_log sends)))"

fun exec_ends :: "nat \<Rightarrow> sends \<Rightarrow> (nat \<times> nat) list" where
  "exec_ends acc [] = []"
| "exec_ends acc ((slot, n) # sends) =
     (if slot = SlotExec then [(acc + n, n)] else []) @ exec_ends (acc + n) sends"

definition flow_rel :: "shell_flow \<Rightarrow> sends \<Rightarrow> bool" where
  "flow_rel f sends \<longleftrightarrow>
     sf_sent f = length (byte_log sends) \<and> sf_acked f \<le> sf_sent f
     \<and> (\<forall>(slot, n) \<in> set sends. 0 < n)
     \<and> sf_exec_pending f = filter (\<lambda>(e, n). e > sf_acked f) (exec_ends 0 sends)
     \<and> (sf_unacked_since f = None \<longleftrightarrow> sf_acked f = sf_sent f)"

lemma byte_log_append [simp]: "byte_log (a @ b) = byte_log a @ byte_log b"
  by (simp add: byte_log_def)

lemma byte_log_Cons [simp]: "byte_log ((slot, n) # b) = replicate n slot @ byte_log b"
  by (simp add: byte_log_def)

lemma byte_log_Nil [simp]: "byte_log [] = []"
  by (simp add: byte_log_def)

lemma exec_ends_append:
  "exec_ends acc (a @ b) = exec_ends acc a @ exec_ends (acc + length (byte_log a)) b"
  by (induction acc a rule: exec_ends.induct) (auto simp: add.assoc)

lemma exec_ends_bounds:
  "(e, n) \<in> set (exec_ends acc sends) \<Longrightarrow> acc + n \<le> e \<and> e \<le> acc + length (byte_log sends)"
  by (induction acc sends rule: exec_ends.induct) (auto split: if_splits)

lemma exec_ends_sorted: "sorted (map fst (exec_ends acc sends))"
proof (induction acc sends rule: exec_ends.induct)
  case (2 acc slot n sends)
  then show ?case using exec_ends_bounds [of _ _ "acc + n" sends] by fastforce
qed simp

text \<open>Dropping the confirmed prefix of the queue is filtering it.\<close>

lemma dropWhile_sorted:
  "sorted (map fst xs) \<Longrightarrow> dropWhile (\<lambda>(e, n). e \<le> (a :: nat)) xs = filter (\<lambda>(e, n). a < e) xs"
proof (induction xs)
  case (Cons x xs)
  show ?case
  proof (cases "fst x \<le> a")
    case True
    then show ?thesis using Cons by (cases x) simp
  next
    case False
    then have "\<forall>y \<in> set xs. a < fst y" using Cons.prems by fastforce
    then have "filter (\<lambda>(e, n). a < e) xs = xs"
      by (simp add: filter_id_conv case_prod_beta)
    then show ?thesis using False by (cases x) simp
  qed
qed simp

text \<open>The sum the code computes is the number of unconfirmed exec bytes.\<close>

lemma pending_sum:
  "sum_list (map (\<lambda>(e, n). min n (e - a)) (filter (\<lambda>(e, n). a < e) (exec_ends acc sends)))
   = length (filter (\<lambda>s. s = SlotExec) (drop (a - acc) (byte_log sends)))"
proof (induction acc sends rule: exec_ends.induct)
  case (2 acc slot n sends)
  have split: "drop (a - acc) (replicate n slot @ byte_log sends)
      = replicate (n - (a - acc)) slot @ drop (a - (acc + n)) (byte_log sends)"
    by (simp add: add.commute)
  show ?case
  proof (cases "slot = SlotExec")
    case True
    have "(if a < acc + n then min n (acc + n - a) else 0) = n - (a - acc)" by auto
    then show ?thesis using 2 True split by auto
  next
    case False
    then show ?thesis using 2 split by simp
  qed
qed simp

lemma exec_in_flight_exact:
  "flow_rel f sends \<Longrightarrow> exec_in_flight f = exec_unconfirmed sends (sf_acked f)"
  using pending_sum [of "sf_acked f" 0 sends]
  by (simp add: flow_rel_def exec_in_flight_def exec_unconfirmed_def)

section \<open>The operations refine the log\<close>

lemma flow_rel_new: "flow_rel (flow_new now) []"
  by (simp add: flow_rel_def flow_new_def)

lemma flow_rel_note_sent:
  assumes "flow_rel f sends"
  shows "flow_rel (note_sent f slot n now) (if n = 0 then sends else sends @ [(slot, n)])"
  using assms
  by (auto simp: flow_rel_def note_sent_def Let_def exec_ends_append)

lemma flow_rel_on_report:
  assumes "flow_rel f sends"
  shows "flow_rel (snd (on_report f n now)) sends"
proof -
  have *: "dropWhile (\<lambda>(e, k). e \<le> a) (filter (\<lambda>(e, k). sf_acked f < e) (exec_ends 0 sends))
      = filter (\<lambda>(e, k). a < e) (exec_ends 0 sends)" if "sf_acked f < a" for a
  proof -
    have "sorted (map fst (filter (\<lambda>(e, k). sf_acked f < e) (exec_ends 0 sends)))"
      using exec_ends_sorted [of 0 sends] by (induction "exec_ends 0 sends") (auto simp: sorted_filter)
    then have "dropWhile (\<lambda>(e, k). e \<le> a) (filter (\<lambda>(e, k). sf_acked f < e) (exec_ends 0 sends))
      = filter (\<lambda>(e, k). a < e) (filter (\<lambda>(e, k). sf_acked f < e) (exec_ends 0 sends))"
      by (rule dropWhile_sorted)
    also have "\<dots> = filter (\<lambda>(e, k). a < e) (exec_ends 0 sends)"
      using that by (auto intro: filter_cong)
    finally show ?thesis .
  qed
  show ?thesis
    using assms
    by (auto simp: flow_rel_def on_report_def Let_def drop_confirmed_exec_def *)
qed

lemma flow_rel_release:
  assumes "flow_rel f sends"
  shows "flow_rel (snd (release_if_stalled f now)) sends"
proof -
  have "filter (\<lambda>(e, n). length (byte_log sends) < e) (exec_ends 0 sends) = []"
    using exec_ends_bounds [of _ _ 0 sends] by (fastforce simp: filter_empty_conv)
  then show ?thesis
    using assms by (auto simp: flow_rel_def release_if_stalled_def Let_def split: option.splits)
qed

text \<open>A run of the counter, with the log it builds.\<close>

datatype flow_event = FlowSent shell_slot nat nat | FlowReport nat nat | FlowCheck nat

fun flow_step :: "shell_flow \<Rightarrow> flow_event \<Rightarrow> shell_flow" where
  "flow_step f (FlowSent slot n now) = note_sent f slot n now"
| "flow_step f (FlowReport n now) = snd (on_report f n now)"
| "flow_step f (FlowCheck now) = snd (release_if_stalled f now)"

fun logged :: "flow_event \<Rightarrow> sends" where
  "logged (FlowSent slot n now) = (if n = 0 then [] else [(slot, n)])"
| "logged ev = []"

lemma flow_rel_step: "flow_rel f sends \<Longrightarrow> flow_rel (flow_step f ev) (sends @ logged ev)"
proof (cases ev)
  case (FlowSent slot n now)
  assume "flow_rel f sends"
  then show ?thesis using flow_rel_note_sent [of f sends slot n now] FlowSent by (simp split: if_splits)
qed (simp_all add: flow_rel_on_report flow_rel_release)

lemma flow_rel_run:
  "flow_rel f sends \<Longrightarrow> flow_rel (foldl flow_step f evs) (sends @ concat (map logged evs))"
proof (induction evs arbitrary: f sends)
  case (Cons ev evs)
  then show ?case using Cons.IH [OF flow_rel_step [OF Cons.prems]] by simp
qed simp

section \<open>Pacing\<close>

text \<open>
  A tick that sends at most its budget and one more read keeps exec's bytes in flight under the
  cap and that read.
\<close>

lemma note_sent_exec:
  assumes "flow_rel f sends"
  shows "exec_in_flight (note_sent f SlotExec n now) = exec_in_flight f + n"
proof (cases "n = 0")
  case True
  then show ?thesis by (simp add: note_sent_def)
next
  case False
  have "sf_acked (note_sent f SlotExec n now) = sf_acked f"
    by (simp add: note_sent_def Let_def)
  moreover have "sf_acked f \<le> length (byte_log sends)" using assms by (simp add: flow_rel_def)
  ultimately show ?thesis
    using exec_in_flight_exact [OF assms]
      exec_in_flight_exact [OF flow_rel_note_sent [OF assms, of SlotExec n now]] False
    by (simp add: exec_unconfirmed_def)
qed

lemma inflight_budget_cap:
  assumes "flow_rel f sends" "exec_in_flight f \<le> EXEC_INFLIGHT_CAP + slack"
    and "if inflight_exec_budget (exec_in_flight f) = 0 then n = 0
         else n \<le> inflight_exec_budget (exec_in_flight f) + slack"
  shows "exec_in_flight (note_sent f SlotExec n now) \<le> EXEC_INFLIGHT_CAP + slack"
  using assms(2-) note_sent_exec [OF assms(1), of n now]
  by (auto simp: inflight_exec_budget_def split: if_splits)

text \<open>A spent budget is never waited on for more than the stall time.\<close>

lemma stalled_release:
  assumes "flow_rel f sends" "inflight_exec_budget (exec_in_flight f) = 0"
    and "sf_last_progress f + RX_PROGRESS_STALL \<le> now"
    and "\<forall>t. sf_unacked_since f = Some t \<longrightarrow> t + RX_PROGRESS_STALL \<le> now"
  shows "fst (release_if_stalled f now) \<and> \<not> pacing (snd (release_if_stalled f now))
    \<and> exec_in_flight (snd (release_if_stalled f now)) = 0"
proof -
  have "0 < exec_unconfirmed sends (sf_acked f)"
    using assms(2) exec_in_flight_exact [OF assms(1)]
    by (simp add: inflight_exec_budget_def pump_consts)
  then have "sf_acked f < sf_sent f"
    using assms(1) by (auto simp: exec_unconfirmed_def flow_rel_def not_less)
  then obtain t where t: "sf_unacked_since f = Some t"
    using assms(1) by (cases "sf_unacked_since f") (auto simp: flow_rel_def)
  then have "\<not> now - max t (sf_last_progress f) < RX_PROGRESS_STALL"
    using assms(3,4) by (auto simp: max_def)
  then show ?thesis
    using t by (simp add: release_if_stalled_def pacing_def exec_in_flight_def Let_def)
qed

end
