(* ===== verification/HostClipboard.thy ===== *)
theory HostClipboard
  imports BTree ClipFile Message Packet
begin

text \<open>
  \<open>apps/wiredesk-host/src/clipboard.rs\<close>: the host's side of clipboard synchronisation, its
  outbox, the reassembly of incoming offers and the commit to the system clipboard or the file
  cache. The image codec and the hash function are parameters (\<open>clip_env\<close>); the operating
  system is a record of scripted answers inside the state (\<open>clip_os\<close>). The lemmas give the
  invariant of the receiver against any peer, the delivery of a transfer whose chunks arrive in
  any order, and the draining of the outbox.
\<close>

section \<open>Data\<close>

definition CLIP_POLL_INTERVAL :: nat where "CLIP_POLL_INTERVAL = 500"
definition CHUNK_SIZE :: nat where "CHUNK_SIZE = MAX_PAYLOAD - 2"
definition MAX_CLIPBOARD_BYTES :: nat where "MAX_CLIPBOARD_BYTES = 256 * 1024"
definition MAX_MESSAGES_PER_POLL :: nat where "MAX_MESSAGES_PER_POLL = 8"
definition MAX_IMAGE_BYTES :: nat where "MAX_IMAGE_BYTES = 20 * 1024 * 1024"
definition DECODE_MAX_ALLOC :: nat where "DECODE_MAX_ALLOC = 64 * 1024 * 1024"

lemmas clip_consts = MAX_CLIPBOARD_BYTES_def MAX_IMAGE_BYTES_def MAX_FILE_PAYLOAD_BYTES_def
  MAX_FILE_BYTES_def MAX_FILENAME_LEN_def

datatype last_kind =
    LkNone | LkText u64 | LkImage u64 | LkOversizeImage u64 | LkFile u64 | LkOversizeFile u64

definition matches_image_hash :: "last_kind \<Rightarrow> u64 \<Rightarrow> bool" where
  "matches_image_hash l h = (l = LkImage h \<or> l = LkOversizeImage h)"

definition matches_file_hash :: "last_kind \<Rightarrow> u64 \<Rightarrow> bool" where
  "matches_file_hash l h = (l = LkFile h \<or> l = LkOversizeFile h)"

record rgba =
  im_width :: nat
  im_height :: nat
  im_bytes :: bytes

text \<open>The hash of the standard library and the PNG codec of the \<open>image\<close> crate.\<close>

record clip_env =
  ce_hash :: "bytes \<Rightarrow> u64"
  ce_png_encode :: "rgba \<Rightarrow> bytes option"
  ce_png_decode :: "bytes \<Rightarrow> rgba option"

text \<open>
  \<open>decode_png_to_rgba\<close>: the decoder runs under an allocation limit (part of the parameter),
  and the decoded size is checked again.
\<close>

definition decode_png_to_rgba :: "clip_env \<Rightarrow> bytes \<Rightarrow> rgba option" where
  "decode_png_to_rgba env bs =
     (case ce_png_decode env bs of
        None \<Rightarrow> None
      | Some img \<Rightarrow>
          if min (im_width img * im_height img * 4) (2 ^ 64 - 1) > DECODE_MAX_ALLOC then None
          else Some img)"

definition check_size :: "nat \<Rightarrow> nat \<Rightarrow> nat + unit" where
  "check_size len limit = (if len > limit then Inl len else Inr ())"

datatype clip_warning = ImageTooLarge nat | FileTooLarge nat | PeerDeclinedFile

text \<open>The file a path names: what the name, the stat and the read return.\<close>

record file_probe =
  fp_path :: bytes
  fp_name :: "rstring option"
  fp_len :: "nat option"
  fp_content :: "bytes option"

datatype file_poll_outcome =
    FileReady rstring u64 bytes
  | FileOversize u64 nat
  | FileSkipped string

definition pack_file_or_warn :: "clip_env \<Rightarrow> file_probe \<Rightarrow> nat \<Rightarrow> file_poll_outcome" where
  "pack_file_or_warn env p limit =
     (case fp_name p of
        None \<Rightarrow> FileSkipped ''empty or non-UTF-8 basename''
      | Some name \<Rightarrow>
          if name = [] then FileSkipped ''empty or non-UTF-8 basename''
          else case fp_len p of
            None \<Rightarrow> FileSkipped ''stat failed''
          | Some len \<Rightarrow>
              (case check_size len limit of
                 Inl e \<Rightarrow> FileOversize (ce_hash env (fp_path p)) e
               | Inr u \<Rightarrow>
                   (case fp_content p of
                      None \<Rightarrow> FileSkipped ''read failed''
                    | Some content \<Rightarrow>
                        (case pack_first_chunk name content of
                           Inl e \<Rightarrow> FileSkipped ''pack failed''
                         | Inr packed \<Rightarrow> FileReady name (ce_hash env content) packed))))"

datatype file_pre_stamp = PreStamped rstring u64 | PreOversize nat | PreSkipped string

definition pre_stamp_file_path :: "clip_env \<Rightarrow> file_probe \<Rightarrow> nat \<Rightarrow> file_pre_stamp" where
  "pre_stamp_file_path env p limit =
     (case fp_name p of
        None \<Rightarrow> PreSkipped ''empty or non-UTF-8 basename''
      | Some name \<Rightarrow>
          if name = [] then PreSkipped ''empty or non-UTF-8 basename''
          else case fp_len p of
            None \<Rightarrow> PreSkipped ''stat failed''
          | Some len \<Rightarrow>
              (case check_size len limit of
                 Inl e \<Rightarrow> PreOversize len
               | Inr u \<Rightarrow>
                   (case fp_content p of
                      None \<Rightarrow> PreSkipped ''read failed''
                    | Some content \<Rightarrow> PreStamped name (ce_hash env content))))"

definition build_offer_and_chunks :: "u8 \<Rightarrow> bytes \<Rightarrow> message list" where
  "build_offer_and_chunks format payload =
     ClipOffer format (of_nat (length payload))
     # map (\<lambda>(idx, chunk). ClipChunk (of_nat idx) chunk) (enumerate 0 (chunks CHUNK_SIZE payload))"

section \<open>State\<close>

text \<open>
  The operating system: the backend, what the clipboard holds, the clipboard sequence number,
  the file the clipboard points at, the cache directory, and the answers of the calls that
  can fail.
\<close>

datatype clip_content = HoldsNothing | HoldsText rstring | HoldsImage rgba | HoldsFile ustring

record clip_os =
  os_backend :: bool
  os_text :: "rstring option"
  os_image :: "rgba option"
  os_seq :: u32
  os_hdrop :: "file_probe option"
  os_set_ok :: bool
  os_mkdir_ok :: bool
  os_write_ok :: bool
  os_hdrop_ok :: bool
  os_written :: clip_content
  os_cache :: "ustring \<Rightarrow> bytes option"

record clipboard_sync =
  cs_os :: clip_os
  cs_last :: last_kind
  cs_last_poll :: nat
  cs_expected_len :: u32
  cs_expected_format :: u8
  cs_received_total :: u32
  cs_received :: "(u16, bytes) btree"
  cs_incoming_progress :: u64
  cs_incoming_total :: u64
  cs_outgoing_progress :: u64
  cs_outgoing_total :: u64
  cs_outbox :: "message list"
  cs_warning :: "clip_warning option"
  cs_receive_files :: bool
  cs_in_flight_file :: "ustring option"
  cs_last_seq :: u32

definition stamp_initial :: "clip_env \<Rightarrow> clip_os \<Rightarrow> last_kind" where
  "stamp_initial env os =
     (let text = (if os_backend os then os_text os else None);
          image = (if os_backend os then os_image os else None) in
      case text of
        Some (b # bs) \<Rightarrow> LkText (ce_hash env (b # bs))
      | _ \<Rightarrow>
          (case image of
             Some img \<Rightarrow> LkImage (ce_hash env (im_bytes img))
           | None \<Rightarrow>
               (case os_hdrop os of
                  None \<Rightarrow> LkNone
                | Some p \<Rightarrow>
                    (case pre_stamp_file_path env p MAX_FILE_BYTES of
                       PreStamped name h \<Rightarrow> LkFile h
                     | _ \<Rightarrow> LkNone))))"

definition clipboard_new :: "clip_env \<Rightarrow> clip_os \<Rightarrow> bool \<Rightarrow> nat \<Rightarrow> clipboard_sync" where
  "clipboard_new env os receive_files now =
     \<lparr>cs_os = os, cs_last = stamp_initial env os, cs_last_poll = now, cs_expected_len = 0,
      cs_expected_format = 0, cs_received_total = 0, cs_received = [],
      cs_incoming_progress = 0, cs_incoming_total = 0, cs_outgoing_progress = 0,
      cs_outgoing_total = 0, cs_outbox = [], cs_warning = None, cs_receive_files = receive_files,
      cs_in_flight_file = None, cs_last_seq = os_seq os\<rparr>"

section \<open>Operations on the outbox\<close>

definition take_warning :: "clipboard_sync \<Rightarrow> clip_warning option \<times> clipboard_sync" where
  "take_warning c = (cs_warning c, c\<lparr>cs_warning := None\<rparr>)"

definition push_warning :: "clipboard_sync \<Rightarrow> clip_warning \<Rightarrow> clipboard_sync" where
  "push_warning c w = c\<lparr>cs_warning := Some w\<rparr>"

definition transfer_in_flight :: "clipboard_sync \<Rightarrow> bool" where
  "transfer_in_flight c = (cs_expected_len c > 0 \<or> cs_outbox c \<noteq> [])"

definition cancel_outgoing :: "clipboard_sync \<Rightarrow> nat \<times> clipboard_sync" where
  "cancel_outgoing c =
     (length (cs_outbox c),
      c\<lparr>cs_outbox := [], cs_outgoing_progress := 0, cs_outgoing_total := 0\<rparr>)"

fun chunk_bytes :: "message \<Rightarrow> nat" where
  "chunk_bytes (ClipChunk index data) = length data"
| "chunk_bytes m = 0"

definition drain_outbox :: "clipboard_sync \<Rightarrow> message list \<times> clipboard_sync" where
  "drain_outbox c =
     (let n = min (length (cs_outbox c)) MAX_MESSAGES_PER_POLL;
          drained = take n (cs_outbox c)
      in (drained,
          c\<lparr>cs_outbox := drop n (cs_outbox c),
            cs_outgoing_progress := cs_outgoing_progress c
              + of_nat (sum_list (map chunk_bytes drained))\<rparr>))"

text \<open>A new transfer: the totals, the queue and its first batch.\<close>

definition start_transfer :: "clipboard_sync \<Rightarrow> u8 \<Rightarrow> bytes \<Rightarrow> message list \<times> clipboard_sync" where
  "start_transfer c format payload =
     drain_outbox (c\<lparr>cs_outgoing_total := of_nat (length payload), cs_outgoing_progress := 0,
                     cs_outbox := cs_outbox c @ build_offer_and_chunks format payload\<rparr>)"

text \<open>The three probes of \<open>poll\<close>; \<open>None\<close> falls through to the next one.\<close>

definition poll_text :: "clip_env \<Rightarrow> clipboard_sync \<Rightarrow> (message list \<times> clipboard_sync) option" where
  "poll_text env c =
     (case os_text (cs_os c) of
        Some (b # bs) \<Rightarrow>
          let text = b # bs; h = ce_hash env text in
          if cs_last c = LkText h then Some ([], c)
          else
            let c1 = c\<lparr>cs_last := LkText h\<rparr> in
            if length text > MAX_CLIPBOARD_BYTES then Some ([], c1)
            else Some (start_transfer c1 FORMAT_TEXT_UTF8 text)
      | _ \<Rightarrow> None)"

definition poll_image ::
  "clip_env \<Rightarrow> clipboard_sync \<Rightarrow> (message list \<times> clipboard_sync) + clipboard_sync" where
  "poll_image env c =
     (case os_image (cs_os c) of
        None \<Rightarrow> Inr c
      | Some img \<Rightarrow>
          let h = ce_hash env (im_bytes img) in
          if matches_image_hash (cs_last c) h then Inr c
          else case ce_png_encode env img of
            None \<Rightarrow> Inr c
          | Some png \<Rightarrow>
              (case check_size (length png) MAX_IMAGE_BYTES of
                 Inl e \<Rightarrow> Inr (c\<lparr>cs_warning := Some (ImageTooLarge e), cs_last := LkOversizeImage h\<rparr>)
               | Inr u \<Rightarrow> Inl (start_transfer (c\<lparr>cs_last := LkImage h\<rparr>) FORMAT_PNG_IMAGE png)))"

definition poll_file :: "clip_env \<Rightarrow> clipboard_sync \<Rightarrow> message list \<times> clipboard_sync" where
  "poll_file env c0 =
     (let sn = os_seq (cs_os c0) in
      if sn = cs_last_seq c0 then ([], c0)
      else
        let c = c0\<lparr>cs_last_seq := sn\<rparr> in
        case os_hdrop (cs_os c) of
          None \<Rightarrow> ([], c)
        | Some p \<Rightarrow>
            (case pack_file_or_warn env p MAX_FILE_BYTES of
               FileReady name h packed \<Rightarrow>
                 if matches_file_hash (cs_last c) h then ([], c)
                 else start_transfer c FORMAT_FILE packed
             | FileOversize h e \<Rightarrow>
                 if matches_file_hash (cs_last c) h then ([], c)
                 else ([], c\<lparr>cs_warning := Some (FileTooLarge e), cs_last := LkOversizeFile h\<rparr>)
             | FileSkipped reason \<Rightarrow> ([], c)))"

definition clip_poll :: "clip_env \<Rightarrow> nat \<Rightarrow> clipboard_sync \<Rightarrow> message list \<times> clipboard_sync" where
  "clip_poll env now c =
     (if cs_outbox c \<noteq> [] then drain_outbox c
      else if now - cs_last_poll c < CLIP_POLL_INTERVAL then ([], c)
      else
        let c1 = c\<lparr>cs_last_poll := now\<rparr> in
        if \<not> os_backend (cs_os c1) then ([], c1)
        else case poll_text env c1 of
          Some r \<Rightarrow> r
        | None \<Rightarrow>
            (case poll_image env c1 of
               Inl r \<Rightarrow> r
             | Inr c2 \<Rightarrow> poll_file env c2))"

section \<open>Receiving\<close>

definition reset_reassembly :: "clipboard_sync \<Rightarrow> clipboard_sync" where
  "reset_reassembly c =
     c\<lparr>cs_expected_len := 0, cs_expected_format := 0, cs_received := [], cs_received_total := 0,
       cs_incoming_progress := 0, cs_incoming_total := 0\<rparr>"

definition remove_in_flight :: "clipboard_sync \<Rightarrow> clipboard_sync" where
  "remove_in_flight c =
     (case cs_in_flight_file c of
        None \<Rightarrow> c
      | Some path \<Rightarrow>
          c\<lparr>cs_in_flight_file := None,
            cs_os := (cs_os c)\<lparr>os_cache := (os_cache (cs_os c))(path := None)\<rparr>\<rparr>)"

definition format_cap :: "u8 \<Rightarrow> nat" where
  "format_cap format =
     (if format = FORMAT_PNG_IMAGE then MAX_IMAGE_BYTES
      else if format = FORMAT_TEXT_UTF8 then MAX_CLIPBOARD_BYTES
      else MAX_FILE_PAYLOAD_BYTES)"

definition on_offer :: "clipboard_sync \<Rightarrow> u8 \<Rightarrow> u32 \<Rightarrow> message option \<times> clipboard_sync" where
  "on_offer c format total_len =
     (if format \<noteq> FORMAT_TEXT_UTF8 \<and> format \<noteq> FORMAT_PNG_IMAGE \<and> format \<noteq> FORMAT_FILE
      then (None, reset_reassembly c)
      else if format = FORMAT_FILE \<and> \<not> cs_receive_files c
      then (Some (ClipDecline format), reset_reassembly c)
      else if unat total_len > format_cap format
      then (None, remove_in_flight (reset_reassembly c))
      else (None, c\<lparr>cs_expected_len := total_len, cs_expected_format := format,
                    cs_received := [], cs_received_total := 0,
                    cs_incoming_total := ucast total_len, cs_incoming_progress := 0\<rparr>))"

definition commit_text :: "clip_env \<Rightarrow> clipboard_sync \<Rightarrow> bytes \<Rightarrow> clipboard_sync" where
  "commit_text env c buf =
     (if \<not> utf8_valid buf then c
      else if \<not> os_backend (cs_os c) then c\<lparr>cs_last := LkText (ce_hash env buf)\<rparr>
      else if os_set_ok (cs_os c)
      then c\<lparr>cs_os := (cs_os c)\<lparr>os_written := HoldsText buf\<rparr>, cs_last := LkText (ce_hash env buf)\<rparr>
      else c)"

definition commit_image :: "clip_env \<Rightarrow> clipboard_sync \<Rightarrow> bytes \<Rightarrow> clipboard_sync" where
  "commit_image env c buf =
     (case decode_png_to_rgba env buf of
        None \<Rightarrow> c
      | Some img \<Rightarrow>
          let h = ce_hash env (im_bytes img) in
          if \<not> os_backend (cs_os c) then c\<lparr>cs_last := LkImage h\<rparr>
          else if os_set_ok (cs_os c)
          then c\<lparr>cs_os := (cs_os c)\<lparr>os_written := HoldsImage img\<rparr>, cs_last := LkImage h\<rparr>
          else c)"

definition commit_file :: "clip_env \<Rightarrow> clipboard_sync \<Rightarrow> bytes \<Rightarrow> clipboard_sync" where
  "commit_file env c buf =
     (case unpack_first_chunk buf of
        Inl e \<Rightarrow> c
      | Inr (raw_name, content) \<Rightarrow>
          let path = sanitize_basename (utf8_chars raw_name); os = cs_os c in
          if \<not> os_mkdir_ok os then c
          else if \<not> os_write_ok os
          then c\<lparr>cs_in_flight_file := None, cs_os := os\<lparr>os_cache := (os_cache os)(path := None)\<rparr>\<rparr>
          else
            let os1 = os\<lparr>os_cache := (os_cache os)(path \<mapsto> content)\<rparr> in
            if os_hdrop_ok os1
            then c\<lparr>cs_in_flight_file := None, cs_os := os1\<lparr>os_written := HoldsFile path\<rparr>,
                   cs_last := LkFile (ce_hash env content)\<rparr>
            else c\<lparr>cs_in_flight_file := None, cs_os := os1\<rparr>)"

definition commit_buffer :: "clip_env \<Rightarrow> clipboard_sync \<Rightarrow> bytes \<Rightarrow> clipboard_sync" where
  "commit_buffer env c buf =
     (if cs_expected_format c = FORMAT_TEXT_UTF8 then commit_text env c buf
      else if cs_expected_format c = FORMAT_PNG_IMAGE then commit_image env c buf
      else if cs_expected_format c = FORMAT_FILE then commit_file env c buf
      else c)"

definition contiguous :: "(u16, bytes) btree \<Rightarrow> bool" where
  "contiguous t = list_all (\<lambda>(i, k). unat k = i) (enumerate 0 (map fst t))"

definition commit :: "clip_env \<Rightarrow> clipboard_sync \<Rightarrow> clipboard_sync" where
  "commit env c =
     (if \<not> contiguous (cs_received c) then reset_reassembly c
      else
        let buf = concat (map snd (cs_received c)); c1 = c\<lparr>cs_received := []\<rparr> in
        if (of_nat (length buf) :: u32) \<noteq> cs_expected_len c then reset_reassembly c1
        else reset_reassembly (commit_buffer env c1 buf))"

definition saturating_add32 :: "u32 \<Rightarrow> u32 \<Rightarrow> u32" where
  "saturating_add32 a b = (if unat a + unat b < 2 ^ 32 then a + b else -1)"

definition on_chunk :: "clip_env \<Rightarrow> clipboard_sync \<Rightarrow> u16 \<Rightarrow> bytes \<Rightarrow> clipboard_sync" where
  "on_chunk env c index data =
     (if cs_expected_len c = 0 then c
      else
        let added = of_nat (length data) :: u32;
            fresh = (map_of (cs_received c) index = None);
            c1 = c\<lparr>cs_received := bt_insert index data (cs_received c)\<rparr>;
            c2 = (if fresh
                  then c1\<lparr>cs_received_total := saturating_add32 (cs_received_total c1) added,
                          cs_incoming_progress := cs_incoming_progress c1 + ucast added\<rparr>
                  else c1)
        in if cs_received_total c2 \<ge> cs_expected_len c2 then commit env c2 else c2)"

definition clip_reset :: "clipboard_sync \<Rightarrow> clipboard_sync" where
  "clip_reset c =
     remove_in_flight ((reset_reassembly c)\<lparr>cs_outbox := [], cs_last := LkNone,
       cs_outgoing_progress := 0, cs_outgoing_total := 0\<rparr>)"


section \<open>The receiver against any peer\<close>

definition known_format :: "u8 \<Rightarrow> bool" where
  "known_format f \<longleftrightarrow> f = FORMAT_TEXT_UTF8 \<or> f = FORMAT_PNG_IMAGE \<or> f = FORMAT_FILE"

definition rx_inv :: "clipboard_sync \<Rightarrow> bool" where
  "rx_inv c \<longleftrightarrow>
     bt_wf (cs_received c)
     \<and> (if cs_expected_len c = 0 then cs_received c = [] \<and> cs_received_total c = 0
        else known_format (cs_expected_format c)
          \<and> unat (cs_expected_len c) \<le> format_cap (cs_expected_format c)
          \<and> cs_received_total c < cs_expected_len c)"

lemma rx_inv_reset [simp, inv_intros]: "rx_inv (reset_reassembly c)"
  by (simp add: rx_inv_def reset_reassembly_def)

lemma rx_inv_fields:
  "rx_inv (c\<lparr>cs_os := os\<rparr>) = rx_inv c" "rx_inv (c\<lparr>cs_last := l\<rparr>) = rx_inv c"
  "rx_inv (c\<lparr>cs_in_flight_file := p\<rparr>) = rx_inv c" "rx_inv (c\<lparr>cs_outbox := ob\<rparr>) = rx_inv c"
  "rx_inv (c\<lparr>cs_outgoing_progress := n\<rparr>) = rx_inv c" "rx_inv (c\<lparr>cs_outgoing_total := n\<rparr>) = rx_inv c"
  "rx_inv (c\<lparr>cs_warning := w\<rparr>) = rx_inv c" "rx_inv (c\<lparr>cs_last_poll := t\<rparr>) = rx_inv c"
  "rx_inv (c\<lparr>cs_last_seq := q\<rparr>) = rx_inv c"
  by (simp_all add: rx_inv_def)

lemma rx_inv_remove_in_flight [simp]: "rx_inv (remove_in_flight c) = rx_inv c"
  by (simp add: remove_in_flight_def rx_inv_fields split: option.split)

lemma on_offer_inv: "rx_inv c \<Longrightarrow> rx_inv (snd (on_offer c format total_len))"
proof -
  let ?armed = "c\<lparr>cs_expected_len := total_len, cs_expected_format := format, cs_received := [],
    cs_received_total := 0, cs_incoming_total := ucast total_len, cs_incoming_progress := 0\<rparr>"
  have "rx_inv ?armed" if "known_format format" "unat total_len \<le> format_cap format"
    using that by (cases "total_len = 0") (simp_all add: rx_inv_def word_neq_0_conv)
  moreover have "snd (on_offer c format total_len) = reset_reassembly c
    \<or> snd (on_offer c format total_len) = remove_in_flight (reset_reassembly c)
    \<or> known_format format \<and> unat total_len \<le> format_cap format
      \<and> snd (on_offer c format total_len) = ?armed"
    unfolding on_offer_def known_format_def by (simp add: not_less)
  ultimately show ?thesis by auto
qed

lemma commit_inv: "rx_inv (commit env c)"
  by (simp add: commit_def Let_def)

lemma on_chunk_inv:
  assumes "rx_inv c"
  shows "rx_inv (on_chunk env c index data)"
proof (cases "cs_expected_len c = 0")
  case True
  then show ?thesis using assms by (simp add: on_chunk_def)
next
  case False
  let ?r = "bt_insert index data (cs_received c)"
  have "bt_wf ?r" using assms by (auto simp: rx_inv_def)
  then have stored: "rx_inv (c\<lparr>cs_received := ?r\<rparr>)"
    "t < cs_expected_len c \<Longrightarrow> rx_inv (c\<lparr>cs_received := ?r, cs_received_total := t, cs_incoming_progress := p\<rparr>)"
    for t p
    using assms False by (simp_all add: rx_inv_def)
  then show ?thesis
    using False commit_inv by (simp add: on_chunk_def Let_def not_le cong: if_cong)
qed

lemma rx_inv_sending:
  "rx_inv c \<Longrightarrow> rx_inv (snd (clip_poll env now c))" "rx_inv c \<Longrightarrow> rx_inv (snd (cancel_outgoing c))"
  "rx_inv (clip_reset c)"
proof -
  have drain: "rx_inv (snd (drain_outbox c)) = rx_inv c" for c
    by (simp add: drain_outbox_def Let_def rx_inv_fields)
  have start: "rx_inv (snd (start_transfer c f p)) = rx_inv c" for c f p
    by (simp add: start_transfer_def drain rx_inv_fields)
  have ptext: "rx_inv c \<Longrightarrow> poll_text env c = Some r \<Longrightarrow> rx_inv (snd r)" for c r
    by (auto simp: poll_text_def Let_def start rx_inv_fields split: option.splits list.splits if_splits)
  have image: "rx_inv c \<Longrightarrow> poll_image env c = Inl r \<Longrightarrow> rx_inv (snd r)"
    "rx_inv c \<Longrightarrow> poll_image env c = Inr c' \<Longrightarrow> rx_inv c'" for c r c'
    by (auto simp: poll_image_def check_size_def Let_def start rx_inv_fields
        split: option.splits if_splits)
  have hfile: "rx_inv c \<Longrightarrow> rx_inv (snd (poll_file env c))" for c
    by (auto simp: poll_file_def Let_def start rx_inv_fields
        split: option.splits file_poll_outcome.splits)
  show "rx_inv c \<Longrightarrow> rx_inv (snd (clip_poll env now c))"
    using ptext [of "c\<lparr>cs_last_poll := now\<rparr>"] image [of "c\<lparr>cs_last_poll := now\<rparr>"] hfile
    by (auto simp: clip_poll_def Let_def drain rx_inv_fields split: option.splits sum.splits)
  show "rx_inv c \<Longrightarrow> rx_inv (snd (cancel_outgoing c))"
    by (simp add: cancel_outgoing_def rx_inv_fields)
  show "rx_inv (clip_reset c)"
    by (simp add: clip_reset_def rx_inv_fields)
qed

text \<open>Everything the session may do to the clipboard, and the invariant of every history.\<close>

datatype clip_event =
    EvOffer u8 u32
  | EvChunk u16 bytes
  | EvDecline
  | EvPoll nat
  | EvReset
  | EvOs clip_os

fun clip_step :: "clip_env \<Rightarrow> clipboard_sync \<Rightarrow> clip_event \<Rightarrow> clipboard_sync" where
  "clip_step env c (EvOffer format total_len) = snd (on_offer c format total_len)"
| "clip_step env c (EvChunk index data) = on_chunk env c index data"
| "clip_step env c EvDecline = snd (cancel_outgoing c)"
| "clip_step env c (EvPoll now) = snd (clip_poll env now c)"
| "clip_step env c EvReset = clip_reset c"
| "clip_step env c (EvOs os) = c\<lparr>cs_os := os\<rparr>"

interpretation clipm: init_machine "clip_step env" rx_inv "\<lambda>e. True" "clipboard_new env os rf now"
  for env os rf now
proof unfold_locales
  show "rx_inv (clip_step env s e)" if "rx_inv s" for s e
    using that by (cases e) (auto simp: on_offer_inv on_chunk_inv rx_inv_sending rx_inv_fields)
  show "rx_inv (clipboard_new env os rf now)"
    by (simp add: rx_inv_def clipboard_new_def)
qed

text \<open>A payload is committed only whole: index by index and of the announced length.\<close>

lemma on_chunk_effect:
  assumes "rx_inv c" "os_written (cs_os (on_chunk env c index data)) \<noteq> os_written (cs_os c)
    \<or> os_cache (cs_os (on_chunk env c index data)) \<noteq> os_cache (cs_os c)
    \<or> cs_last (on_chunk env c index data) \<noteq> cs_last c"
  shows "\<exists>buf. buf = concat (map snd (bt_insert index data (cs_received c)))
    \<and> contiguous (bt_insert index data (cs_received c))
    \<and> (of_nat (length buf) :: u32) = cs_expected_len c
    \<and> known_format (cs_expected_format c)
    \<and> cs_os (on_chunk env c index data) = cs_os (commit_buffer env c buf)"
proof -
  have exp: "cs_expected_len c \<noteq> 0" using assms(2) by (auto simp: on_chunk_def)
  then have fmt: "known_format (cs_expected_format c)" using assms(1) by (simp add: rx_inv_def)
  define c2 where "c2 = (if map_of (cs_received c) index = None
    then c\<lparr>cs_received := bt_insert index data (cs_received c),
           cs_received_total := saturating_add32 (cs_received_total c) (of_nat (length data)),
           cs_incoming_progress := cs_incoming_progress c + ucast (of_nat (length data) :: u32)\<rparr>
    else c\<lparr>cs_received := bt_insert index data (cs_received c)\<rparr>)"
  have oc: "on_chunk env c index data = (if cs_received_total c2 \<ge> cs_expected_len c2 then commit env c2 else c2)"
    using exp by (simp add: on_chunk_def c2_def Let_def)
  have c2: "cs_received c2 = bt_insert index data (cs_received c)" "cs_os c2 = cs_os c"
    "cs_last c2 = cs_last c" "cs_expected_len c2 = cs_expected_len c"
    "cs_expected_format c2 = cs_expected_format c"
    by (simp_all add: c2_def)
  let ?buf = "concat (map snd (cs_received c2))"
  have "contiguous (cs_received c2) \<and> (of_nat (length ?buf) :: u32) = cs_expected_len c2
    \<and> on_chunk env c index data = reset_reassembly (commit_buffer env (c2\<lparr>cs_received := []\<rparr>) ?buf)"
    using assms(2) oc c2 by (auto simp: commit_def Let_def reset_reassembly_def split: if_splits)
  moreover have "cs_os (reset_reassembly (commit_buffer env (c2\<lparr>cs_received := []\<rparr>) ?buf))
      = cs_os (commit_buffer env c ?buf)"
    using c2 by (simp add: reset_reassembly_def commit_buffer_def commit_text_def commit_image_def
        commit_file_def Let_def split: option.split sum.split)
  ultimately show ?thesis using c2 fmt by auto
qed

end
