(* ===== verification/HostSession.thy ===== *)
theory HostSession
  imports Actions HostShell HostFlow HostClipboard BrowserHub Storm
begin

text \<open>
  The host's session, \<open>apps/wiredesk-host/src/session.rs\<close>: \<open>tick\<close>, the pumping of the two shell
  slots and \<open>handle_packet\<close>, arm by arm. The transport and the injector are what the session sees
  of them: the log of what it handed over and a script of the answers. A script entry also says
  how long the call took, because \<open>Instant::now()\<close> is read again after blocking sends; the clock
  moves nowhere else inside a tick. Shells the session has dropped stay visible in
  \<open>hs_released\<close>.
\<close>

section \<open>State\<close>

record link =
  ln_log :: "packet list"
  ln_send_script :: "(nat \<times> werror option) list"
  ln_recv_script :: "(nat \<times> (werror + packet)) list"
  ln_buffers :: bool

datatype inject_call =
    ReleaseAll
  | MoveTo u16 u16
  | Button u8 bool
  | Scroll i16 i16
  | PressKey u16 u8
  | ReleaseKey u16 u8

record injector =
  in_log :: "inject_call list"
  in_script :: "werror option list"

record pty_slot =
  ps_proc :: shell_process
  ps_legacy :: bool

datatype session_state = WaitingForHello | Connected | SessDisconnected

record host_session =
  hs_link :: link
  hs_injector :: injector
  hs_state :: session_state
  hs_seq :: u16
  hs_hb_sent :: nat
  hs_hb_recv :: nat
  hs_host_name :: rstring
  hs_screen_w :: u16
  hs_screen_h :: u16
  hs_exec :: "shell_process option"
  hs_pty :: "pty_slot option"
  hs_pty_activity :: nat
  hs_flow :: shell_flow
  hs_browser :: hub
  hs_warm :: "(rstring list \<times> shell_process) option"
  hs_warm_enabled :: bool
  hs_clip :: clipboard_sync
  hs_client_name :: "rstring option"
  hs_storm :: storm_counter
  hs_now :: nat
  hs_released :: "shell_process list"

text \<open>What the session calls and does not own: spawning, the clipboard's codecs, \<open>Display\<close>.\<close>

record host_env =
  he_canon :: "rstring \<Rightarrow> rstring"
  he_windows :: bool
  he_spawn :: "rstring list \<Rightarrow> (u16 \<times> u16) option \<Rightarrow> werror + shell_process"
  he_clip :: clip_env
  he_show :: "werror \<Rightarrow> rstring"

type_synonym 'a host = "(host_session, 'a) action"

text \<open>\<open>with_counters_and_toggles\<close>.\<close>

definition session_new ::
  "link \<Rightarrow> injector \<Rightarrow> rstring \<Rightarrow> u16 \<Rightarrow> u16 \<Rightarrow> hub \<Rightarrow> clipboard_sync \<Rightarrow> nat \<Rightarrow> host_session" where
  "session_new ln inp name w h browser clip now =
     \<lparr>hs_link = ln, hs_injector = inp, hs_state = WaitingForHello, hs_seq = 0, hs_hb_sent = now,
      hs_hb_recv = now, hs_host_name = name, hs_screen_w = w, hs_screen_h = h, hs_exec = None,
      hs_pty = None, hs_pty_activity = now, hs_flow = flow_new now, hs_browser = browser,
      hs_warm = None, hs_warm_enabled = True, hs_clip = clip, hs_client_name = None,
      hs_storm = storm_new DEFAULT_STORM_THRESHOLD, hs_now = now, hs_released = []\<rparr>"

section \<open>Calls to the outside\<close>

definition link_send :: "packet \<Rightarrow> unit host" where
  "link_send p s =
     (let ln = hs_link s in
      case ln_send_script ln of
        [] \<Rightarrow> (Inr (), s\<lparr>hs_link := ln\<lparr>ln_log := ln_log ln @ [p]\<rparr>\<rparr>)
      | (d, r) # script \<Rightarrow>
          ((case r of None \<Rightarrow> Inr () | Some e \<Rightarrow> Inl e),
           s\<lparr>hs_link := ln\<lparr>ln_log := ln_log ln @ [p], ln_send_script := script\<rparr>,
             hs_now := hs_now s + d\<rparr>))"

definition link_recv :: "packet host" where
  "link_recv s =
     (let ln = hs_link s in
      case ln_recv_script ln of
        [] \<Rightarrow> (Inl (Transport ''recv timeout''), s)
      | (d, r) # script \<Rightarrow>
          (r, s\<lparr>hs_link := ln\<lparr>ln_recv_script := script\<rparr>, hs_now := hs_now s + d\<rparr>))"

definition inject :: "inject_call \<Rightarrow> unit host" where
  "inject c s =
     (let inp = hs_injector s; inj1 = inp\<lparr>in_log := in_log inp @ [c]\<rparr> in
      case in_script inp of
        [] \<Rightarrow> (Inr (), s\<lparr>hs_injector := inj1\<rparr>)
      | r # script \<Rightarrow>
          ((case r of None \<Rightarrow> Inr () | Some e \<Rightarrow> Inl e),
           s\<lparr>hs_injector := inj1\<lparr>in_script := script\<rparr>\<rparr>))"

section \<open>Sending and timing\<close>

definition next_seq :: "host_session \<Rightarrow> u16 \<times> host_session" where
  "next_seq s = (hs_seq s, s\<lparr>hs_seq := hs_seq s + 1\<rparr>)"

definition sess_send :: "message \<Rightarrow> unit host" where
  "sess_send m s = (let (seq, s1) = next_seq s in link_send (packet_new m seq) s1)"

definition note_pty_activity :: "host_session \<Rightarrow> host_session" where
  "note_pty_activity s = s\<lparr>hs_pty_activity := hs_now s\<rparr>"

definition exec_budget_at :: "host_session \<Rightarrow> nat" where
  "exec_budget_at s =
     (if hs_pty s \<noteq> None \<and> pacing (hs_flow s) \<and> ln_buffers (hs_link s)
      then inflight_exec_budget (exec_in_flight (hs_flow s))
      else exec_pump_budget (map_option (\<lambda>p. hs_now s - hs_pty_activity s) (hs_pty s)))"

definition heartbeat_timeout :: "host_session \<Rightarrow> nat" where
  "heartbeat_timeout s =
     heartbeat_timeout_for (transfer_in_flight (hs_clip s)) (hs_exec s \<noteq> None \<or> hs_pty s \<noteq> None)"

definition note_protocol_error :: "host_session \<Rightarrow> bool \<times> host_session" where
  "note_protocol_error s =
     (let (fired, st) = on_protocol_error (hs_storm s) in (fired, s\<lparr>hs_storm := st\<rparr>))"

section \<open>The shell slots\<close>

text \<open>\<open>Drop for ShellProcess\<close>: close, then kill.\<close>

definition released :: "shell_process \<Rightarrow> shell_process" where
  "released sp = shell_kill (shell_close sp)"

definition exec_kill :: "host_session \<Rightarrow> host_session" where
  "exec_kill s =
     (case hs_exec s of
        None \<Rightarrow> s
      | Some sp \<Rightarrow> s\<lparr>hs_exec := None, hs_released := hs_released s @ [released (shell_kill sp)]\<rparr>)"

definition pty_kill :: "host_session \<Rightarrow> host_session" where
  "pty_kill s =
     (case hs_pty s of
        None \<Rightarrow> s
      | Some p \<Rightarrow>
          s\<lparr>hs_pty := None, hs_released := hs_released s @ [released (shell_kill (ps_proc p))]\<rparr>)"

definition kill_all_shells :: "host_session \<Rightarrow> host_session" where
  "kill_all_shells s =
     (let s1 = pty_kill (exec_kill s) in s1\<lparr>hs_browser := hub_reset (hs_browser s1)\<rparr>)"

definition warm_kill :: "host_session \<Rightarrow> host_session" where
  "warm_kill s =
     (case hs_warm s of
        None \<Rightarrow> s
      | Some (argv, sp) \<Rightarrow>
          s\<lparr>hs_warm := None, hs_released := hs_released s @ [released (shell_kill sp)]\<rparr>)"

definition env_spawn :: "host_env \<Rightarrow> rstring \<Rightarrow> (u16 \<times> u16) option \<Rightarrow> werror + shell_process" where
  "env_spawn env = spawn_shell (he_canon env) (he_windows env) (he_spawn env)"

definition take_warm_or_spawn :: "host_env \<Rightarrow> rstring \<Rightarrow> shell_process host" where
  "take_warm_or_spawn env requested s =
     (let want = shell_argv (he_canon env) (he_windows env) requested in
      case hs_warm s of
        Some (argv, sp) \<Rightarrow>
          if argv = want then (Inr (snd (drain_pending sp)), s\<lparr>hs_warm := None\<rparr>)
          else (env_spawn env requested None, s)
      | None \<Rightarrow> (env_spawn env requested None, s))"

definition warm_up :: "host_env \<Rightarrow> host_session \<Rightarrow> host_session" where
  "warm_up env s =
     (if \<not> hs_warm_enabled s \<or> hs_warm s \<noteq> None then s
      else case env_spawn env [] None of
        Inr sp \<Rightarrow> s\<lparr>hs_warm := Some (shell_argv (he_canon env) (he_windows env) [], sp)\<rparr>
      | Inl e \<Rightarrow> s)"

section \<open>Pumping shell output\<close>

text \<open>The reads of one slot: whole reads until the budget, an exit or an empty channel.\<close>

fun drain_events :: "nat \<Rightarrow> bytes \<Rightarrow> shell_event list \<Rightarrow> bytes \<times> i32 option \<times> shell_event list" where
  "drain_events budget acc [] = (acc, None, [])"
| "drain_events budget acc (Output data # evs) =
     (if length acc < budget then drain_events budget (acc @ data) evs
      else (acc, None, Output data # evs))"
| "drain_events budget acc (Exit code # evs) =
     (if length acc < budget then (acc, Some code, evs) else (acc, None, Exit code # evs))"

definition slot_proc :: "shell_slot \<Rightarrow> host_session \<Rightarrow> shell_process option" where
  "slot_proc slot s =
     (case slot of SlotExec \<Rightarrow> hs_exec s | SlotPty \<Rightarrow> map_option ps_proc (hs_pty s))"

definition set_proc :: "shell_slot \<Rightarrow> shell_process \<Rightarrow> host_session \<Rightarrow> host_session" where
  "set_proc slot sp s =
     (case slot of
        SlotExec \<Rightarrow> s\<lparr>hs_exec := Some sp\<rparr>
      | SlotPty \<Rightarrow> s\<lparr>hs_pty := map_option (\<lambda>p. p\<lparr>ps_proc := sp\<rparr>) (hs_pty s)\<rparr>)"

definition drop_slot :: "shell_slot \<Rightarrow> shell_process \<Rightarrow> host_session \<Rightarrow> host_session" where
  "drop_slot slot sp s =
     (let s1 = s\<lparr>hs_released := hs_released s @ [released sp]\<rparr> in
      case slot of SlotExec \<Rightarrow> s1\<lparr>hs_exec := None\<rparr> | SlotPty \<Rightarrow> s1\<lparr>hs_pty := None\<rparr>)"

definition legacy_opcodes :: "shell_slot \<Rightarrow> host_session \<Rightarrow> bool" where
  "legacy_opcodes slot s =
     (case slot of
        SlotExec \<Rightarrow> True
      | SlotPty \<Rightarrow> (case hs_pty s of None \<Rightarrow> False | Some p \<Rightarrow> ps_legacy p))"

definition split_shell_output :: "bytes \<Rightarrow> bytes list" where
  "split_shell_output chunk = chunks MAX_PAYLOAD chunk"

definition ship_piece :: "shell_slot \<Rightarrow> bool \<Rightarrow> bytes \<Rightarrow> unit host" where
  "ship_piece slot legacy data =
     then_act (update_act (\<lambda>s. s\<lparr>hs_flow := note_sent (hs_flow s) slot (length data) (hs_now s)\<rparr>))
       (sess_send (if legacy then ShellOutput data else PtyOutput data))"

definition slot_budget :: "shell_slot \<Rightarrow> host_session \<Rightarrow> nat" where
  "slot_budget slot s = (case slot of SlotPty \<Rightarrow> PUMP_BUDGET | SlotExec \<Rightarrow> exec_budget_at s)"

text \<open>The second half: the exit, found in the channel or by asking the process.\<close>

definition report_exit :: "shell_slot \<Rightarrow> bool \<Rightarrow> i32 option \<Rightarrow> unit host" where
  "report_exit slot legacy exit_code s =
     (case slot_proc slot s of
        None \<Rightarrow> (Inr (), s)
      | Some sp \<Rightarrow>
          (case (case exit_code of Some code \<Rightarrow> Some code | None \<Rightarrow> try_exit_code sp) of
             None \<Rightarrow> (Inr (), s)
           | Some code \<Rightarrow>
               sess_send (if legacy then ShellExit code else PtyExit code) (drop_slot slot sp s)))"

definition pump_slot :: "shell_slot \<Rightarrow> unit host" where
  "pump_slot slot s =
     (let budget = slot_budget slot s in
      if budget = 0 then (Inr (), s)
      else case slot_proc slot s of
        None \<Rightarrow> (Inr (), s)
      | Some sp \<Rightarrow>
          let (out, exit_code, evs) = drain_events budget [] (sp_events sp);
              s1 = set_proc slot (sp\<lparr>sp_events := evs\<rparr>) s;
              legacy = legacy_opcodes slot s1
          in then_act (each_act (ship_piece slot legacy) (split_shell_output out))
               (then_act
                 (update_act (\<lambda>s. if slot = SlotPty \<and> out \<noteq> [] then note_pty_activity s else s))
                 (report_exit slot legacy exit_code)) s1)"

definition pump_shell_events :: "unit host" where
  "pump_shell_events =
     then_act (update_act (\<lambda>s. s\<lparr>hs_flow := snd (release_if_stalled (hs_flow s) (hs_now s))\<rparr>))
       (each_act pump_slot pump_order)"

section \<open>Packets\<close>

definition VERSION_NAT :: nat where "VERSION_NAT = unat VERSION"

fun show_nat :: "nat \<Rightarrow> rstring" where
  "show_nat n = (if n < 10 then [] else show_nat (n div 10)) @ [of_nat (48 + n mod 10)]"

declare show_nat.simps [simp del]

text \<open>\<open>Hello\<close> while waiting for one.\<close>

definition on_hello :: "host_env \<Rightarrow> u8 \<Rightarrow> rstring \<Rightarrow> unit host" where
  "on_hello env version client_name s =
     (if version \<noteq> VERSION
      then sess_send (Error 1 (blit ''unsupported version '' @ show_nat (unat version)
             @ blit '', expected '' @ show_nat VERSION_NAT)) s
      else
        let s1 = s\<lparr>hs_client_name := Some client_name, hs_flow := flow_new (hs_now s),
                   hs_browser := hub_reset (hs_browser s)\<rparr>
        in then_act
             (sess_send (HelloAck HOST_PROTO_VERSION (hs_host_name s1) (hs_screen_w s1) (hs_screen_h s1)))
             (update_act (\<lambda>s. warm_up env (s\<lparr>hs_state := Connected, hs_hb_recv := hs_now s\<rparr>))) s1)"

text \<open>\<open>Hello\<close> in any other state: the old client is torn down first.\<close>

definition on_rehello :: "host_env \<Rightarrow> u8 \<Rightarrow> rstring \<Rightarrow> unit host" where
  "on_rehello env version client_name s =
     (let s1 = ignore_err (inject ReleaseAll) s;
          s2 = kill_all_shells (s1\<lparr>hs_clip := clip_reset (hs_clip s1)\<rparr>)
      in on_hello env version client_name
           (s2\<lparr>hs_state := WaitingForHello, hs_client_name := None\<rparr>))"

text \<open>The client left, or its heartbeats stopped.\<close>

definition tear_down :: "unit host" where
  "tear_down =
     then_act (inject ReleaseAll)
       (update_act (\<lambda>s.
          let s1 = warm_kill (kill_all_shells s)
          in s1\<lparr>hs_clip := clip_reset (hs_clip s1), hs_state := WaitingForHello,
                hs_client_name := None\<rparr>))"

definition on_clip_offer :: "u8 \<Rightarrow> u32 \<Rightarrow> unit host" where
  "on_clip_offer format total_len s =
     (case on_offer (hs_clip s) format total_len of
        (None, c) \<Rightarrow> (Inr (), s\<lparr>hs_clip := c\<rparr>)
      | (Some decline, c) \<Rightarrow> sess_send decline (s\<lparr>hs_clip := c\<rparr>))"

definition on_clip_decline :: "u8 \<Rightarrow> host_session \<Rightarrow> host_session" where
  "on_clip_decline format s =
     (let c = snd (cancel_outgoing (hs_clip s))
      in s\<lparr>hs_clip := (if format = FORMAT_FILE then push_warning c PeerDeclinedFile else c)\<rparr>)"

definition legacy_pty :: "host_session \<Rightarrow> bool" where
  "legacy_pty s = (case hs_pty s of None \<Rightarrow> False | Some p \<Rightarrow> ps_legacy p)"

definition modern_pty :: "host_session \<Rightarrow> bool" where
  "modern_pty s = (case hs_pty s of None \<Rightarrow> False | Some p \<Rightarrow> \<not> ps_legacy p)"

definition on_shell_open :: "host_env \<Rightarrow> rstring \<Rightarrow> unit host" where
  "on_shell_open env shell s =
     (if hs_exec s \<noteq> None \<or> legacy_pty s
      then sess_send (Error ERR_SHELL_BUSY (blit ''shell already open'')) s
      else case take_warm_or_spawn env shell s of
        (Inr sp, s1) \<Rightarrow> (Inr (), warm_up env (s1\<lparr>hs_exec := Some sp\<rparr>))
      | (Inl e, s1) \<Rightarrow> sess_send (Error ERR_SHELL_SPAWN (blit ''shell spawn: '' @ he_show env e)) s1)"

definition on_shell_open_pty :: "host_env \<Rightarrow> rstring \<Rightarrow> u16 \<Rightarrow> u16 \<Rightarrow> unit host" where
  "on_shell_open_pty env shell cols rows s =
     (if hs_pty s \<noteq> None \<or> hs_exec s \<noteq> None
      then sess_send (Error ERR_SHELL_BUSY (blit ''shell already open'')) s
      else case env_spawn env shell (Some (cols, rows)) of
        Inr sp \<Rightarrow> (Inr (), s\<lparr>hs_pty := Some \<lparr>ps_proc = sp, ps_legacy = True\<rparr>\<rparr>)
      | Inl e \<Rightarrow> sess_send (Error ERR_SHELL_SPAWN (blit ''pty shell spawn: '' @ he_show env e)) s)"

definition on_pty_open :: "host_env \<Rightarrow> rstring \<Rightarrow> u16 \<Rightarrow> u16 \<Rightarrow> unit host" where
  "on_pty_open env shell cols rows s =
     (if hs_pty s \<noteq> None
      then sess_send (Error ERR_PTY_BUSY (blit ''pty shell already open'')) s
      else case env_spawn env shell (Some (cols, rows)) of
        Inr sp \<Rightarrow>
          (Inr (), note_pty_activity (s\<lparr>hs_pty := Some \<lparr>ps_proc = sp, ps_legacy = False\<rparr>\<rparr>))
      | Inl e \<Rightarrow> sess_send (Error ERR_PTY_SPAWN (blit ''pty shell spawn: '' @ he_show env e)) s)"

definition on_pty_resize :: "u16 \<Rightarrow> u16 \<Rightarrow> host_session \<Rightarrow> host_session" where
  "on_pty_resize cols rows s =
     (case hs_pty s of
        None \<Rightarrow> s
      | Some p \<Rightarrow>
          note_pty_activity (s\<lparr>hs_pty := Some (p\<lparr>ps_proc := shell_resize (ps_proc p) cols rows\<rparr>)\<rparr>))"

definition on_shell_input :: "bytes \<Rightarrow> host_session \<Rightarrow> host_session" where
  "on_shell_input data s =
     (case hs_exec s of
        Some sp \<Rightarrow> s\<lparr>hs_exec := Some (snd (shell_write sp data))\<rparr>
      | None \<Rightarrow>
          (case hs_pty s of
             Some p \<Rightarrow>
               if ps_legacy p then s\<lparr>hs_pty := Some (p\<lparr>ps_proc := snd (shell_write (ps_proc p) data)\<rparr>)\<rparr>
               else s
           | None \<Rightarrow> s))"

definition on_pty_input :: "bytes \<Rightarrow> host_session \<Rightarrow> host_session" where
  "on_pty_input data s =
     (case hs_pty s of
        Some p \<Rightarrow>
          if ps_legacy p then s
          else note_pty_activity
                 (s\<lparr>hs_pty := Some (p\<lparr>ps_proc := snd (shell_write (ps_proc p) data)\<rparr>)\<rparr>)
      | None \<Rightarrow> s)"

definition on_shell_close :: "unit host" where
  "on_shell_close s =
     (case hs_exec s of
        Some sp \<Rightarrow> sess_send ShellClosed (exec_kill (s\<lparr>hs_exec := Some (shell_close sp)\<rparr>))
      | None \<Rightarrow>
          (case hs_pty s of
             Some p \<Rightarrow>
               if ps_legacy p
               then sess_send ShellClosed (pty_kill (s\<lparr>hs_pty := Some (p\<lparr>ps_proc := shell_close (ps_proc p)\<rparr>)\<rparr>))
               else (Inr (), s)
           | None \<Rightarrow> (Inr (), s)))"

definition on_pty_close :: "host_session \<Rightarrow> host_session" where
  "on_pty_close s =
     (case hs_pty s of
        Some p \<Rightarrow>
          if ps_legacy p then s
          else pty_kill (s\<lparr>hs_pty := Some (p\<lparr>ps_proc := shell_close (ps_proc p)\<rparr>)\<rparr>)
      | None \<Rightarrow> s)"

text \<open>The arms of a connected session.\<close>

fun handle_connected :: "host_env \<Rightarrow> message \<Rightarrow> unit host" where
  "handle_connected env Heartbeat s = (Inr (), s\<lparr>hs_hb_recv := hs_now s\<rparr>)"
| "handle_connected env (RxProgress n) s =
     (Inr (), s\<lparr>hs_flow := snd (on_report (hs_flow s) (unat n) (hs_now s))\<rparr>)"
| "handle_connected env (Browser sid kind offset data) s =
     (Inr (), s\<lparr>hs_browser := hub_dispatch (Browser sid kind offset data) True (hs_now s) (hs_browser s)\<rparr>)"
| "handle_connected env (MouseMove x y) s = inject (MoveTo x y) s"
| "handle_connected env (MouseButton button pressed) s = inject (Button button pressed) s"
| "handle_connected env (MouseScroll dx dy) s = inject (Scroll dx dy) s"
| "handle_connected env (KeyDown scancode modifiers) s = inject (PressKey scancode modifiers) s"
| "handle_connected env (KeyUp scancode modifiers) s = inject (ReleaseKey scancode modifiers) s"
| "handle_connected env (ClipOffer format total_len) s = on_clip_offer format total_len s"
| "handle_connected env (ClipChunk index data) s =
     (Inr (), s\<lparr>hs_clip := on_chunk (he_clip env) (hs_clip s) index data\<rparr>)"
| "handle_connected env (ClipDecline format) s = (Inr (), on_clip_decline format s)"
| "handle_connected env (ShellOpen shell) s = on_shell_open env shell s"
| "handle_connected env (ShellOpenPty shell cols rows) s = on_shell_open_pty env shell cols rows s"
| "handle_connected env (PtyOpen shell cols rows) s = on_pty_open env shell cols rows s"
| "handle_connected env (PtyResize cols rows) s = (Inr (), on_pty_resize cols rows s)"
| "handle_connected env (ShellInput data) s = (Inr (), on_shell_input data s)"
| "handle_connected env (PtyInput data) s = (Inr (), on_pty_input data s)"
| "handle_connected env ShellClose s = on_shell_close s"
| "handle_connected env PtyClose s = (Inr (), on_pty_close s)"
| "handle_connected env Disconnect s = tear_down s"
| "handle_connected env m s = (Inr (), s)"

definition handle_packet :: "host_env \<Rightarrow> packet \<Rightarrow> unit host" where
  "handle_packet env p s =
     (case (hs_state s, p_message p) of
        (WaitingForHello, Hello version name) \<Rightarrow> on_hello env version name s
      | (_, Hello version name) \<Rightarrow> on_rehello env version name s
      | (Connected, m) \<Rightarrow> handle_connected env m s
      | (_, m) \<Rightarrow> (Inr (), s))"

section \<open>The tick\<close>

definition is_report :: "message \<Rightarrow> bool" where
  "is_report m = (case m of RxProgress n \<Rightarrow> True | Browser sid kind offset data \<Rightarrow> True | _ \<Rightarrow> False)"

definition send_heartbeat_if_due :: "unit host" where
  "send_heartbeat_if_due s =
     (if hs_state s = Connected \<and> hs_now s - hs_hb_sent s \<ge> HEARTBEAT_INTERVAL
      then then_act (sess_send Heartbeat) (update_act (\<lambda>s. s\<lparr>hs_hb_sent := hs_now s\<rparr>)) s
      else (Inr (), s))"

definition heartbeat_lost :: "host_session \<Rightarrow> bool" where
  "heartbeat_lost s \<longleftrightarrow> hs_state s = Connected \<and> hs_now s - hs_hb_recv s \<ge> heartbeat_timeout s"

definition poll_browser :: "unit host" where
  "poll_browser s =
     (if hs_state s = Connected then
        (case hub_poll (hs_browser s) of
           (None, h) \<Rightarrow> (Inr (), s\<lparr>hs_browser := h\<rparr>)
         | (Some m, h) \<Rightarrow> sess_send m (s\<lparr>hs_browser := h\<rparr>))
      else (Inr (), s))"

definition poll_clipboard :: "host_env \<Rightarrow> unit host" where
  "poll_clipboard env s =
     (if hs_state s = Connected then
        (case clip_poll (he_clip env) (hs_now s) (hs_clip s) of
           (ms, c) \<Rightarrow> each_act sess_send ms (s\<lparr>hs_clip := c\<rparr>))
      else (Inr (), s))"

text \<open>The receive loop; \<open>n\<close> counts the reports the tick may still take in.\<close>

definition take_packet :: "host_env \<Rightarrow> packet \<Rightarrow> unit host" where
  "take_packet env p =
     then_act (update_act (\<lambda>s. s\<lparr>hs_storm := on_valid_packet (hs_storm s)\<rparr>)) (handle_packet env p)"

primrec recv_loop :: "host_env \<Rightarrow> nat \<Rightarrow> bool \<Rightarrow> bool host" where
  "recv_loop env 0 got = (\<lambda>s.
     case link_recv s of
       (Inl e, s1) \<Rightarrow> if is_recv_timeout e then (Inr got, s1) else (Inl e, s1)
     | (Inr p, s1) \<Rightarrow> then_act (take_packet env p) (return_act True) s1)"
| "recv_loop env (Suc n) got = (\<lambda>s.
     case link_recv s of
       (Inl e, s1) \<Rightarrow> if is_recv_timeout e then (Inr got, s1) else (Inl e, s1)
     | (Inr p, s1) \<Rightarrow>
         then_act (take_packet env p)
           (if is_report (p_message p) then recv_loop env n True else return_act True) s1)"

definition tick :: "host_env \<Rightarrow> bool host" where
  "tick env =
     then_act send_heartbeat_if_due (\<lambda>s.
       if heartbeat_lost s then then_act tear_down (return_act False) s
       else then_act pump_shell_events
              (then_act poll_browser
                (then_act (poll_clipboard env) (recv_loop env MAX_REPORTS_PER_TICK False))) s)"

definition into_injector :: "host_session \<Rightarrow> injector" where
  "into_injector s = hs_injector (ignore_err (inject ReleaseAll) s)"

end
