(* ===== verification/HostInvariant.thy ===== *)
theory HostInvariant
  imports HostSession
begin

text \<open>
  The invariant of the host's session and its preservation by every operation, whatever the
  peer, the shells, the browser workers, the operating system and the link do. Failing sends
  and injector calls are included: the invariant also holds of the state an early return leaves.
\<close>

section \<open>The invariant\<close>

text \<open>The packets handed to the link carry consecutive sequence numbers.\<close>

definition seq_ok :: "host_session \<Rightarrow> bool" where
  "seq_ok s \<longleftrightarrow> map p_seq (ln_log (hs_link s)) = map of_nat [0 ..< length (ln_log (hs_link s))]
     \<and> hs_seq s = of_nat (length (ln_log (hs_link s)))"

definition slots_ok :: "host_session \<Rightarrow> bool" where
  "slots_ok s \<longleftrightarrow> (hs_state s \<noteq> Connected \<longrightarrow> hs_exec s = None \<and> hs_pty s = None)
     \<and> (legacy_pty s \<longrightarrow> hs_exec s = None)"

definition parts_ok :: "host_session \<Rightarrow> bool" where
  "parts_ok s \<longleftrightarrow> hub_inv (hs_browser s) \<and> rx_inv (hs_clip s) \<and> (\<exists>sends. flow_rel (hs_flow s) sends)"

definition sess_inv :: "host_session \<Rightarrow> bool" where
  "sess_inv s \<longleftrightarrow> hs_state s \<noteq> SessDisconnected
     \<and> (hs_state s = Connected \<longrightarrow> hs_client_name s \<noteq> None)
     \<and> slots_ok s \<and> parts_ok s \<and> seq_ok s"

lemmas sess_inv_defs = sess_inv_def slots_ok_def parts_ok_def

section \<open>What the outside calls leave alone\<close>

lemma link_send_fields [simp]:
  "hs_state (snd (link_send p s)) = hs_state s" "hs_seq (snd (link_send p s)) = hs_seq s"
  "hs_exec (snd (link_send p s)) = hs_exec s" "hs_pty (snd (link_send p s)) = hs_pty s"
  "hs_flow (snd (link_send p s)) = hs_flow s" "hs_browser (snd (link_send p s)) = hs_browser s"
  "hs_clip (snd (link_send p s)) = hs_clip s"
  "hs_client_name (snd (link_send p s)) = hs_client_name s"
  "hs_hb_recv (snd (link_send p s)) = hs_hb_recv s" "hs_warm (snd (link_send p s)) = hs_warm s"
  "hs_injector (snd (link_send p s)) = hs_injector s" "hs_storm (snd (link_send p s)) = hs_storm s"
  "hs_released (snd (link_send p s)) = hs_released s"
  "ln_log (hs_link (snd (link_send p s))) = ln_log (hs_link s) @ [p]"
  "ln_recv_script (hs_link (snd (link_send p s))) = ln_recv_script (hs_link s)"
  "ln_buffers (hs_link (snd (link_send p s))) = ln_buffers (hs_link s)"
  by (simp_all add: link_send_def Let_def split: list.split prod.split)

lemma inject_fields [simp]:
  "hs_state (snd (inject c s)) = hs_state s" "hs_seq (snd (inject c s)) = hs_seq s"
  "hs_exec (snd (inject c s)) = hs_exec s" "hs_pty (snd (inject c s)) = hs_pty s"
  "hs_flow (snd (inject c s)) = hs_flow s" "hs_browser (snd (inject c s)) = hs_browser s"
  "hs_clip (snd (inject c s)) = hs_clip s" "hs_client_name (snd (inject c s)) = hs_client_name s"
  "hs_link (snd (inject c s)) = hs_link s" "hs_released (snd (inject c s)) = hs_released s"
  "hs_warm (snd (inject c s)) = hs_warm s" "hs_now (snd (inject c s)) = hs_now s"
  "in_log (hs_injector (snd (inject c s))) = in_log (hs_injector s) @ [c]"
  by (simp_all add: inject_def Let_def split: list.split prod.split)

lemma link_recv_fields [simp]:
  "hs_state (snd (link_recv s)) = hs_state s" "hs_seq (snd (link_recv s)) = hs_seq s"
  "hs_exec (snd (link_recv s)) = hs_exec s" "hs_pty (snd (link_recv s)) = hs_pty s"
  "hs_flow (snd (link_recv s)) = hs_flow s" "hs_browser (snd (link_recv s)) = hs_browser s"
  "hs_clip (snd (link_recv s)) = hs_clip s" "hs_client_name (snd (link_recv s)) = hs_client_name s"
  "ln_log (hs_link (snd (link_recv s))) = ln_log (hs_link s)"
  "ln_recv_script (hs_link (snd (link_recv s))) = tl (ln_recv_script (hs_link s))"
  by (simp_all add: link_recv_def Let_def split: list.split prod.split)

lemma sess_send_fields [simp]:
  "hs_state (snd (sess_send m s)) = hs_state s" "hs_exec (snd (sess_send m s)) = hs_exec s"
  "hs_pty (snd (sess_send m s)) = hs_pty s" "hs_flow (snd (sess_send m s)) = hs_flow s"
  "hs_browser (snd (sess_send m s)) = hs_browser s" "hs_clip (snd (sess_send m s)) = hs_clip s"
  "hs_client_name (snd (sess_send m s)) = hs_client_name s"
  "hs_hb_recv (snd (sess_send m s)) = hs_hb_recv s" "hs_warm (snd (sess_send m s)) = hs_warm s"
  "hs_injector (snd (sess_send m s)) = hs_injector s" "hs_storm (snd (sess_send m s)) = hs_storm s"
  "hs_released (snd (sess_send m s)) = hs_released s"
  "hs_seq (snd (sess_send m s)) = hs_seq s + 1"
  "ln_log (hs_link (snd (sess_send m s))) = ln_log (hs_link s) @ [packet_new m (hs_seq s)]"
  "ln_recv_script (hs_link (snd (sess_send m s))) = ln_recv_script (hs_link s)"
  "ln_buffers (hs_link (snd (sess_send m s))) = ln_buffers (hs_link s)"
  by (simp_all add: sess_send_def next_seq_def)

section \<open>Updates that keep the invariant\<close>

lemma packet_new_seq [simp]: "p_seq (packet_new m n) = n" "p_message (packet_new m n) = m"
  by (simp_all add: packet_new_def)

lemma seq_ok_send: "seq_ok s \<Longrightarrow> seq_ok (snd (sess_send m s))"
  by (simp add: seq_ok_def)

lemma sess_inv_send [simp]: "sess_inv s \<Longrightarrow> sess_inv (snd (sess_send m s))"
  using seq_ok_send [of s m] by (simp add: sess_inv_defs legacy_pty_def)

lemma sess_inv_inject [simp]: "sess_inv s \<Longrightarrow> sess_inv (snd (inject c s))"
  by (simp add: sess_inv_defs legacy_pty_def seq_ok_def)

lemma sess_inv_recv [simp]: "sess_inv s \<Longrightarrow> sess_inv (snd (link_recv s))"
  by (simp add: sess_inv_defs legacy_pty_def seq_ok_def)

lemma sess_inv_parts:
  "sess_inv s \<Longrightarrow> rx_inv c \<Longrightarrow> sess_inv (s\<lparr>hs_clip := c\<rparr>)"
  "sess_inv s \<Longrightarrow> hub_inv h \<Longrightarrow> sess_inv (s\<lparr>hs_browser := h\<rparr>)"
  "sess_inv s \<Longrightarrow> flow_rel f sends \<Longrightarrow> sess_inv (s\<lparr>hs_flow := f\<rparr>)"
  by (auto simp: sess_inv_defs legacy_pty_def seq_ok_def)

lemma sess_inv_plain [simp]:
  "sess_inv (s\<lparr>hs_hb_sent := t\<rparr>) = sess_inv s" "sess_inv (s\<lparr>hs_hb_recv := t\<rparr>) = sess_inv s"
  "sess_inv (s\<lparr>hs_pty_activity := t\<rparr>) = sess_inv s" "sess_inv (s\<lparr>hs_warm := w\<rparr>) = sess_inv s"
  "sess_inv (s\<lparr>hs_storm := st\<rparr>) = sess_inv s" "sess_inv (s\<lparr>hs_released := r\<rparr>) = sess_inv s"
  "sess_inv (s\<lparr>hs_now := t\<rparr>) = sess_inv s"
  by (simp_all add: sess_inv_defs legacy_pty_def seq_ok_def)

lemma sess_inv_note_pty [simp]: "sess_inv (note_pty_activity s) = sess_inv s"
  by (simp add: note_pty_activity_def)

lemma sess_inv_warm_up [simp]: "sess_inv (warm_up env s) = sess_inv s"
  by (simp add: warm_up_def split: sum.split)

lemma sess_inv_partsD:
  assumes "sess_inv s"
  shows "hub_inv (hs_browser s)" "rx_inv (hs_clip s)" "\<exists>sends. flow_rel (hs_flow s) sends"
  using assms by (auto simp: sess_inv_defs)

lemma sess_inv_exec_kill [simp]: "sess_inv s \<Longrightarrow> sess_inv (exec_kill s)"
  by (auto simp: exec_kill_def sess_inv_defs legacy_pty_def seq_ok_def split: option.split)

lemma sess_inv_pty_kill [simp]: "sess_inv s \<Longrightarrow> sess_inv (pty_kill s)"
  by (auto simp: pty_kill_def sess_inv_defs legacy_pty_def seq_ok_def split: option.split)

lemma kill_all_shells_slots [simp]:
  "hs_exec (kill_all_shells s) = None" "hs_pty (kill_all_shells s) = None"
  by (simp_all add: kill_all_shells_def pty_kill_def exec_kill_def Let_def split: option.split)

lemma kill_all_shells_fields [simp]:
  "hs_state (kill_all_shells s) = hs_state s" "hs_clip (kill_all_shells s) = hs_clip s"
  "hs_browser (kill_all_shells s) = hub_reset (hs_browser s)" "hs_link (kill_all_shells s) = hs_link s"
  "hs_seq (kill_all_shells s) = hs_seq s" "hs_injector (kill_all_shells s) = hs_injector s"
  "hs_flow (kill_all_shells s) = hs_flow s" "hs_warm (kill_all_shells s) = hs_warm s"
  "hs_client_name (kill_all_shells s) = hs_client_name s"
  by (simp_all add: kill_all_shells_def pty_kill_def exec_kill_def Let_def split: option.split)

lemma sess_inv_kill_all [simp]: "sess_inv s \<Longrightarrow> sess_inv (kill_all_shells s)"
  by (simp add: kill_all_shells_def Let_def sess_inv_parts hub_reset_inv)

lemma warm_kill_fields [simp]:
  "hs_state (warm_kill s) = hs_state s" "hs_clip (warm_kill s) = hs_clip s"
  "hs_browser (warm_kill s) = hs_browser s" "hs_link (warm_kill s) = hs_link s"
  "hs_seq (warm_kill s) = hs_seq s" "hs_exec (warm_kill s) = hs_exec s"
  "hs_pty (warm_kill s) = hs_pty s" "hs_warm (warm_kill s) = None"
  "hs_flow (warm_kill s) = hs_flow s" "hs_injector (warm_kill s) = hs_injector s"
  by (simp_all add: warm_kill_def split: option.split prod.split)

lemma sess_inv_warm_kill [simp]: "sess_inv (warm_kill s) = sess_inv s"
  by (simp add: warm_kill_def split: option.split prod.split)

text \<open>Replacing the shell of a slot by one of the same kind.\<close>

lemma sess_inv_same_exec:
  "sess_inv s \<Longrightarrow> hs_exec s \<noteq> None \<Longrightarrow> sess_inv (s\<lparr>hs_exec := Some sp\<rparr>)"
  by (auto simp: sess_inv_defs legacy_pty_def seq_ok_def)

lemma sess_inv_same_pty:
  "sess_inv s \<Longrightarrow> hs_pty s = Some p \<Longrightarrow> ps_legacy q = ps_legacy p \<Longrightarrow> sess_inv (s\<lparr>hs_pty := Some q\<rparr>)"
  by (auto simp: sess_inv_defs legacy_pty_def seq_ok_def)

lemma clip_reset_rx_inv: "rx_inv (clip_reset c)"
  by (simp add: clip_reset_def rx_inv_fields)

lemma sess_inv_waiting:
  assumes "sess_inv s" "hs_exec s = None" "hs_pty s = None"
  shows "sess_inv (s\<lparr>hs_state := WaitingForHello, hs_client_name := c\<rparr>)"
  using assms by (auto simp: sess_inv_defs legacy_pty_def seq_ok_def)

section \<open>Every operation\<close>

abbreviation keeps_inv :: "'a host \<Rightarrow> bool" where
  "keeps_inv \<equiv> obeys (keeps sess_inv)"

lemma keeps_invI: "(\<And>s. sess_inv s \<Longrightarrow> sess_inv (snd (m s))) \<Longrightarrow> keeps_inv m"
  by (simp add: obeys_def keeps_def)

lemma keeps_invD: "keeps_inv m \<Longrightarrow> sess_inv s \<Longrightarrow> sess_inv (snd (m s))"
  by (simp add: obeys_def keeps_def)

lemma keeps_update: "(\<And>s. sess_inv s \<Longrightarrow> sess_inv (f s)) \<Longrightarrow> keeps_inv (update_act f)"
  by (rule keeps_invI) (simp add: update_act_def)

lemma keeps_send: "keeps_inv (sess_send m)" and keeps_inject: "keeps_inv (inject c)"
  by (simp_all add: keeps_invI)

lemma on_hello_inv: "keeps_inv (on_hello env version name)"
proof (rule keeps_invI)
  fix s assume inv: "sess_inv s"
  let ?s = "s\<lparr>hs_client_name := Some name, hs_flow := flow_new (hs_now s),
             hs_browser := hub_reset (hs_browser s)\<rparr>"
  have "sess_inv ?s"
    using inv flow_rel_new [of "hs_now s"] hub_reset_inv
    by (auto simp: sess_inv_defs legacy_pty_def seq_ok_def)
  then have sent: "sess_inv (snd (sess_send m ?s))" for m by simp
  let ?m = "HelloAck HOST_PROTO_VERSION (hs_host_name s) (hs_screen_w s) (hs_screen_h s)"
  obtain r s1 where s1: "sess_send ?m ?s = (r, s1)" by (cases "sess_send ?m ?s")
  have inv1: "sess_inv s1" using sent [of ?m] unfolding s1 snd_conv .
  have "hs_client_name s1 = Some name" using sess_send_fields(7) [of ?m ?s] unfolding s1 snd_conv by simp
  then have "sess_inv (s1\<lparr>hs_state := Connected, hs_hb_recv := hs_now s1\<rparr>)"
    using inv1 by (auto simp: sess_inv_defs legacy_pty_def seq_ok_def)
  then show "sess_inv (snd (on_hello env version name s))"
    using inv s1 inv1 by (auto simp: on_hello_def act_simps Let_def split: sum.split)
qed

lemma on_rehello_inv: "keeps_inv (on_rehello env version name)"
proof (rule keeps_invI)
  fix s assume inv: "sess_inv s"
  let ?s = "kill_all_shells ((snd (inject ReleaseAll s))\<lparr>hs_clip := clip_reset (hs_clip (snd (inject ReleaseAll s)))\<rparr>)"
  have "sess_inv ?s" using inv by (intro sess_inv_kill_all sess_inv_parts(1) clip_reset_rx_inv) simp_all
  then have "sess_inv (?s\<lparr>hs_state := WaitingForHello, hs_client_name := None\<rparr>)"
    by (rule sess_inv_waiting) simp_all
  then show "sess_inv (snd (on_rehello env version name s))"
    using keeps_invD [OF on_hello_inv] by (simp add: on_rehello_def Let_def ignore_err_def)
qed

lemma tear_down_inv: "keeps_inv tear_down"
  unfolding tear_down_def
proof (intro keep.obeys_then keeps_inject keeps_update)
  fix s assume inv: "sess_inv s"
  have "sess_inv ((warm_kill (kill_all_shells s))\<lparr>hs_state := WaitingForHello, hs_client_name := None\<rparr>)"
    using inv by (intro sess_inv_waiting) simp_all
  from sess_inv_parts(1) [OF this clip_reset_rx_inv [of "hs_clip s"]]
  show "sess_inv (let s1 = warm_kill (kill_all_shells s)
      in s1\<lparr>hs_clip := clip_reset (hs_clip s1), hs_state := WaitingForHello, hs_client_name := None\<rparr>)"
    by (simp add: Let_def sess_inv_defs legacy_pty_def seq_ok_def)
qed

text \<open>The arms that only change one part.\<close>

lemma on_clip_offer_inv: "keeps_inv (on_clip_offer format total_len)"
proof (rule keeps_invI)
  fix s assume inv: "sess_inv s"
  obtain r c where rc: "on_offer (hs_clip s) format total_len = (r, c)"
    by (cases "on_offer (hs_clip s) format total_len")
  have "rx_inv c" using on_offer_inv [OF sess_inv_partsD(2) [OF inv], of format total_len] rc by simp
  then have "sess_inv (s\<lparr>hs_clip := c\<rparr>)" using inv by (rule sess_inv_parts(1) [rotated])
  then show "sess_inv (snd (on_clip_offer format total_len s))"
    using rc by (simp add: on_clip_offer_def split: option.split)
qed

lemma take_warm_or_spawn_state:
  "snd (take_warm_or_spawn env shell s) = s \<or> snd (take_warm_or_spawn env shell s) = s\<lparr>hs_warm := None\<rparr>"
  by (simp add: take_warm_or_spawn_def Let_def split: option.split prod.split)

lemma sess_inv_open_exec:
  assumes "sess_inv s" "hs_state s = Connected" "\<not> legacy_pty s"
  shows "sess_inv (s\<lparr>hs_exec := Some sp\<rparr>)"
  using assms by (auto simp: sess_inv_defs legacy_pty_def seq_ok_def split: option.splits)

lemma sess_inv_open_pty:
  assumes "sess_inv s" "hs_state s = Connected" "ps_legacy p \<Longrightarrow> hs_exec s = None"
  shows "sess_inv (s\<lparr>hs_pty := Some p\<rparr>)"
  using assms by (auto simp: sess_inv_defs legacy_pty_def seq_ok_def split: option.splits)

lemma on_shell_open_inv:
  assumes "sess_inv s" "hs_state s = Connected"
  shows "sess_inv (snd (on_shell_open env shell s))"
proof -
  obtain r s1 where t: "take_warm_or_spawn env shell s = (r, s1)"
    by (cases "take_warm_or_spawn env shell s")
  then have "s1 = s \<or> s1 = s\<lparr>hs_warm := None\<rparr>"
    using take_warm_or_spawn_state [of env shell s] by auto
  then have "sess_inv s1 \<and> hs_state s1 = Connected \<and> legacy_pty s1 = legacy_pty s"
    using assms by (elim disjE) (simp_all add: legacy_pty_def)
  then show ?thesis
    using assms t sess_inv_open_exec [of s1]
    by (auto simp: on_shell_open_def split: sum.split)
qed

lemma on_shell_open_pty_inv:
  assumes "sess_inv s" "hs_state s = Connected"
  shows "sess_inv (snd (on_shell_open_pty env shell cols rows s))"
  using assms sess_inv_open_pty [OF assms]
  by (auto simp: on_shell_open_pty_def split: sum.split)

lemma on_pty_open_inv:
  assumes "sess_inv s" "hs_state s = Connected"
  shows "sess_inv (snd (on_pty_open env shell cols rows s))"
  using assms sess_inv_open_pty [OF assms, of "\<lparr>ps_proc = sp, ps_legacy = False\<rparr>" for sp]
  by (simp add: on_pty_open_def split: sum.split)

lemma on_pty_resize_inv: "sess_inv s \<Longrightarrow> sess_inv (on_pty_resize cols rows s)"
  using sess_inv_same_pty [of s] by (auto simp: on_pty_resize_def split: option.split)

lemma on_shell_input_inv: "sess_inv s \<Longrightarrow> sess_inv (on_shell_input data s)"
  using sess_inv_same_pty [of s] sess_inv_same_exec [of s]
  by (auto simp: on_shell_input_def split: option.split)

lemma on_pty_input_inv: "sess_inv s \<Longrightarrow> sess_inv (on_pty_input data s)"
  using sess_inv_same_pty [of s] by (auto simp: on_pty_input_def split: option.split)

lemma on_shell_close_inv: "keeps_inv on_shell_close"
  by (rule keeps_invI)
    (auto simp: on_shell_close_def sess_inv_same_exec sess_inv_same_pty split: option.split)

lemma on_pty_close_inv: "sess_inv s \<Longrightarrow> sess_inv (on_pty_close s)"
  by (auto simp: on_pty_close_def sess_inv_same_pty split: option.split)

lemma on_clip_decline_inv: "sess_inv s \<Longrightarrow> sess_inv (on_clip_decline format s)"
  using sess_inv_parts(1) [of s] sess_inv_partsD(2) [of s]
  by (simp add: on_clip_decline_def Let_def cancel_outgoing_def push_warning_def rx_inv_fields)

lemma handle_connected_inv:
  assumes "sess_inv s" "hs_state s = Connected"
  shows "sess_inv (snd (handle_connected env m s))"
proof (cases m)
  case (RxProgress n)
  obtain sends where "flow_rel (hs_flow s) sends" using sess_inv_partsD(3) [OF assms(1)] ..
  then have "flow_rel (snd (on_report (hs_flow s) (unat n) (hs_now s))) sends"
    by (rule flow_rel_on_report)
  from sess_inv_parts(3) [OF assms(1) this] show ?thesis using RxProgress by simp
next
  case (Browser sid kind offset data)
  then show ?thesis
    using sess_inv_parts(2) [OF assms(1) hub_dispatch_inv [OF sess_inv_partsD(1) [OF assms(1)]]] by simp
next
  case (ClipChunk index data)
  then show ?thesis
    using sess_inv_parts(1) [OF assms(1) on_chunk_inv [OF sess_inv_partsD(2) [OF assms(1)]]] by simp
qed (use assms in \<open>simp_all add: keeps_invD [OF on_clip_offer_inv] keeps_invD [OF on_shell_close_inv]
  keeps_invD [OF tear_down_inv] on_shell_open_inv on_shell_open_pty_inv on_pty_open_inv
  on_pty_resize_inv on_shell_input_inv on_pty_input_inv on_pty_close_inv on_clip_decline_inv\<close>)

lemma handle_packet_cases:
  "handle_packet env p s =
     (case p_message p of
        Hello version name \<Rightarrow>
          if hs_state s = WaitingForHello then on_hello env version name s
          else on_rehello env version name s
      | m \<Rightarrow> if hs_state s = Connected then handle_connected env m s else (Inr (), s))"
  by (cases "p_message p"; cases "hs_state s"; simp only: handle_packet_def prod.case message.case
      session_state.case session_state.distinct if_True if_False simp_thms)

lemma handle_packet_inv: "keeps_inv (handle_packet env p)"
proof (rule keeps_invI)
  fix s assume inv: "sess_inv s"
  show "sess_inv (snd (handle_packet env p s))"
  proof (cases "\<exists>version name. p_message p = Hello version name")
    case True
    then show ?thesis
      using keeps_invD [OF on_hello_inv inv] keeps_invD [OF on_rehello_inv inv]
      by (auto simp: handle_packet_cases)
  next
    case False
    then have "handle_packet env p s =
        (if hs_state s = Connected then handle_connected env (p_message p) s else (Inr (), s))"
      by (cases "p_message p") (simp_all only: handle_packet_cases message.case, simp)
    then show ?thesis using inv handle_connected_inv [OF inv] by (simp del: handle_connected.simps)
  qed
qed

section \<open>The tick\<close>

lemma ship_piece_inv: "keeps_inv (ship_piece slot legacy data)"
  unfolding ship_piece_def
proof (intro keep.obeys_then keeps_send keeps_update)
  fix s assume inv: "sess_inv s"
  then obtain sends where "flow_rel (hs_flow s) sends" using sess_inv_partsD(3) by blast
  from sess_inv_parts(3) [OF inv flow_rel_note_sent [OF this]]
  show "sess_inv (s\<lparr>hs_flow := note_sent (hs_flow s) slot (length data) (hs_now s)\<rparr>)" .
qed

lemma set_proc_inv: "sess_inv s \<Longrightarrow> slot_proc slot s = Some sp \<Longrightarrow> sess_inv (set_proc slot sp' s)"
  by (cases slot) (auto simp: slot_proc_def set_proc_def sess_inv_same_exec sess_inv_same_pty)

lemma drop_slot_inv: "sess_inv s \<Longrightarrow> sess_inv (drop_slot slot sp s)"
  by (cases slot) (auto simp: drop_slot_def Let_def sess_inv_defs legacy_pty_def seq_ok_def)

lemma report_exit_inv: "keeps_inv (report_exit slot legacy exit_code)"
  by (rule keeps_invI) (simp add: report_exit_def drop_slot_inv split: option.split)

lemma pump_slot_inv: "keeps_inv (pump_slot slot)"
proof (rule keeps_invI)
  fix s assume inv: "sess_inv s"
  show "sess_inv (snd (pump_slot slot s))"
  proof (cases "slot_budget slot s = 0 \<or> slot_proc slot s = None")
    case True
    then show ?thesis using inv by (auto simp: pump_slot_def Let_def)
  next
    case False
    then obtain sp where sp: "slot_proc slot s = Some sp" "slot_budget slot s \<noteq> 0" by auto
    obtain out code evs where d: "drain_events (slot_budget slot s) [] (sp_events sp) = (out, code, evs)"
      using prod_cases3 by blast
    let ?s = "set_proc slot (sp\<lparr>sp_events := evs\<rparr>) s"
    have "keeps_inv (then_act (each_act (ship_piece slot (legacy_opcodes slot ?s)) (split_shell_output out))
       (then_act (update_act (\<lambda>s. if slot = SlotPty \<and> out \<noteq> [] then note_pty_activity s else s))
         (report_exit slot (legacy_opcodes slot ?s) code)))"
      by (intro keep.obeys_then keep.obeys_each ship_piece_inv keeps_update report_exit_inv) simp
    from keeps_invD [OF this set_proc_inv [OF inv sp(1)]] show ?thesis
      using sp d by (simp add: pump_slot_def Let_def)
  qed
qed

lemma pump_shell_events_inv: "keeps_inv pump_shell_events"
  unfolding pump_shell_events_def
proof (intro keep.obeys_then keep.obeys_each pump_slot_inv keeps_update)
  fix s assume inv: "sess_inv s"
  then obtain sends where "flow_rel (hs_flow s) sends" using sess_inv_partsD(3) by blast
  from sess_inv_parts(3) [OF inv flow_rel_release [OF this]]
  show "sess_inv (s\<lparr>hs_flow := snd (release_if_stalled (hs_flow s) (hs_now s))\<rparr>)" .
qed

lemma send_heartbeat_inv: "keeps_inv send_heartbeat_if_due"
  unfolding send_heartbeat_if_due_def
  by (rule keeps_invI)
    (simp add: keeps_invD [OF keep.obeys_then [OF keeps_send keeps_update]])

lemma poll_browser_inv: "keeps_inv poll_browser"
proof (rule keeps_invI)
  fix s assume inv: "sess_inv s"
  obtain m h where p: "hub_poll (hs_browser s) = (m, h)" by (cases "hub_poll (hs_browser s)")
  have "hub_inv h" using hub_poll_inv [OF sess_inv_partsD(1) [OF inv]] p by simp
  then show "sess_inv (snd (poll_browser s))"
    using inv p sess_inv_parts(2) [OF inv] by (simp add: poll_browser_def split: option.split)
qed

lemma rx_inv_clip_poll: "rx_inv c \<Longrightarrow> rx_inv (snd (clip_poll env now c))"
  by (rule rx_inv_sending)

lemma poll_clipboard_inv: "keeps_inv (poll_clipboard env)"
proof (rule keeps_invI)
  fix s assume inv: "sess_inv s"
  obtain ms c where p: "clip_poll (he_clip env) (hs_now s) (hs_clip s) = (ms, c)"
    by (cases "clip_poll (he_clip env) (hs_now s) (hs_clip s)")
  have "rx_inv c" using rx_inv_clip_poll [OF sess_inv_partsD(2) [OF inv]] p by (metis snd_conv)
  then show "sess_inv (snd (poll_clipboard env s))"
    using inv p keeps_invD [OF keep.obeys_each [where f = sess_send, OF keeps_send]] sess_inv_parts(1) [OF inv]
    by (simp add: poll_clipboard_def)
qed

lemma take_packet_inv: "keeps_inv (take_packet env p)"
  unfolding take_packet_def by (intro keep.obeys_then keeps_update handle_packet_inv) simp

lemma recv_step_inv:
  assumes "\<And>p. keeps_inv (k p)"
  shows "keeps_inv (\<lambda>s. case link_recv s of
       (Inl e, s1) \<Rightarrow> if is_recv_timeout e then (Inr got, s1) else (Inl e, s1)
     | (Inr p, s1) \<Rightarrow> then_act (take_packet env p) (k p) s1)"
proof (rule keeps_invI)
  fix s assume inv: "sess_inv s"
  obtain r s1 where r: "link_recv s = (r, s1)" by (cases "link_recv s")
  then have "sess_inv s1" using sess_inv_recv [OF inv] by simp
  then show "sess_inv (snd (case link_recv s of
       (Inl e, s1) \<Rightarrow> if is_recv_timeout e then (Inr got, s1) else (Inl e, s1)
     | (Inr p, s1) \<Rightarrow> then_act (take_packet env p) (k p) s1))"
    using r keeps_invD [OF keep.obeys_then [OF take_packet_inv assms]] by (cases r) simp_all
qed

lemma recv_loop_inv: "keeps_inv (recv_loop env n got)"
proof (induction n arbitrary: got)
  case 0
  show ?case unfolding recv_loop.simps by (rule recv_step_inv) (rule keep.obeys_return)
next
  case (Suc n)
  have "keeps_inv (if is_report (p_message p) then recv_loop env n True else return_act True)" for p
    by (simp add: Suc.IH) (simp add: keep.obeys_return)
  then show ?case unfolding recv_loop.simps by (rule recv_step_inv)
qed

lemma tick_inv: "keeps_inv (tick env)"
  unfolding tick_def
proof (intro keep.obeys_then send_heartbeat_inv keep.obeys_cond)
qed (intro keep.obeys_then keep.obeys_return tear_down_inv pump_shell_events_inv poll_browser_inv
  poll_clipboard_inv recv_loop_inv)+

end
