(* ===== verification/HostBehaviour.thy ===== *)
theory HostBehaviour
  imports HostInvariant
begin

text \<open>
  What a session does: output reaches the client in order and before the exit, the slots do not
  mix, teardown leaves nothing running, a tick takes in a bounded number of packets, and exec's
  bytes in flight stay under the cap while the client reports.
\<close>

section \<open>Sending over a link that takes every packet\<close>

definition sent_messages :: "host_session \<Rightarrow> message list" where
  "sent_messages s = map p_message (ln_log (hs_link s))"

definition link_up :: "host_session \<Rightarrow> bool" where
  "link_up s \<longleftrightarrow> ln_send_script (hs_link s) = []"

lemma sess_send_up:
  assumes "link_up s"
  shows "fst (sess_send m s) = Inr ()" "link_up (snd (sess_send m s))"
    "hs_now (snd (sess_send m s)) = hs_now s"
    "sent_messages (snd (sess_send m s)) = sent_messages s @ [m]"
    "hs_pty_activity (snd (sess_send m s)) = hs_pty_activity s"
  using assms by (simp_all add: link_up_def sess_send_def next_seq_def link_send_def
      sent_messages_def packet_new_def Let_def)

lemma then_act_ok:
  "fst (m s) = Inr () \<Longrightarrow> then_act m n s = n (snd (m s))"
  by (cases "m s") (simp add: act_simps)

definition output_message :: "bool \<Rightarrow> bytes \<Rightarrow> message" where
  "output_message legacy d = (if legacy then ShellOutput d else PtyOutput d)"

definition exit_message :: "bool \<Rightarrow> i32 \<Rightarrow> message" where
  "exit_message legacy c = (if legacy then ShellExit c else PtyExit c)"

text \<open>Everything the pump of a slot leaves alone, as one relation.\<close>

definition same_rest :: "host_session \<Rightarrow> host_session \<Rightarrow> bool" where
  "same_rest s t \<longleftrightarrow> hs_state t = hs_state s \<and> hs_exec t = hs_exec s \<and> hs_pty t = hs_pty s
     \<and> hs_now t = hs_now s \<and> ln_buffers (hs_link t) = ln_buffers (hs_link s)
     \<and> ln_recv_script (hs_link t) = ln_recv_script (hs_link s)
     \<and> hs_clip t = hs_clip s \<and> hs_browser t = hs_browser s"

lemma ship_piece_up:
  assumes "link_up s"
  shows "fst (ship_piece slot legacy d s) = Inr ()" "link_up (snd (ship_piece slot legacy d s))"
    "sent_messages (snd (ship_piece slot legacy d s)) = sent_messages s @ [output_message legacy d]"
    "same_rest s (snd (ship_piece slot legacy d s))"
    "hs_flow (snd (ship_piece slot legacy d s)) = note_sent (hs_flow s) slot (length d) (hs_now s)"
proof -
  let ?s = "s\<lparr>hs_flow := note_sent (hs_flow s) slot (length d) (hs_now s)\<rparr>"
  have eq: "ship_piece slot legacy d s = sess_send (output_message legacy d) ?s"
    by (simp add: ship_piece_def output_message_def act_simps)
  have up: "link_up ?s" using assms by (simp add: link_up_def)
  show "fst (ship_piece slot legacy d s) = Inr ()" "link_up (snd (ship_piece slot legacy d s))"
    "same_rest s (snd (ship_piece slot legacy d s))"
    "hs_flow (snd (ship_piece slot legacy d s)) = note_sent (hs_flow s) slot (length d) (hs_now s)"
    using sess_send_up [OF up] by (simp_all add: eq same_rest_def)
  show "sent_messages (snd (ship_piece slot legacy d s)) = sent_messages s @ [output_message legacy d]"
    using sess_send_up(4) [OF up] by (simp add: eq sent_messages_def)
qed

lemma same_rest_trans: "same_rest a b \<Longrightarrow> same_rest b c \<Longrightarrow> same_rest a c"
  by (simp add: same_rest_def)

lemma ship_all_up:
  assumes "link_up s"
  shows "fst (each_act (ship_piece slot legacy) ps s) = Inr ()
    \<and> link_up (snd (each_act (ship_piece slot legacy) ps s))
    \<and> sent_messages (snd (each_act (ship_piece slot legacy) ps s))
        = sent_messages s @ map (output_message legacy) ps
    \<and> same_rest s (snd (each_act (ship_piece slot legacy) ps s))
    \<and> hs_flow (snd (each_act (ship_piece slot legacy) ps s))
        = foldl (\<lambda>f d. note_sent f slot (length d) (hs_now s)) (hs_flow s) ps"
  using assms
proof (induction ps arbitrary: s)
  case Nil
  then show ?case by (simp add: act_simps same_rest_def)
next
  case (Cons d ps)
  note up = ship_piece_up [OF Cons.prems, of slot legacy d]
  let ?t = "snd (ship_piece slot legacy d s)"
  have "each_act (ship_piece slot legacy) (d # ps) s = each_act (ship_piece slot legacy) ps ?t"
    using up(1) by (simp add: then_act_ok)
  moreover have "hs_now ?t = hs_now s" using up(4) by (simp add: same_rest_def)
  ultimately show ?case
    using Cons.IH [OF up(2)] up(3-5) same_rest_trans by auto
qed

section \<open>One pump of a slot\<close>

lemma drain_events_spec:
  assumes "drain_events budget acc es = (out, code, rest)"
  shows "\<exists>ds. out = acc @ concat ds
    \<and> es = map Output ds @ (case code of None \<Rightarrow> [] | Some c \<Rightarrow> [Exit c]) @ rest
    \<and> (code = None \<longrightarrow> rest = [] \<or> budget \<le> length out)"
  using assms
proof (induction budget acc es rule: drain_events.induct)
  case (2 budget acc data evs)
  show ?case
  proof (cases "length acc < budget")
    case True
    then obtain ds where "out = (acc @ data) @ concat ds"
      "evs = map Output ds @ (case code of None \<Rightarrow> [] | Some c \<Rightarrow> [Exit c]) @ rest"
      "code = None \<longrightarrow> rest = [] \<or> budget \<le> length out"
      using 2 by auto
    then show ?thesis by (intro exI [of _ "data # ds"]) simp
  next
    case False
    then show ?thesis using 2(2) by auto
  qed
next
  case (3 budget acc code' evs)
  then show ?case by (auto intro!: exI [of _ "[]"] split: if_splits)
qed auto

lemma drain_events_progress:
  assumes "drain_events budget [] es = (out, code, rest)" "es \<noteq> []" "budget \<noteq> 0"
  shows "length rest < length es"
proof -
  have "length rest \<le> length es" if "drain_events budget acc es = (out, code, rest)" for acc es
    using drain_events_spec [OF that] by auto
  then show ?thesis
    using assms by (cases es; cases "hd es") (auto simp: less_Suc_eq_le)
qed

definition exit_found :: "i32 option \<Rightarrow> shell_process \<Rightarrow> i32 option" where
  "exit_found code sp = (case code of Some c \<Rightarrow> Some c | None \<Rightarrow> try_exit_code sp)"

definition other_slot :: "shell_slot \<Rightarrow> shell_slot" where
  "other_slot slot = (case slot of SlotExec \<Rightarrow> SlotPty | SlotPty \<Rightarrow> SlotExec)"

text \<open>The state and the messages a pump over a working link leaves.\<close>

lemma pump_slot_up:
  assumes up: "link_up s" and sp: "slot_proc slot s = Some sp" and budget: "slot_budget slot s \<noteq> 0"
    and d: "drain_events (slot_budget slot s) [] (sp_events sp) = (out, code, evs)"
  defines "legacy \<equiv> legacy_opcodes slot s"
  shows "fst (pump_slot slot s) = Inr ()
    \<and> link_up (snd (pump_slot slot s))
    \<and> sent_messages (snd (pump_slot slot s)) = sent_messages s
        @ map (output_message legacy) (chunks MAX_PAYLOAD out)
        @ (case exit_found code sp of None \<Rightarrow> [] | Some c \<Rightarrow> [exit_message legacy c])
    \<and> slot_proc slot (snd (pump_slot slot s))
        = (case exit_found code sp of None \<Rightarrow> Some (sp\<lparr>sp_events := evs\<rparr>) | Some c \<Rightarrow> None)
    \<and> slot_proc (other_slot slot) (snd (pump_slot slot s)) = slot_proc (other_slot slot) s
    \<and> hs_now (snd (pump_slot slot s)) = hs_now s
    \<and> hs_state (snd (pump_slot slot s)) = hs_state s
    \<and> hs_flow (snd (pump_slot slot s))
        = foldl (\<lambda>f d. note_sent f slot (length d) (hs_now s)) (hs_flow s) (chunks MAX_PAYLOAD out)"
proof -
  let ?sp = "sp\<lparr>sp_events := evs\<rparr>"
  let ?s1 = "set_proc slot ?sp s"
  have s1: "link_up ?s1" "sent_messages ?s1 = sent_messages s" "hs_now ?s1 = hs_now s"
    "hs_state ?s1 = hs_state s" "hs_flow ?s1 = hs_flow s" "slot_proc slot ?s1 = Some ?sp"
    "slot_proc (other_slot slot) ?s1 = slot_proc (other_slot slot) s"
    "legacy_opcodes slot ?s1 = legacy"
    using up sp by (cases slot; auto simp: set_proc_def link_up_def sent_messages_def slot_proc_def
        legacy_opcodes_def legacy_def other_slot_def split: option.splits)+
  let ?e = "each_act (ship_piece slot legacy) (split_shell_output out) ?s1"
  note ship = ship_all_up [OF s1(1), of slot legacy "split_shell_output out"]
  let ?f = "\<lambda>s. if slot = SlotPty \<and> out \<noteq> [] then note_pty_activity s else s"
  define s2 where "s2 = ?f (snd ?e)"
  have s2: "link_up s2" "sent_messages s2 = sent_messages s @ map (output_message legacy) (chunks MAX_PAYLOAD out)"
    "hs_now s2 = hs_now s" "hs_state s2 = hs_state s" "slot_proc slot s2 = Some ?sp"
    "slot_proc (other_slot slot) s2 = slot_proc (other_slot slot) s"
    "hs_flow s2 = foldl (\<lambda>f d. note_sent f slot (length d) (hs_now s)) (hs_flow s) (chunks MAX_PAYLOAD out)"
    using ship s1 unfolding s2_def
    by (cases slot; auto simp: link_up_def sent_messages_def note_pty_activity_def
        same_rest_def slot_proc_def other_slot_def split_shell_output_def)+
  have eq: "pump_slot slot s = report_exit slot legacy code s2"
    using sp budget d s1(8) ship unfolding s2_def
    by (simp add: pump_slot_def Let_def then_act_ok) (simp add: act_simps)
  have te: "try_exit_code ?sp = try_exit_code sp" by (simp add: try_exit_code_def)
  have found: "(case code of None \<Rightarrow> try_exit_code ?sp | Some c \<Rightarrow> Some c) = exit_found code sp"
    by (simp only: te exit_found_def)
  show ?thesis
  proof (cases "exit_found code sp")
    case None
    then have "pump_slot slot s = (Inr (), s2)"
      using s2(5) found unfolding eq by (simp add: report_exit_def)
    then show ?thesis using s2 None by simp
  next
    case (Some c)
    define t where "t = drop_slot slot ?sp s2"
    have d: "link_up t" "sent_messages t = sent_messages s2" "hs_now t = hs_now s"
      "hs_state t = hs_state s" "slot_proc slot t = None"
      "slot_proc (other_slot slot) t = slot_proc (other_slot slot) s2" "hs_flow t = hs_flow s2"
      using s2(1,3,4) unfolding t_def
      by (cases slot; simp add: drop_slot_def Let_def link_up_def sent_messages_def
          slot_proc_def other_slot_def)+
    have "pump_slot slot s = sess_send (exit_message legacy c) t"
      using Some s2(5) found unfolding eq t_def by (simp add: report_exit_def exit_message_def)
    moreover have "slot_proc sl (snd (sess_send m t)) = slot_proc sl t" for sl m
      by (simp add: slot_proc_def split: shell_slot.split)
    ultimately show ?thesis
      using sess_send_up [OF d(1), of "exit_message legacy c"] d s2 Some
      by simp
  qed
qed

section \<open>Exec output\<close>

text \<open>One pump of both slots with no console open.\<close>

lemma release_flow_only:
  "link_up (s\<lparr>hs_flow := f\<rparr>) = link_up s" "sent_messages (s\<lparr>hs_flow := f\<rparr>) = sent_messages s"
  "slot_proc slot (s\<lparr>hs_flow := f\<rparr>) = slot_proc slot s"
  by (simp_all add: link_up_def sent_messages_def slot_proc_def split: shell_slot.split)

lemma pump_without_pty: "hs_pty s = None \<Longrightarrow> pump_slot SlotPty s = (Inr (), s)"
  by (simp add: pump_slot_def slot_proc_def Let_def)

lemma pump_shell_events_exec:
  assumes "hs_pty s = None"
  shows "pump_shell_events s
    = pump_slot SlotExec (s\<lparr>hs_flow := snd (release_if_stalled (hs_flow s) (hs_now s))\<rparr>)"
  using assms
  by (simp add: pump_shell_events_def pump_order_def act_simps pump_without_pty split: prod.split sum.split)

lemma exec_budget_alone: "hs_pty s = None \<Longrightarrow> slot_budget SlotExec s = PUMP_BUDGET"
  by (simp add: slot_budget_def exec_budget_at_def exec_pump_budget_def)

lemma pump_budget_pos [simp]: "PUMP_BUDGET \<noteq> 0"
  by (simp add: pump_consts)

lemma pump_exec_up:
  assumes "link_up s" "hs_pty s = None" "hs_exec s = Some sp"
    and d: "drain_events PUMP_BUDGET [] (sp_events sp) = (out, code, evs)"
  defines "t \<equiv> snd (pump_shell_events s)"
  shows "link_up t" "hs_pty t = None" "fst (pump_shell_events s) = Inr ()"
    "sent_messages t = sent_messages s @ map ShellOutput (chunks MAX_PAYLOAD out)
        @ (case exit_found code sp of None \<Rightarrow> [] | Some c \<Rightarrow> [ShellExit c])"
    "hs_exec t = (case exit_found code sp of None \<Rightarrow> Some (sp\<lparr>sp_events := evs\<rparr>) | Some c \<Rightarrow> None)"
proof -
  let ?s = "s\<lparr>hs_flow := snd (release_if_stalled (hs_flow s) (hs_now s))\<rparr>"
  have b: "slot_budget SlotExec ?s = PUMP_BUDGET" using assms(2) by (simp add: exec_budget_alone)
  have "link_up ?s" "slot_proc SlotExec ?s = Some sp"
    using assms(1,3) by (simp_all add: release_flow_only) (simp add: slot_proc_def)
  from pump_slot_up [OF this, unfolded b, OF pump_budget_pos d]
  show "link_up t" "hs_pty t = None" "fst (pump_shell_events s) = Inr ()"
    "sent_messages t = sent_messages s @ map ShellOutput (chunks MAX_PAYLOAD out)
        @ (case exit_found code sp of None \<Rightarrow> [] | Some c \<Rightarrow> [ShellExit c])"
    "hs_exec t = (case exit_found code sp of None \<Rightarrow> Some (sp\<lparr>sp_events := evs\<rparr>) | Some c \<Rightarrow> None)"
    using assms(2) unfolding t_def pump_shell_events_exec [OF assms(2)]
    by (simp_all add: legacy_opcodes_def output_message_def [abs_def] exit_message_def
        release_flow_only slot_proc_def other_slot_def split: option.splits)
qed

text \<open>
  Output before the exit, in order and whole, as long as the process is seen to exit only
  through its channel.
\<close>

lemma pumped_chunks:
  "\<exists>ps. map ShellOutput (chunks MAX_PAYLOAD out) = map ShellOutput ps \<and> concat ps = out
     \<and> (\<forall>p \<in> set ps. p \<noteq> [] \<and> length p \<le> MAX_PAYLOAD)"
  using chunks_bounds concat_chunks [of MAX_PAYLOAD out]
  by (intro exI [of _ "chunks MAX_PAYLOAD out"]) (auto simp: MAX_PAYLOAD_def)

lemma map_Output_split:
  assumes "map Output ds @ [Exit c] = map Output ds1 @ (case code of None \<Rightarrow> [] | Some c' \<Rightarrow> [Exit c']) @ rest"
  shows "(code = None \<longrightarrow> (\<exists>ds2. ds = ds1 @ ds2 \<and> rest = map Output ds2 @ [Exit c]))
    \<and> (code \<noteq> None \<longrightarrow> code = Some c \<and> ds = ds1 \<and> rest = [])"
  using assms
proof (induction ds arbitrary: ds1)
  case Nil
  then show ?case by (cases ds1; cases code) auto
next
  case (Cons d ds)
  show ?case
  proof (cases ds1)
    case Nil
    then show ?thesis using Cons.prems by (cases code) auto
  next
    case (Cons d1 ds1')
    then show ?thesis using Cons.IH [of ds1'] Cons.prems by auto
  qed
qed

lemma exec_stream:
  assumes "link_up s" "hs_pty s = None" "hs_exec s = Some sp"
    and "sp_events sp = map Output ds @ [Exit c]" "sp_status sp = None" "length ds < k"
  shows "\<exists>ps. sent_messages (((\<lambda>s. snd (pump_shell_events s)) ^^ k) s)
        = sent_messages s @ map ShellOutput ps @ [ShellExit c]
    \<and> concat ps = concat ds \<and> (\<forall>p \<in> set ps. p \<noteq> [] \<and> length p \<le> MAX_PAYLOAD)
    \<and> hs_exec (((\<lambda>s. snd (pump_shell_events s)) ^^ k) s) = None"
  using assms
proof (induction "length ds" arbitrary: ds s sp k rule: less_induct)
  case less
  let ?pump = "\<lambda>s. snd (pump_shell_events s)"
  obtain k' where k: "k = Suc k'" using less.prems(6) by (cases k) auto
  obtain out code evs where d: "drain_events PUMP_BUDGET [] (sp_events sp) = (out, code, evs)"
    using prod_cases3 by blast
  obtain ds1 where ds1: "out = concat ds1"
    "sp_events sp = map Output ds1 @ (case code of None \<Rightarrow> [] | Some c \<Rightarrow> [Exit c]) @ evs"
    using drain_events_spec [OF d] by auto
  note split = map_Output_split [OF trans [OF less.prems(4) [symmetric] ds1(2)]]
  note up = pump_exec_up [OF less.prems(1-3) d]
  have found: "exit_found code sp = code"
    using less.prems(5) by (simp add: exit_found_def try_exit_code_def split: option.split)
  obtain ps where ps: "map ShellOutput (chunks MAX_PAYLOAD out) = map ShellOutput ps" "concat ps = out"
    "\<forall>p \<in> set ps. p \<noteq> [] \<and> length p \<le> MAX_PAYLOAD"
    using pumped_chunks by blast
  have unroll: "(?pump ^^ k) s = (?pump ^^ k') (?pump s)" unfolding k funpow_Suc_right by simp
  show ?case
  proof (cases code)
    case None
    then obtain ds2 where ds2: "ds = ds1 @ ds2" "evs = map Output ds2 @ [Exit c]" using split by auto
    have "length evs < length (sp_events sp)"
      using drain_events_progress [OF d] less.prems(4) by simp
    then have lt: "length ds2 < length ds" using less.prems(4) ds2(2) by simp
    have ex: "hs_exec (?pump s) = Some (sp\<lparr>sp_events := evs\<rparr>)" using up(5) found None by simp
    obtain qs where qs: "sent_messages ((?pump ^^ k') (?pump s))
          = sent_messages (?pump s) @ map ShellOutput qs @ [ShellExit c]"
        "concat qs = concat ds2" "\<forall>p \<in> set qs. p \<noteq> [] \<and> length p \<le> MAX_PAYLOAD"
        "hs_exec ((?pump ^^ k') (?pump s)) = None"
      using less.hyps [OF lt up(1,2) ex, of k'] ds2(2) less.prems(5,6) lt k by auto
    show ?thesis
      using qs ps up(4) found None ds1(1) ds2(1) unfolding unroll
      by (intro exI [of _ "ps @ qs"]) auto
  next
    case (Some c')
    then have c': "code = Some c" "ds = ds1" using split by auto
    have idle: "(?pump ^^ n) t = t \<or> (sent_messages ((?pump ^^ n) t) = sent_messages t
        \<and> hs_exec ((?pump ^^ n) t) = None)" if "hs_exec t = None" "hs_pty t = None" for n t
    proof -
      have one: "sent_messages (?pump t) = sent_messages t \<and> hs_exec (?pump t) = None \<and> hs_pty (?pump t) = None"
        if "hs_exec t = None" "hs_pty t = None" for t
        using that unfolding pump_shell_events_exec [OF that(2)]
        by (simp add: pump_slot_def slot_proc_def Let_def sent_messages_def)
      have "sent_messages ((?pump ^^ n) t) = sent_messages t \<and> hs_exec ((?pump ^^ n) t) = None
          \<and> hs_pty ((?pump ^^ n) t) = None"
        using that by (induction n) (auto simp: one)
      then show ?thesis by simp
    qed
    have "hs_exec (?pump s) = None" using up(5) found c' by simp
    then show ?thesis
      using idle [of "?pump s" k'] up(2,4) found c' ps ds1(1) unfolding unroll
      by (intro exI [of _ ps]) auto
  qed
qed

text \<open>
  Once \<open>try_wait\<close> sees the child gone, a pump that stops at its budget reports the exit and
  drops the slot, with the output behind the budget still in the channel.
\<close>

lemma drain_stops_at_budget:
  "budget \<le> length d \<Longrightarrow> budget \<noteq> 0 \<Longrightarrow> drain_events budget [] (Output d # es) = (d, None, es)"
  by (cases es rule: list.exhaust; cases "hd es") auto

lemma exec_tail_cut:
  assumes "link_up s" "hs_pty s = None" "hs_exec s = Some sp"
    and "sp_events sp = Output d # rest" "PUMP_BUDGET \<le> length d"
    and "sp_status sp = Some (PipeStatus (Some c))"
  shows "sent_messages (snd (pump_shell_events s))
      = sent_messages s @ map ShellOutput (chunks MAX_PAYLOAD d) @ [ShellExit c]
    \<and> hs_exec (snd (pump_shell_events s)) = None"
proof -
  have d: "drain_events PUMP_BUDGET [] (sp_events sp) = (d, None, rest)"
    using drain_stops_at_budget [OF assms(5)] assms(4) by simp
  have "exit_found None sp = Some c" using assms(6) by (simp add: exit_found_def try_exit_code_def)
  then show ?thesis using pump_exec_up(4,5) [OF assms(1-3) d] by simp
qed

end
