(* ===== verification/HostThread.thy ===== *)
theory HostThread
  imports HostInvariant Interfaces
begin

text \<open>
  \<open>apps/wiredesk-host/src/session_thread.rs\<close>: the loop that opens the transport with a growing
  delay, ticks the session, counts bad frames and reopens, and reports status changes to the UI.
  One step is one attempt to open or one iteration of the inner loop; between steps the
  environment moves: packets arrive, shells print and exit, workers run, the clipboard changes.
\<close>

section \<open>What happens around a session\<close>

datatype around_event =
    Ticked host_env
  | ClockMoves nat
  | PacketsArrive "(nat \<times> (werror + packet)) list"
  | LinkAnswers "(nat \<times> werror option) list"
  | InjectorAnswers "werror option list"
  | ShellEmits shell_slot "shell_event list"
  | ShellEnds shell_slot exit_status
  | WorkersSend u64 message
  | WorkerTook u32
  | WorkerFinished u32
  | ClipboardHolds clip_os
  | ReceiveFilesSet bool

definition at_slot :: "shell_slot \<Rightarrow> (shell_process \<Rightarrow> shell_process) \<Rightarrow> host_session \<Rightarrow> host_session" where
  "at_slot slot f s =
     (case slot_proc slot s of None \<Rightarrow> s | Some sp \<Rightarrow> set_proc slot (f sp) s)"

definition take_clipboard_warning :: "host_session \<Rightarrow> clip_warning option \<times> host_session" where
  "take_clipboard_warning s =
     (let (w, c) = take_warning (hs_clip s) in (w, s\<lparr>hs_clip := c\<rparr>))"

fun around_step :: "host_session \<Rightarrow> around_event \<Rightarrow> host_session" where
  "around_step s (Ticked env) = snd (tick env s)"
| "around_step s (ClockMoves d) = s\<lparr>hs_now := hs_now s + d\<rparr>"
| "around_step s (PacketsArrive ps) =
     s\<lparr>hs_link := (hs_link s)\<lparr>ln_recv_script := ln_recv_script (hs_link s) @ ps\<rparr>\<rparr>"
| "around_step s (LinkAnswers rs) =
     s\<lparr>hs_link := (hs_link s)\<lparr>ln_send_script := ln_send_script (hs_link s) @ rs\<rparr>\<rparr>"
| "around_step s (InjectorAnswers rs) =
     s\<lparr>hs_injector := (hs_injector s)\<lparr>in_script := in_script (hs_injector s) @ rs\<rparr>\<rparr>"
| "around_step s (ShellEmits slot evs) = at_slot slot (\<lambda>sp. sp\<lparr>sp_events := sp_events sp @ evs\<rparr>) s"
| "around_step s (ShellEnds slot st) = at_slot slot (\<lambda>sp. sp\<lparr>sp_status := Some st\<rparr>) s"
| "around_step s (WorkersSend epoch m) = s\<lparr>hs_browser := hub_step (hs_browser s) (WorkerSends epoch m)\<rparr>"
| "around_step s (WorkerTook sid) = s\<lparr>hs_browser := hub_step (hs_browser s) (WorkerTakes sid)\<rparr>"
| "around_step s (WorkerFinished sid) = s\<lparr>hs_browser := hub_step (hs_browser s) (WorkerDone sid)\<rparr>"
| "around_step s (ClipboardHolds os) = s\<lparr>hs_clip := (hs_clip s)\<lparr>cs_os := os\<rparr>\<rparr>"
| "around_step s (ReceiveFilesSet b) = s\<lparr>hs_clip := (hs_clip s)\<lparr>cs_receive_files := b\<rparr>\<rparr>"

lemma at_slot_inv: "sess_inv s \<Longrightarrow> sess_inv (at_slot slot f s)"
  by (auto simp: at_slot_def set_proc_inv split: option.split)

lemma sess_inv_scripts [simp]:
  "sess_inv (s\<lparr>hs_link := (hs_link s)\<lparr>ln_recv_script := r\<rparr>\<rparr>) = sess_inv s"
  "sess_inv (s\<lparr>hs_link := (hs_link s)\<lparr>ln_send_script := q\<rparr>\<rparr>) = sess_inv s"
  "sess_inv (s\<lparr>hs_injector := i\<rparr>) = sess_inv s"
  by (simp_all add: sess_inv_defs legacy_pty_def seq_ok_def)

lemma around_step_inv:
  assumes inv: "sess_inv s"
  shows "sess_inv (around_step s e)"
proof (cases e)
  case (WorkersSend epoch m)
  show ?thesis unfolding WorkersSend around_step.simps
    by (rule sess_inv_parts(2) [OF inv]) (rule hub_step_inv [OF sess_inv_partsD(1) [OF inv]])
next
  case (WorkerTook sid)
  show ?thesis unfolding WorkerTook around_step.simps
    by (rule sess_inv_parts(2) [OF inv]) (rule hub_step_inv [OF sess_inv_partsD(1) [OF inv]])
next
  case (WorkerFinished sid)
  show ?thesis unfolding WorkerFinished around_step.simps
    by (rule sess_inv_parts(2) [OF inv]) (rule hub_step_inv [OF sess_inv_partsD(1) [OF inv]])
next
  case (ClipboardHolds os)
  show ?thesis unfolding ClipboardHolds around_step.simps
    by (rule sess_inv_parts(1) [OF inv]) (simp add: rx_inv_fields sess_inv_partsD(2) [OF inv])
next
  case (ReceiveFilesSet b)
  have "rx_inv ((hs_clip s)\<lparr>cs_receive_files := b\<rparr>)"
    using sess_inv_partsD(2) [OF inv] by (simp add: rx_inv_def)
  then show ?thesis unfolding ReceiveFilesSet around_step.simps by (rule sess_inv_parts(1) [OF inv])
qed (use inv in \<open>simp_all add: keeps_invD [OF tick_inv] at_slot_inv\<close>)

text \<open>A link that has sent nothing yet.\<close>

definition fresh_link :: "link \<Rightarrow> bool" where
  "fresh_link ln \<longleftrightarrow> ln_log ln = []"

lemma session_new_inv:
  "fresh_link ln \<Longrightarrow> hub_inv h \<Longrightarrow> rx_inv c \<Longrightarrow> sess_inv (session_new ln inp name w sh h c now)"
  using flow_rel_new [of now]
  by (auto simp: session_new_def sess_inv_defs legacy_pty_def seq_ok_def fresh_link_def)

interpretation sessm: inv_machine around_step sess_inv "\<lambda>e. True"
  by unfold_locales (rule around_step_inv)

section \<open>The thread\<close>

datatype session_status =
    StDisconnected rstring
  | StWaiting
  | StConnected rstring
  | StNotification clip_warning

definition derive_status :: "session_state \<Rightarrow> rstring option \<Rightarrow> session_status" where
  "derive_status state client_name =
     (case state of
        WaitingForHello \<Rightarrow> StWaiting
      | Connected \<Rightarrow> StConnected (case client_name of Some n \<Rightarrow> n | None \<Rightarrow> blit ''(unknown)'')
      | SessDisconnected \<Rightarrow> StDisconnected (blit ''link down''))"

record host_config =
  hc_transport :: rstring
  hc_host_name :: rstring
  hc_width :: u16
  hc_height :: u16
  hc_desktop :: bool

text \<open>\<open>Opening\<close> holds the injector between sessions; \<open>Running\<close> the session and the last report.\<close>

datatype thread_phase =
    Opening injector
  | Running host_session "session_status option"

record host_thread =
  ht_phase :: thread_phase
  ht_attempt :: u32
  ht_statuses :: "session_status list"
  ht_now :: nat

definition tell :: "session_status \<Rightarrow> host_thread \<Rightarrow> host_thread" where
  "tell st t = t\<lparr>ht_statuses := ht_statuses t @ [st]\<rparr>"

definition sleep_ms :: "nat \<Rightarrow> host_thread \<Rightarrow> host_thread" where
  "sleep_ms d t = t\<lparr>ht_now := ht_now t + d\<rparr>"

text \<open>One attempt to open: the answer of \<open>open_transport\<close>, and the clipboard as it is then.\<close>

definition open_attempt ::
  "host_env \<Rightarrow> host_config \<Rightarrow> clip_os \<Rightarrow> bool \<Rightarrow> werror + link \<Rightarrow> injector \<Rightarrow> host_thread \<Rightarrow> host_thread" where
  "open_attempt env cfg os receive_files answer inp t =
     (case answer of
        Inl e \<Rightarrow>
          let delay = host_next_backoff (ht_attempt t)
          in sleep_ms (1000 * delay)
               ((tell (StDisconnected (hc_transport cfg @ blit '': '' @ he_show env e)) t)
                  \<lparr>ht_attempt := ht_attempt t + 1\<rparr>)
      | Inr ln \<Rightarrow>
          let sess = session_new ln inp (hc_host_name cfg) (hc_width cfg) (hc_height cfg)
                       (hub_new (hc_desktop cfg))
                       (clipboard_new (he_clip env) os receive_files (ht_now t)) (ht_now t)
          in tell StWaiting (t\<lparr>ht_attempt := 0, ht_phase := Running sess None\<rparr>))"

text \<open>\<open>into_injector\<close>, the pause for the handle, and back to opening.\<close>

definition reopen :: "host_session \<Rightarrow> host_thread \<Rightarrow> host_thread" where
  "reopen sess t = sleep_ms 500 (t\<lparr>ht_phase := Opening (into_injector sess)\<rparr>)"

text \<open>The tail of an iteration: a pending warning, then the status when it changed.\<close>

definition report_status :: "host_session \<Rightarrow> session_status option \<Rightarrow> host_thread \<Rightarrow> host_thread" where
  "report_status sess last_reported t =
     (let (warning, sess1) = take_clipboard_warning sess;
          t1 = (case warning of None \<Rightarrow> t | Some w \<Rightarrow> tell (StNotification w) t);
          nxt = derive_status (hs_state sess1) (hs_client_name sess1)
      in if last_reported \<noteq> Some nxt
         then (tell nxt t1)\<lparr>ht_phase := Running sess1 (Some nxt)\<rparr>
         else t1\<lparr>ht_phase := Running sess1 last_reported\<rparr>)"

definition run_iteration ::
  "host_env \<Rightarrow> host_session \<Rightarrow> session_status option \<Rightarrow> host_thread \<Rightarrow> host_thread" where
  "run_iteration env sess last_reported t =
     (case tick env sess of
        (Inr got, s1) \<Rightarrow> report_status s1 last_reported t
      | (Inl e, s1) \<Rightarrow>
          if is_recv_timeout e then report_status s1 last_reported t
          else case e of
            Protocol reason \<Rightarrow>
              (case note_protocol_error s1 of
                 (True, s2) \<Rightarrow> reopen s2 t
               | (False, s2) \<Rightarrow> report_status s2 last_reported t)
          | Transport msg \<Rightarrow> reopen s1 t
          | _ \<Rightarrow> report_status s1 last_reported (sleep_ms 1000 t))"

datatype thread_event =
    Opens clip_os bool "werror + link"
  | Iterates
  | Around around_event

definition thread_step :: "host_env \<Rightarrow> host_config \<Rightarrow> host_thread \<Rightarrow> thread_event \<Rightarrow> host_thread" where
  "thread_step env cfg t ev =
     (case (ht_phase t, ev) of
        (Opening inp, Opens os rf answer) \<Rightarrow> open_attempt env cfg os rf answer inp t
      | (Running sess lr, Iterates) \<Rightarrow> run_iteration env sess lr t
      | (Running sess lr, Around e) \<Rightarrow> t\<lparr>ht_phase := Running (around_step sess e) lr\<rparr>
      | _ \<Rightarrow> t)"

definition thread_start :: "injector \<Rightarrow> nat \<Rightarrow> host_thread" where
  "thread_start inp now = \<lparr>ht_phase = Opening inp, ht_attempt = 0, ht_statuses = [], ht_now = now\<rparr>"

section \<open>The thread's invariant\<close>

text \<open>
  The session inside keeps its invariant. What the UI was told last, notifications aside, is the
  session's status once an iteration has reported.
\<close>

fun event_ok :: "thread_event \<Rightarrow> bool" where
  "event_ok (Opens os rf (Inr ln)) = fresh_link ln"
| "event_ok ev = True"

fun persistent :: "session_status \<Rightarrow> bool" where
  "persistent (StNotification w) = False"
| "persistent st = True"

definition told_last :: "session_status list \<Rightarrow> session_status option \<Rightarrow> bool" where
  "told_last sts lr \<longleftrightarrow>
     (\<forall>st. lr = Some st \<longrightarrow> filter persistent sts \<noteq> [] \<and> last (filter persistent sts) = st)"

definition thread_inv :: "host_thread \<Rightarrow> bool" where
  "thread_inv t \<longleftrightarrow>
     (case ht_phase t of
        Opening inp \<Rightarrow> True
      | Running sess lr \<Rightarrow> sess_inv sess \<and> told_last (ht_statuses t) lr)"

lemma tell_fields [simp]:
  "ht_phase (tell st t) = ht_phase t" "ht_statuses (tell st t) = ht_statuses t @ [st]"
  "ht_attempt (tell st t) = ht_attempt t" "ht_now (tell st t) = ht_now t"
  by (simp_all add: tell_def)

lemma sleep_fields [simp]:
  "ht_phase (sleep_ms d t) = ht_phase t" "ht_statuses (sleep_ms d t) = ht_statuses t"
  "ht_attempt (sleep_ms d t) = ht_attempt t" "ht_now (sleep_ms d t) = ht_now t + d"
  by (simp_all add: sleep_ms_def)

lemma persistent_derive [simp]: "persistent (derive_status st n)"
  by (simp add: derive_status_def split: session_state.split)

lemma take_clipboard_warning_inv:
  assumes "sess_inv s"
  shows "sess_inv (snd (take_clipboard_warning s))"
proof -
  have "rx_inv ((hs_clip s)\<lparr>cs_warning := None\<rparr>)"
    using sess_inv_partsD(2) [OF assms] by (simp add: rx_inv_def)
  then show ?thesis
    using sess_inv_parts(1) [OF assms] by (simp add: take_clipboard_warning_def take_warning_def)
qed

lemma take_clipboard_warning_fields [simp]:
  "hs_state (snd (take_clipboard_warning s)) = hs_state s"
  "hs_client_name (snd (take_clipboard_warning s)) = hs_client_name s"
  by (simp_all add: take_clipboard_warning_def take_warning_def)

text \<open>What an iteration that keeps the session leaves: the session, and its status told last.\<close>

lemma report_status_result:
  assumes "told_last (ht_statuses t) lr"
  shows "ht_phase (report_status s lr t)
      = Running (snd (take_clipboard_warning s)) (Some (derive_status (hs_state s) (hs_client_name s)))
    \<and> told_last (ht_statuses (report_status s lr t))
        (Some (derive_status (hs_state s) (hs_client_name s)))"
proof -
  obtain w s1 where w: "take_clipboard_warning s = (w, s1)" by (cases "take_clipboard_warning s")
  then have "hs_state s1 = hs_state s" "hs_client_name s1 = hs_client_name s"
    using take_clipboard_warning_fields [of s] by simp_all
  then show ?thesis
    using assms w by (cases w; cases lr) (auto simp: report_status_def told_last_def Let_def)
qed

lemma report_status_inv:
  assumes "sess_inv s" "told_last (ht_statuses t) lr"
  shows "thread_inv (report_status s lr t)"
  using report_status_result [OF assms(2), of s] take_clipboard_warning_inv [OF assms(1)]
  by (simp add: thread_inv_def)

lemma note_protocol_error_inv: "sess_inv s \<Longrightarrow> sess_inv (snd (note_protocol_error s))"
  by (simp add: note_protocol_error_def split: prod.split)

text \<open>An iteration either reopens or reports on a session that satisfies its invariant.\<close>

lemma run_iteration_cases:
  assumes "sess_inv sess"
  obtains (reopens) inp where "ht_phase (run_iteration env sess lr t) = Opening inp"
    | (reports) s t' where "run_iteration env sess lr t = report_status s lr t'" "sess_inv s"
        "ht_statuses t' = ht_statuses t"
proof -
  obtain r s1 where t: "tick env sess = (r, s1)" by (cases "tick env sess")
  then have s1: "sess_inv s1" using keeps_invD [OF tick_inv assms, of env] by simp
  obtain fired s2 where n: "note_protocol_error s1 = (fired, s2)" by (cases "note_protocol_error s1")
  have s2: "sess_inv s2" using note_protocol_error_inv [OF s1] n by simp
  have op: "ht_phase (reopen s t) = Opening (into_injector s)" for s by (simp add: reopen_def)
  show thesis
  proof (cases r)
    case (Inr got)
    then show ?thesis using reports [of s1 t] s1 t by (simp add: run_iteration_def)
  next
    case (Inl e)
    show ?thesis
    proof (cases "is_recv_timeout e")
      case True
      then show ?thesis using reports [of s1 t] s1 t Inl by (simp add: run_iteration_def)
    next
      case False
      show ?thesis
      proof (cases e)
        case (Transport msg)
        then show ?thesis using reopens op t Inl False by (simp add: run_iteration_def)
      next
        case (Protocol reason)
        show ?thesis
        proof (cases fired)
          case True
          then show ?thesis using reopens op t Inl False Protocol n by (simp add: run_iteration_def)
        next
          case nf: False
          then show ?thesis using reports [of s2 t] s2 t Inl False Protocol n by (simp add: run_iteration_def)
        qed
      qed (use reports [of s1 "sleep_ms 1000 t"] s1 t Inl False in \<open>simp_all add: run_iteration_def\<close>)
    qed
  qed
qed

lemma run_iteration_inv:
  assumes "thread_inv t" "ht_phase t = Running sess lr"
  shows "thread_inv (run_iteration env sess lr t)"
proof -
  have inv: "sess_inv sess" and lr: "told_last (ht_statuses t) lr"
    using assms by (auto simp: thread_inv_def)
  show ?thesis
    using inv
  proof (cases rule: run_iteration_cases [of sess env lr t])
    case (reopens inp)
    then show ?thesis by (simp add: thread_inv_def)
  next
    case (reports s t')
    then show ?thesis using report_status_inv [OF reports(2), of t' lr] lr by simp
  qed
qed

lemma run_iteration_reports:
  assumes "thread_inv t" "ht_phase t = Running sess lr"
    and "ht_phase (run_iteration env sess lr t) = Running s' lr'"
  shows "hs_state s' = WaitingForHello
      \<and> told_last (ht_statuses (run_iteration env sess lr t)) (Some StWaiting)
    \<or> (\<exists>name. hs_state s' = Connected \<and> hs_client_name s' = Some name
      \<and> told_last (ht_statuses (run_iteration env sess lr t)) (Some (StConnected name)))"
proof -
  have inv: "sess_inv sess" and lr: "told_last (ht_statuses t) lr"
    using assms by (auto simp: thread_inv_def)
  show ?thesis
    using inv
  proof (cases rule: run_iteration_cases [of sess env lr t])
    case (reopens inp)
    then show ?thesis using assms(3) by simp
  next
    case (reports s t')
    then have "told_last (ht_statuses t') lr" using lr by simp
    note res = report_status_result [OF this, of s]
    then have s': "s' = snd (take_clipboard_warning s)" using reports(1) assms(3) by simp
    show ?thesis
      using res reports(1,2) s'
      by (cases "hs_state s") (auto simp: sess_inv_def derive_status_def)
  qed
qed

lemma open_attempt_inv:
  "thread_inv t \<Longrightarrow> ht_phase t = Opening inp \<Longrightarrow> event_ok (Opens os rf answer) \<Longrightarrow>
   thread_inv (open_attempt env cfg os rf answer inp t)"
  using session_new_inv clipm.start_inv hubm.start_inv
  by (auto simp: open_attempt_def thread_inv_def told_last_def Let_def split: sum.split)

lemma thread_step_inv:
  assumes "thread_inv t" "event_ok ev"
  shows "thread_inv (thread_step env cfg t ev)"
proof (cases "ht_phase t")
  case (Opening inp)
  then show ?thesis
    using assms open_attempt_inv [OF assms(1) Opening]
    by (cases ev) (simp_all add: thread_step_def)
next
  case (Running sess lr)
  show ?thesis
  proof (cases ev)
    case (Around e)
    have "sess_inv sess" using assms(1) Running by (simp add: thread_inv_def)
    from around_step_inv [OF this, of e] show ?thesis
      using assms(1) Running Around by (simp add: thread_step_def thread_inv_def)
  qed (use assms Running run_iteration_inv [OF assms(1) Running] in \<open>simp_all add: thread_step_def\<close>)
qed

interpretation threadm: init_machine "thread_step env cfg" thread_inv event_ok "thread_start inp now"
  for env cfg inp now
  by unfold_locales (simp_all add: thread_step_inv, simp add: thread_inv_def thread_start_def)

end
