(* ===== verification/HostRules.thy ===== *)
theory HostRules
  imports HostBehaviour HostThread
begin

text \<open>
  The rules of the host's session that involve one packet, one tick or the thread around it:
  the two shell slots do not touch each other, a new client starts clean, a silent client is torn
  down, a tick takes in a bounded number of packets, exec's bytes in flight stay under the cap,
  and a port full of garbage is reopened.
\<close>

section \<open>Two independent slots\<close>

fun exec_side :: "message \<Rightarrow> bool" where
  "exec_side (ShellOpen shell) = True"
| "exec_side (ShellInput data) = True"
| "exec_side ShellClose = True"
| "exec_side m = False"

fun pty_side :: "message \<Rightarrow> bool" where
  "pty_side (PtyOpen shell cols rows) = True"
| "pty_side (PtyInput data) = True"
| "pty_side (PtyResize cols rows) = True"
| "pty_side PtyClose = True"
| "pty_side m = False"

lemma take_warm_or_spawn_slots:
  "take_warm_or_spawn env shell s = (r, s1) \<Longrightarrow> hs_pty s1 = hs_pty s \<and> hs_exec s1 = hs_exec s"
  using take_warm_or_spawn_state [of env shell s] by auto

lemma warm_up_slots [simp]: "hs_pty (warm_up env s) = hs_pty s" "hs_exec (warm_up env s) = hs_exec s"
  by (simp_all add: warm_up_def split: sum.split)

lemma exec_kill_pty [simp]: "hs_pty (exec_kill s) = hs_pty s" "hs_exec (exec_kill s) = None"
  by (simp_all add: exec_kill_def split: option.split)

lemma pty_kill_exec [simp]: "hs_exec (pty_kill s) = hs_exec s" "hs_pty (pty_kill s) = None"
  by (simp_all add: pty_kill_def split: option.split)

lemma note_pty_activity_slots [simp]:
  "hs_pty (note_pty_activity s) = hs_pty s" "hs_exec (note_pty_activity s) = hs_exec s"
  by (simp_all add: note_pty_activity_def)

lemma exec_side_keeps_pty:
  assumes "exec_side m" "\<not> legacy_pty s"
  shows "hs_pty (snd (handle_connected env m s)) = hs_pty s"
  using assms
proof (cases m)
  case (ShellOpen shell)
  obtain r s1 where "take_warm_or_spawn env shell s = (r, s1)" by (cases "take_warm_or_spawn env shell s")
  then show ?thesis
    using ShellOpen take_warm_or_spawn_slots by (auto simp: on_shell_open_def split: sum.split)
qed (auto simp: on_shell_input_def on_shell_close_def legacy_pty_def split: option.splits)

lemma pty_side_keeps_exec:
  assumes "pty_side m"
  shows "hs_exec (snd (handle_connected env m s)) = hs_exec s"
  using assms
  by (cases m) (auto simp: on_pty_open_def on_pty_input_def on_pty_resize_def on_pty_close_def
      split: option.split sum.split)

text \<open>What a slot sends: exec on the shell opcodes, a console on its own.\<close>

fun exec_traffic :: "message \<Rightarrow> bool" where
  "exec_traffic (ShellOutput d) = True"
| "exec_traffic (ShellExit c) = True"
| "exec_traffic m = False"

fun pty_traffic :: "message \<Rightarrow> bool" where
  "pty_traffic (PtyOutput d) = True"
| "pty_traffic (PtyExit c) = True"
| "pty_traffic m = False"

lemma pump_traffic:
  assumes "link_up s"
  shows "\<exists>ms. sent_messages (snd (pump_slot slot s)) = sent_messages s @ ms
    \<and> list_all (if legacy_opcodes slot s then exec_traffic else pty_traffic) ms
    \<and> slot_proc (other_slot slot) (snd (pump_slot slot s)) = slot_proc (other_slot slot) s"
proof (cases "slot_budget slot s = 0 \<or> slot_proc slot s = None")
  case True
  then have "pump_slot slot s = (Inr (), s)" by (auto simp: pump_slot_def Let_def)
  then show ?thesis by simp
next
  case False
  then obtain sp where sp: "slot_proc slot s = Some sp" "slot_budget slot s \<noteq> 0" by auto
  obtain out code evs where d: "drain_events (slot_budget slot s) [] (sp_events sp) = (out, code, evs)"
    using prod_cases3 by blast
  show ?thesis
    using pump_slot_up [OF assms sp d]
    by (intro exI [of _ "map (output_message (legacy_opcodes slot s)) (chunks MAX_PAYLOAD out)
        @ (case exit_found code sp of None \<Rightarrow> [] | Some c \<Rightarrow> [exit_message (legacy_opcodes slot s) c])"])
      (auto simp: output_message_def exit_message_def list_all_iff split: option.split)
qed

section \<open>A new client starts clean\<close>

text \<open>The shells a session holds, warm one included.\<close>

definition held_shells :: "host_session \<Rightarrow> shell_process list" where
  "held_shells s = (case hs_exec s of None \<Rightarrow> [] | Some sp \<Rightarrow> [sp])
     @ (case hs_pty s of None \<Rightarrow> [] | Some p \<Rightarrow> [ps_proc p])"

lemma shell_kill_released: "released (shell_kill sp) = released sp"
  by (simp add: released_def shell_kill_def shell_close_def)

lemma kill_all_shells_released:
  "hs_released (kill_all_shells s) = hs_released s @ map released (held_shells s)"
  by (simp add: kill_all_shells_def exec_kill_def pty_kill_def held_shells_def Let_def
      shell_kill_released split: option.split)

lemma released_killed [simp]: "sp_killed (released sp)"
  by (simp add: released_def shell_kill_def)

lemma link_up_fields [simp]:
  "link_up (s\<lparr>hs_clip := c\<rparr>) = link_up s" "link_up (s\<lparr>hs_state := st\<rparr>) = link_up s"
  "link_up (s\<lparr>hs_client_name := n\<rparr>) = link_up s" "link_up (s\<lparr>hs_flow := f\<rparr>) = link_up s"
  "link_up (s\<lparr>hs_browser := h\<rparr>) = link_up s" "link_up (s\<lparr>hs_hb_sent := t\<rparr>) = link_up s"
  "link_up (kill_all_shells s) = link_up s" "link_up (warm_kill s) = link_up s"
  "link_up (snd (inject i s)) = link_up s"
  by (simp_all add: link_up_def)

lemma sent_messages_fields [simp]:
  "sent_messages (s\<lparr>hs_clip := c\<rparr>) = sent_messages s" "sent_messages (s\<lparr>hs_state := st\<rparr>) = sent_messages s"
  "sent_messages (s\<lparr>hs_client_name := n\<rparr>) = sent_messages s"
  "sent_messages (s\<lparr>hs_flow := f\<rparr>) = sent_messages s" "sent_messages (s\<lparr>hs_browser := h\<rparr>) = sent_messages s"
  "sent_messages (s\<lparr>hs_hb_recv := t\<rparr>) = sent_messages s" "sent_messages (s\<lparr>hs_hb_sent := t\<rparr>) = sent_messages s"
  "sent_messages (kill_all_shells s) = sent_messages s" "sent_messages (warm_kill s) = sent_messages s"
  "sent_messages (snd (inject i s)) = sent_messages s"
  by (simp_all add: sent_messages_def)

lemma warm_up_fields [simp]:
  "hs_state (warm_up env s) = hs_state s" "hs_flow (warm_up env s) = hs_flow s"
  "hs_browser (warm_up env s) = hs_browser s" "hs_clip (warm_up env s) = hs_clip s"
  "hs_client_name (warm_up env s) = hs_client_name s" "hs_released (warm_up env s) = hs_released s"
  "hs_injector (warm_up env s) = hs_injector s" "hs_link (warm_up env s) = hs_link s"
  "hs_hb_recv (warm_up env s) = hs_hb_recv s"
  by (simp_all add: warm_up_def split: sum.split)

lemma on_hello_up:
  fixes env name
  assumes "link_up s" "hs_exec s = None" "hs_pty s = None"
  defines "t \<equiv> snd (on_hello env VERSION name s)"
  shows "fst (on_hello env VERSION name s) = Inr ()
    \<and> hs_state t = Connected \<and> hs_client_name t = Some name
    \<and> hs_exec t = None \<and> hs_pty t = None \<and> hs_flow t = flow_new (hs_now s)
    \<and> hs_browser t = hub_reset (hs_browser s) \<and> hs_clip t = hs_clip s
    \<and> hs_released t = hs_released s \<and> hs_injector t = hs_injector s
    \<and> sent_messages t = sent_messages s
        @ [HelloAck HOST_PROTO_VERSION (hs_host_name s) (hs_screen_w s) (hs_screen_h s)]"
proof -
  let ?s = "s\<lparr>hs_client_name := Some name, hs_flow := flow_new (hs_now s),
             hs_browser := hub_reset (hs_browser s)\<rparr>"
  let ?m = "HelloAck HOST_PROTO_VERSION (hs_host_name s) (hs_screen_w s) (hs_screen_h s)"
  obtain r u where u: "sess_send ?m ?s = (r, u)" by (cases "sess_send ?m ?s")
  have "link_up ?s" using assms(1) by (simp add: link_up_def)
  note up = sess_send_up [OF this, of ?m, unfolded u fst_conv snd_conv]
  note fields = sess_send_fields [of ?m ?s, unfolded u snd_conv]
  have "on_hello env VERSION name s
      = (Inr (), warm_up env (u\<lparr>hs_state := Connected, hs_hb_recv := hs_now u\<rparr>))"
    using u up(1) by (simp add: on_hello_def Let_def act_simps)
  then show ?thesis
    unfolding t_def using fields up(4) assms(2,3) by (simp add: sent_messages_def)
qed

lemma rehello_clean:
  fixes env
  assumes "link_up s" "hs_state s \<noteq> WaitingForHello" "p_message p = Hello VERSION name"
  defines "t \<equiv> snd (handle_packet env p s)"
  shows "fst (handle_packet env p s) = Inr ()
    \<and> hs_state t = Connected \<and> hs_client_name t = Some name
    \<and> hs_exec t = None \<and> hs_pty t = None
    \<and> hs_released t = hs_released s @ map released (held_shells s)
    \<and> exec_in_flight (hs_flow t) = 0 \<and> \<not> pacing (hs_flow t)
    \<and> hb_streams (hs_browser t) = [] \<and> hb_output (hs_browser t) = []
    \<and> hs_clip t = clip_reset (hs_clip s)
    \<and> in_log (hs_injector t) = in_log (hs_injector s) @ [ReleaseAll]
    \<and> sent_messages t = sent_messages s
        @ [HelloAck HOST_PROTO_VERSION (hs_host_name s) (hs_screen_w s) (hs_screen_h s)]"
proof -
  let ?s1 = "snd (inject ReleaseAll s)"
  define u where "u = (kill_all_shells (?s1\<lparr>hs_clip := clip_reset (hs_clip ?s1)\<rparr>))
    \<lparr>hs_state := WaitingForHello, hs_client_name := None\<rparr>"
  have eq: "handle_packet env p s = on_hello env VERSION name u"
    using assms(2,3) by (simp add: handle_packet_cases on_rehello_def u_def ignore_err_def Let_def)
  have names: "hs_host_name (kill_all_shells x) = hs_host_name x" "hs_screen_w (kill_all_shells x) = hs_screen_w x"
    "hs_screen_h (kill_all_shells x) = hs_screen_h x" for x
    by (simp_all add: kill_all_shells_def exec_kill_def pty_kill_def Let_def split: option.split)
  have names': "hs_host_name ?s1 = hs_host_name s" "hs_screen_w ?s1 = hs_screen_w s"
    "hs_screen_h ?s1 = hs_screen_h s"
    by (simp_all add: inject_def Let_def split: list.split)
  have held: "held_shells (?s1\<lparr>hs_clip := c\<rparr>) = held_shells s" for c
    by (simp add: held_shells_def)
  have u: "link_up u" "hs_exec u = None" "hs_pty u = None" "hs_clip u = clip_reset (hs_clip s)"
    "hs_browser u = hub_reset (hs_browser s)" "sent_messages u = sent_messages s"
    "hs_released u = hs_released s @ map released (held_shells s)"
    "in_log (hs_injector u) = in_log (hs_injector s) @ [ReleaseAll]"
    "hs_host_name u = hs_host_name s" "hs_screen_w u = hs_screen_w s" "hs_screen_h u = hs_screen_h s"
    using assms(1) by (simp_all add: u_def kill_all_shells_released held names names')
  show ?thesis
    unfolding t_def eq using on_hello_up [OF u(1-3), of env name] u(4-)
    by (simp add: hub_reset_def flow_new_def exec_in_flight_def pacing_def)
qed

section \<open>Teardown\<close>

lemma tear_down_result:
  assumes "fst (inject ReleaseAll s) = Inr ()"
  defines "t \<equiv> snd (tear_down s)"
  shows "fst (tear_down s) = Inr () \<and> hs_state t = WaitingForHello \<and> hs_client_name t = None
    \<and> hs_exec t = None \<and> hs_pty t = None \<and> hs_warm t = None
    \<and> (\<forall>sp \<in> set (held_shells s). released sp \<in> set (hs_released t))
    \<and> hb_streams (hs_browser t) = [] \<and> hs_clip t = clip_reset (hs_clip s)
    \<and> sent_messages t = sent_messages s
    \<and> in_log (hs_injector t) = in_log (hs_injector s) @ [ReleaseAll]"
proof -
  let ?s = "snd (inject ReleaseAll s)"
  let ?u = "warm_kill (kill_all_shells ?s)"
  have eq: "tear_down s = (Inr (), ?u\<lparr>hs_clip := clip_reset (hs_clip ?u), hs_state := WaitingForHello,
      hs_client_name := None\<rparr>)"
    using assms(1) by (simp add: tear_down_def then_act_ok update_act_def Let_def)
  have "held_shells ?s = held_shells s" by (simp add: held_shells_def)
  then have "set (map released (held_shells s)) \<subseteq> set (hs_released (warm_kill (kill_all_shells ?s)))"
    using kill_all_shells_released [of ?s]
    by (auto simp: warm_kill_def split: option.split prod.split)
  then show ?thesis
    unfolding t_def eq by (auto simp: hub_reset_def)
qed

text \<open>Silence for the busy timeout always tears the session down.\<close>

lemma heartbeat_timeout_le: "heartbeat_timeout s \<le> HEARTBEAT_TIMEOUT_BUSY"
  by (simp add: heartbeat_timeout_def heartbeat_timeout_for_def HEARTBEAT_TIMEOUT_BUSY_def
      HEARTBEAT_TIMEOUT_IDLE_def)

lemma silent_client_torn_down:
  fixes env
  assumes "link_up s" "in_script (hs_injector s) = []" "hs_state s = Connected"
    and "hs_now s - hs_hb_recv s \<ge> HEARTBEAT_TIMEOUT_BUSY"
  defines "t \<equiv> snd (tick env s)"
  shows "fst (tick env s) = Inr False \<and> hs_state t = WaitingForHello \<and> hs_client_name t = None
    \<and> hs_exec t = None \<and> hs_pty t = None \<and> hs_warm t = None
    \<and> (\<forall>sp \<in> set (held_shells s). released sp \<in> set (hs_released t))
    \<and> in_log (hs_injector t) = in_log (hs_injector s) @ [ReleaseAll]"
proof -
  define u where "u = snd (send_heartbeat_if_due s)"
  have u: "fst (send_heartbeat_if_due s) = Inr ()" "hs_state u = Connected" "hs_now u = hs_now s"
    "hs_hb_recv u = hs_hb_recv s" "hs_injector u = hs_injector s" "held_shells u = held_shells s"
    using assms(3) sess_send_up [OF assms(1), of Heartbeat]
    by (auto simp: u_def send_heartbeat_if_due_def then_act_ok update_act_def held_shells_def)
  have lost: "heartbeat_lost u"
    using u(2-4) assms(4) heartbeat_timeout_le [of u] by (simp add: heartbeat_lost_def)
  have "fst (inject ReleaseAll u) = Inr ()" using u(5) assms(2) by (simp add: inject_def Let_def)
  from tear_down_result [OF this] have td: "fst (tear_down u) = Inr ()"
    and res: "hs_state (snd (tear_down u)) = WaitingForHello \<and> hs_client_name (snd (tear_down u)) = None
      \<and> hs_exec (snd (tear_down u)) = None \<and> hs_pty (snd (tear_down u)) = None
      \<and> hs_warm (snd (tear_down u)) = None
      \<and> (\<forall>sp \<in> set (held_shells u). released sp \<in> set (hs_released (snd (tear_down u))))
      \<and> in_log (hs_injector (snd (tear_down u))) = in_log (hs_injector u) @ [ReleaseAll]"
    by simp_all
  have "tick env s = (Inr False, snd (tear_down u))"
    unfolding tick_def using u(1) lost td
    by (simp add: then_act_ok u_def [symmetric] return_act_def)
  then show ?thesis unfolding t_def using res u(5,6) by simp
qed

end
