(* ===== verification/HostTicks.thy ===== *)
theory HostTicks
  imports HostRules
begin

text \<open>
  Bounds over one tick of the host and over runs of the thread: what a tick takes from the link,
  what a session without a client sends, how much exec output is in flight, and when a line that
  only carries garbage is reopened.
\<close>

section \<open>A tick takes a bounded number of packets\<close>

abbreviation inbox :: "host_session \<Rightarrow> (nat \<times> (werror + packet)) list" where
  "inbox s \<equiv> ln_recv_script (hs_link s)"

abbreviation keeps_inbox :: "(nat \<times> (werror + packet)) list \<Rightarrow> 'a host \<Rightarrow> bool" where
  "keeps_inbox q \<equiv> obeys (keeps (\<lambda>s. inbox s = q))"

lemma keeps_inboxI: "(\<And>s. inbox (snd (m s)) = inbox s) \<Longrightarrow> keeps_inbox q m"
  by (simp add: obeys_def keeps_def)

lemma keeps_inboxD: "(\<And>q. keeps_inbox q m) \<Longrightarrow> inbox (snd (m s)) = inbox s"
  by (auto simp: obeys_def keeps_def)

lemma kill_inbox [simp]:
  "inbox (exec_kill s) = inbox s" "inbox (pty_kill s) = inbox s" "inbox (warm_kill s) = inbox s"
  "inbox (warm_up env s) = inbox s" "inbox (note_pty_activity s) = inbox s"
  "inbox (set_proc slot sp s) = inbox s" "inbox (drop_slot slot sp s) = inbox s"
  by (simp_all add: exec_kill_def pty_kill_def note_pty_activity_def set_proc_def drop_slot_def
      Let_def split: option.split shell_slot.split)

lemma send_inbox: "keeps_inbox q (sess_send m)" and inject_inbox: "keeps_inbox q (inject c)"
  by (simp_all add: keeps_inboxI)

lemma update_inbox: "(\<And>s. inbox (f s) = inbox s) \<Longrightarrow> keeps_inbox q (update_act f)"
  by (simp add: keeps_inboxI update_act_def)

lemma on_hello_inbox: "inbox (snd (on_hello env version name s)) = inbox s"
proof -
  have "keeps_inbox q (then_act (sess_send m) (update_act
      (\<lambda>s. warm_up env (s\<lparr>hs_state := Connected, hs_hb_recv := hs_now s\<rparr>))))" for m q
    by (intro keep.obeys_then send_inbox update_inbox) simp
  from keeps_inboxD [OF this] show ?thesis by (simp add: on_hello_def Let_def)
qed

lemma tear_down_inbox: "inbox (snd (tear_down s)) = inbox s"
proof (rule keeps_inboxD)
  show "keeps_inbox q tear_down" for q
    unfolding tear_down_def by (intro keep.obeys_then inject_inbox update_inbox) (simp add: Let_def)
qed

lemma handle_connected_inbox: "inbox (snd (handle_connected env m s)) = inbox s"
proof (cases m)
  case (ShellOpen shell)
  have "inbox (snd (take_warm_or_spawn env shell s)) = inbox s"
    using take_warm_or_spawn_state [of env shell s] by (elim disjE) simp_all
  then show ?thesis
    using ShellOpen by (auto simp: on_shell_open_def split: sum.split prod.split)
qed (simp_all add: tear_down_inbox on_clip_offer_def on_shell_open_pty_def on_pty_open_def
    on_pty_resize_def on_shell_input_def on_pty_input_def on_shell_close_def on_pty_close_def
    on_clip_decline_def Let_def split: option.split prod.split sum.split)

lemma on_rehello_inbox: "inbox (snd (on_rehello env version name s)) = inbox s"
  by (simp add: on_rehello_def Let_def ignore_err_def on_hello_inbox)

lemma handle_packet_inbox: "inbox (snd (handle_packet env p s)) = inbox s"
proof (cases "\<exists>version name. p_message p = Hello version name")
  case True
  then show ?thesis by (auto simp: handle_packet_cases on_hello_inbox on_rehello_inbox)
next
  case False
  then have "handle_packet env p s =
      (if hs_state s = Connected then handle_connected env (p_message p) s else (Inr (), s))"
    by (cases "p_message p") (simp_all only: handle_packet_cases message.case, simp)
  then show ?thesis using handle_connected_inbox by simp
qed

lemma take_packet_inbox: "inbox (snd (take_packet env p s)) = inbox s"
  using handle_packet_inbox [of env p "s\<lparr>hs_storm := on_valid_packet (hs_storm s)\<rparr>"]
  by (simp add: take_packet_def act_simps)

lemma recv_loop_bound: "length (inbox s) \<le> length (inbox (snd (recv_loop env n got s))) + n + 1"
proof (induction n arbitrary: s got)
  case 0
  obtain r s1 where r: "link_recv s = (r, s1)" by (cases "link_recv s")
  then have "length (inbox s) \<le> length (inbox s1) + 1" using link_recv_fields(10) [of s] by simp
  then show ?case
    using r take_packet_inbox [of env _ s1]
    by (cases r) (auto simp: act_simps split: prod.split sum.split, (metis snd_conv)+)
next
  case (Suc n)
  obtain r s1 where r: "link_recv s = (r, s1)" by (cases "link_recv s")
  then have s1: "length (inbox s) \<le> length (inbox s1) + 1" using link_recv_fields(10) [of s] by simp
  show ?case
  proof (cases r)
    case (Inl e)
    then show ?thesis using r s1 by simp
  next
    case (Inr p)
    obtain q u where u: "take_packet env p s1 = (q, u)" by (cases "take_packet env p s1")
    then have "inbox u = inbox s1" using take_packet_inbox [of env p s1] by simp
    then show ?thesis
      using r Inr u s1 Suc.IH [of u True] by (cases q) (auto simp: act_simps)
  qed
qed

lemma ship_piece_inbox: "keeps_inbox q (ship_piece slot legacy d)"
  unfolding ship_piece_def by (intro keep.obeys_then send_inbox update_inbox) simp

lemma pump_slot_inbox: "inbox (snd (pump_slot slot s)) = inbox s"
proof (cases "slot_budget slot s = 0 \<or> slot_proc slot s = None")
  case True
  then show ?thesis by (auto simp: pump_slot_def Let_def)
next
  case False
  then obtain sp where sp: "slot_proc slot s = Some sp" "slot_budget slot s \<noteq> 0" by auto
  obtain out code evs where d: "drain_events (slot_budget slot s) [] (sp_events sp) = (out, code, evs)"
    using prod_cases3 by blast
  have "keeps_inbox q (then_act (each_act (ship_piece slot legacy) ps)
     (then_act (update_act (\<lambda>s. if slot = SlotPty \<and> out \<noteq> [] then note_pty_activity s else s))
       (report_exit slot legacy code)))" for q legacy ps
    by (intro keep.obeys_then keep.obeys_each ship_piece_inbox update_inbox keeps_inboxI)
      (simp_all add: report_exit_def split: option.split)
  from keeps_inboxD [OF this] show ?thesis using sp d by (simp add: pump_slot_def Let_def)
qed

lemma tick_takes_at_most: "length (inbox s) \<le> length (inbox (snd (tick env s))) + MAX_REPORTS_PER_TICK + 1"
proof -
  let ?R = "\<lambda>s t :: host_session. length (inbox s) \<le> length (inbox t) + MAX_REPORTS_PER_TICK + 1"
  have hb: "inbox (snd (send_heartbeat_if_due s)) = inbox s" for s
    using keeps_inboxD [OF keep.obeys_then [OF send_inbox update_inbox],
        of "\<lambda>s. s\<lparr>hs_hb_sent := hs_now s\<rparr>" Heartbeat]
    by (simp add: send_heartbeat_if_due_def)
  have pump: "keeps_inbox q pump_shell_events" for q
    unfolding pump_shell_events_def
    by (intro keep.obeys_then keep.obeys_each keeps_inboxI pump_slot_inbox) (simp add: update_act_def)
  have browser: "keeps_inbox q poll_browser" for q
    by (rule keeps_inboxI) (simp add: poll_browser_def split: prod.split option.split)
  have clip: "keeps_inbox q (poll_clipboard env)" for q
  proof (rule keeps_inboxI)
    have each: "inbox (snd (each_act sess_send ms s)) = inbox s" for ms s
      using keeps_inboxD [OF keep.obeys_each [where f = sess_send, OF send_inbox]] .
    show "inbox (snd (poll_clipboard env s)) = inbox s" for s
      by (simp add: poll_clipboard_def each split: prod.split)
  qed
  have chain: "?R s (snd (then_act m n s))"
    if "\<And>s. inbox (snd (m s)) = inbox s" "\<And>s. ?R s (snd (n s))" for m :: "unit host" and n :: "bool host" and s
  proof -
    obtain r u where u: "m s = (r, u)" by (cases "m s")
    then have "inbox u = inbox s" using that(1) [of s] by simp
    then show ?thesis using u that(2) [of u] by (cases r) (simp_all add: act_simps)
  qed
  have loop: "?R s (snd (then_act pump_shell_events (then_act poll_browser
      (then_act (poll_clipboard env) (recv_loop env MAX_REPORTS_PER_TICK False))) s))" for s
    by (intro chain keeps_inboxD pump browser clip) (use recv_loop_bound in \<open>simp add: add.commute add.left_commute\<close>)
  show ?thesis
    unfolding tick_def
  proof (rule chain [OF hb])
    show "?R s (snd (if heartbeat_lost s then then_act tear_down (return_act False) s
       else then_act pump_shell_events (then_act poll_browser
          (then_act (poll_clipboard env) (recv_loop env MAX_REPORTS_PER_TICK False))) s))" for s
      using loop [of s] chain [of tear_down "return_act False" s] tear_down_inbox
      by (simp add: return_act_def)
  qed
qed

section \<open>Exec's bytes in flight\<close>

lemma drain_events_length:
  assumes "drain_events budget acc es = (out, code, rest)" "0 < r"
    and "\<forall>d. Output d \<in> set es \<longrightarrow> length d \<le> r" "length acc < budget + r"
  shows "length out < budget + r"
  using assms
proof (induction budget acc es rule: drain_events.induct)
  case (2 budget acc data evs)
  then show ?case by (cases "length acc < budget") auto
qed (auto split: if_splits)

lemma flow_after_ship:
  assumes "flow_rel f sends"
  shows "(\<exists>sends'. flow_rel (foldl (\<lambda>f d. note_sent f SlotExec (length d) now) f ps) sends')
    \<and> exec_in_flight (foldl (\<lambda>f d. note_sent f SlotExec (length d) now) f ps)
       = exec_in_flight f + length (concat ps)"
  using assms
proof (induction ps arbitrary: f sends)
  case (Cons d ps)
  note rel = flow_rel_note_sent [OF Cons.prems, of SlotExec "length d" now]
  from Cons.IH [OF rel] note_sent_exec [OF Cons.prems, of "length d" now]
  show ?case by simp
qed auto

text \<open>A pump of the exec slot while the client reports keeps the cap, up to one read.\<close>

lemma exec_cap_kept:
  assumes "link_up s" "flow_rel (hs_flow s) sends" "0 < r"
    and paced: "hs_pty s \<noteq> None" "pacing (hs_flow s)" "ln_buffers (hs_link s)"
    and reads: "\<And>sp d. hs_exec s = Some sp \<Longrightarrow> Output d \<in> set (sp_events sp) \<Longrightarrow> length d \<le> r"
    and cap: "exec_in_flight (hs_flow s) < EXEC_INFLIGHT_CAP + r"
  shows "exec_in_flight (hs_flow (snd (pump_slot SlotExec s))) < EXEC_INFLIGHT_CAP + r"
proof (cases "slot_budget SlotExec s = 0 \<or> slot_proc SlotExec s = None")
  case True
  then show ?thesis using cap by (auto simp: pump_slot_def Let_def)
next
  case False
  then obtain sp where sp: "slot_proc SlotExec s = Some sp" "slot_budget SlotExec s \<noteq> 0" by auto
  obtain out code evs where d: "drain_events (slot_budget SlotExec s) [] (sp_events sp) = (out, code, evs)"
    using prod_cases3 by blast
  have b: "slot_budget SlotExec s = EXEC_INFLIGHT_CAP - exec_in_flight (hs_flow s)"
    using paced by (simp add: slot_budget_def exec_budget_at_def inflight_exec_budget_def)
  have "length out < slot_budget SlotExec s + r"
    by (rule drain_events_length [OF d assms(3)]) (use reads sp(1) assms(3) in \<open>auto simp: slot_proc_def\<close>)
  moreover have "exec_in_flight (hs_flow (snd (pump_slot SlotExec s)))
      = exec_in_flight (hs_flow s) + length out"
    using pump_slot_up [OF assms(1) sp d] flow_after_ship [OF assms(2), of "hs_now s" "chunks MAX_PAYLOAD out"]
      concat_chunks [of MAX_PAYLOAD out] by (simp add: MAX_PAYLOAD_def)
  ultimately show ?thesis using b sp(2) by simp
qed

section \<open>A session without a client\<close>

lemma tick_waiting:
  assumes "sess_inv s" "hs_state s = WaitingForHello"
  shows "tick env s = recv_loop env MAX_REPORTS_PER_TICK False
      (s\<lparr>hs_flow := snd (release_if_stalled (hs_flow s) (hs_now s))\<rparr>)"
proof -
  have none: "hs_exec s = None" "hs_pty s = None" using assms by (auto simp: sess_inv_defs)
  have idle: "pump_slot SlotExec (s\<lparr>hs_flow := f\<rparr>) = (Inr (), s\<lparr>hs_flow := f\<rparr>)" for f
    using none by (simp add: pump_slot_def slot_proc_def Let_def)
  have pump: "pump_shell_events s
      = (Inr (), s\<lparr>hs_flow := snd (release_if_stalled (hs_flow s) (hs_now s))\<rparr>)"
    using pump_shell_events_exec [OF none(2)] by (simp only: idle)
  have rest: "poll_browser (s\<lparr>hs_flow := f\<rparr>) = (Inr (), s\<lparr>hs_flow := f\<rparr>)"
    "poll_clipboard env (s\<lparr>hs_flow := f\<rparr>) = (Inr (), s\<lparr>hs_flow := f\<rparr>)"
    "send_heartbeat_if_due s = (Inr (), s)" "\<not> heartbeat_lost s" for f
    using assms(2) by (simp_all add: poll_browser_def poll_clipboard_def send_heartbeat_if_due_def
        heartbeat_lost_def)
  show ?thesis unfolding tick_def by (simp add: then_act_ok rest pump)
qed

definition greeting :: "message \<Rightarrow> bool" where
  "greeting m \<longleftrightarrow> (case m of HelloAck v n w h \<Rightarrow> True | Error code msg \<Rightarrow> code = ERR_VERSION | _ \<Rightarrow> False)"

lemma on_hello_sends:
  "\<exists>m. greeting m \<and> sent_messages (snd (on_hello env version name s)) = sent_messages s @ [m]"
proof (cases "version = VERSION")
  case True
  let ?s = "s\<lparr>hs_client_name := Some name, hs_flow := flow_new (hs_now s),
             hs_browser := hub_reset (hs_browser s)\<rparr>"
  let ?m = "HelloAck HOST_PROTO_VERSION (hs_host_name s) (hs_screen_w s) (hs_screen_h s)"
  obtain r u where u: "sess_send ?m ?s = (r, u)" by (cases "sess_send ?m ?s")
  then have "sent_messages u = sent_messages s @ [?m]"
    using sess_send_fields(14) [of ?m ?s] by (simp add: sent_messages_def)
  then show ?thesis
    using True u by (intro exI [of _ ?m])
      (auto simp: on_hello_def Let_def act_simps greeting_def sent_messages_def split: sum.split)
next
  case False
  then show ?thesis
    by (auto simp: on_hello_def greeting_def ERR_VERSION_def sent_messages_def)
qed

lemma handle_packet_waiting:
  "hs_state s = WaitingForHello \<Longrightarrow> handle_packet env p s =
     (case p_message p of Hello version name \<Rightarrow> on_hello env version name s | _ \<Rightarrow> (Inr (), s))"
  by (simp add: handle_packet_cases split: message.split)

lemma waiting_sends_greeting:
  assumes "hs_state s = WaitingForHello"
  shows "\<exists>ms. sent_messages (snd (recv_loop env n got s)) = sent_messages s @ ms
    \<and> length ms \<le> 1 \<and> list_all greeting ms"
  using assms
proof (induction n arbitrary: s got)
  have one: "\<exists>ms. sent_messages (snd (take_packet env p s)) = sent_messages s @ ms
      \<and> length ms \<le> 1 \<and> list_all greeting ms
      \<and> (is_report (p_message p) \<longrightarrow> ms = [] \<and> hs_state (snd (take_packet env p s)) = WaitingForHello)"
    if "hs_state s = WaitingForHello" for p s
  proof -
    let ?s = "s\<lparr>hs_storm := on_valid_packet (hs_storm s)\<rparr>"
    have eq: "take_packet env p s = handle_packet env p ?s" by (simp add: take_packet_def act_simps)
    have same: "sent_messages ?s = sent_messages s" by (simp add: sent_messages_def)
    show ?thesis
    proof (cases "\<exists>version name. p_message p = Hello version name")
      case True
      then obtain version name where p: "p_message p = Hello version name" by auto
      obtain m where "greeting m"
        "sent_messages (snd (on_hello env version name ?s)) = sent_messages s @ [m]"
        using on_hello_sends [of env version name ?s] same by auto
      then show ?thesis
        using that p by (intro exI [of _ "[m]"]) (simp add: eq handle_packet_waiting is_report_def)
    next
      case False
      then have "handle_packet env p ?s = (Inr (), ?s)"
        using that by (cases "p_message p") (simp_all add: handle_packet_waiting)
      then show ?thesis using that same by (simp add: eq)
    qed
  qed
  have recv: "sent_messages (snd (link_recv s)) = sent_messages s" for s
    by (simp add: sent_messages_def)
  {
    case 0
    obtain r s1 where r: "link_recv s = (r, s1)" by (cases "link_recv s")
    then have "hs_state s1 = WaitingForHello" "sent_messages s1 = sent_messages s"
      using 0 link_recv_fields(1) [of s] recv [of s] by simp_all
    then show ?case
      using r one [of s1] by (cases r) (auto simp: act_simps split: prod.split sum.split, (metis snd_conv)+)
  next
    case (Suc n)
    obtain r s1 where r: "link_recv s = (r, s1)" by (cases "link_recv s")
    then have s1: "hs_state s1 = WaitingForHello" "sent_messages s1 = sent_messages s"
      using Suc.prems link_recv_fields(1) [of s] recv [of s] by simp_all
    show ?case
    proof (cases r)
      case (Inl e)
      then show ?thesis using r s1 by simp
    next
      case (Inr p)
      obtain q u where u: "take_packet env p s1 = (q, u)" by (cases "take_packet env p s1")
      then obtain ms where ms: "sent_messages u = sent_messages s @ ms" "length ms \<le> 1"
        "list_all greeting ms" "is_report (p_message p) \<longrightarrow> ms = [] \<and> hs_state u = WaitingForHello"
        using one [OF s1(1), of p] s1(2) by auto
      show ?thesis
      proof (cases "\<exists>e. q = Inl e")
        case True
        then show ?thesis using r Inr u ms by (auto simp: act_simps)
      next
        case ok: False
        then have loop: "recv_loop env (Suc n) got s =
            (if is_report (p_message p) then recv_loop env n True else return_act True) u"
          using r Inr u by (cases q) (auto simp: act_simps)
        show ?thesis
        proof (cases "is_report (p_message p)")
          case True
          then show ?thesis using loop ms Suc.IH [of u True] by simp
        next
          case False
          then show ?thesis using loop ms by (auto simp: return_act_def)
        qed
      qed
    qed
  }
qed

section \<open>A line that carries only garbage\<close>

lemma recv_loop_err:
  "link_recv s = (Inl e, s1) \<Longrightarrow> recv_loop env n got s = (if is_recv_timeout e then Inr got else Inl e, s1)"
  by (cases n) simp_all

definition garbage :: "protocol_reason list \<Rightarrow> (nat \<times> (werror + packet)) list" where
  "garbage rs = map (\<lambda>r. (0, Inl (Protocol r))) rs"

definition iterate :: "host_env \<Rightarrow> host_config \<Rightarrow> host_thread \<Rightarrow> host_thread" where
  "iterate env cfg t = thread_step env cfg t Iterates"

lemma tick_garbage:
  assumes "sess_inv s" "hs_state s = WaitingForHello" "inbox s = garbage (r # rs)"
  shows "\<exists>s1. tick env s = (Inl (Protocol r), s1) \<and> sess_inv s1 \<and> hs_state s1 = WaitingForHello
    \<and> inbox s1 = garbage rs \<and> hs_storm s1 = hs_storm s \<and> hs_injector s1 = hs_injector s"
proof -
  let ?s = "s\<lparr>hs_flow := snd (release_if_stalled (hs_flow s) (hs_now s))\<rparr>"
  let ?s1 = "?s\<lparr>hs_link := (hs_link s)\<lparr>ln_recv_script := garbage rs\<rparr>, hs_now := hs_now s\<rparr>"
  have r: "link_recv ?s = (Inl (Protocol r), ?s1)"
    using assms(3) by (simp add: link_recv_def garbage_def)
  have t: "tick env s = (Inl (Protocol r), ?s1)"
    using tick_waiting [OF assms(1,2)] recv_loop_err [OF r] by (simp add: is_recv_timeout_def)
  moreover have "sess_inv ?s1" using keeps_invD [OF tick_inv assms(1), of env] t by simp
  ultimately show ?thesis using assms(2) by (intro exI [of _ ?s1]) simp
qed

text \<open>The state of the thread after \<open>k\<close> bad frames in a row.\<close>

definition after_garbage ::
  "u32 \<Rightarrow> protocol_reason list \<Rightarrow> injector \<Rightarrow> host_thread \<Rightarrow> bool" where
  "after_garbage k rs inp t \<longleftrightarrow>
     (\<exists>s lr. ht_phase t = Running s lr \<and> told_last (ht_statuses t) lr \<and> sess_inv s
       \<and> hs_state s = WaitingForHello \<and> inbox s = garbage rs \<and> hs_injector s = inp
       \<and> hs_storm s = \<lparr>sc_consecutive = k, sc_threshold = DEFAULT_STORM_THRESHOLD\<rparr>)"

lemma note_protocol_error_fields:
  assumes "note_protocol_error s = (fired, s2)"
  shows "s2 = s\<lparr>hs_storm := snd (on_protocol_error (hs_storm s))\<rparr>"
    "fired = fst (on_protocol_error (hs_storm s))"
  using assms by (auto simp: note_protocol_error_def split: prod.splits)

lemma storm_err:
  "on_protocol_error \<lparr>sc_consecutive = k, sc_threshold = th\<rparr>
     = (th \<le> saturating_inc k, \<lparr>sc_consecutive = saturating_inc k, sc_threshold = th\<rparr>)"
  by (simp add: on_protocol_error_def)

lemma iterate_garbage:
  assumes "after_garbage k (r # rs) inp t"
  shows "if DEFAULT_STORM_THRESHOLD \<le> saturating_inc k
    then ht_phase (iterate env cfg t) = Opening (inp\<lparr>in_log := in_log inp @ [ReleaseAll],
           in_script := tl (in_script inp)\<rparr>)
    else after_garbage (saturating_inc k) rs inp (iterate env cfg t)"
proof -
  obtain s lr where s: "ht_phase t = Running s lr" "told_last (ht_statuses t) lr" "sess_inv s"
    "hs_state s = WaitingForHello" "inbox s = garbage (r # rs)" "hs_injector s = inp"
    "hs_storm s = \<lparr>sc_consecutive = k, sc_threshold = DEFAULT_STORM_THRESHOLD\<rparr>"
    using assms by (auto simp: after_garbage_def)
  obtain s1 where s1: "tick env s = (Inl (Protocol r), s1)" "sess_inv s1"
    "hs_state s1 = WaitingForHello" "inbox s1 = garbage rs" "hs_storm s1 = hs_storm s"
    "hs_injector s1 = inp"
    using tick_garbage [OF s(3-5)] s(6) by blast
  obtain fired s2 where n: "note_protocol_error s1 = (fired, s2)" by (cases "note_protocol_error s1")
  note n' = note_protocol_error_fields [OF n]
  have fired: "fired \<longleftrightarrow> DEFAULT_STORM_THRESHOLD \<le> saturating_inc k"
    using n'(2) s1(5) s(7) storm_err by simp
  have it: "iterate env cfg t = (if fired then reopen s2 t else report_status s2 lr t)"
    using s(1) s1(1) n
    by (simp add: iterate_def thread_step_def run_iteration_def is_recv_timeout_def)
  show ?thesis
  proof (cases fired)
    case True
    have "hs_injector s2 = inp" using n'(1) s1(6) by simp
    then show ?thesis
      using True it fired
      by (cases "in_script inp")
        (simp_all add: reopen_def into_injector_def ignore_err_def inject_def)
  next
    case False
    have s2: "sess_inv s2" "hs_state s2 = WaitingForHello" "inbox s2 = garbage rs"
      "hs_injector s2 = inp"
      "hs_storm s2 = \<lparr>sc_consecutive = saturating_inc k, sc_threshold = DEFAULT_STORM_THRESHOLD\<rparr>"
      using n'(1) s1 s(7) storm_err by simp_all
    obtain w u where u: "take_clipboard_warning s2 = (w, u)" by (cases "take_clipboard_warning s2")
    have "sess_inv u" using take_clipboard_warning_inv [OF s2(1)] u by simp
    moreover have "hs_state u = WaitingForHello \<and> inbox u = garbage rs \<and> hs_injector u = inp
        \<and> hs_storm u = hs_storm s2"
      using u s2(2-4) by (auto simp: take_clipboard_warning_def split: prod.splits)
    ultimately show ?thesis
      using False it fired report_status_result [OF s(2), of s2] u s2(5)
      by (auto simp: after_garbage_def)
  qed
qed

lemma iterate_garbage_run:
  assumes "after_garbage 0 rs inp t" "k < 10" "k \<le> length rs"
  shows "after_garbage (of_nat k) (drop k rs) inp ((iterate env cfg ^^ k) t)"
  using assms(2,3)
proof (induction k)
  case (Suc k)
  obtain r rs' where rs: "drop k rs = r # rs'" "drop (Suc k) rs = rs'"
    using Suc.prems(2) by (metis Cons_nth_drop_Suc Suc_le_eq)
  have IH: "after_garbage (of_nat k) (r # rs') inp ((iterate env cfg ^^ k) t)"
    using Suc rs(1) by simp
  have k: "k = 0 \<or> k = 1 \<or> k = 2 \<or> k = 3 \<or> k = 4 \<or> k = 5 \<or> k = 6 \<or> k = 7 \<or> k = 8"
    using Suc.prems(1) by arith
  have inc: "saturating_inc (of_nat k) = of_nat (Suc k)
      \<and> \<not> DEFAULT_STORM_THRESHOLD \<le> (of_nat (Suc k) :: u32)"
    using k by (elim disjE) (simp_all add: saturating_inc_def DEFAULT_STORM_THRESHOLD_def word_le_nat_alt)
  show ?case using iterate_garbage [OF IH, of env cfg] inc rs(2) by simp
qed (use assms(1) in simp)

lemma garbage_reopens:
  assumes "after_garbage 0 rs inp t" "10 \<le> length rs"
  shows "(\<forall>k < 10. \<exists>s lr. ht_phase ((iterate env cfg ^^ k) t) = Running s lr)
    \<and> (\<exists>inp'. ht_phase ((iterate env cfg ^^ 10) t) = Opening inp'
         \<and> in_log inp' = in_log inp @ [ReleaseAll])"
proof
  have run: "after_garbage (of_nat k) (drop k rs) inp ((iterate env cfg ^^ k) t)" if "k < 10" for k
    using iterate_garbage_run [OF assms(1) that] assms(2) that by simp
  then show "\<forall>k < 10. \<exists>s lr. ht_phase ((iterate env cfg ^^ k) t) = Running s lr"
    unfolding after_garbage_def by blast
  obtain r rs' where "drop 9 rs = r # rs'" using assms(2) by (cases "drop 9 rs") auto
  then have "after_garbage 9 (r # rs') inp ((iterate env cfg ^^ 9) t)" using run [of 9] by simp
  from iterate_garbage [OF this, of env cfg]
  have "ht_phase (iterate env cfg ((iterate env cfg ^^ 9) t)) = Opening (inp\<lparr>in_log :=
      in_log inp @ [ReleaseAll], in_script := tl (in_script inp)\<rparr>)"
    by (simp add: saturating_inc_def DEFAULT_STORM_THRESHOLD_def)
  moreover have "(iterate env cfg ^^ 10) t = iterate env cfg ((iterate env cfg ^^ 9) t)"
    by (simp add: eval_nat_numeral)
  ultimately show "\<exists>inp'. ht_phase ((iterate env cfg ^^ 10) t) = Opening inp'
      \<and> in_log inp' = in_log inp @ [ReleaseAll]"
    by (intro exI [of _ "inp\<lparr>in_log := in_log inp @ [ReleaseAll], in_script := tl (in_script inp)\<rparr>"]) simp
qed

end
