(* ===== verification/ClipTransfer.thy ===== *)
theory ClipTransfer
  imports HostClipboard
begin

text \<open>
  Transfers between two clipboards: the chunks a sender queues, the batches its polls drain,
  and a receiver that gets them in any order and repeated. The last section is the loop
  avoidance: what was just received is not sent back.
\<close>

section \<open>Draining the outbox\<close>

fun drain_times :: "nat \<Rightarrow> clipboard_sync \<Rightarrow> message list list \<times> clipboard_sync" where
  "drain_times 0 c = ([], c)"
| "drain_times (Suc k) c =
     (let (b, c1) = drain_outbox c; (bs, c2) = drain_times k c1 in (b # bs, c2))"

lemma drain_times_concat:
  "concat (fst (drain_times k c)) = take (k * MAX_MESSAGES_PER_POLL) (cs_outbox c)
   \<and> cs_outbox (snd (drain_times k c)) = drop (k * MAX_MESSAGES_PER_POLL) (cs_outbox c)"
proof (induction k arbitrary: c)
  case (Suc k)
  let ?m = MAX_MESSAGES_PER_POLL
  have "take (min (length xs) ?m) xs @ take (k * ?m) (drop (min (length xs) ?m) xs) = take (Suc k * ?m) xs"
    "drop (k * ?m) (drop (min (length xs) ?m) xs) = drop (Suc k * ?m) xs" for xs :: "message list"
    by (simp_all add: take_add min_def add.commute)
  then show ?case using Suc [of "snd (drain_outbox c)"]
    by (simp add: case_prod_beta drain_outbox_def Let_def)
qed simp

lemma drain_batch_bound: "b \<in> set (fst (drain_times k c)) \<Longrightarrow> length b \<le> MAX_MESSAGES_PER_POLL"
proof (induction k arbitrary: c)
  case (Suc k)
  then show ?case by (auto simp: case_prod_beta drain_outbox_def Let_def)
qed simp

text \<open>While chunks are queued a poll only drains: no new offer can come between them.\<close>

lemma poll_busy: "cs_outbox c \<noteq> [] \<Longrightarrow> clip_poll env now c = drain_outbox c"
  by (simp add: clip_poll_def)

section \<open>Receiving the chunks of one payload\<close>

definition CHUNKS :: "bytes \<Rightarrow> bytes list" where
  "CHUNKS payload = chunks CHUNK_SIZE payload"

lemma CHUNK_SIZE_pos: "0 < CHUNK_SIZE"
  by (simp add: CHUNK_SIZE_def MAX_PAYLOAD_def)

lemma build_offer_and_chunks_eq:
  "build_offer_and_chunks format payload =
   ClipOffer format (of_nat (length payload))
   # map (\<lambda>i. ClipChunk (of_nat i) (CHUNKS payload ! i)) [0..<length (CHUNKS payload)]"
proof -
  have "map (\<lambda>(idx, chunk). ClipChunk (of_nat idx) chunk) (enumerate 0 (CHUNKS payload))
      = map (\<lambda>i. ClipChunk (of_nat i) (CHUNKS payload ! i)) [0..<length (CHUNKS payload)]"
    by (rule nth_equalityI) (simp_all add: nth_enumerate_eq)
  then show ?thesis by (simp add: build_offer_and_chunks_def CHUNKS_def)
qed

text \<open>The tree and the byte count after the indices \<open>K\<close> have arrived.\<close>

definition tree_of :: "bytes list \<Rightarrow> nat set \<Rightarrow> (u16, bytes) btree" where
  "tree_of cs K = map (\<lambda>i. (of_nat i, cs ! i)) (sorted_list_of_set K)"

definition size_of :: "bytes list \<Rightarrow> nat set \<Rightarrow> nat" where
  "size_of cs K = (\<Sum>i\<in>K. length (cs ! i))"

lemma u16_index:
  assumes "length cs \<le> 65536" "i < length cs"
  shows "unat (of_nat i :: u16) = i"
  unfolding unat_of_nat using assms by simp

lemma tree_of_wf:
  assumes "length cs \<le> 65536" "K \<subseteq> {..<length cs}"
  shows "bt_wf (tree_of cs K)"
proof -
  have fin: "finite K" using assms(2) finite_subset by blast
  have srt: "sorted_wrt (<) (sorted_list_of_set K)" by simp
  have mono: "(of_nat i :: u16) < of_nat j" if "i \<in> K" "j \<in> K" "i < j" for i j
    unfolding word_less_nat_alt using that assms u16_index [of cs i] u16_index [of cs j]
    by (metis lessThan_iff subset_iff)
  have "sorted_wrt (\<lambda>i j. (of_nat i :: u16) < of_nat j) (sorted_list_of_set K)"
    by (rule sorted_wrt_mono_rel [OF _ srt], rule mono) (simp_all only: set_sorted_list_of_set [OF fin])
  then show ?thesis by (simp add: bt_wf_def tree_of_def sorted_wrt_map)
qed

lemma map_of_tree_of:
  assumes "length cs \<le> 65536" "K \<subseteq> {..<length cs}"
  shows "map_of (tree_of cs K) k = (if unat k \<in> K then Some (cs ! unat k) else None)"
proof -
  have fin: "finite K" using assms(2) finite_subset by blast
  have "map_of (map (\<lambda>i. (of_nat i, cs ! i)) is) k
      = (if unat k \<in> set is then Some (cs ! unat k) else None)"
    if "set is \<subseteq> {..<length cs}" for "is"
    using that
  proof (induction "is")
    case (Cons i js)
    have "(of_nat i = k) = (unat k = i)"
      using Cons.prems u16_index [OF assms(1), of i] by (auto simp: subset_iff)
    then show ?case using Cons by auto
  qed simp
  then show ?thesis using fin assms(2) by (simp add: tree_of_def)
qed

lemma bt_insert_tree_of:
  assumes "length cs \<le> 65536" "K \<subseteq> {..<length cs}" "i < length cs"
  shows "bt_insert (of_nat i) (cs ! i) (tree_of cs K) = tree_of cs (insert i K)"
proof (rule bt_eqI)
  have sub: "insert i K \<subseteq> {..<length cs}" using assms by simp
  show "bt_wf (bt_insert (of_nat i) (cs ! i) (tree_of cs K))"
    using tree_of_wf [OF assms(1,2)] by (rule bt_wf_insert)
  show "bt_wf (tree_of cs (insert i K))" using tree_of_wf [OF assms(1) sub] .
  show "map_of (bt_insert (of_nat i) (cs ! i) (tree_of cs K)) = map_of (tree_of cs (insert i K))"
  proof
    fix k :: u16
    have "(k = of_nat i) = (unat k = i)" using u16_index [OF assms(1,3)] by auto
    then show "map_of (bt_insert (of_nat i) (cs ! i) (tree_of cs K)) k
        = map_of (tree_of cs (insert i K)) k"
      using map_of_tree_of [OF assms(1) sub, of k] map_of_tree_of [OF assms(1,2), of k]
        map_of_bt_insert [OF tree_of_wf [OF assms(1,2)], of "of_nat i" "cs ! i"]
      by auto
  qed
qed

lemma tree_of_all: "tree_of cs {..<length cs} = map (\<lambda>i. (of_nat i, cs ! i)) [0..<length cs]"
  by (simp add: tree_of_def lessThan_atLeast0)

lemma concat_tree_of_all: "concat (map snd (tree_of cs {..<length cs})) = concat cs"
  by (simp add: tree_of_all comp_def map_nth)

lemma contiguous_tree_of_all: "length cs \<le> 65536 \<Longrightarrow> contiguous (tree_of cs {..<length cs})"
  using u16_index [of cs]
  by (auto simp: contiguous_def tree_of_all comp_def list_all_iff in_set_conv_nth nth_enumerate_eq)

lemma size_of_all: "size_of cs {..<length cs} = length (concat cs)"
  by (simp add: size_of_def length_concat sum_list_sum_nth lessThan_atLeast0)

lemma size_of_less:
  assumes "K \<subset> {..<length cs}" "\<forall>c \<in> set cs. c \<noteq> []"
  shows "size_of cs K < length (concat cs)"
proof -
  obtain j where j: "j < length cs" "j \<notin> K" using assms(1) by auto
  have "size_of cs K < size_of cs {..<length cs}"
    unfolding size_of_def
    by (rule sum_strict_mono2 [of _ _ j]) (use j assms in auto)
  then show ?thesis by (simp add: size_of_all)
qed

lemma size_of_insert: "finite K \<Longrightarrow> i \<notin> K \<Longrightarrow> size_of cs (insert i K) = size_of cs K + length (cs ! i)"
  by (simp add: size_of_def)

text \<open>The receiver after the indices \<open>K\<close>, in a transfer of \<open>concat cs\<close>.\<close>

definition rx_partial :: "clipboard_sync \<Rightarrow> bytes list \<Rightarrow> nat set \<Rightarrow> clipboard_sync" where
  "rx_partial c cs K =
     c\<lparr>cs_received := tree_of cs K, cs_received_total := of_nat (size_of cs K),
       cs_incoming_progress := of_nat (size_of cs K)\<rparr>"

definition armed :: "clipboard_sync \<Rightarrow> bytes list \<Rightarrow> bool" where
  "armed c cs \<longleftrightarrow>
     unat (cs_expected_len c) = length (concat cs) \<and> cs \<noteq> [] \<and> (\<forall>b \<in> set cs. b \<noteq> [])
     \<and> length cs \<le> 65536"

lemma saturating_add32_exact: "m + n < 2 ^ 32 \<Longrightarrow> saturating_add32 (of_nat m) (of_nat n) = of_nat (m + n)"
proof -
  assume "m + n < 2 ^ 32"
  then have "unat (of_nat m :: u32) = m" "unat (of_nat n :: u32) = n"
    unfolding unat_of_nat by simp_all
  then show ?thesis using \<open>m + n < 2 ^ 32\<close> by (simp add: saturating_add32_def)
qed

lemma on_chunk_own:
  assumes "armed c cs" "K \<subset> {..<length cs}" "i < length cs"
  shows "on_chunk env (rx_partial c cs K) (of_nat i) (cs ! i) =
    (if insert i K = {..<length cs}
     then reset_reassembly (commit_buffer env (rx_partial (c\<lparr>cs_received := []\<rparr>) cs {..<length cs}
            \<lparr>cs_received := []\<rparr>) (concat cs))
     else rx_partial c cs (insert i K))"
proof -
  let ?L = "length (concat cs)"
  have n: "length cs \<le> 65536" and len: "unat (cs_expected_len c) = ?L" and ne: "\<forall>b \<in> set cs. b \<noteq> []"
    and "cs \<noteq> []" using assms(1) by (auto simp: armed_def)
  have sub: "K \<subseteq> {..<length cs}" "insert i K \<subseteq> {..<length cs}" and fin: "finite K"
    using assms(2,3) finite_subset by auto
  have L: "?L < 2 ^ 32"
  proof -
    have "unat (cs_expected_len c) < 2 ^ LENGTH(32)" by (rule unsigned_less)
    then show ?thesis using len by simp
  qed
  have "0 < ?L" using \<open>cs \<noteq> []\<close> ne by (cases cs) auto
  then have exp: "cs_expected_len c \<noteq> 0" using len by auto
  have upto: "size_of cs (insert i K) \<le> ?L"
    using size_of_less [OF _ ne] size_of_all [of cs] sub(2) by (metis less_imp_le order.refl psubsetI)
  have lookup: "map_of (tree_of cs K) (of_nat i) = (if i \<in> K then Some (cs ! i) else None)"
    using map_of_tree_of [OF n sub(1)] u16_index [OF n assms(3)] by simp
  have step: "on_chunk env (rx_partial c cs K) (of_nat i) (cs ! i) =
      (let c2 = rx_partial c cs (insert i K) in
       if cs_received_total c2 \<ge> cs_expected_len c2 then commit env c2 else c2)"
  proof (cases "i \<in> K")
    case True
    then show ?thesis
      using exp lookup bt_insert_tree_of [OF n sub(1) assms(3)]
      by (cases c) (simp add: on_chunk_def rx_partial_def Let_def insert_absorb)
  next
    case False
    have sz: "size_of cs K + length (cs ! i) = size_of cs (insert i K)"
      using size_of_insert [OF fin False] by simp
    then have sat: "saturating_add32 (of_nat (size_of cs K)) (of_nat (length (cs ! i)))
        = of_nat (size_of cs (insert i K))"
      using saturating_add32_exact [of "size_of cs K" "length (cs ! i)"] upto L by simp
    have "length (cs ! i) < 2 ^ 32" using sz upto L by linarith
    then have uc: "ucast (of_nat (length (cs ! i)) :: u32) = (of_nat (length (cs ! i)) :: u64)"
      by (intro word_unat_eq_iff [THEN iffD2])
        (simp add: unat_of_nat unsigned_ucast_eq take_bit_nat_eq_self unsigned_of_nat)
    have prog: "of_nat (size_of cs K) + (of_nat (length (cs ! i)) :: u64) = of_nat (size_of cs (insert i K))"
      using sz by (metis of_nat_add)
    show ?thesis
      using exp lookup bt_insert_tree_of [OF n sub(1) assms(3)] False sat uc prog
      by (simp add: on_chunk_def rx_partial_def Let_def)
  qed
  have reached: "(of_nat (size_of cs (insert i K)) :: u32) \<ge> cs_expected_len c
      \<longleftrightarrow> size_of cs (insert i K) \<ge> ?L"
  proof -
    have "unat (of_nat (size_of cs (insert i K)) :: u32) = size_of cs (insert i K)"
      unfolding unat_of_nat using upto L by simp
    then show ?thesis using len by (simp add: word_le_nat_alt)
  qed
  show ?thesis
  proof (cases "insert i K = {..<length cs}")
    case False
    then have "size_of cs (insert i K) < ?L" using size_of_less [OF _ ne] sub(2) by blast
    then show ?thesis
      using False step reached by (simp add: rx_partial_def Let_def)
  next
    case True
    have "(of_nat ?L :: u32) = cs_expected_len c" unfolding len [symmetric] by simp
    then have "commit env (rx_partial c cs {..<length cs})
        = reset_reassembly (commit_buffer env (rx_partial (c\<lparr>cs_received := []\<rparr>) cs {..<length cs}
            \<lparr>cs_received := []\<rparr>) (concat cs))"
      using contiguous_tree_of_all [OF n] concat_tree_of_all [of cs]
      by (simp add: commit_def Let_def rx_partial_def)
    then show ?thesis
      using True step reached size_of_all [of cs] by (simp add: rx_partial_def Let_def)
  qed
qed


lemma on_chunk_all:
  assumes "armed c cs" "set ks \<subseteq> {..<length cs}" "k < length cs" "k \<notin> set ks"
    and "insert k (set ks) = {..<length cs}" "K \<union> set ks = set ks" "K \<subset> {..<length cs}"
  shows "foldl (\<lambda>c (index, data). on_chunk env c index data) (rx_partial c cs K)
      (map (\<lambda>i. (of_nat i, cs ! i)) (ks @ [k]))
    = reset_reassembly (commit_buffer env (rx_partial (c\<lparr>cs_received := []\<rparr>) cs {..<length cs}
        \<lparr>cs_received := []\<rparr>) (concat cs))"
proof -
  have "foldl (\<lambda>c (index, data). on_chunk env c index data) (rx_partial c cs K)
      (map (\<lambda>i. (of_nat i, cs ! i)) js) = rx_partial c cs (K \<union> set js)"
    if "K \<union> set js \<subset> {..<length cs}" for js
    using that
  proof (induction js rule: rev_induct)
    case (snoc j js)
    have "K \<union> set js \<subset> {..<length cs}" "j < length cs" using snoc.prems by auto
    moreover have "insert j (K \<union> set js) = K \<union> set (js @ [j])" by auto
    ultimately show ?case
      using snoc.IH on_chunk_own [OF assms(1), of "K \<union> set js" j env] snoc.prems by auto
  qed simp
  from this [of ks] have run: "foldl (\<lambda>c (index, data). on_chunk env c index data) (rx_partial c cs K)
      (map (\<lambda>i. (of_nat i, cs ! i)) ks) = rx_partial c cs (set ks)"
    using assms(2-6) by (metis insertI1 lessThan_iff psubsetI)
  have "set ks \<subset> {..<length cs}" using assms(2-4) by blast
  then show ?thesis
    using on_chunk_own [OF assms(1) _ assms(3), of "set ks" env] assms(5) by (simp add: run)
qed

text \<open>An accepted offer arms the receiver for the sender's chunks.\<close>

lemma chunks_of_payload:
  assumes "payload \<noteq> []" "length payload \<le> MAX_FILE_PAYLOAD_BYTES"
  shows "CHUNKS payload \<noteq> []" "\<forall>b \<in> set (CHUNKS payload). b \<noteq> []"
    "length (CHUNKS payload) \<le> 65536" "concat (CHUNKS payload) = payload"
proof -
  show c: "concat (CHUNKS payload) = payload"
    by (simp add: CHUNKS_def concat_chunks CHUNK_SIZE_pos)
  then show "CHUNKS payload \<noteq> []" using assms(1) by auto
  show "\<forall>b \<in> set (CHUNKS payload). b \<noteq> []" using chunks_bounds by (auto simp: CHUNKS_def)
  have "length payload \<le> 20975618" using assms(2) by (simp add: clip_consts)
  then have "length payload + CHUNK_SIZE - 1 \<le> 65536 * 4094"
    by (simp add: CHUNK_SIZE_def MAX_PAYLOAD_def)
  then have "(length payload + CHUNK_SIZE - 1) div 4094 \<le> (65536 * 4094) div 4094"
    by (rule div_le_mono)
  then have "(length payload + CHUNK_SIZE - 1) div CHUNK_SIZE \<le> 65536"
    by (simp add: CHUNK_SIZE_def MAX_PAYLOAD_def)
  then show "length (CHUNKS payload) \<le> 65536"
    using length_chunks [OF CHUNK_SIZE_pos, of payload] by (simp add: CHUNKS_def)
qed

lemma format_cap_le: "known_format f \<Longrightarrow> format_cap f \<le> MAX_FILE_PAYLOAD_BYTES"
  by (auto simp: format_cap_def clip_consts)

definition accepts :: "clipboard_sync \<Rightarrow> u8 \<Rightarrow> nat \<Rightarrow> bool" where
  "accepts c format len \<longleftrightarrow>
     known_format format \<and> len \<le> format_cap format \<and> (format = FORMAT_FILE \<longrightarrow> cs_receive_files c)"

definition rx_armed :: "clipboard_sync \<Rightarrow> u8 \<Rightarrow> nat \<Rightarrow> clipboard_sync" where
  "rx_armed c format len =
     c\<lparr>cs_expected_len := of_nat len, cs_expected_format := format, cs_received := [],
       cs_received_total := 0, cs_incoming_total := ucast (of_nat len :: u32),
       cs_incoming_progress := 0\<rparr>"

lemma small_u32: "n \<le> MAX_FILE_PAYLOAD_BYTES \<Longrightarrow> unat (of_nat n :: u32) = n"
  unfolding unat_of_nat by (simp add: clip_consts)

lemma on_offer_accepts:
  "accepts c format len \<Longrightarrow> on_offer c format (of_nat len) = (None, rx_armed c format len)"
  using format_cap_le [of format] small_u32 [of len]
  by (auto simp: accepts_def on_offer_def known_format_def rx_armed_def)

text \<open>
  A whole transfer: the offer, then the chunks in any order, each at least once, the last
  missing one at the end.
\<close>

definition receive_chunks :: "clip_env \<Rightarrow> clipboard_sync \<Rightarrow> bytes \<Rightarrow> nat list \<Rightarrow> clipboard_sync" where
  "receive_chunks env c payload ks =
     foldl (\<lambda>c (index, data). on_chunk env c index data) c
       (map (\<lambda>i. (of_nat i, CHUNKS payload ! i)) ks)"

lemma transfer_commits:
  fixes env :: clip_env
  assumes "accepts c format (length payload)" "payload \<noteq> []"
    and "set ks \<subseteq> {..<length (CHUNKS payload)}" "k < length (CHUNKS payload)" "k \<notin> set ks"
    and "insert k (set ks) = {..<length (CHUNKS payload)}"
  defines "c1 \<equiv> receive_chunks env (snd (on_offer c format (of_nat (length payload)))) payload (ks @ [k])"
  shows "\<exists>c0. c1 = reset_reassembly (commit_buffer env c0 payload)
    \<and> cs_os c0 = cs_os c \<and> cs_last c0 = cs_last c \<and> cs_expected_format c0 = format
    \<and> cs_outbox c0 = cs_outbox c"
proof -
  let ?cs = "CHUNKS payload"
  have len: "length payload \<le> MAX_FILE_PAYLOAD_BYTES"
    using assms(1) format_cap_le [of format] by (auto simp: accepts_def)
  note ch = chunks_of_payload [OF assms(2) len]
  let ?a = "rx_armed c format (length payload)"
  have off: "snd (on_offer c format (of_nat (length payload))) = ?a"
    using on_offer_accepts [OF assms(1)] by simp
  have armd: "armed ?a ?cs"
    using ch small_u32 [OF len] by (simp add: armed_def rx_armed_def)
  have start: "rx_partial ?a ?cs {} = ?a"
    by (simp add: rx_partial_def tree_of_def size_of_def rx_armed_def)
  have "{} \<subset> {..<length ?cs}" using assms(4) by auto
  then have c1: "c1 = reset_reassembly (commit_buffer env
      (rx_partial (?a\<lparr>cs_received := []\<rparr>) ?cs {..<length ?cs}\<lparr>cs_received := []\<rparr>) (concat ?cs))"
    using on_chunk_all [OF armd assms(3-6), of "{}" env]
    by (simp add: c1_def receive_chunks_def off start)
  then show ?thesis
    unfolding ch(4)
    by (intro exI conjI) (assumption, simp_all add: rx_partial_def rx_armed_def)
qed

section \<open>What a whole transfer does\<close>

lemma transfer_text:
  fixes env :: clip_env
  assumes "accepts c FORMAT_TEXT_UTF8 (length payload)" "payload \<noteq> []" "utf8_valid payload"
    and "set ks \<subseteq> {..<length (CHUNKS payload)}" "k < length (CHUNKS payload)" "k \<notin> set ks"
    and "insert k (set ks) = {..<length (CHUNKS payload)}"
    and "os_backend (cs_os c)" "os_set_ok (cs_os c)"
  defines "c1 \<equiv> receive_chunks env (snd (on_offer c FORMAT_TEXT_UTF8 (of_nat (length payload))))
      payload (ks @ [k])"
  shows "os_written (cs_os c1) = HoldsText payload \<and> cs_last c1 = LkText (ce_hash env payload)
    \<and> cs_outbox c1 = cs_outbox c \<and> cs_expected_len c1 = 0"
  using transfer_commits [OF assms(1,2,4-7), of env] assms(3,8,9)
  by (auto simp: c1_def reset_reassembly_def commit_buffer_def commit_text_def)

lemma transfer_file:
  fixes env :: clip_env
  assumes "pack_first_chunk name content = Inr payload" "utf8_valid name"
    and "accepts c FORMAT_FILE (length payload)"
    and "set ks \<subseteq> {..<length (CHUNKS payload)}" "k < length (CHUNKS payload)" "k \<notin> set ks"
    and "insert k (set ks) = {..<length (CHUNKS payload)}"
    and "os_mkdir_ok (cs_os c)" "os_write_ok (cs_os c)"
  defines "c1 \<equiv> receive_chunks env (snd (on_offer c FORMAT_FILE (of_nat (length payload))))
      payload (ks @ [k])"
  shows "os_cache (cs_os c1) = (os_cache (cs_os c))(sanitize_basename (utf8_chars name) \<mapsto> content)
    \<and> (os_hdrop_ok (cs_os c) \<longrightarrow>
         os_written (cs_os c1) = HoldsFile (sanitize_basename (utf8_chars name))
         \<and> cs_last c1 = LkFile (ce_hash env content))"
proof -
  have "payload \<noteq> []" using assms(1) by (auto simp: pack_first_chunk_def split: if_splits)
  from transfer_commits [OF assms(3) this assms(4-7), of env]
  obtain c0 where c0: "c1 = reset_reassembly (commit_buffer env c0 payload)" "cs_os c0 = cs_os c"
      "cs_expected_format c0 = FORMAT_FILE"
    unfolding c1_def by blast
  have "unpack_first_chunk payload = Inr (name, content)"
    using unpack_pack [OF assms(1,2), of "[]"] by simp
  then have "commit_buffer env c0 payload = commit_file env c0 payload"
    "unpack_first_chunk payload = Inr (name, content)"
    using c0(3) by (simp_all add: commit_buffer_def FORMAT_FILE_def FORMAT_TEXT_UTF8_def FORMAT_PNG_IMAGE_def)
  then show ?thesis
    using c0 assms(8,9) by (simp add: commit_file_def reset_reassembly_def Let_def)
qed

section \<open>What was received is not sent back\<close>

lemma poll_after_text:
  assumes "cs_last c = LkText (ce_hash env buf)" "buf \<noteq> []" "os_text (cs_os c) = Some buf"
    and "cs_outbox c = []"
  shows "fst (clip_poll env now c) = [] \<and> cs_last (snd (clip_poll env now c)) = cs_last c
    \<and> cs_outbox (snd (clip_poll env now c)) = []"
  using assms by (cases buf) (auto simp: clip_poll_def poll_text_def Let_def)

lemma poll_after_file:
  assumes "cs_last c = LkFile (ce_hash env content)" "os_text (cs_os c) = None \<or> os_text (cs_os c) = Some []"
    and "os_image (cs_os c) = None" "os_hdrop (cs_os c) = Some p" "fp_content p = Some content"
    and "fp_len p = Some (length content)" "cs_outbox c = []" "length content \<le> MAX_FILE_BYTES"
  shows "fst (clip_poll env now c) = [] \<and> cs_last (snd (clip_poll env now c)) = cs_last c
    \<and> cs_outbox (snd (clip_poll env now c)) = []"
  using assms
  by (auto simp: clip_poll_def poll_text_def poll_image_def poll_file_def pack_file_or_warn_def
      check_size_def matches_file_hash_def Let_def split: option.split sum.split)

text \<open>What one side sends the other side accepts.\<close>

lemma start_transfer_head:
  "cs_outbox c = [] \<Longrightarrow> m \<in> set (fst (start_transfer c f p)) \<Longrightarrow> m = ClipOffer f' n \<Longrightarrow>
   f' = f \<and> n = of_nat (length p)"
  by (auto simp: start_transfer_def drain_outbox_def Let_def build_offer_and_chunks_eq
      dest!: in_set_takeD)

definition stat_agrees :: "clip_os \<Rightarrow> bool" where
  "stat_agrees os \<longleftrightarrow>
     (\<forall>p content. os_hdrop os = Some p \<and> fp_content p = Some content \<longrightarrow> fp_len p = Some (length content))"

lemma pack_file_or_warn_size:
  assumes "pack_file_or_warn env p MAX_FILE_BYTES = FileReady name h packed"
    and "\<And>content. fp_content p = Some content \<Longrightarrow> fp_len p = Some (length content)"
  shows "length packed \<le> MAX_FILE_PAYLOAD_BYTES"
proof -
  obtain content where content: "fp_content p = Some content" "pack_first_chunk name content = Inr packed"
    using assms(1)
    by (auto simp: pack_file_or_warn_def split: option.splits if_splits sum.splits)
  have "fp_len p = Some (length content)" using assms(2) content(1) by simp
  then have "length content \<le> MAX_FILE_BYTES"
    using assms(1) content
    by (auto simp: pack_file_or_warn_def check_size_def split: option.splits if_splits)
  then show ?thesis
    using content(2) by (auto simp: pack_first_chunk_def MAX_FILE_PAYLOAD_BYTES_def split: if_splits)
qed

lemma start_transfer_accepted:
  assumes "cs_outbox c = []" "ClipOffer f n \<in> set (fst (start_transfer c f' p))"
    and "known_format f'" "length p \<le> format_cap f'" "cs_receive_files peer"
  shows "accepts peer f (unat n)"
proof -
  have "f = f' \<and> n = of_nat (length p)" using start_transfer_head [OF assms(1,2)] by simp
  moreover have "length p \<le> MAX_FILE_PAYLOAD_BYTES"
    using format_cap_le [OF assms(3)] assms(4) by simp
  ultimately show ?thesis using assms(3-5) small_u32 by (simp add: accepts_def)
qed

lemma poll_transfers:
  assumes "cs_outbox c = []" "m \<in> set (fst (clip_poll env now c))" "stat_agrees (cs_os c)"
  shows "\<exists>c' f p. m \<in> set (fst (start_transfer c' f p)) \<and> cs_outbox c' = []
    \<and> known_format f \<and> length p \<le> format_cap f"
proof -
  let ?c = "c\<lparr>cs_last_poll := now\<rparr>"
  have os: "cs_os ?c = cs_os c" "cs_outbox ?c = []" using assms(1) by simp_all
  have "m \<in> set (fst (case poll_text env ?c of Some r \<Rightarrow> r
      | None \<Rightarrow> (case poll_image env ?c of Inl r \<Rightarrow> r | Inr c2 \<Rightarrow> poll_file env c2)))"
    using assms(1,2) by (simp add: clip_poll_def Let_def split: if_splits)
  then consider (ptext) r where "poll_text env ?c = Some r" "m \<in> set (fst r)"
    | (pimage) r where "poll_image env ?c = Inl r" "m \<in> set (fst r)"
    | (pfile) c2 where "poll_image env ?c = Inr c2" "m \<in> set (fst (poll_file env c2))"
    by (cases "poll_text env ?c"; cases "poll_image env ?c") auto
  then show ?thesis
  proof cases
    case ptext
    obtain b bs where t: "os_text (cs_os c) = Some (b # bs)"
      using ptext(1) by (auto simp: poll_text_def split: option.splits list.splits)
    have "length (b # bs) \<le> format_cap FORMAT_TEXT_UTF8
        \<and> m \<in> set (fst (start_transfer (?c\<lparr>cs_last := LkText (ce_hash env (b # bs))\<rparr>) FORMAT_TEXT_UTF8 (b # bs)))"
      using ptext t by (auto simp: poll_text_def Let_def format_cap_def FORMAT_TEXT_UTF8_def
          FORMAT_PNG_IMAGE_def not_less split: if_splits)
    then show ?thesis using os(2)
      by (intro exI [of _ "?c\<lparr>cs_last := LkText (ce_hash env (b # bs))\<rparr>"]
          exI [of _ FORMAT_TEXT_UTF8] exI [of _ "b # bs"]) (simp add: known_format_def)
  next
    case pimage
    obtain img png where i: "os_image (cs_os c) = Some img" "ce_png_encode env img = Some png"
      using pimage(1) by (auto simp: poll_image_def Let_def split: option.splits if_splits)
    have "length png \<le> format_cap FORMAT_PNG_IMAGE
        \<and> m \<in> set (fst (start_transfer (?c\<lparr>cs_last := LkImage (ce_hash env (im_bytes img))\<rparr>) FORMAT_PNG_IMAGE png))"
      using pimage i by (auto simp: poll_image_def check_size_def Let_def format_cap_def not_less split: if_splits)
    then show ?thesis using os(2)
      by (intro exI [of _ "?c\<lparr>cs_last := LkImage (ce_hash env (im_bytes img))\<rparr>"]
          exI [of _ FORMAT_PNG_IMAGE] exI [of _ png]) (simp add: known_format_def)
  next
    case pfile
    have c2: "cs_os c2 = cs_os c" "cs_outbox c2 = []"
      using pfile(1) os
      by (auto simp: poll_image_def check_size_def Let_def split: option.splits if_splits)
    obtain p name h packed where p: "os_hdrop (cs_os c) = Some p"
        "pack_file_or_warn env p MAX_FILE_BYTES = FileReady name h packed"
        "m \<in> set (fst (start_transfer (c2\<lparr>cs_last_seq := os_seq (cs_os c)\<rparr>) FORMAT_FILE packed))"
      using pfile(2) c2
      by (auto simp: poll_file_def Let_def split: if_splits option.splits file_poll_outcome.splits)
    have "length packed \<le> format_cap FORMAT_FILE"
      using pack_file_or_warn_size [OF p(2)] assms(3) p(1)
      by (simp add: stat_agrees_def format_cap_def FORMAT_FILE_def FORMAT_TEXT_UTF8_def FORMAT_PNG_IMAGE_def)
    then show ?thesis using p(3) c2 by (intro exI conjI) (assumption, simp_all add: known_format_def)
  qed
qed

lemma poll_offers_accepted:
  assumes "cs_outbox c = []" "ClipOffer f n \<in> set (fst (clip_poll env now c))"
    and "cs_receive_files peer" "stat_agrees (cs_os c)"
  shows "accepts peer f (unat n)"
  using poll_transfers [OF assms(1,2,4)] start_transfer_accepted assms(3) by blast

end
