(* ===== verification/ShellChannel.thy ===== *)
theory ShellChannel
  imports Interfaces "HOL-Library.Multiset"
begin

text \<open>
  \<open>apps/wiredesk-client/src/shell_channel.rs\<close>: the lock that \<open>wd --exec\<close> runs and an
  interactive console share. The mutex makes every \<open>try_acquire\<close> and every drop of a guard
  one atomic step, so a history of the channel is a sequence of such steps; the guards alive
  are a ghost component of the state. The lemmas give exclusion in both modes and that the
  counter always equals the guards alive.
\<close>

section \<open>The code\<close>

datatype shell_owner = OwnerIdle | OwnerExec | OwnerInteractive

record channel_state =
  exec_refs :: u32
  interactive :: bool

definition new_shared_owner :: channel_state where
  "new_shared_owner = \<lparr>exec_refs = 0, interactive = False\<rparr>"

definition current_owner :: "channel_state \<Rightarrow> shell_owner" where
  "current_owner c =
     (if interactive c then OwnerInteractive
      else if exec_refs c > 0 then OwnerExec
      else OwnerIdle)"

definition saturating_dec :: "u32 \<Rightarrow> u32" where
  "saturating_dec n = (if n = 0 then 0 else n - 1)"

definition guard_drop :: "shell_owner \<Rightarrow> channel_state \<Rightarrow> channel_state" where
  "guard_drop kind c =
     (case kind of
        OwnerExec \<Rightarrow> c\<lparr>exec_refs := saturating_dec (exec_refs c)\<rparr>
      | OwnerInteractive \<Rightarrow> c\<lparr>interactive := False\<rparr>
      | OwnerIdle \<Rightarrow> c)"

text \<open>The result is the kind of the guard handed out, as in \<open>Option<ShellChannelGuard>\<close>.\<close>

definition try_acquire :: "channel_state \<Rightarrow> shell_owner \<Rightarrow> bool \<Rightarrow> shell_owner option \<times> channel_state" where
  "try_acquire c kind dual =
     (case kind of
        OwnerInteractive \<Rightarrow>
          if interactive c \<or> (\<not> dual \<and> exec_refs c > 0) then (None, c)
          else (Some OwnerInteractive, c\<lparr>interactive := True\<rparr>)
      | OwnerExec \<Rightarrow>
          if \<not> dual \<and> interactive c then (None, c)
          else (Some OwnerExec, c\<lparr>exec_refs := exec_refs c + 1\<rparr>)
      | OwnerIdle \<Rightarrow> (None, c))"

section \<open>Histories of the channel\<close>

text \<open>
  \<open>dual\<close> is what the caller passes: one value per connection, so a history may mix both
  when the host changes. The number of guards alive stays below \<open>2 ^ 32\<close>.
\<close>

type_synonym channel = "channel_state \<times> shell_owner multiset"

inductive channel_step :: "bool set \<Rightarrow> channel \<Rightarrow> channel \<Rightarrow> bool" for modes where
  acquire: "dual \<in> modes \<Longrightarrow> try_acquire c kind dual = (Some k, c') \<Longrightarrow> size gs + 1 < 2 ^ 32 \<Longrightarrow>
    channel_step modes (c, gs) (c', add_mset k gs)"
| refuse: "dual \<in> modes \<Longrightarrow> try_acquire c kind dual = (None, c') \<Longrightarrow>
    channel_step modes (c, gs) (c', gs)"
| release: "k \<in># gs \<Longrightarrow> channel_step modes (c, gs) (guard_drop k c, gs - {#k#})"

inductive_cases channel_stepE: "channel_step modes (c, gs) t"

definition channel_start :: channel where
  "channel_start = (new_shared_owner, {#})"

inductive channel_reachable :: "bool set \<Rightarrow> channel \<Rightarrow> bool" for modes where
  start: "channel_reachable modes channel_start"
| step: "channel_reachable modes s \<Longrightarrow> channel_step modes s t \<Longrightarrow> channel_reachable modes t"

section \<open>The counter counts the guards\<close>

definition channel_inv :: "channel \<Rightarrow> bool" where
  "channel_inv = (\<lambda>(c, gs).
     unat (exec_refs c) = count gs OwnerExec
     \<and> count gs OwnerInteractive = (if interactive c then 1 else 0)
     \<and> OwnerIdle \<notin># gs \<and> size gs < 2 ^ 32)"

lemma unat_inc32: "unat (n :: u32) + 1 < 2 ^ 32 \<Longrightarrow> unat (n + 1) = unat n + 1"
  by (simp add: unat_word_ariths)

lemma unat_dec32: "0 < unat (n :: u32) \<Longrightarrow> unat (saturating_dec n) = unat n - 1"
  by (auto simp: saturating_dec_def unat_minus_one)

lemma channel_step_inv:
  assumes "channel_step modes s t" "channel_inv s"
  shows "channel_inv t"
  using assms
proof (induction rule: channel_step.induct)
  case (acquire dual c kind k c' gs)
  have "count gs OwnerExec \<le> size gs" by (rule count_le_size)
  then show ?case
    using acquire
    by (auto simp: channel_inv_def try_acquire_def unat_inc32 split: shell_owner.splits if_splits)
next
  case (refuse dual c kind c' gs)
  then show ?case
    by (auto simp: try_acquire_def split: shell_owner.splits if_splits)
next
  case (release k gs c)
  have "size (gs - {#k#}) < 2 ^ 32"
    using release size_mset_mono [OF diff_subset_eq_self [of gs "{#k#}"]]
    by (simp add: channel_inv_def)
  moreover have "OwnerIdle \<notin># gs - {#k#}"
    using release by (auto simp: channel_inv_def dest: in_diffD)
  moreover have "0 < count gs k" using release(1) by simp
  ultimately show ?case
    using release
    by (cases k) (auto simp: channel_inv_def guard_drop_def unat_dec32 split: if_splits)
qed

lemma channel_reachable_inv: "channel_reachable modes s \<Longrightarrow> channel_inv s"
proof (induction rule: channel_reachable.induct)
  case start
  show ?case by (simp add: channel_inv_def channel_start_def new_shared_owner_def)
next
  case (step s t)
  then show ?case using channel_step_inv by blast
qed

section \<open>Exclusion\<close>

lemma exec_refs_pos_iff: "channel_inv (c, gs) \<Longrightarrow> exec_refs c > 0 \<longleftrightarrow> OwnerExec \<in># gs"
  by (simp add: channel_inv_def word_less_nat_alt flip: count_greater_zero_iff)

lemma interactive_iff: "channel_inv (c, gs) \<Longrightarrow> interactive c \<longleftrightarrow> OwnerInteractive \<in># gs"
  by (simp add: channel_inv_def flip: count_greater_zero_iff split: if_splits)

lemma current_owner_guards:
  "channel_inv (c, gs) \<Longrightarrow>
   current_owner c = (if OwnerInteractive \<in># gs then OwnerInteractive
                      else if OwnerExec \<in># gs then OwnerExec else OwnerIdle)"
  by (simp add: current_owner_def exec_refs_pos_iff interactive_iff)

text \<open>On a host with one slot the two kinds never hold guards together.\<close>

definition kinds_apart :: "channel \<Rightarrow> bool" where
  "kinds_apart = (\<lambda>(c, gs). \<not> (OwnerExec \<in># gs \<and> OwnerInteractive \<in># gs))"

lemma single_step_apart:
  assumes "channel_step {False} s t" "channel_inv s" "kinds_apart s"
  shows "kinds_apart t"
  using assms
proof (induction rule: channel_step.induct)
  case (acquire dual c kind k c' gs)
  then show ?case
    by (auto simp: kinds_apart_def try_acquire_def exec_refs_pos_iff interactive_iff
        split: shell_owner.splits if_splits)
next
  case (refuse dual c kind c' gs)
  then show ?case by (auto simp: kinds_apart_def)
next
  case (release k gs c)
  then show ?case by (auto simp: kinds_apart_def dest: in_diffD)
qed

lemma single_reachable_apart: "channel_reachable {False} s \<Longrightarrow> kinds_apart s"
proof (induction rule: channel_reachable.induct)
  case start
  show ?case by (simp add: kinds_apart_def channel_start_def)
next
  case (step s t)
  then show ?case using single_step_apart channel_reachable_inv by blast
qed

lemma reachable_one_console:
  "channel_reachable modes (c, gs) \<Longrightarrow> count gs OwnerInteractive \<le> 1"
  using channel_reachable_inv [of modes "(c, gs)"] by (simp add: channel_inv_def)

text \<open>When a request is granted, in terms of the guards alive.\<close>

lemma acquire_granted_iff:
  assumes "channel_inv (c, gs)"
  shows "fst (try_acquire c OwnerExec dual) \<noteq> None \<longleftrightarrow> dual \<or> OwnerInteractive \<notin># gs"
    and "fst (try_acquire c OwnerInteractive dual) \<noteq> None
      \<longleftrightarrow> OwnerInteractive \<notin># gs \<and> (dual \<or> OwnerExec \<notin># gs)"
  using exec_refs_pos_iff [OF assms] interactive_iff [OF assms]
  by (auto simp: try_acquire_def)

text \<open>Dropping every guard, in any order, leaves the channel idle.\<close>

lemma drop_all_idle:
  "channel_inv (c, mset ks) \<Longrightarrow> foldl (\<lambda>c k. guard_drop k c) c ks = new_shared_owner"
proof (induction ks arbitrary: c)
  case Nil
  then show ?case
    by (cases c) (auto simp: channel_inv_def new_shared_owner_def unat_eq_zero split: if_splits)
next
  case (Cons k ks)
  have "channel_step {} (c, mset (k # ks)) (guard_drop k c, mset (k # ks) - {#k#})"
    by (rule release) simp
  then have "channel_inv (guard_drop k c, mset ks)"
    using channel_step_inv [OF _ Cons.prems] by fastforce
  then show ?case using Cons.IH by simp
qed

end
