(* ===== verification/HostProps.thy ===== *)
theory HostProps
  imports HostTicks ClipTransfer ShellChannel
begin

text \<open>
  The properties of the host: its session, the thread around it, the shells' stdin and stdout,
  the clipboard, and the client-side guard of the shell channel. The concrete sessions of the
  witnesses come first.
\<close>

section \<open>Concrete sessions\<close>

definition demo_clip_env :: clip_env where
  "demo_clip_env = \<lparr>ce_hash = (\<lambda>bs. of_nat (length bs)), ce_png_encode = (\<lambda>img. None),
     ce_png_decode = (\<lambda>bs. None)\<rparr>"

definition demo_os :: clip_os where
  "demo_os = \<lparr>os_backend = True, os_text = None, os_image = None, os_seq = 0, os_hdrop = None,
     os_set_ok = True, os_mkdir_ok = True, os_write_ok = True, os_hdrop_ok = True,
     os_written = HoldsNothing, os_cache = Map.empty\<rparr>"

definition demo_clip :: clipboard_sync where
  "demo_clip = clipboard_new demo_clip_env demo_os True 0"

definition demo_link :: link where
  "demo_link = \<lparr>ln_log = [], ln_send_script = [], ln_recv_script = [], ln_buffers = True\<rparr>"

definition demo_injector :: injector where
  "demo_injector = \<lparr>in_log = [], in_script = []\<rparr>"

definition demo_session :: host_session where
  "demo_session = session_new demo_link demo_injector (blit ''host'') 1920 1080 (hub_new False) demo_clip 0"

definition demo_shell :: shell_process where
  "demo_shell = \<lparr>sp_pty = False, sp_events = [], sp_status = None, sp_stdin = [],
     sp_writer_alive = True, sp_size = None, sp_killed = False\<rparr>"

definition demo_env :: host_env where
  "demo_env = \<lparr>he_canon = (\<lambda>s. s), he_windows = True, he_spawn = (\<lambda>argv dims. Inr demo_shell),
     he_clip = demo_clip_env, he_show = (\<lambda>e. [])\<rparr>"

definition demo_config :: host_config where
  "demo_config = \<lparr>hc_transport = blit ''serial'', hc_host_name = blit ''host'', hc_width = 1920,
     hc_height = 1080, hc_desktop = False\<rparr>"

definition demo_connected :: host_session where
  "demo_connected = demo_session\<lparr>hs_state := Connected, hs_client_name := Some [], hs_exec := Some demo_shell,
     hs_pty := Some \<lparr>ps_proc = demo_shell, ps_legacy = False\<rparr>\<rparr>"

lemmas demo_defs = demo_connected_def demo_session_def session_new_def demo_link_def demo_injector_def

lemma demo_up: "link_up demo_connected" "link_up (demo_connected\<lparr>hs_pty := p\<rparr>)"
  "link_up (demo_connected\<lparr>hs_pty := p, hs_exec := e\<rparr>)" "link_up (demo_connected\<lparr>hs_now := t\<rparr>)"
  by (simp_all add: demo_defs link_up_def)

section \<open>The session\<close>

text \<open>
  C1: from any start and through any history of packets, failing sends, shell output, exits,
  browser workers and clipboard changes, a session without a client holds no shell, a connected
  one knows its client, a legacy console excludes an exec shell, and the packets handed to the
  link are numbered consecutively from zero.
\<close>

theorem session_invariant:
  assumes "fresh_link ln"
  shows "let s = foldl around_step (session_new ln inp name w h (hub_new desktop)
           (clipboard_new cenv os rf now) now) es in
         (hs_state s \<noteq> Connected \<longrightarrow> hs_exec s = None \<and> hs_pty s = None)
         \<and> (hs_state s = Connected \<longrightarrow> hs_client_name s \<noteq> None)
         \<and> (legacy_pty s \<longrightarrow> hs_exec s = None)
         \<and> map p_seq (ln_log (hs_link s)) = map of_nat [0 ..< length (ln_log (hs_link s))]"
proof -
  let ?s0 = "session_new ln inp name w h (hub_new desktop) (clipboard_new cenv os rf now) now"
  have "sess_inv ?s0" using assms by (rule session_new_inv [OF _ hubm.start_inv clipm.start_inv])
  then have "sess_inv (foldl around_step ?s0 es)"
    by (rule sessm.run_inv) (simp add: list_all_iff)
  then show ?thesis by (auto simp: Let_def sess_inv_def slots_ok_def seq_ok_def)
qed

theorem session_invariant_witness:
  "let s = foldl around_step (session_new demo_link demo_injector [] 0 0 (hub_new False)
         (clipboard_new demo_clip_env demo_os True 0) 0)
       [PacketsArrive [(0, Inr (packet_new (Hello 1 []) 0))], Ticked demo_env] in
     hs_state s = Connected \<longrightarrow> hs_client_name s \<noteq> None"
  using session_invariant [of demo_link demo_injector "[]" 0 0 False demo_clip_env demo_os True 0
      "[PacketsArrive [(0, Inr (packet_new (Hello 1 []) 0))], Ticked demo_env]"]
  by (auto simp: fresh_link_def demo_link_def Let_def)



text \<open>
  The same pump, when the process is already seen to have exited, drops the slot with the
  output behind its byte budget still unsent: the client gets the exit code and never the rest.
\<close>

lemma exec_tail_lost:
  assumes "link_up s" "hs_pty s = None" "hs_exec s = Some sp"
    and "sp_events sp = Output d # rest" "PUMP_BUDGET \<le> length d"
    and "sp_status sp = Some (PipeStatus (Some c))"
  shows "sent_messages (snd (pump_shell_events s))
      = sent_messages s @ map ShellOutput (chunks MAX_PAYLOAD d) @ [ShellExit c]
    \<and> hs_exec (snd (pump_shell_events s)) = None"
  using assms by (rule exec_tail_cut)

definition demo_tail :: shell_process where
  "demo_tail = demo_shell\<lparr>sp_events := [Output (replicate PUMP_BUDGET 97), Output [98]],
     sp_status := Some (PipeStatus (Some 0))\<rparr>"

lemma exec_tail_lost_witness:
  "ShellOutput [98] \<notin> set (sent_messages (snd (pump_shell_events
       (demo_connected\<lparr>hs_pty := None, hs_exec := Some demo_tail\<rparr>))))
   \<and> hs_exec (snd (pump_shell_events (demo_connected\<lparr>hs_pty := None, hs_exec := Some demo_tail\<rparr>))) = None"
proof -
  let ?s = "demo_connected\<lparr>hs_pty := None, hs_exec := Some demo_tail\<rparr>"
  have r: "sent_messages (snd (pump_shell_events ?s))
      = sent_messages ?s @ map ShellOutput (chunks MAX_PAYLOAD (replicate PUMP_BUDGET 97)) @ [ShellExit 0]
    \<and> hs_exec (snd (pump_shell_events ?s)) = None"
    by (rule exec_tail_lost [where sp = demo_tail and rest = "[Output [98]]"])
      (simp_all add: demo_up demo_tail_def)
  have "b = 97" if "p \<in> set (chunks MAX_PAYLOAD (replicate PUMP_BUDGET (97 :: u8)))" "b \<in> set p" for p b
  proof -
    have "b \<in> set (concat (chunks MAX_PAYLOAD (replicate PUMP_BUDGET (97 :: u8))))" using that by auto
    then show ?thesis by (simp add: concat_chunks MAX_PAYLOAD_def)
  qed
  moreover have "sent_messages ?s = []" by (simp add: demo_defs sent_messages_def)
  ultimately show ?thesis using r by fastforce
qed

text \<open>
  The two shell slots are independent. A message of the exec side leaves a dedicated console
  alone, a message of the console side leaves the exec shell alone, whatever the outcome.
\<close>

lemma slots_independent:
  "(exec_side m \<longrightarrow> \<not> legacy_pty s \<longrightarrow> hs_pty (snd (handle_connected env m s)) = hs_pty s)
   \<and> (pty_side m \<longrightarrow> hs_exec (snd (handle_connected env m s)) = hs_exec s)"
  using exec_side_keeps_pty pty_side_keeps_exec by blast

lemma slots_independent_witness:
  "hs_pty (snd (handle_connected demo_env ShellClose demo_connected)) = hs_pty demo_connected
   \<and> hs_exec (snd (handle_connected demo_env PtyClose demo_connected)) = hs_exec demo_connected"
  using slots_independent [of ShellClose demo_connected demo_env]
    slots_independent [of PtyClose demo_connected demo_env]
  by (simp add: legacy_pty_def demo_connected_def del: handle_connected.simps)

text \<open>
  What a slot sends. An exec shell's output and exit go out on the shell opcodes, those of a
  dedicated console on the console opcodes only, and pumping one slot leaves the other as it was.
\<close>

lemma slot_traffic:
  assumes "link_up s"
  shows "\<exists>ms. sent_messages (snd (pump_slot slot s)) = sent_messages s @ ms
    \<and> list_all (if legacy_opcodes slot s then exec_traffic else pty_traffic) ms
    \<and> slot_proc (other_slot slot) (snd (pump_slot slot s)) = slot_proc (other_slot slot) s"
  using assms by (rule pump_traffic)

lemma slot_traffic_witness:
  "\<exists>ms. sent_messages (snd (pump_slot SlotPty demo_connected)) = sent_messages demo_connected @ ms
    \<and> list_all pty_traffic ms \<and> hs_exec (snd (pump_slot SlotPty demo_connected)) = Some demo_shell"
proof -
  have "\<not> legacy_opcodes SlotPty demo_connected"
    by (simp add: legacy_opcodes_def demo_connected_def)
  moreover have "hs_exec demo_connected = Some demo_shell" by (simp add: demo_connected_def)
  ultimately show ?thesis
    using slot_traffic [OF demo_up(1), of SlotPty] by (auto simp: other_slot_def slot_proc_def)
qed



text \<open>
  C39: a client silent for the busy timeout is torn down by the next tick, even with shells open
  and a transfer running: every shell and the warm one are gone, killed, and held keys released.
\<close>

theorem silent_client_torn_down_fully:
  fixes env
  assumes "link_up s" "in_script (hs_injector s) = []" "hs_state s = Connected"
    and "hs_now s - hs_hb_recv s \<ge> HEARTBEAT_TIMEOUT_BUSY"
  defines "t \<equiv> snd (tick env s)"
  shows "fst (tick env s) = Inr False \<and> hs_state t = WaitingForHello \<and> hs_client_name t = None
    \<and> hs_exec t = None \<and> hs_pty t = None \<and> hs_warm t = None
    \<and> (\<forall>sp \<in> set (held_shells s). released sp \<in> set (hs_released t))
    \<and> in_log (hs_injector t) = in_log (hs_injector s) @ [ReleaseAll]"
  unfolding t_def using assms(1-4) by (rule silent_client_torn_down)

theorem silent_client_torn_down_fully_witness:
  "hs_state (snd (tick demo_env (demo_connected\<lparr>hs_now := 40000\<rparr>))) = WaitingForHello
   \<and> released demo_shell \<in> set (hs_released (snd (tick demo_env (demo_connected\<lparr>hs_now := 40000\<rparr>))))"
proof -
  let ?s = "demo_connected\<lparr>hs_now := 40000\<rparr>"
  have "in_script (hs_injector ?s) = []" "hs_state ?s = Connected"
    "hs_now ?s - hs_hb_recv ?s \<ge> HEARTBEAT_TIMEOUT_BUSY" "demo_shell \<in> set (held_shells ?s)"
    by (simp_all add: demo_defs HEARTBEAT_TIMEOUT_BUSY_def held_shells_def)
  then show ?thesis using silent_client_torn_down_fully [OF demo_up(4), of 40000 demo_env] by auto
qed

text \<open>
  One tick takes at most thirty-three packets off the link, so a peer that floods reports
  cannot keep the host from pumping its shells.
\<close>

lemma tick_takes_bounded:
  "length (ln_recv_script (hs_link s)) \<le> length (ln_recv_script (hs_link (snd (tick env s)))) + 33"
  using tick_takes_at_most [of s env] by (simp add: MAX_REPORTS_PER_TICK_def)

text \<open>
  Before a client has said hello, a tick sends at most one packet, the acknowledgement or
  the version error, whatever packets arrive.
\<close>

lemma waiting_session_only_greets:
  assumes "sess_inv s" "hs_state s = WaitingForHello"
  shows "\<exists>ms. sent_messages (snd (tick env s)) = sent_messages s @ ms
    \<and> length ms \<le> 1 \<and> list_all greeting ms"
  unfolding tick_waiting [OF assms]
  using waiting_sends_greeting [of "s\<lparr>hs_flow := snd (release_if_stalled (hs_flow s) (hs_now s))\<rparr>"
      env MAX_REPORTS_PER_TICK False] assms(2)
  by simp

lemma demo_session_inv: "sess_inv demo_session"
  unfolding demo_session_def demo_clip_def
  by (rule session_new_inv [OF _ hubm.start_inv clipm.start_inv]) (simp add: fresh_link_def demo_link_def)

lemma waiting_session_only_greets_witness:
  "\<exists>ms. sent_messages (snd (tick demo_env demo_session)) = ms \<and> length ms \<le> 1 \<and> list_all greeting ms"
proof -
  have "hs_state demo_session = WaitingForHello" "sent_messages demo_session = []"
    by (simp_all add: demo_defs sent_messages_def)
  then show ?thesis using waiting_session_only_greets [OF demo_session_inv] by auto
qed

end
