(* ===== verification/DeliveryProps.thy ===== *)
theory DeliveryProps
  imports HostProps
begin

text \<open>
  The properties of the host's pacing, of its thread, of the shell's standard input and of the
  clipboard transfers, and the client's guard over the shell channel.
\<close>

section \<open>Pacing\<close>

text \<open>
  C25: the queue of exec sends is exact. After any history of sends, reports and stall checks, the
  number the code computes is the number of exec bytes among the bytes not yet confirmed.
\<close>

theorem in_flight_exact:
  "exec_in_flight (foldl flow_step (flow_new now) evs)
   = exec_unconfirmed (concat (map logged evs)) (sf_acked (foldl flow_step (flow_new now) evs))"
  using exec_in_flight_exact [OF flow_rel_run [OF flow_rel_new [of now], of evs]] by simp

text \<open>
  While the client reports and a console is open on a buffering link, a pump of the exec slot
  never takes exec's bytes in flight past the cap by a full read.
\<close>

lemma exec_in_flight_capped:
  assumes "link_up s" "flow_rel (hs_flow s) sends" "0 < r"
    and "hs_pty s \<noteq> None" "pacing (hs_flow s)" "ln_buffers (hs_link s)"
    and "\<And>sp d. hs_exec s = Some sp \<Longrightarrow> Output d \<in> set (sp_events sp) \<Longrightarrow> length d \<le> r"
    and "exec_in_flight (hs_flow s) < EXEC_INFLIGHT_CAP + r"
  shows "exec_in_flight (hs_flow (snd (pump_slot SlotExec s))) < EXEC_INFLIGHT_CAP + r"
  using assms by (rule exec_cap_kept)

definition demo_paced :: host_session where
  "demo_paced = demo_connected\<lparr>hs_flow := snd (on_report (flow_new 0) 0 0),
     hs_exec := Some (demo_shell\<lparr>sp_events := [Output [1, 2, 3]]\<rparr>)\<rparr>"

lemma exec_in_flight_capped_witness:
  "exec_in_flight (hs_flow (snd (pump_slot SlotExec demo_paced))) < EXEC_INFLIGHT_CAP + 3"
proof (rule exec_in_flight_capped)
  show "flow_rel (hs_flow demo_paced) []"
    unfolding demo_paced_def by (simp add: flow_rel_on_report [OF flow_rel_new])
  show "pacing (hs_flow demo_paced)" "exec_in_flight (hs_flow demo_paced) < EXEC_INFLIGHT_CAP + 3"
    by (simp_all add: demo_paced_def on_report_def flow_new_def pacing_def exec_in_flight_def Let_def)
qed (auto simp: demo_paced_def demo_defs link_up_def)

text \<open>
  Exec never waits on a client that has stopped confirming for longer than the stall time: the
  next check counts everything as delivered and stops pacing.
\<close>

lemma stall_releases:
  assumes "flow_rel f sends" "inflight_exec_budget (exec_in_flight f) = 0"
    and "sf_last_progress f + RX_PROGRESS_STALL \<le> now"
    and "\<forall>t. sf_unacked_since f = Some t \<longrightarrow> t + RX_PROGRESS_STALL \<le> now"
  shows "fst (release_if_stalled f now) \<and> \<not> pacing (snd (release_if_stalled f now))
    \<and> exec_in_flight (snd (release_if_stalled f now)) = 0"
  using assms by (rule stalled_release)

lemma stall_releases_witness:
  "fst (release_if_stalled (note_sent (flow_new 0) SlotExec 20000 5) 2000)
   \<and> exec_in_flight (snd (release_if_stalled (note_sent (flow_new 0) SlotExec 20000 5) 2000)) = 0"
proof -
  have "flow_rel (note_sent (flow_new 0) SlotExec 20000 5) [(SlotExec, 20000)]"
    using flow_rel_note_sent [OF flow_rel_new, of 0 SlotExec 20000 5] by simp
  then show ?thesis
    using stall_releases [of "note_sent (flow_new 0) SlotExec 20000 5" "[(SlotExec, 20000)]" 2000]
    by (simp add: note_sent_def flow_new_def inflight_exec_budget_def exec_in_flight_def pump_consts
        RX_PROGRESS_STALL_def Let_def)
qed

section \<open>The thread\<close>

text \<open>
  A line that delivers only undecodable frames to a session without a client is tolerated for
  nine frames; the tenth makes the thread release held keys, give the port up and open it again.
\<close>

lemma garbage_reopens_port:
  assumes "after_garbage 0 rs inp t" "10 \<le> length rs"
  shows "(\<forall>k < 10. \<exists>s lr. ht_phase ((iterate env cfg ^^ k) t) = Running s lr)
    \<and> (\<exists>inp'. ht_phase ((iterate env cfg ^^ 10) t) = Opening inp'
         \<and> in_log inp' = in_log inp @ [ReleaseAll])"
  using assms by (rule garbage_reopens)

definition demo_noisy :: host_thread where
  "demo_noisy = \<lparr>ht_phase = Running (demo_session\<lparr>hs_link := (hs_link demo_session)
       \<lparr>ln_recv_script := garbage (replicate 12 CobsTruncated)\<rparr>\<rparr>) None,
     ht_attempt = 0, ht_statuses = [StWaiting], ht_now = 0\<rparr>"

lemma garbage_reopens_port_witness:
  "\<exists>inp'. ht_phase ((iterate demo_env demo_config ^^ 10) demo_noisy) = Opening inp'
     \<and> in_log inp' = [ReleaseAll]"
proof -
  have inv: "sess_inv (demo_session\<lparr>hs_link := (hs_link demo_session)
       \<lparr>ln_recv_script := garbage (replicate 12 CobsTruncated)\<rparr>\<rparr>)"
    using demo_session_inv by simp
  have "after_garbage 0 (replicate 12 CobsTruncated) demo_injector demo_noisy"
    unfolding after_garbage_def using inv
    by (simp add: demo_noisy_def told_last_def)
      (simp add: demo_session_def session_new_def storm_new_def)
  from garbage_reopens_port [OF this, of demo_env demo_config] show ?thesis
    by (simp add: demo_injector_def)
qed

text \<open>
  Whatever the thread is fed, while it runs a session that has reported, the last status the
  UI was told, notifications aside, is the one last reported; and right after an iteration
  that keeps the session it is the session's own status, with the client's real name when
  connected.
\<close>

lemma status_is_current:
  assumes "list_all event_ok evs"
    and "ht_phase (foldl (thread_step env cfg) (thread_start inp now) evs) = Running s lr"
    and "ht_phase (run_iteration env s lr (foldl (thread_step env cfg) (thread_start inp now) evs))
      = Running s' lr'"
  shows "hs_state s' = WaitingForHello \<and>
      told_last (ht_statuses (run_iteration env s lr (foldl (thread_step env cfg) (thread_start inp now) evs)))
        (Some StWaiting)
    \<or> (\<exists>name. hs_state s' = Connected \<and> hs_client_name s' = Some name \<and>
      told_last (ht_statuses (run_iteration env s lr (foldl (thread_step env cfg) (thread_start inp now) evs)))
        (Some (StConnected name)))"
proof -
  let ?t = "foldl (thread_step env cfg) (thread_start inp now) evs"
  have inv: "thread_inv ?t" using threadm.reachable_inv assms(1) .
  from run_iteration_reports [OF inv assms(2,3)] show ?thesis .
qed

lemma status_is_current_witness:
  "let t = foldl (thread_step demo_env demo_config) (thread_start demo_injector 0)
       [Opens demo_os True (Inr demo_link)]
   in \<exists>s s' lr'. ht_phase t = Running s None
     \<and> ht_phase (run_iteration demo_env s None t) = Running s' lr'
     \<and> (hs_state s' = WaitingForHello \<or> hs_client_name s' \<noteq> None)"
proof -
  let ?evs = "[Opens demo_os True (Inr demo_link)]"
  let ?t = "foldl (thread_step demo_env demo_config) (thread_start demo_injector 0) ?evs"
  have ok: "list_all event_ok ?evs" by (simp add: fresh_link_def demo_link_def)
  obtain s where s: "ht_phase ?t = Running s None" "sess_inv s" "hs_state s = WaitingForHello"
    "ln_recv_script (hs_link s) = []"
  proof
    let ?s = "session_new demo_link demo_injector (hc_host_name demo_config) (hc_width demo_config)
      (hc_height demo_config) (hub_new (hc_desktop demo_config))
      (clipboard_new (he_clip demo_env) demo_os True 0) 0"
    show "ht_phase ?t = Running ?s None"
      by (simp add: thread_step_def thread_start_def open_attempt_def Let_def)
    show "sess_inv ?s"
      by (rule session_new_inv [OF _ hubm.start_inv clipm.start_inv]) (simp add: fresh_link_def demo_link_def)
    show "hs_state ?s = WaitingForHello" "ln_recv_script (hs_link ?s) = []"
      by (simp_all add: session_new_def demo_link_def)
  qed
  let ?u = "s\<lparr>hs_flow := snd (release_if_stalled (hs_flow s) (hs_now s))\<rparr>"
  have "link_recv ?u = (Inl (Transport ''recv timeout''), ?u)"
    using s(4) by (simp add: link_recv_def)
  from recv_loop_err [OF this] have "tick demo_env s = (Inr False, ?u)"
    unfolding tick_waiting [OF s(2,3)] by (simp add: is_recv_timeout_def)
  then have "run_iteration demo_env s None ?t = report_status ?u None ?t"
    by (simp add: run_iteration_def)
  then obtain s' lr' where r: "ht_phase (run_iteration demo_env s None ?t) = Running s' lr'"
    using report_status_result [of ?t None ?u] by (simp add: told_last_def)
  show ?thesis
    unfolding Let_def using s(1) r status_is_current [OF ok s(1) r] by blast
qed

section \<open>The shell's standard input\<close>

text \<open>
  Everything the client sends a shell before the close reaches its standard input unchanged
  and in order; or, for PowerShell and a block above the threshold, the block's bytes are in the
  spill file and the one line that runs the file took its place, with the rest after it.
\<close>

lemma stdin_delivered:
  assumes "ends_in_close evs" "\<forall>s. spl = Some s \<longrightarrow> spl_path s = path"
  defines "w \<equiv> writer_thread_pipe (writer_new spl) evs"
  shows "concat (in_writes (pw_stdin w)) = received evs
    \<or> (\<exists>block rest s. received evs = block @ rest
        \<and> concat (in_writes (pw_stdin w)) = dot_source_line (quote_path path) (block_body block) @ rest
        \<and> pw_spill w = Some s \<and> spl_file s = Some (UTF8_BOM @ block_body block)
        \<and> is_ascii block \<and> SPILL_THRESHOLD < length block \<and> last block = 10
        \<and> \<not> list_ex is_control (quote_path path))"
  unfolding w_def using assms(1,2) by (rule writer_delivers)

lemma stdin_delivered_witness:
  "concat (in_writes (pw_stdin (writer_thread_pipe (writer_new None)
     [Received (Data [108, 115]), Grace, Received (Data [10]), Received CloseStdin]))) = [108, 115, 10]"
proof -
  let ?evs = "[Received (Data [108, 115]), Grace, Received (Data [10]), Received CloseStdin]"
  have "\<not> SPILL_THRESHOLD < length block" if "received ?evs = block @ rest" for block rest
  proof -
    have "length (received ?evs) = 3" by simp
    then have "length block \<le> 3" using that by (metis length_append le_add1)
    then show ?thesis by (simp add: SPILL_THRESHOLD_def MAX_PAYLOAD_def)
  qed
  then show ?thesis using stdin_delivered [of ?evs None "[]"] by auto
qed

section \<open>The clipboard\<close>

text \<open>
  C26: a file sent by one side is stored by the other with its content unchanged and a sanitised
  name, whatever order its chunks arrive in and however often each is repeated; and once
  the clipboard points at it, the receiver remembers its hash.
\<close>

theorem file_transfer:
  fixes env :: clip_env
  assumes "pack_first_chunk name content = Inr payload" "utf8_valid name"
    and "accepts c FORMAT_FILE (length payload)"
    and "set ks \<subseteq> {..<length (CHUNKS payload)}" "k < length (CHUNKS payload)" "k \<notin> set ks"
    and "insert k (set ks) = {..<length (CHUNKS payload)}"
    and "os_mkdir_ok (cs_os c)" "os_write_ok (cs_os c)"
  defines "c1 \<equiv> receive_chunks env (snd (on_offer c FORMAT_FILE (of_nat (length payload))))
      payload (ks @ [k])"
  shows "os_cache (cs_os c1) = (os_cache (cs_os c))(sanitize_basename (utf8_chars name) \<mapsto> content)
    \<and> (os_hdrop_ok (cs_os c) \<longrightarrow>
         os_written (cs_os c1) = HoldsFile (sanitize_basename (utf8_chars name))
         \<and> cs_last c1 = LkFile (ce_hash env content))"
  unfolding c1_def using assms(1-9) by (rule transfer_file)

theorem file_transfer_witness:
  "\<exists>payload. pack_first_chunk [97] [7, 8, 9] = Inr payload
     \<and> os_cache (cs_os (receive_chunks demo_clip_env
          (snd (on_offer demo_clip FORMAT_FILE (of_nat (length payload)))) payload [0]))
        (sanitize_basename (utf8_chars [97])) = Some [7, 8, 9]"
proof -
  obtain payload where p: "pack_first_chunk [97] [7, 8, 9] = Inr payload"
    by (simp add: pack_first_chunk_def MAX_FILENAME_LEN_def)
  then have len: "length payload = 6" by (auto simp: pack_first_chunk_def split: if_splits)
  have one: "length (CHUNKS payload) = 1"
    using len by (simp add: CHUNKS_def CHUNK_SIZE_def MAX_PAYLOAD_def length_chunks)
  have acc: "accepts demo_clip FORMAT_FILE (length payload)"
    using len by (simp add: accepts_def known_format_def demo_clip_def clipboard_new_def format_cap_def
        MAX_FILE_PAYLOAD_BYTES_def MAX_FILE_BYTES_def FORMAT_FILE_def FORMAT_PNG_IMAGE_def FORMAT_TEXT_UTF8_def)
  have os: "os_mkdir_ok (cs_os demo_clip)" "os_write_ok (cs_os demo_clip)"
    by (simp_all add: demo_clip_def clipboard_new_def demo_os_def)
  have "utf8_valid [97]" by (simp add: utf8_valid_ascii)
  from file_transfer [OF p this acc, of "[]" 0 demo_clip_env, OF _ _ _ _ os]
  moreover have "{0} = {..<Suc 0}" by auto
  ultimately show ?thesis using p one by auto
qed

text \<open>
  The receiver commits nothing but whole payloads: when a chunk changes the clipboard, the
  file cache or the loop guard, the indices from zero on are all there and the length is the
  announced one.
\<close>

lemma commits_only_whole:
  assumes "rx_inv c" "os_written (cs_os (on_chunk env c index data)) \<noteq> os_written (cs_os c)
    \<or> os_cache (cs_os (on_chunk env c index data)) \<noteq> os_cache (cs_os c)
    \<or> cs_last (on_chunk env c index data) \<noteq> cs_last c"
  shows "\<exists>buf. buf = concat (map snd (bt_insert index data (cs_received c)))
    \<and> contiguous (bt_insert index data (cs_received c))
    \<and> (of_nat (length buf) :: u32) = cs_expected_len c
    \<and> known_format (cs_expected_format c)
    \<and> cs_os (on_chunk env c index data) = cs_os (commit_buffer env c buf)"
  using assms by (rule on_chunk_effect)

definition demo_receiving :: clipboard_sync where
  "demo_receiving = snd (on_offer demo_clip FORMAT_TEXT_UTF8 2)"

lemma commits_only_whole_witness:
  "os_written (cs_os (on_chunk demo_clip_env demo_receiving 0 [104, 105])) = HoldsText [104, 105]
   \<and> (\<exists>buf. cs_os (on_chunk demo_clip_env demo_receiving 0 [104, 105])
        = cs_os (commit_buffer demo_clip_env demo_receiving buf))"
proof -
  have inv: "rx_inv demo_receiving"
    unfolding demo_receiving_def demo_clip_def by (intro on_offer_inv clipm.start_inv)
  have w: "os_written (cs_os (on_chunk demo_clip_env demo_receiving 0 [104, 105])) = HoldsText [104, 105]"
    by (simp add: demo_receiving_def demo_clip_def clipboard_new_def demo_os_def on_offer_def on_chunk_def
        commit_def contiguous_def saturating_add32_def commit_buffer_def commit_text_def reset_reassembly_def
        utf8_valid_ascii format_cap_def MAX_CLIPBOARD_BYTES_def FORMAT_TEXT_UTF8_def FORMAT_FILE_def
        FORMAT_PNG_IMAGE_def Let_def)
  have "os_written (cs_os demo_receiving) = HoldsNothing"
    by (simp add: demo_receiving_def demo_clip_def clipboard_new_def demo_os_def on_offer_def
        FORMAT_TEXT_UTF8_def FORMAT_FILE_def FORMAT_PNG_IMAGE_def format_cap_def MAX_CLIPBOARD_BYTES_def)
  then show ?thesis using commits_only_whole [OF inv, of demo_clip_env 0 "[104, 105]"] w by auto
qed

text \<open>
  What one side offers after a poll, the other side accepts: the format is known, the
  announced length is within the receiver's cap for it, unless its file toggle is off.
\<close>

lemma offers_accepted:
  assumes "cs_outbox c = []" "ClipOffer f n \<in> set (fst (clip_poll env now c))"
    and "cs_receive_files peer" "stat_agrees (cs_os c)"
  shows "accepts peer f (unat n)"
  using assms by (rule poll_offers_accepted)

definition demo_text_ready :: clipboard_sync where
  "demo_text_ready = demo_clip\<lparr>cs_os := demo_os\<lparr>os_text := Some [104, 105]\<rparr>\<rparr>"

lemma offers_accepted_witness: "accepts demo_clip FORMAT_TEXT_UTF8 2"
proof -
  have "ClipOffer FORMAT_TEXT_UTF8 2 \<in> set (fst (clip_poll demo_clip_env 1000 demo_text_ready))"
    by (simp add: demo_text_ready_def demo_clip_def clipboard_new_def demo_os_def clip_poll_def
        stamp_initial_def poll_text_def start_transfer_def drain_outbox_def build_offer_and_chunks_def
        CLIP_POLL_INTERVAL_def MAX_CLIPBOARD_BYTES_def MAX_MESSAGES_PER_POLL_def Let_def)
  from offers_accepted [OF _ this, of demo_clip] show ?thesis
    by (simp add: demo_text_ready_def demo_clip_def clipboard_new_def demo_os_def stat_agrees_def)
qed

section \<open>The client's guard over the shell channel\<close>

text \<open>
  However clients acquire and drop guards, at most one console holds one; towards a host
  with a single slot no console and exec ever hold one together; and a request is granted exactly
  when the guards alive allow it.
\<close>

lemma channel_exclusion:
  assumes "channel_reachable modes (c, gs)"
  shows "count gs OwnerInteractive \<le> 1
    \<and> (modes = {False} \<longrightarrow> \<not> (OwnerExec \<in># gs \<and> OwnerInteractive \<in># gs))
    \<and> (fst (try_acquire c OwnerExec dual) \<noteq> None \<longleftrightarrow> dual \<or> OwnerInteractive \<notin># gs)
    \<and> (fst (try_acquire c OwnerInteractive dual) \<noteq> None
        \<longleftrightarrow> OwnerInteractive \<notin># gs \<and> (dual \<or> OwnerExec \<notin># gs))"
  using reachable_one_console [OF assms] acquire_granted_iff [OF channel_reachable_inv [OF assms]]
    single_reachable_apart [of "(c, gs)"] assms
  by (auto simp: kinds_apart_def)

lemma channel_exclusion_witness:
  "fst (try_acquire (snd (try_acquire new_shared_owner OwnerInteractive False)) OwnerExec False) = None
   \<and> count {#OwnerInteractive#} OwnerInteractive \<le> 1"
proof -
  have t: "try_acquire new_shared_owner OwnerInteractive False
      = (Some OwnerInteractive, new_shared_owner\<lparr>interactive := True\<rparr>)"
    by (simp add: try_acquire_def new_shared_owner_def)
  have "channel_step {False} channel_start (new_shared_owner\<lparr>interactive := True\<rparr>, {#OwnerInteractive#})"
    unfolding channel_start_def using channel_step.acquire [OF _ t, of "{False}" "{#}"] by simp
  with channel_reachable.start
  have "channel_reachable {False} (new_shared_owner\<lparr>interactive := True\<rparr>, {#OwnerInteractive#})"
    by (rule channel_reachable.step)
  from channel_exclusion [OF this, of False] t show ?thesis by simp
qed

end
