(* ===== verification/Text.thy ===== *)
theory Text
  imports ClipFile
begin

text \<open>
  The two faces of a Rust string: the bytes that travel and the characters the code looks at.
  \<open>utf8_chars\<close> of \<open>ClipFile\<close> reads the characters; \<open>utf8_encode\<close> is the way back. They are inverse
  to each other on text, and the characters of a concatenation are the characters of its parts.
\<close>

definition is_char :: "rchar \<Rightarrow> bool" where
  "is_char c = (c < 0xD800 \<or> (0xE000 \<le> c \<and> c < 0x110000))"

definition char_bytes :: "rchar \<Rightarrow> bytes" where
  "char_bytes c =
     (if c < 0x80 then [of_nat c]
      else if c < 0x800 then [of_nat (0xC0 + c div 64), of_nat (0x80 + c mod 64)]
      else if c < 0x10000
      then [of_nat (0xE0 + c div 4096), of_nat (0x80 + c div 64 mod 64), of_nat (0x80 + c mod 64)]
      else [of_nat (0xF0 + c div 262144), of_nat (0x80 + c div 4096 mod 64),
            of_nat (0x80 + c div 64 mod 64), of_nat (0x80 + c mod 64)])"

definition utf8_encode :: "ustring \<Rightarrow> bytes" where
  "utf8_encode s = concat (map char_bytes s)"

lemma utf8_encode_simps [simp]:
  "utf8_encode [] = []"
  "utf8_encode (c # s) = char_bytes c @ utf8_encode s"
  "utf8_encode (s @ t) = utf8_encode s @ utf8_encode t"
  by (simp_all add: utf8_encode_def)

lemma char_bytes_nonempty [simp]: "char_bytes c \<noteq> []"
  by (simp add: char_bytes_def)

section \<open>One character\<close>

lemma byte_num:
  assumes "n < 256"
  shows "(of_nat n :: u8) < numeral k \<longleftrightarrow> n < unat (numeral k :: u8)"
    "(numeral k :: u8) \<le> of_nat n \<longleftrightarrow> unat (numeral k :: u8) \<le> n"
    "(of_nat n :: u8) \<le> numeral k \<longleftrightarrow> n \<le> unat (numeral k :: u8)"
    "(of_nat n :: u8) = numeral k \<longleftrightarrow> n = unat (numeral k :: u8)"
    "unat (of_nat n :: u8) = n"
proof -
  have u: "unat (of_nat n :: u8) = n" using assms by (simp add: unat_of_nat)
  show "unat (of_nat n :: u8) = n" by (fact u)
  show "(of_nat n :: u8) < numeral k \<longleftrightarrow> n < unat (numeral k :: u8)"
    "(numeral k :: u8) \<le> of_nat n \<longleftrightarrow> unat (numeral k :: u8) \<le> n"
    "(of_nat n :: u8) \<le> numeral k \<longleftrightarrow> n \<le> unat (numeral k :: u8)"
    "(of_nat n :: u8) = numeral k \<longleftrightarrow> n = unat (numeral k :: u8)"
    unfolding word_less_nat_alt word_le_nat_alt word_unat_eq_iff u by (rule refl)+
qed

lemma is_cont_of_nat: "n < 64 \<Longrightarrow> is_cont (of_nat (0x80 + n))"
  unfolding is_cont_def
  using byte_num(2) [of "0x80 + n"] byte_num(3) [of "0x80 + n"] by (simp del: of_nat_add)

text \<open>A code point is put together from its groups of six bits.\<close>

lemma sextets:
  fixes c :: nat
  shows "c = c div 64 * 64 + c mod 64"
    "c = c div 4096 * 4096 + c div 64 mod 64 * 64 + c mod 64"
    "c = c div 262144 * 262144 + c div 4096 mod 64 * 4096 + c div 64 mod 64 * 64 + c mod 64"
proof -
  show one: "c = c div 64 * 64 + c mod 64" for c :: nat by simp
  have two: "c = (c div 64 div 64 * 64 + c div 64 mod 64) * 64 + c mod 64" for c :: nat by simp
  then show "c = c div 4096 * 4096 + c div 64 mod 64 * 64 + c mod 64"
    using one by (simp add: div_mult2_eq [symmetric] algebra_simps)
  have "c = ((c div 64 div 64 div 64 * 64 + c div 64 div 64 mod 64) * 64 + c div 64 mod 64) * 64 + c mod 64"
    by simp
  then show "c = c div 262144 * 262144 + c div 4096 mod 64 * 4096 + c div 64 mod 64 * 64 + c mod 64"
    by (simp add: div_mult2_eq [symmetric] algebra_simps)
qed

lemma low_bits:
  fixes n :: nat
  shows "n < 64 \<Longrightarrow> (0x80 + n) mod 64 = n" "n < 32 \<Longrightarrow> (0xC0 + n) mod 32 = n"
    "n < 16 \<Longrightarrow> (0xE0 + n) mod 16 = n" "n < 8 \<Longrightarrow> (0xF0 + n) mod 8 = n"
  by (intro mod_nat_eqI; simp)+

text \<open>The four shapes.\<close>

lemma char_shapes:
  obtains "c < 0x80" "char_bytes c = [of_nat c]"
  | "0x80 \<le> c" "c < 0x800" "char_bytes c = [of_nat (0xC0 + c div 64), of_nat (0x80 + c mod 64)]"
  | "0x800 \<le> c" "c < 0x10000"
    "char_bytes c = [of_nat (0xE0 + c div 4096), of_nat (0x80 + c div 64 mod 64), of_nat (0x80 + c mod 64)]"
  | "0x10000 \<le> c"
    "char_bytes c = [of_nat (0xF0 + c div 262144), of_nat (0x80 + c div 4096 mod 64),
       of_nat (0x80 + c div 64 mod 64), of_nat (0x80 + c mod 64)]"
  unfolding char_bytes_def by (cases "c < 0x80"; cases "c < 0x800"; cases "c < 0x10000") auto

lemma utf8_next_char:
  assumes "is_char c"
  shows "utf8_next (char_bytes c @ r) = Whole (length (char_bytes c))"
proof (cases c rule: char_shapes)
  case 1
  then show ?thesis by (simp add: utf8_next.simps(2) utf8_width_def byte_num)
next
  case 2
  then have h: "0xC2 \<le> 0xC0 + c div 64" "0xC0 + c div 64 \<le> 0xDF" by linarith+
  have "utf8_width (of_nat (0xC0 + c div 64)) = 2"
    using h by (simp add: utf8_width_def byte_num del: of_nat_add)
  then show ?thesis
    using 2 is_cont_of_nat [of "c mod 64"] by (simp add: utf8_next.simps(2) del: of_nat_add)
next
  case 3
  then have h: "0xE0 \<le> 0xE0 + c div 4096" "0xE0 + c div 4096 \<le> 0xEF" by linarith+
  have w: "utf8_width (of_nat (0xE0 + c div 4096)) = 3"
    using h by (simp add: utf8_width_def byte_num del: of_nat_add)
  have "second_of_three (of_nat (0xE0 + c div 4096)) (of_nat (0x80 + c div 64 mod 64))"
  proof -
    have "c div 4096 = 0 \<Longrightarrow> 32 \<le> c div 64 mod 64" "c div 4096 = 13 \<Longrightarrow> c div 64 mod 64 \<le> 31"
      using sextets(2) [of c] 3 assms mod_less_divisor [of 64 c] mod_less_divisor [of 64 "c div 64"]
      by (auto simp: is_char_def)
    moreover have "c div 4096 = 0 \<Longrightarrow> c div 64 \<le> 63" by linarith
    ultimately show ?thesis
      using h is_cont_of_nat [of "c div 64 mod 64"]
      by (simp add: second_of_three_def byte_num del: of_nat_add)
  qed
  then show ?thesis
    using 3 w is_cont_of_nat [of "c mod 64"] by (simp add: utf8_next.simps(2) del: of_nat_add)
next
  case 4
  then have h: "0xF0 \<le> 0xF0 + c div 262144" "0xF0 + c div 262144 \<le> 0xF4"
    using assms unfolding is_char_def by linarith+
  have w: "utf8_width (of_nat (0xF0 + c div 262144)) = 4"
    using h by (simp add: utf8_width_def byte_num del: of_nat_add)
  have "second_of_four (of_nat (0xF0 + c div 262144)) (of_nat (0x80 + c div 4096 mod 64))"
  proof -
    have "c div 262144 = 0 \<Longrightarrow> 16 \<le> c div 4096 mod 64" "c div 262144 = 4 \<Longrightarrow> c div 4096 mod 64 \<le> 15"
      using sextets(3) [of c] 4 assms mod_less_divisor [of 64 c] mod_less_divisor [of 64 "c div 64"]
      by (auto simp: is_char_def)
    moreover have "c div 262144 = 0 \<Longrightarrow> c div 4096 \<le> 63" by linarith
    ultimately show ?thesis
      using h is_cont_of_nat [of "c div 4096 mod 64"]
      by (simp add: second_of_four_def byte_num del: of_nat_add)
  qed
  then show ?thesis
    using 4 w is_cont_of_nat [of "c mod 64"] is_cont_of_nat [of "c div 64 mod 64"]
    by (simp add: utf8_next.simps(2) del: of_nat_add)
qed

lemma utf8_chars_char:
  assumes "is_char c"
  shows "utf8_chars (char_bytes c @ r) = c # utf8_chars r"
proof (cases c rule: char_shapes)
  case 1
  then show ?thesis by (simp add: utf8_chars.simps [of "of_nat c # r"] byte_num)
next
  case 2
  then have h: "0xC0 + c div 64 < 0xE0" "c div 64 < 32" by linarith+
  show ?thesis
    unfolding 2(3) append_Cons append_Nil
    by (subst utf8_chars.simps)
      (use h in \<open>simp add: cont_bits_def byte_num low_bits sextets(1) [symmetric] del: of_nat_add\<close>)
next
  case 3
  then have h: "0xE0 + c div 4096 < 0xF0" "c div 4096 < 16" by linarith+
  show ?thesis
    unfolding 3(3) append_Cons append_Nil
    by (subst utf8_chars.simps)
      (use h in \<open>simp add: cont_bits_def byte_num low_bits sextets(2) [symmetric] del: of_nat_add\<close>)
next
  case 4
  then have h: "0xF0 + c div 262144 < 256" "c div 262144 < 8"
    using assms unfolding is_char_def by linarith+
  show ?thesis
    unfolding 4(2) append_Cons append_Nil
    by (subst utf8_chars.simps)
      (use h in \<open>simp add: cont_bits_def byte_num low_bits sextets(3) [symmetric] del: of_nat_add\<close>)
qed

section \<open>Strings\<close>

lemma utf8_chars_Nil [simp]: "utf8_chars [] = []"
  by (simp add: utf8_chars.simps)

lemma utf8_chars_encode_append:
  "list_all is_char s \<Longrightarrow> utf8_chars (utf8_encode s @ r) = s @ utf8_chars r"
  by (induction s) (simp_all add: utf8_chars_char)

lemma utf8_chars_encode: "list_all is_char s \<Longrightarrow> utf8_chars (utf8_encode s) = s"
  using utf8_chars_encode_append [of s "[]"] by simp

lemma utf8_valid_encode: "list_all is_char s \<Longrightarrow> utf8_valid (utf8_encode s)"
proof (induction s)
  case (Cons c s)
  then show ?case
    using utf8_next_char [of c "utf8_encode s"] by (simp add: utf8_valid_iff)
qed simp

lemma utf8_next_width: "utf8_next (b # r) = Whole n \<Longrightarrow> n = utf8_width b \<and> n \<noteq> 0"
  by (auto simp: utf8_next.simps(2) split: if_splits list.splits)

lemma width_bounds:
  "utf8_width b = Suc 0 \<Longrightarrow> b < 0x80"
  "utf8_width b = 2 \<Longrightarrow> \<not> b < 0x80 \<and> b < 0xE0"
  "utf8_width b = 3 \<Longrightarrow> \<not> b < 0x80 \<and> \<not> b < 0xE0 \<and> b < 0xF0"
  "utf8_width b = 4 \<Longrightarrow> \<not> b < 0x80 \<and> \<not> b < 0xE0 \<and> \<not> b < 0xF0"
  by (auto simp: utf8_width_def word_less_nat_alt word_le_nat_alt split: if_splits)

lemma utf8_chars_whole:
  assumes "utf8_next bs = Whole n"
  shows "utf8_chars bs = utf8_chars (take n bs) @ utf8_chars (drop n bs)"
proof -
  obtain b r where bs: "bs = b # r" using assms by (cases bs) auto
  have n: "n = utf8_width b" "n \<noteq> 0" "n \<le> 4" "n \<le> length bs"
    using utf8_next_width assms utf8_next_Whole [OF assms] bs by auto
  then consider "n = Suc 0" | "n = 2" | "n = 3" | "n = 4" by linarith
  then show ?thesis
  proof cases
    case 1
    then show ?thesis using n width_bounds(1) [of b] bs
      by (simp add: utf8_chars.simps [of "b # t" for t])
  next
    case 2
    then obtain b1 t where r: "r = [b1] @ t" using n bs by (cases r) auto
    show ?thesis using n 2 width_bounds(2) [of b] bs r
      by (simp add: utf8_chars.simps [of "b # t" for t] cont_bits_def)
  next
    case 3
    then obtain b1 b2 t where r: "r = [b1, b2] @ t" using n bs by (cases r rule: list_upto4) auto
    show ?thesis using n 3 width_bounds(3) [of b] bs r
      by (simp add: utf8_chars.simps [of "b # t" for t] cont_bits_def)
  next
    case 4
    then obtain b1 b2 b3 t where r: "r = [b1, b2, b3] @ t" using n bs by (cases bs rule: list_upto4) auto
    show ?thesis using n 4 width_bounds(4) [of b] bs r
      by (simp add: utf8_chars.simps [of "b # t" for t] cont_bits_def)
  qed
qed

lemma utf8_chars_append: "utf8_valid a \<Longrightarrow> utf8_chars (a @ b) = utf8_chars a @ utf8_chars b"
proof (induction a rule: length_induct)
  case (1 a)
  show ?case
  proof (cases "a = []")
    case False
    then obtain n where n: "utf8_next a = Whole n" "utf8_valid (drop n a)"
      using 1 utf8_valid_iff by blast
    have len: "1 \<le> n" "n \<le> length a" using utf8_next_Whole [OF n(1)] by simp_all
    have "utf8_chars (drop n a @ b) = utf8_chars (drop n a) @ utf8_chars b"
      using 1 n False len by simp
    moreover have "utf8_next (a @ b) = Whole n" using utf8_next_append [of a b] n(1) by simp
    ultimately show ?thesis
      using utf8_chars_whole [OF n(1)] utf8_chars_whole [of "a @ b" n] len by simp
  qed simp
qed

end
