(* ===== verification/ExecHelpers.thy ===== *)
theory ExecHelpers
  imports Text
begin

text \<open>
  \<open>crates/wiredesk-exec-core/src/helpers.rs\<close>: the payload that brackets a command between two
  markers, the recognition of the markers, of prompts and of echoes, the removal of terminal
  escapes, and the exit code carried inside a compressed stream. The run's uuid is its printed
  text; base64 and gzip are third-party and enter as parameters.
\<close>

section \<open>Types\<close>

datatype shell_kind = PowerShell | Bash

datatype exec_error =
    ExTransport string
  | ExClosed
  | ExTimeout rstring
  | ExCompressionFailed string

section \<open>Payloads\<close>

definition READY_MARK :: "ustring \<Rightarrow> ustring" where
  "READY_MARK u = lit ''__WD_READY_'' @ u @ lit ''__''"

definition DONE_MARK :: "ustring \<Rightarrow> ustring" where
  "DONE_MARK u = lit ''__WD_DONE_'' @ u @ lit ''__''"

abbreviation NL :: rchar where "NL \<equiv> 10"
abbreviation CR :: rchar where "CR \<equiv> 13"
abbreviation QUOTE :: rchar where "QUOTE \<equiv> 34"

definition terminate_multiline_ps :: "ustring \<Rightarrow> ustring" where
  "terminate_multiline_ps payload =
     (if NL \<in> set (trim_end_matches (\<lambda>c. c = NL) payload) then payload @ [NL] else payload)"

definition format_command :: "ustring \<Rightarrow> shell_kind \<Rightarrow> ustring \<Rightarrow> ustring" where
  "format_command u kind cmd =
     (case kind of
        PowerShell \<Rightarrow> terminate_multiline_ps
          (lit ''$LASTEXITCODE=0; $ErrorActionPreference='Stop'; Write-Output '' @ [QUOTE]
           @ READY_MARK u @ [QUOTE] @ lit ''; try { '' @ cmd @ lit '' } catch { $LASTEXITCODE=1 }; ''
           @ [QUOTE] @ DONE_MARK u @ lit ''$LASTEXITCODE'' @ [QUOTE, NL])
      | Bash \<Rightarrow>
          lit ''echo '' @ READY_MARK u @ lit ''; '' @ cmd @ lit ''; echo '' @ [QUOTE]
          @ DONE_MARK u @ lit ''$?'' @ [QUOTE, NL])"

definition format_compressed_command :: "ustring \<Rightarrow> shell_kind \<Rightarrow> ustring \<Rightarrow> ustring" where
  "format_compressed_command u kind cmd =
     (case kind of
        Bash \<Rightarrow>
          lit ''echo '' @ READY_MARK u @ lit ''; { '' @ cmd @ lit '' 2>&1; printf '' @ [QUOTE]
          @ lit ''__WD_RC__%s__'' @ [92, 110, QUOTE] @ lit '' '' @ [QUOTE] @ lit ''$?'' @ [QUOTE]
          @ lit ''; } | gzip -c | base64; echo; echo '' @ [QUOTE] @ DONE_MARK u @ lit ''0'' @ [QUOTE, NL]
      | PowerShell \<Rightarrow> terminate_multiline_ps
          (lit ''[Console]::OutputEncoding = [Text.Encoding]::UTF8; ''
           @ lit ''Write-Output '' @ [QUOTE] @ READY_MARK u @ [QUOTE] @ lit ''; ''
           @ lit ''$LASTEXITCODE=0; $ErrorActionPreference='Stop'; ''
           @ lit ''try { $out = & { '' @ cmd
           @ lit '' } 2>&1 | Out-String } catch { $out = $_.ToString(); $LASTEXITCODE=1 }; ''
           @ lit ''$rc = $LASTEXITCODE; ''
           @ lit ''$ms = New-Object System.IO.MemoryStream; ''
           @ lit ''$gz = New-Object System.IO.Compression.GZipStream($ms, [System.IO.Compression.CompressionMode]::Compress); ''
           @ lit ''$bytes = [Text.Encoding]::UTF8.GetBytes($out + '' @ [QUOTE] @ lit ''__WD_RC__'' @ [QUOTE]
           @ lit '' + $rc + '' @ [QUOTE] @ lit ''__'' @ [QUOTE] @ lit ''); ''
           @ lit ''$gz.Write($bytes, 0, $bytes.Length); $gz.Close(); ''
           @ lit ''Write-Output ([Convert]::ToBase64String($ms.ToArray())); ''
           @ lit ''Write-Output '' @ [QUOTE] @ DONE_MARK u @ lit ''0'' @ [QUOTE, NL]))"

section \<open>Terminal escapes\<close>

text \<open>The two inner loops of \<open>strip_ansi\<close>: past a CSI sequence and past an OSC string.\<close>

fun skip_csi :: "ustring \<Rightarrow> ustring" where
  "skip_csi [] = []"
| "skip_csi (c # cs) = (if is_ascii_alphabetic c then cs else skip_csi cs)"

fun skip_osc :: "ustring \<Rightarrow> ustring" where
  "skip_osc [] = []"
| "skip_osc (c # cs) =
     (if c = 7 then cs
      else if c = 27 \<and> cs \<noteq> [] \<and> hd cs = 92 then tl cs
      else skip_osc cs)"

lemma skip_csi_length: "length (skip_csi s) \<le> length s"
  by (induction s) auto

lemma skip_osc_length: "length (skip_osc s) \<le> length s"
  by (induction s rule: skip_osc.induct) auto

function strip_ansi :: "ustring \<Rightarrow> ustring" where
  "strip_ansi s =
     (case s of
        [] \<Rightarrow> []
      | c # cs \<Rightarrow>
          if c \<noteq> 27 then c # strip_ansi cs
          else (case cs of
                  [] \<Rightarrow> strip_ansi []
                | d # ds \<Rightarrow>
                    if d = 91 then strip_ansi (skip_csi ds)
                    else if d = 93 then strip_ansi (skip_osc ds)
                    else strip_ansi ds))"
  by pat_completeness auto
termination
  by (relation "measure length")
    (auto simp: less_Suc_eq_le intro: le_trans [OF skip_csi_length] le_trans [OF skip_osc_length])

declare strip_ansi.simps [simp del]

section \<open>Recognising lines\<close>

definition parse_ready :: "ustring \<Rightarrow> ustring \<Rightarrow> bool" where
  "parse_ready line u = (trim line = READY_MARK u)"

text \<open>\<open>str::rfind\<close> of a string: the last occurrence.\<close>

fun rfind_sub :: "'a list \<Rightarrow> 'a list \<Rightarrow> nat option" where
  "rfind_sub p [] = (if p = [] then Some 0 else None)"
| "rfind_sub p (c # cs) =
     (case rfind_sub p cs of
        Some i \<Rightarrow> Some (Suc i)
      | None \<Rightarrow> if str_prefix p (c # cs) then Some 0 else None)"

text \<open>\<open>parse::<i32>\<close>: an optional sign, digits, and the range of the type.\<close>

definition parse_i32 :: "ustring \<Rightarrow> i32 option" where
  "parse_i32 s =
     (let neg = (s \<noteq> [] \<and> hd s = 45);
          d = (if s \<noteq> [] \<and> (hd s = 45 \<or> hd s = 43) then tl s else s) in
      if d = [] \<or> \<not> list_all is_ascii_digit d then None
      else
        let v = (if neg then - int (digits_value d) else int (digits_value d)) in
        if - (2 ^ 31) \<le> v \<and> v < 2 ^ 31 then Some (word_of_int v) else None)"

definition parse_sentinel :: "ustring \<Rightarrow> ustring \<Rightarrow> i32 option" where
  "parse_sentinel line u =
     (let prefix = DONE_MARK u; trimmed = trim line in
      case rfind_sub prefix trimmed of
        None \<Rightarrow> None
      | Some pos \<Rightarrow>
          let rest = drop (pos + length prefix) trimmed in
          parse_i32 (takeWhile (\<lambda>c. is_ascii_digit c \<or> c = 45) rest))"

definition is_powershell_prompt :: "ustring \<Rightarrow> bool" where
  "is_powershell_prompt line =
     (let s = trim_end line; bytes = utf8_encode s in
      starts_with s (lit ''PS '') \<and> \<not> length bytes < 6
      \<and> \<not> (\<not> (65 \<le> bytes ! 3 \<and> bytes ! 3 \<le> 90) \<or> bytes ! 4 \<noteq> 58)
      \<and> ends_with s (lit ''>''))"

definition is_powershell_continuation :: "ustring \<Rightarrow> bool" where
  "is_powershell_continuation line = starts_with (trim_end_matches (\<lambda>c. c = CR) line) (lit ''>>'')"

definition is_remote_prompt :: "ustring \<Rightarrow> bool" where
  "is_remote_prompt line =
     (let s = trim_end line in
      s \<noteq> [] \<and> (ends_with s (lit ''$'') \<or> ends_with s (lit ''#'') \<or> ends_with s [0x279C]))"

section \<open>The transcript as a whole\<close>

definition find_index :: "('a \<Rightarrow> bool) \<Rightarrow> 'a list \<Rightarrow> nat option" where
  "find_index P xs =
     (let n = length (takeWhile (\<lambda>x. \<not> P x) xs) in if n < length xs then Some n else None)"

definition rfind_index :: "('a \<Rightarrow> bool) \<Rightarrow> 'a list \<Rightarrow> nat option" where
  "rfind_index P xs = map_option (\<lambda>i. length xs - Suc i) (find_index P (rev xs))"

fun join :: "ustring \<Rightarrow> ustring list \<Rightarrow> ustring" where
  "join sep [] = []"
| "join sep [x] = x"
| "join sep (x # y # xs) = x @ sep @ join sep (y # xs)"

definition echo_free :: "ustring \<Rightarrow> ustring \<Rightarrow> bool" where
  "echo_free u s =
     (\<not> (str_contains s (DONE_MARK u @ lit ''$'')
         \<or> str_contains s (lit ''echo '') \<and> str_contains s (READY_MARK u)))"

definition clean_stdout :: "ustring \<Rightarrow> ustring \<Rightarrow> ustring" where
  "clean_stdout buf u =
     (let ls = split_by (\<lambda>c. c = NL) buf;
          prefix = DONE_MARK u;
          sentinel = find_index (\<lambda>l. parse_sentinel l u \<noteq> None) ls;
          upper = (case sentinel of Some i \<Rightarrow> i | None \<Rightarrow> length ls);
          lower =
            (case find_index (\<lambda>l. parse_ready l u) (take upper ls) of
               Some i \<Rightarrow> i + 1
             | None \<Rightarrow>
                 (case rfind_index (\<lambda>l. is_powershell_prompt l \<or> is_remote_prompt l) (take upper ls) of
                    Some i \<Rightarrow> i + 1 | None \<Rightarrow> 0));
          kept = filter (echo_free u) (subslice ls lower upper);
          kept1 =
            (case sentinel of
               None \<Rightarrow> kept
             | Some i \<Rightarrow>
                 (case rfind_sub prefix (ls ! i) of
                    None \<Rightarrow> kept
                  | Some pos \<Rightarrow>
                      if pos > 0
                      then
                        let pre = trim_end_matches (\<lambda>c. c = CR) (take pos (ls ! i)) in
                        if pre \<noteq> [] \<and> echo_free u pre then kept @ [pre] else kept
                      else kept))
      in trim_end_matches (\<lambda>c. c = NL \<or> c = CR) (join [NL] kept1))"

section \<open>The compressed stream\<close>

definition RC_MARK :: bytes where
  "RC_MARK = blit ''__WD_RC__''"

text \<open>\<open>windows(n).rposition\<close> and \<open>windows(2).position\<close> are the last and the first occurrence.\<close>

definition extract_compressed_rc :: "bytes \<Rightarrow> bytes \<times> i32" where
  "extract_compressed_rc bs =
     (let search_start = length bs - 64; tail = drop search_start bs in
      case rfind_sub RC_MARK tail of
        None \<Rightarrow> (bs, 0)
      | Some p \<Rightarrow>
          let abs_pos = search_start + p; after = drop (abs_pos + length RC_MARK) bs in
          (case find_sub (blit ''__'') after of
             None \<Rightarrow> (bs, 0)
           | Some end_pos \<Rightarrow>
               let rc_str = take end_pos after in
               if \<not> utf8_valid rc_str then (bs, 0)
               else (case parse_i32 (utf8_chars rc_str) of
                       None \<Rightarrow> (bs, 0)
                     | Some rc \<Rightarrow> (take abs_pos bs, rc))))"

definition decode_compressed_stream ::
  "(bytes \<Rightarrow> string + bytes) \<Rightarrow> (bytes \<Rightarrow> string + bytes) \<Rightarrow> ustring \<Rightarrow> exec_error + bytes" where
  "decode_compressed_stream base64 gunzip input =
     (let stripped = filter (\<lambda>c. \<not> is_whitespace c) input in
      if stripped = [] then Inl (ExCompressionFailed ''empty input'')
      else case base64 (utf8_encode stripped) of
        Inl e \<Rightarrow> Inl (ExCompressionFailed (''base64: '' @ e))
      | Inr raw \<Rightarrow>
          (case gunzip raw of
             Inl e \<Rightarrow> Inl (ExCompressionFailed (''gzip: '' @ e))
           | Inr out \<Rightarrow> Inr out))"

end
