(* ===== verification/ExecRunner.thy ===== *)
theory ExecRunner
  imports ExecHelpers
begin

text \<open>
  \<open>crates/wiredesk-exec-core/src/runner.rs\<close>: \<open>run_oneshot\<close>, which drives one command to its
  sentinel. The transport is the pair of methods of \<open>ExecTransport\<close> as the runner sees them: what
  was sent, and scripts of the answers with the time each call took; a transport with nothing
  left to deliver answers \<open>Idle\<close> after the tick it was given. Text is decoded incrementally and
  handled as characters; what reaches the caller's callback is bytes again.
\<close>

section \<open>State\<close>

datatype exec_event =
    EvShellOutput bytes
  | EvShellExit i32
  | EvShellClosed
  | EvHostError rstring
  | EvIdle

datatype one_shot_state = AwaitingRemotePrompt | AwaitingSentinel

datatype phase = Mute | MuteNoise | Streaming

record exec_wire =
  ew_sent :: "bytes list"
  ew_send_script :: "(nat \<times> exec_error option) list"
  ew_events :: "(nat \<times> (exec_error + exec_event)) list"
  ew_now :: nat

record runner =
  rn_wire :: exec_wire
  rn_state :: one_shot_state
  rn_phase :: phase
  rn_pending :: ustring
  rn_scanned :: nat
  rn_full_log :: bytes
  rn_utf8 :: utf8_stream
  rn_compress_buf :: ustring
  rn_chunks :: "bytes list"

text \<open>What does not change during a run.\<close>

record run_ctx =
  xc_uuid :: ustring
  xc_payload :: ustring
  xc_compress :: bool
  xc_base64 :: "bytes \<Rightarrow> string + bytes"
  xc_gunzip :: "bytes \<Rightarrow> string + bytes"

definition RECV_TICK :: nat where "RECV_TICK = 100"
definition TIMEOUT_LOG_TAIL :: nat where "TIMEOUT_LOG_TAIL = 8 * 1024"

section \<open>The transport\<close>

definition wire_send :: "bytes \<Rightarrow> exec_wire \<Rightarrow> exec_error option \<times> exec_wire" where
  "wire_send data w =
     (let w1 = w\<lparr>ew_sent := ew_sent w @ [data]\<rparr> in
      case ew_send_script w of
        [] \<Rightarrow> (None, w1)
      | (d, r) # script \<Rightarrow> (r, w1\<lparr>ew_send_script := script, ew_now := ew_now w + d\<rparr>))"

definition wire_recv :: "exec_wire \<Rightarrow> (exec_error + exec_event) \<times> exec_wire" where
  "wire_recv w =
     (case ew_events w of
        [] \<Rightarrow> (Inr EvIdle, w\<lparr>ew_now := ew_now w + RECV_TICK\<rparr>)
      | (d, r) # evs \<Rightarrow> (r, w\<lparr>ew_events := evs, ew_now := ew_now w + d\<rparr>))"

section \<open>Helpers\<close>

text \<open>\<open>str::is_char_boundary\<close>.\<close>

definition is_char_boundary :: "bytes \<Rightarrow> nat \<Rightarrow> bool" where
  "is_char_boundary b i = (i = 0 \<or> i = length b \<or> (i < length b \<and> \<not> is_cont (b ! i)))"

definition push_bounded_tail :: "bytes \<Rightarrow> bytes \<Rightarrow> nat \<Rightarrow> bytes" where
  "push_bounded_tail buf text cap =
     (let b = buf @ text in
      if length b \<le> cap then b
      else
        let want = length b - cap;
            cut = (case find (is_char_boundary b) [want ..< length b + 1] of
                     Some i \<Rightarrow> i | None \<Rightarrow> length b)
        in drop cut b)"

definition is_echo_line :: "ustring \<Rightarrow> ustring \<Rightarrow> bool" where
  "is_echo_line u s =
     (str_contains s (DONE_MARK u @ lit ''$'')
      \<or> (str_contains s (READY_MARK u) \<and> trim s \<noteq> READY_MARK u))"

definition looks_like_base64 :: "ustring \<Rightarrow> bool" where
  "looks_like_base64 s =
     (let t = trim s in
      t \<noteq> [] \<and> list_all (\<lambda>b. is_ascii_alphanumeric (unat b) \<or> b = 43 \<or> b = 47 \<or> b = 61)
        (utf8_encode t))"

definition emit :: "bytes \<Rightarrow> runner \<Rightarrow> runner" where
  "emit chunk r = r\<lparr>rn_chunks := rn_chunks r @ [chunk]\<rparr>"

text \<open>Where a line of output goes: the callback, or the base64 buffer.\<close>

definition put_line :: "run_ctx \<Rightarrow> ustring \<Rightarrow> runner \<Rightarrow> runner" where
  "put_line ctx line r =
     (if xc_compress ctx
      then (if looks_like_base64 line
            then r\<lparr>rn_compress_buf := rn_compress_buf r @ trim line @ [NL]\<rparr> else r)
      else emit (utf8_encode (line @ [NL])) r)"

section \<open>One line\<close>

text \<open>The sentinel: first what it is glued to, then the end of the run.\<close>

definition on_sentinel :: "run_ctx \<Rightarrow> ustring \<Rightarrow> i32 \<Rightarrow> runner \<Rightarrow> (exec_error + i32) \<times> runner" where
  "on_sentinel ctx line code r =
     (let r1 =
        (case rfind_sub (DONE_MARK (xc_uuid ctx)) line of
           None \<Rightarrow> r
         | Some pos \<Rightarrow>
             if pos > 0
             then
               let pre = trim_end_matches (\<lambda>c. c = CR) (take pos line) in
               if pre \<noteq> [] \<and> \<not> is_echo_line (xc_uuid ctx) pre then put_line ctx pre r else r
             else r)
      in if xc_compress ctx \<and> rn_compress_buf r1 \<noteq> []
         then (case decode_compressed_stream (xc_base64 ctx) (xc_gunzip ctx) (rn_compress_buf r1) of
                 Inl e \<Rightarrow> (Inl e, r1)
               | Inr decoded \<Rightarrow>
                   let (clean, in_band_rc) = extract_compressed_rc decoded in
                   (Inr in_band_rc, if clean \<noteq> [] then emit clean r1 else r1))
         else (Inr code, r1))"

text \<open>A line that is not the sentinel.\<close>

definition on_text_line :: "run_ctx \<Rightarrow> ustring \<Rightarrow> runner \<Rightarrow> runner" where
  "on_text_line ctx line r =
     (if parse_ready line (xc_uuid ctx) then r\<lparr>rn_phase := Streaming\<rparr>
      else if rn_phase r = Mute then r
      else if rn_phase r = MuteNoise
          \<and> (trim line = [] \<or> is_powershell_prompt line \<or> is_powershell_continuation line
             \<or> is_remote_prompt line) then r
      else if (is_powershell_prompt line \<or> is_remote_prompt line)
          \<and> \<not> is_echo_line (xc_uuid ctx) line then r
      else if \<not> is_echo_line (xc_uuid ctx) line then put_line ctx line r
      else r)"

definition send_payload :: "run_ctx \<Rightarrow> runner \<Rightarrow> exec_error option \<times> runner" where
  "send_payload ctx r =
     (let (e, w) = wire_send (utf8_encode (xc_payload ctx)) (rn_wire r) in
      (e, if e = None then r\<lparr>rn_wire := w, rn_state := AwaitingSentinel\<rparr> else r\<lparr>rn_wire := w\<rparr>))"

text \<open>\<open>None\<close>: go on; \<open>Some\<close>: the run's result.\<close>

definition on_line :: "run_ctx \<Rightarrow> ustring \<Rightarrow> runner \<Rightarrow> (exec_error + i32) option \<times> runner" where
  "on_line ctx raw_line r =
     (let line = trim_end_matches (\<lambda>c. c = CR) raw_line in
      case rn_state r of
        AwaitingRemotePrompt \<Rightarrow>
          if is_remote_prompt (trim_end (strip_ansi line))
          then (let (e, r1) = send_payload ctx r in (map_option Inl e, r1))
          else (None, r)
      | AwaitingSentinel \<Rightarrow>
          (case (if rn_phase r = Streaming \<and> \<not> is_echo_line (xc_uuid ctx) line
                 then parse_sentinel line (xc_uuid ctx) else None) of
             Some code \<Rightarrow> (let (res, r1) = on_sentinel ctx line code r in (Some res, r1))
           | None \<Rightarrow> (None, on_text_line ctx line r)))"

text \<open>A line never touches what has been received.\<close>

definition keeps_input :: "runner \<Rightarrow> runner \<Rightarrow> bool" where
  "keeps_input r t \<longleftrightarrow> rn_pending t = rn_pending r \<and> rn_scanned t = rn_scanned r
     \<and> rn_full_log t = rn_full_log r \<and> rn_utf8 t = rn_utf8 r
     \<and> ew_events (rn_wire t) = ew_events (rn_wire r) \<and> ew_now (rn_wire r) \<le> ew_now (rn_wire t)"

lemma keeps_input_refl [simp]: "keeps_input r r"
  by (simp add: keeps_input_def)

lemma keeps_input_trans: "keeps_input r s \<Longrightarrow> keeps_input s t \<Longrightarrow> keeps_input r t"
  by (simp add: keeps_input_def)

lemma put_line_keeps: "keeps_input r (put_line ctx line r)"
  by (simp add: put_line_def emit_def keeps_input_def)

lemma on_text_line_keeps: "keeps_input r (on_text_line ctx line r)"
  unfolding on_text_line_def using put_line_keeps [of r] by (simp add: keeps_input_def)

lemma send_payload_keeps: "keeps_input r (snd (send_payload ctx r))"
  by (auto simp: send_payload_def wire_send_def keeps_input_def Let_def split: list.split prod.split)

lemma on_sentinel_keeps: "keeps_input r (snd (on_sentinel ctx line code r))"
proof -
  define r1 where "r1 = (case rfind_sub (DONE_MARK (xc_uuid ctx)) line of
           None \<Rightarrow> r
         | Some pos \<Rightarrow>
             if pos > 0
             then
               let pre = trim_end_matches (\<lambda>c. c = CR) (take pos line) in
               if pre \<noteq> [] \<and> \<not> is_echo_line (xc_uuid ctx) pre then put_line ctx pre r else r
             else r)"
  have "keeps_input r r1"
    by (simp add: r1_def Let_def put_line_keeps split: option.split)
  moreover have "keeps_input r1 (emit c r1)" for c by (simp add: emit_def keeps_input_def)
  ultimately show ?thesis
    unfolding on_sentinel_def Let_def r1_def [unfolded Let_def, symmetric]
    by (auto intro: keeps_input_trans split: sum.split prod.split)
qed

lemma on_line_keeps: "keeps_input r (snd (on_line ctx line r))"
proof (cases "rn_state r")
  case AwaitingRemotePrompt
  then show ?thesis using send_payload_keeps [of r ctx] by (simp add: on_line_def Let_def case_prod_beta)
next
  case AwaitingSentinel
  then show ?thesis
    using on_sentinel_keeps on_text_line_keeps
    by (simp add: on_line_def Let_def case_prod_beta split: option.split)
qed

section \<open>The lines of a packet\<close>

lemma find_index_less: "find_index P xs = Some i \<Longrightarrow> i < length xs"
  by (auto simp: find_index_def Let_def split: if_splits)

lemma line_taken_shrinks:
  assumes "find_index P (drop (rn_scanned r) (rn_pending r)) = Some rel"
    and "(res, t) = on_line ctx line
      (r\<lparr>rn_scanned := 0, rn_pending := drop (Suc (rn_scanned r + rel)) (rn_pending r)\<rparr>)"
  shows "length (rn_pending t) < length (rn_pending r)"
proof -
  have "t = snd (on_line ctx line
      (r\<lparr>rn_scanned := 0, rn_pending := drop (Suc (rn_scanned r + rel)) (rn_pending r)\<rparr>))"
    using assms(2) by (metis snd_conv)
  then have "rn_pending t = drop (Suc (rn_scanned r + rel)) (rn_pending r)"
    using on_line_keeps [of _ ctx line] by (simp add: keeps_input_def)
  then show ?thesis using find_index_less [OF assms(1)] by simp
qed

function walk_lines :: "run_ctx \<Rightarrow> runner \<Rightarrow> (exec_error + i32) option \<times> runner" where
  "walk_lines ctx r =
     (case find_index (\<lambda>c. c = NL) (drop (rn_scanned r) (rn_pending r)) of
        None \<Rightarrow> (None, r)
      | Some rel \<Rightarrow>
          let nl_idx = rn_scanned r + rel;
              raw_line = take nl_idx (rn_pending r);
              r1 = r\<lparr>rn_scanned := 0, rn_pending := drop (nl_idx + 1) (rn_pending r)\<rparr>
          in case on_line ctx raw_line r1 of
               (Some res, r2) \<Rightarrow> (Some res, r2)
             | (None, r2) \<Rightarrow> walk_lines ctx r2)"
  by pat_completeness auto
termination
  by (relation "measure (\<lambda>(ctx, r). length (rn_pending r))") (auto intro: line_taken_shrinks)

declare walk_lines.simps [simp del]

text \<open>Remote prompts come without a newline: the rest of the pending text is looked at too.\<close>

definition peek_prompt :: "run_ctx \<Rightarrow> runner \<Rightarrow> exec_error option \<times> runner" where
  "peek_prompt ctx r =
     (if rn_state r = AwaitingRemotePrompt
         \<and> is_remote_prompt (trim_end (strip_ansi (rn_pending r)))
      then (let (e, r1) = send_payload ctx r in
            (e, if e = None then r1\<lparr>rn_pending := [], rn_scanned := 0\<rparr> else r1))
      else (None, r))"

definition take_output :: "bytes \<Rightarrow> runner \<Rightarrow> runner" where
  "take_output data r =
     (let (text, st) = utf8_push (rn_utf8 r) data in
      r\<lparr>rn_utf8 := st, rn_pending := rn_pending r @ utf8_chars text,
        rn_full_log := push_bounded_tail (rn_full_log r) text TIMEOUT_LOG_TAIL\<rparr>)"

definition after_event :: "run_ctx \<Rightarrow> runner \<Rightarrow> (exec_error + i32) option \<times> runner" where
  "after_event ctx r =
     (case walk_lines ctx r of
        (Some res, r1) \<Rightarrow> (Some res, r1)
      | (None, r1) \<Rightarrow>
          (case peek_prompt ctx (r1\<lparr>rn_scanned := length (rn_pending r1)\<rparr>) of
             (Some e, r2) \<Rightarrow> (Some (Inl e), r2)
           | (None, r2) \<Rightarrow> (None, r2)))"

definition on_event :: "run_ctx \<Rightarrow> exec_event \<Rightarrow> runner \<Rightarrow> (exec_error + i32) option \<times> runner" where
  "on_event ctx ev r =
     (case ev of
        EvShellOutput data \<Rightarrow> after_event ctx (take_output data r)
      | EvShellClosed \<Rightarrow> (None, r)
      | EvShellExit code \<Rightarrow> (Some (Inr code), r)
      | EvHostError msg \<Rightarrow> after_event ctx r
      | EvIdle \<Rightarrow> after_event ctx r)"

section \<open>The run\<close>

lemma walk_lines_wire:
  "ew_events (rn_wire (snd (walk_lines ctx r))) = ew_events (rn_wire r)
   \<and> ew_now (rn_wire r) \<le> ew_now (rn_wire (snd (walk_lines ctx r)))
   \<and> rn_full_log (snd (walk_lines ctx r)) = rn_full_log r \<and> rn_utf8 (snd (walk_lines ctx r)) = rn_utf8 r"
proof (induction ctx r rule: walk_lines.induct)
  case (1 ctx r)
  show ?case
  proof (cases "find_index (\<lambda>c. c = NL) (drop (rn_scanned r) (rn_pending r))")
    case None
    then show ?thesis by (simp add: walk_lines.simps [of ctx r])
  next
    case (Some rel)
    define r1 where "r1 = r\<lparr>rn_scanned := 0, rn_pending := drop (rn_scanned r + rel + 1) (rn_pending r)\<rparr>"
    obtain res r2 where ol: "on_line ctx (take (rn_scanned r + rel) (rn_pending r)) r1 = (res, r2)"
      by (cases "on_line ctx (take (rn_scanned r + rel) (rn_pending r)) r1")
    have k: "keeps_input r1 r2" using on_line_keeps [of r1] ol by (metis snd_conv)
    then have w: "ew_events (rn_wire r2) = ew_events (rn_wire r)" "ew_now (rn_wire r) \<le> ew_now (rn_wire r2)"
      "rn_full_log r2 = rn_full_log r" "rn_utf8 r2 = rn_utf8 r"
      by (simp_all add: keeps_input_def r1_def)
    show ?thesis
    proof (cases res)
      case None
      then show ?thesis
        using "1.IH" [OF Some refl refl r1_def ol [symmetric] None] Some ol w
        by (simp add: walk_lines.simps [of ctx r] r1_def)
    next
      case (Some x)
      then show ?thesis
        using \<open>find_index _ _ = Some rel\<close> ol w by (simp add: walk_lines.simps [of ctx r] r1_def)
    qed
  qed
qed

lemma peek_prompt_wire:
  "ew_events (rn_wire (snd (peek_prompt ctx r))) = ew_events (rn_wire r)
   \<and> ew_now (rn_wire r) \<le> ew_now (rn_wire (snd (peek_prompt ctx r)))
   \<and> rn_full_log (snd (peek_prompt ctx r)) = rn_full_log r \<and> rn_utf8 (snd (peek_prompt ctx r)) = rn_utf8 r"
  using send_payload_keeps [of r ctx] by (simp add: peek_prompt_def case_prod_beta keeps_input_def)

lemma after_event_wire:
  "ew_events (rn_wire (snd (after_event ctx r))) = ew_events (rn_wire r)
   \<and> ew_now (rn_wire r) \<le> ew_now (rn_wire (snd (after_event ctx r)))
   \<and> rn_full_log (snd (after_event ctx r)) = rn_full_log r \<and> rn_utf8 (snd (after_event ctx r)) = rn_utf8 r"
proof -
  obtain a r1 where w: "walk_lines ctx r = (a, r1)" by (cases "walk_lines ctx r")
  let ?r1 = "r1\<lparr>rn_scanned := length (rn_pending r1)\<rparr>"
  obtain b r2 where p: "peek_prompt ctx ?r1 = (b, r2)" by (cases "peek_prompt ctx ?r1")
  show ?thesis
    using walk_lines_wire [of ctx r] peek_prompt_wire [of ctx ?r1] w p
    by (cases a; cases b) (simp_all add: after_event_def)
qed

lemma on_event_wire:
  "ew_events (rn_wire (snd (on_event ctx ev r))) = ew_events (rn_wire r)
   \<and> ew_now (rn_wire r) \<le> ew_now (rn_wire (snd (on_event ctx ev r)))"
proof (cases ev)
  case (EvShellOutput data)
  have "rn_wire (take_output data r) = rn_wire r" by (simp add: take_output_def case_prod_beta)
  then show ?thesis
    using EvShellOutput after_event_wire [of ctx "take_output data r"] by (simp add: on_event_def)
qed (use after_event_wire [of ctx r] in \<open>simp_all add: on_event_def\<close>)

text \<open>Out of time: what the decoder still holds goes into the log the error carries.\<close>

definition timed_out :: "runner \<Rightarrow> (exec_error + i32) \<times> runner" where
  "timed_out r =
     (let (tail, st) = utf8_finish (rn_utf8 r);
          log = push_bounded_tail (rn_full_log r) tail TIMEOUT_LOG_TAIL
      in (Inl (ExTimeout log), r\<lparr>rn_utf8 := st, rn_full_log := log\<rparr>))"

function run_loop :: "run_ctx \<Rightarrow> nat \<Rightarrow> nat \<Rightarrow> runner \<Rightarrow> (exec_error + i32) \<times> runner" where
  "run_loop ctx started max_wait r =
     (if ew_now (rn_wire r) - started < max_wait
      then (case wire_recv (rn_wire r) of
              (Inl e, w) \<Rightarrow> (Inl e, r\<lparr>rn_wire := w\<rparr>)
            | (Inr ev, w) \<Rightarrow>
                (case on_event ctx ev (r\<lparr>rn_wire := w\<rparr>) of
                   (Some res, r1) \<Rightarrow> (res, r1)
                 | (None, r1) \<Rightarrow> run_loop ctx started max_wait r1))
      else timed_out r)"
  by pat_completeness auto

lemma recv_progress:
  assumes "(res, w) = wire_recv (rn_wire r)" "(res', t) = on_event ctx ev (r\<lparr>rn_wire := w\<rparr>)"
  shows "length (ew_events (rn_wire t)) < length (ew_events (rn_wire r))
    \<or> ew_events (rn_wire t) = ew_events (rn_wire r) \<and> ew_now (rn_wire r) < ew_now (rn_wire t)"
proof -
  have t: "t = snd (on_event ctx ev (r\<lparr>rn_wire := w\<rparr>))" and w: "w = snd (wire_recv (rn_wire r))"
    using assms by (metis snd_conv)+
  show ?thesis
    unfolding t using on_event_wire [of ctx ev "r\<lparr>rn_wire := w\<rparr>"] w
    by (auto simp: wire_recv_def RECV_TICK_def split: list.splits prod.splits)
qed

termination run_loop
proof (relation "measures [\<lambda>(ctx, st, mw, r). length (ew_events (rn_wire r)),
    \<lambda>(ctx, st, mw, r). st + mw - ew_now (rn_wire r)]", simp, goal_cases)
  case (1 ctx st mw r)
  show ?case using 1(1) recv_progress [OF 1(2) 1(4)] by auto
qed

declare run_loop.simps [simp del]

definition run_oneshot ::
  "(bytes \<Rightarrow> string + bytes) \<Rightarrow> (bytes \<Rightarrow> string + bytes) \<Rightarrow> ustring \<Rightarrow> ustring \<Rightarrow> ustring option \<Rightarrow> nat
     \<Rightarrow> bool \<Rightarrow> exec_wire \<Rightarrow> (exec_error + i32) \<times> exec_wire \<times> bytes list" where
  "run_oneshot base64 gunzip u cmd ssh timeout_secs compress w =
     (let target_kind = (if ssh \<noteq> None then Bash else PowerShell);
          payload = (if compress then format_compressed_command u target_kind cmd
                     else format_command u target_kind cmd);
          ctx = \<lparr>xc_uuid = u, xc_payload = payload, xc_compress = compress, xc_base64 = base64,
                 xc_gunzip = gunzip\<rparr>;
          (sent, w1) = (case ssh of
             Some host \<Rightarrow> wire_send (utf8_encode (lit ''ssh -tt '' @ host @ [NL])) w
           | None \<Rightarrow> wire_send (utf8_encode payload) w)
      in case sent of
           Some e \<Rightarrow> (Inl e, w1, [])
         | None \<Rightarrow>
             let (res, r) = run_loop ctx (ew_now w1) (timeout_secs * 1000)
               \<lparr>rn_wire = w1,
                rn_state = (if ssh \<noteq> None then AwaitingRemotePrompt else AwaitingSentinel),
                rn_phase = (if ssh \<noteq> None then Mute else MuteNoise),
                rn_pending = [], rn_scanned = 0, rn_full_log = [], rn_utf8 = utf8_stream_new,
                rn_compress_buf = [], rn_chunks = []\<rparr>
             in (res, rn_wire r, rn_chunks r))"

end
