(* ===== verification/ExecMarks.thy ===== *)
theory ExecMarks
  imports ExecHelpers
begin

text \<open>
  What the recognisers of \<open>helpers.rs\<close> promise: where a marker is found and where it is not, which
  lines are left alone, how terminal escapes disappear, and the exit code inside a compressed
  stream. A uuid's text has none of the characters the markers are made of.
\<close>

section \<open>Occurrences\<close>

lemma str_prefix_append_iff [simp]: "str_prefix p (p @ s)"
  by (simp add: str_prefix_iff)

lemma rfind_sub_None_iff: "rfind_sub p s = None \<longleftrightarrow> \<not> str_contains s p"
  by (induction p s rule: rfind_sub.induct) (auto split: option.splits)

lemma rfind_sub_Some:
  "rfind_sub p s = Some i \<Longrightarrow> i \<le> length s \<and> str_prefix p (drop i s)"
proof (induction p s arbitrary: i rule: rfind_sub.induct)
  case (2 p c cs)
  then show ?case by (cases "rfind_sub p cs") (auto split: if_splits)
qed (auto split: if_splits)

lemma rfind_sub_append:
  assumes "rfind_sub p s = Some i"
  shows "rfind_sub p (a @ s) = Some (length a + i)"
  using assms by (induction a) auto

text \<open>A pattern that starts its own text and occurs nowhere after its first character.\<close>

lemma rfind_sub_here:
  assumes "p \<noteq> []" "\<not> str_contains (tl (p @ b)) p"
  shows "rfind_sub p (p @ b) = Some 0"
proof -
  obtain c cs where p: "p @ b = c # cs" using assms(1) by (cases "p @ b") auto
  then have "rfind_sub p cs = None" using assms(2) by (simp add: rfind_sub_None_iff)
  moreover have "str_prefix p (c # cs)" using p by (metis str_prefix_append_iff)
  ultimately show ?thesis unfolding p by simp
qed

lemma str_contains_append: "str_contains s p \<Longrightarrow> str_contains (a @ s @ b) p"
  unfolding str_contains_iff by (metis append.assoc)

lemma str_contains_trans: "str_contains s p \<Longrightarrow> str_contains p q \<Longrightarrow> str_contains s q"
  unfolding str_contains_iff by (metis append.assoc)

lemma str_contains_mid [simp]: "str_contains (a @ p @ b) p"
  unfolding str_contains_iff by blast

text \<open>A character of the pattern that is missing from the text.\<close>

lemma no_char_no_match: "c \<in> set p \<Longrightarrow> c \<notin> set s \<Longrightarrow> \<not> str_contains s p"
  unfolding str_contains_iff by auto

section \<open>Markers\<close>

text \<open>The text of a uuid: hexadecimal digits and hyphens.\<close>

definition uuid_text :: "ustring \<Rightarrow> bool" where
  "uuid_text u \<longleftrightarrow> u \<noteq> [] \<and> list_all (\<lambda>c. is_ascii_digit c \<or> (97 \<le> c \<and> c \<le> 102) \<or> c = 45) u"

lemma uuid_chars:
  "uuid_text u \<Longrightarrow> c \<in> set u \<Longrightarrow> c \<noteq> 87 \<and> c \<noteq> 95 \<and> c \<noteq> 36 \<and> c \<noteq> 10 \<and> c \<noteq> 13 \<and> c < 128"
  by (auto simp: uuid_text_def list_all_iff is_ascii_digit_def)

lemma uuid_clean:
  assumes "uuid_text u"
  shows "87 \<notin> set u" "95 \<notin> set u" "36 \<notin> set u" "10 \<notin> set u" "13 \<notin> set u" "u \<noteq> []"
  using assms uuid_chars [OF assms] by (auto simp: uuid_text_def)

lemma DONE_MARK_eq: "DONE_MARK u = [95, 95, 87, 68, 95, 68, 79, 78, 69, 95] @ u @ [95, 95]"
  by (simp add: DONE_MARK_def)

lemma READY_MARK_eq: "READY_MARK u = [95, 95, 87, 68, 95, 82, 69, 65, 68, 89, 95] @ u @ [95, 95]"
  by (simp add: READY_MARK_def)

lemma marks_contain_uuid [simp]: "str_contains (DONE_MARK u) u" "str_contains (READY_MARK u) u"
  by (simp_all add: DONE_MARK_def READY_MARK_def del: lit_simps)

text \<open>The sentinel occurs in its own text only at the start: it has a single capital W.\<close>

lemma no_second_mark:
  assumes "uuid_text u" "87 \<notin> set b"
  shows "\<not> str_contains (tl (DONE_MARK u @ b)) (DONE_MARK u)"
proof
  assume "str_contains (tl (DONE_MARK u @ b)) (DONE_MARK u)"
  then obtain x y where eq: "tl (DONE_MARK u @ b) = x @ DONE_MARK u @ y"
    unfolding str_contains_iff by blast
  let ?t = "[95, 87, 68, 95, 68, 79, 78, 69, 95] @ u @ [95, 95] @ b :: nat list"
  have t: "?t = x @ DONE_MARK u @ y" using eq by (simp add: DONE_MARK_eq)
  have "drop 2 (w @ z) = drop 2 w @ z" if "2 \<le> length w" for w z :: "nat list"
    using that by simp
  from this [of "x @ [95, 95]"] have "87 \<in> set (drop 2 ((x @ [95, 95]) @ 87 # z))" for z
    by (metis Cons_eq_appendI in_set_conv_decomp length_append le_add2 length_Cons
        list.size(3) numeral_2_eq_2)
  then have "87 \<in> set (drop 2 ?t)" unfolding t by (simp add: DONE_MARK_eq)
  moreover have "87 \<notin> set (drop 2 ?t)" using assms uuid_clean(1) [OF assms(1)] by simp
  ultimately show False by contradiction
qed

lemma rfind_mark:
  assumes "uuid_text u" "87 \<notin> set b"
  shows "rfind_sub (DONE_MARK u) (a @ DONE_MARK u @ b) = Some (length a)"
  using rfind_sub_append [OF rfind_sub_here [OF _ no_second_mark [OF assms]], of a]
  by (simp add: DONE_MARK_eq)

section \<open>The sentinel line\<close>

text \<open>Decimal digits as a shell prints a non-negative exit code.\<close>

definition digits :: "ustring \<Rightarrow> bool" where
  "digits d \<longleftrightarrow> d \<noteq> [] \<and> list_all is_ascii_digit d"

lemma digits_chars: "digits d \<Longrightarrow> c \<in> set d \<Longrightarrow> 48 \<le> c \<and> c \<le> 57"
  by (auto simp: digits_def list_all_iff is_ascii_digit_def)

lemma not_space: "48 \<le> c \<and> c \<le> 57 \<Longrightarrow> \<not> is_whitespace c"
  by (auto simp: is_whitespace_def)

lemma trim_end_matches_none: "s = [] \<or> \<not> P (last s) \<Longrightarrow> trim_end_matches P s = s"
  by (cases s rule: rev_cases) (auto simp: trim_end_matches_def)

lemma trim_end_none: "s = [] \<or> \<not> is_whitespace (last s) \<Longrightarrow> trim_end s = s"
  unfolding trim_end_def by (rule trim_end_matches_none)

lemma parse_i32_digits:
  assumes "digits d" "digits_value d < 2 ^ 31"
  shows "parse_i32 d = Some (of_nat (digits_value d))"
proof -
  have "hd d \<noteq> 45" "hd d \<noteq> 43" "d \<noteq> []"
    using digits_chars [OF assms(1), of "hd d"] assms(1) by (auto simp: digits_def)
  moreover have "list_all is_ascii_digit d" using assms(1) by (simp add: digits_def)
  moreover have "- (2 ^ 31) \<le> int (digits_value d)" by simp
  ultimately show ?thesis using assms(2) by (simp add: parse_i32_def Let_def)
qed

lemma trim_start_append:
  "trim_start (a @ s) = (if list_all is_whitespace a then trim_start s else trim_start a @ s)"
  by (induction a) (auto simp: trim_start_def trim_start_matches_def)

lemma trim_start_none: "s \<noteq> [] \<Longrightarrow> \<not> is_whitespace (hd s) \<Longrightarrow> trim_start s = s"
  by (cases s) (simp_all add: trim_start_def trim_start_matches_def)

text \<open>Output without a final newline, then the sentinel: the exit code is the digits.\<close>

lemma parse_sentinel_glued:
  assumes "uuid_text u" "digits d" "digits_value d < 2 ^ 31"
  shows "parse_sentinel (a @ DONE_MARK u @ d) u = Some (of_nat (digits_value d))"
proof -
  have d: "d \<noteq> []" "\<not> is_whitespace (last d)"
    using assms(2) digits_chars [OF assms(2), of "last d"] not_space by (auto simp: digits_def)
  have "\<exists>a'. trim (a @ DONE_MARK u @ d) = a' @ DONE_MARK u @ d"
  proof -
    have "trim_start (DONE_MARK u @ d) = DONE_MARK u @ d"
      by (rule trim_start_none) (simp_all add: DONE_MARK_eq is_whitespace_def)
    then obtain a' where "trim_start (a @ DONE_MARK u @ d) = a' @ DONE_MARK u @ d"
      by (metis trim_start_append append_Nil)
    then show ?thesis using d unfolding trim_def by (metis append_is_Nil_conv last_append trim_end_none)
  qed
  then obtain a' where t: "trim (a @ DONE_MARK u @ d) = a' @ DONE_MARK u @ d" by blast
  have "87 \<notin> set d" using digits_chars [OF assms(2), of 87] by auto
  moreover have tw: "takeWhile (\<lambda>c. is_ascii_digit c \<or> c = 45) d = d"
    using assms(2) by (auto simp: digits_def list_all_iff takeWhile_eq_all_conv)
  ultimately show ?thesis
    using rfind_mark [OF assms(1), of d a'] parse_i32_digits [OF assms(2,3)]
    by (simp add: parse_sentinel_def t tw del: takeWhile_eq_all_conv)
qed

text \<open>A line without the uuid is neither marker nor echo.\<close>

lemma no_uuid_no_mark:
  assumes "\<not> str_contains l u"
  shows "\<not> str_contains l (DONE_MARK u @ s)" "\<not> str_contains l (READY_MARK u)"
    "parse_sentinel l u = None" "\<not> parse_ready l u"
proof -
  have trim_in: "\<exists>a b. l = a @ trim l @ b"
    unfolding trim_def trim_end_def
    by (metis append.assoc trim_end_matches_prefix trim_start_def trim_start_matches_suffix)
  have d: "str_contains (DONE_MARK u @ s) u"
    using str_contains_append [OF marks_contain_uuid(1), of "[]"] by simp
  show "\<not> str_contains l (DONE_MARK u @ s)" using assms d str_contains_trans by blast
  show "\<not> str_contains l (READY_MARK u)" using assms marks_contain_uuid str_contains_trans by blast
  have t: "\<not> str_contains (trim l) u" using assms trim_in by (metis str_contains_append)
  then have "\<not> str_contains (trim l) (DONE_MARK u)" using marks_contain_uuid str_contains_trans by blast
  then show "parse_sentinel l u = None"
    by (simp add: parse_sentinel_def rfind_sub_None_iff [symmetric])
  show "\<not> parse_ready l u" using t by (auto simp: parse_ready_def)
qed

text \<open>A marker cannot begin in the text before a sentinel without its uuid ending there too.\<close>

lemma mark_before_mark:
  fixes u :: ustring
  assumes "uuid_text u" and eq: "a @ [95, 95, 87] @ z = x @ (m @ u @ [95, 95]) @ y"
    and m: "3 \<le> length m" "87 \<notin> set (drop 3 m)" and lt: "length x < length a"
  shows "str_contains a u"
proof -
  let ?M = "m @ u @ [95, 95]"
  have at_a: "(x @ ?M @ y) ! length a = 95" "(x @ ?M @ y) ! (length a + 2) = 87"
    unfolding eq [symmetric] by (simp_all add: nth_append)
  consider "length x + length m + length u \<le> length a"
    | "length x + length m \<le> length a" "length a < length x + length m + length u"
    | "length a < length x + length m" by linarith
  then show ?thesis
  proof cases
    case 1
    have "take (length a) (a @ [95, 95, 87] @ z) = a" by simp
    then have "a = take (length a) (x @ m @ u @ [95, 95] @ y)" unfolding eq by simp
    also have "\<dots> = x @ m @ u @ take (length a - (length x + length m + length u)) ([95, 95] @ y)"
      using 1 by simp
    finally have "a = (x @ m) @ u @ take (length a - (length x + length m + length u)) ([95, 95] @ y)"
      by simp
    then show ?thesis unfolding str_contains_iff by blast
  next
    case 2
    then obtain j where j: "length a = length (x @ m) + j" "j < length u"
      by (metis add_less_cancel_left le_Suc_ex length_append)
    have "((x @ m) @ u @ [95, 95] @ y) ! (length (x @ m) + j) = (u @ [95, 95] @ y) ! j"
      by (rule nth_append_length_plus)
    then have "(x @ ?M @ y) ! length a = u ! j" using j by (simp add: nth_append)
    then have "95 \<in> set u" using at_a j by (metis nth_mem)
    then show ?thesis using uuid_clean(2) [OF assms(1)] by contradiction
  next
    case 3
    define k where "k = length a + 2 - length x"
    have k: "3 \<le> k" "k < length m + 2" using 3 lt by (auto simp: k_def)
    have "(x @ ?M @ y) ! (length x + k) = (?M @ y) ! k" by (rule nth_append_length_plus)
    also have "\<dots> = ?M ! k" by (subst nth_append) (use k in simp)
    also have "length x + k = length a + 2" using lt by (simp add: k_def)
    finally have "(x @ ?M @ y) ! (length a + 2) = ?M ! k" .
    then have "?M ! k = 87" using at_a by simp
    moreover have "?M ! k \<in> set (drop 3 m @ u @ [95, 95])"
    proof -
      have "drop 3 ?M ! (k - 3) = ?M ! (3 + (k - 3))" by (rule nth_drop) (use m in simp)
      then have "?M ! k = drop 3 ?M ! (k - 3)" using k by simp
      moreover have "k - 3 < length (drop 3 ?M)" using k m by simp
      moreover have "drop 3 ?M = drop 3 m @ u @ [95, 95]" using m by simp
      ultimately show ?thesis by (metis nth_mem)
    qed
    ultimately show ?thesis using m uuid_clean(1) [OF assms(1)] by auto
  qed
qed

lemma rfind_sub_max: "rfind_sub p s = Some i \<Longrightarrow> s = x @ p @ y \<Longrightarrow> p \<noteq> [] \<Longrightarrow> length x \<le> i"
proof (induction p s arbitrary: i x rule: rfind_sub.induct)
  case (2 p c cs)
  show ?case
  proof (cases x)
    case (Cons d xs)
    then have cs: "cs = xs @ p @ y" using 2(3) by simp
    then obtain j where "rfind_sub p cs = Some j"
      using rfind_sub_None_iff [of p cs] by (cases "rfind_sub p cs") auto
    then show ?thesis using 2 cs Cons by auto
  qed simp
qed simp

lemma sentinel_line_no_echo:
  assumes u: "uuid_text u" and d: "digits d" and a: "\<not> str_contains a u"
  shows "\<not> str_contains (a @ DONE_MARK u @ d) (DONE_MARK u @ [36])"
    and "\<not> str_contains (a @ DONE_MARK u @ d) (READY_MARK u)"
proof -
  have dw: "87 \<notin> set d" "82 \<notin> set d" "36 \<notin> set d"
    using digits_chars [OF d, of 87] digits_chars [OF d, of 82] digits_chars [OF d, of 36] by auto
  have split: "a @ DONE_MARK u @ d = a @ [95, 95, 87] @ [68, 95, 68, 79, 78, 69, 95] @ u @ [95, 95] @ d"
    by (simp add: DONE_MARK_eq)
  show "\<not> str_contains (a @ DONE_MARK u @ d) (DONE_MARK u @ [36])"
  proof
    assume "str_contains (a @ DONE_MARK u @ d) (DONE_MARK u @ [36])"
    then obtain x y where eq: "a @ DONE_MARK u @ d = x @ DONE_MARK u @ 36 # y"
      unfolding str_contains_iff by auto
    have "length x \<le> length a"
      using rfind_sub_max [OF rfind_mark [OF u dw(1), of a] eq] by (simp add: DONE_MARK_eq)
    then consider "length x < length a" | "length x = length a" by linarith
    then show False
    proof cases
      case 1
      then have "str_contains a u"
        using mark_before_mark [OF u, of a "[68, 95, 68, 79, 78, 69, 95] @ u @ [95, 95] @ d" x
            "[95, 95, 87, 68, 95, 68, 79, 78, 69, 95]" "36 # y"] eq split
        by (simp add: DONE_MARK_eq)
      then show ?thesis using a by contradiction
    next
      case 2
      then have "d = 36 # y" using eq by simp
      then show ?thesis using dw by simp
    qed
  qed
  show "\<not> str_contains (a @ DONE_MARK u @ d) (READY_MARK u)"
  proof
    assume "str_contains (a @ DONE_MARK u @ d) (READY_MARK u)"
    then obtain x y where eq: "a @ DONE_MARK u @ d = x @ READY_MARK u @ y"
      unfolding str_contains_iff by auto
    have "length x < length a"
    proof (rule ccontr)
      assume "\<not> length x < length a"
      then have "drop (length a) (x @ READY_MARK u @ y) = drop (length a) x @ READY_MARK u @ y" by simp
      then have "DONE_MARK u @ d = drop (length a) x @ READY_MARK u @ y" unfolding eq [symmetric] by simp
      then have "82 \<in> set (DONE_MARK u @ d)" by (simp add: READY_MARK_eq)
      then show False using dw uuid_chars [OF u, of 82] u
        by (auto simp: DONE_MARK_eq uuid_text_def list_all_iff is_ascii_digit_def)
    qed
    then have "str_contains a u"
      using mark_before_mark [OF u, of a "[68, 95, 68, 79, 78, 69, 95] @ u @ [95, 95] @ d" x
          "[95, 95, 87, 68, 95, 82, 69, 65, 68, 89, 95]" y] eq split
      by (simp add: READY_MARK_eq)
    then show False using a by contradiction
  qed
qed

section \<open>Terminal escapes\<close>

lemma set_skip_csi: "set (skip_csi s) \<subseteq> set s"
  by (induction s) auto

lemma set_skip_osc: "set (skip_osc s) \<subseteq> set s"
proof (induction s)
  case (Cons c s)
  have "set (tl s) \<subseteq> set s" by (cases s) auto
  then show ?case using Cons by auto
qed simp

lemma strip_ansi_no_escape: "27 \<notin> set (strip_ansi s)"
proof (induction s rule: strip_ansi.induct)
  case (1 s)
  show ?case
  proof (cases s)
    case (Cons c cs)
    show ?thesis
      unfolding Cons
      by (subst strip_ansi.simps) (use 1 Cons in \<open>simp split: list.split\<close>)
  qed (simp add: strip_ansi.simps)
qed

lemma strip_ansi_plain: "27 \<notin> set s \<Longrightarrow> strip_ansi s = s"
  by (induction s) (simp_all add: strip_ansi.simps)

lemma strip_ansi_idem: "strip_ansi (strip_ansi s) = strip_ansi s"
  by (rule strip_ansi_plain) (rule strip_ansi_no_escape)

text \<open>A colour sequence around plain text leaves the text.\<close>

lemma strip_ansi_append: "27 \<notin> set a \<Longrightarrow> strip_ansi (a @ s) = a @ strip_ansi s"
  by (induction a) (simp_all add: strip_ansi.simps)

lemma skip_csi_param: "list_all (\<lambda>c. \<not> is_ascii_alphabetic c) p \<Longrightarrow> is_ascii_alphabetic f \<Longrightarrow>
  skip_csi (p @ f # s) = s"
  by (induction p) auto

lemma strip_ansi_csi:
  assumes "list_all (\<lambda>c. \<not> is_ascii_alphabetic c) p" "is_ascii_alphabetic f"
  shows "strip_ansi ([27, 91] @ p @ f # s) = strip_ansi s"
  using skip_csi_param [OF assms, of s] by (simp add: strip_ansi.simps [of "27 # t" for t])

section \<open>The exit code inside a compressed stream\<close>

text \<open>What the wrapper appends to the output: the marker, the code in decimal, the closing and,
  from \<open>printf\<close>, a newline.\<close>

definition rc_trailer :: "ustring \<Rightarrow> bytes \<Rightarrow> bytes" where
  "rc_trailer d nl = RC_MARK @ utf8_encode d @ blit ''__'' @ nl"

lemma RC_MARK_eq: "RC_MARK = [95, 95, 87, 68, 95, 82, 67, 95, 95]"
  by (simp add: RC_MARK_def)

lemma ascii_encode: "list_all (\<lambda>c. c < 128) d \<Longrightarrow> utf8_encode d = map of_nat d"
  by (induction d) (simp_all add: char_bytes_def)

lemma digits_encode: "digits d \<Longrightarrow> utf8_encode d = map of_nat d"
  by (rule ascii_encode) (auto simp: digits_def list_all_iff is_ascii_digit_def)

lemma extract_rc_trailer:
  assumes d: "digits d" "digits_value d < 2 ^ 31" "length d \<le> 10" and nl: "nl = [] \<or> nl = [10]"
  shows "extract_compressed_rc (payload @ rc_trailer d nl) = (payload, of_nat (digits_value d))"
proof -
  let ?D = "map of_nat d :: bytes" and ?bs = "payload @ rc_trailer d nl"
  let ?start = "length ?bs - 64"
  have D: "utf8_encode d = ?D" using digits_encode [OF d(1)] .
  have dig: "48 \<le> unat b \<and> unat b \<le> 57" if b: "b \<in> set ?D" for b
  proof -
    obtain c where c: "c \<in> set d" "b = of_nat c" using b by auto
    then show ?thesis using digits_chars [OF d(1) c(1)] by (simp add: unat_of_nat)
  qed
  have no: "95 \<notin> set ?D" "87 \<notin> set ?D" using dig [of 95] dig [of 87] by auto
  have tr: "rc_trailer d nl = RC_MARK @ ?D @ [95, 95] @ nl" by (simp add: rc_trailer_def D)
  have len: "?start \<le> length payload"
    using d(3) nl by (auto simp: tr RC_MARK_eq)
  have "\<not> str_contains (tl (RC_MARK @ ?D @ [95, 95] @ nl)) RC_MARK"
  proof
    assume "str_contains (tl (RC_MARK @ ?D @ [95, 95] @ nl)) RC_MARK"
    then obtain x y where eq: "tl (RC_MARK @ ?D @ [95, 95] @ nl) = x @ RC_MARK @ y"
      unfolding str_contains_iff by blast
    have "drop 2 (w @ z) = drop 2 w @ z" if "2 \<le> length w" for w z :: bytes using that by simp
    from this [of "x @ [95, 95]" "drop 2 RC_MARK @ y"]
    have "drop 2 (x @ RC_MARK @ y) = drop 2 (x @ [95, 95]) @ drop 2 RC_MARK @ y"
      by (simp add: RC_MARK_eq)
    moreover have "87 \<in> set (drop 2 RC_MARK)" by (simp add: RC_MARK_eq)
    ultimately have "87 \<in> set (drop 2 (tl (RC_MARK @ ?D @ [95, 95] @ nl)))" unfolding eq by simp
    then show False using no nl by (auto simp: RC_MARK_eq)
  qed
  then have "rfind_sub RC_MARK (RC_MARK @ ?D @ [95, 95] @ nl) = Some 0"
    by (intro rfind_sub_here) (simp_all add: RC_MARK_eq)
  from rfind_sub_append [OF this, of "drop ?start payload"]
  have pos: "rfind_sub RC_MARK (drop ?start ?bs) = Some (length payload - ?start)"
    using len by (simp add: tr)
  have after: "drop (?start + (length payload - ?start) + length RC_MARK) ?bs = ?D @ [95, 95] @ nl"
    using len by (simp add: tr)
  have "find_sub [95, 95] (?D @ [95, 95] @ nl) = Some (length ?D)"
    using no(1) by (induction d) auto
  moreover have "utf8_valid ?D"
    unfolding D [symmetric]
    by (rule utf8_valid_encode) (use digits_chars [OF d(1)] in \<open>fastforce simp: list_all_iff is_char_def\<close>)
  moreover have "utf8_chars ?D = d"
    unfolding D [symmetric]
    by (rule utf8_chars_encode) (use digits_chars [OF d(1)] in \<open>fastforce simp: list_all_iff is_char_def\<close>)
  ultimately show ?thesis
    using pos after parse_i32_digits [OF d(1,2)] len
    by (simp add: extract_compressed_rc_def Let_def tr)
qed

end
