(* ===== verification/ExecRuns.thy ===== *)
theory ExecRuns
  imports ExecRunner ExecMarks
begin

text \<open>
  What a run does, whatever the cuts. Once the payload is out, the runner's result is a function of
  the decoded text alone: the lines of the text one by one. From this the run of a whole transcript
  follows: noise, the first marker, the output, the sentinel.
\<close>

section \<open>The lines of a text\<close>

fun run_lines :: "run_ctx \<Rightarrow> ustring list \<Rightarrow> runner \<Rightarrow> (exec_error + i32) option \<times> runner" where
  "run_lines ctx [] r = (None, r)"
| "run_lines ctx (l # ls) r =
     (case on_line ctx l r of
        (Some res, r1) \<Rightarrow> (Some res, r1)
      | (None, r1) \<Rightarrow> run_lines ctx ls r1)"

lemma run_lines_append:
  "run_lines ctx (ls @ ms) r =
     (case run_lines ctx ls r of (Some res, r1) \<Rightarrow> (Some res, r1) | (None, r1) \<Rightarrow> run_lines ctx ms r1)"
  by (induction ls arbitrary: r) (auto split: option.splits prod.splits)

abbreviation text_lines :: "ustring \<Rightarrow> ustring list" where
  "text_lines s \<equiv> split_by (\<lambda>c. c = NL) s"

lemma split_by_append:
  "split_by P (a @ b) = butlast (split_by P a) @ split_by P (last (split_by P a) @ b)"
proof (induction a)
  case (Cons c a)
  obtain seg segs where s: "split_by P a = seg # segs" by (metis list.exhaust split_by_nonempty)
  show ?case
  proof (cases "P c")
    case True
    then show ?thesis using Cons s by simp
  next
    case False
    show ?thesis
    proof (cases segs)
      case Nil
      then show ?thesis using False s Cons by (auto split: list.split)
    next
      case (Cons t ts)
      then show ?thesis using False s \<open>split_by P (a @ b) = _\<close> by simp
    qed
  qed
qed simp

lemma split_by_step:
  assumes "\<forall>c \<in> set a. \<not> P c" "P c"
  shows "split_by P (a @ c # b) = a # split_by P b"
  using assms by (induction a) auto

section \<open>What a line depends on\<close>

definition same_core :: "runner \<Rightarrow> runner \<Rightarrow> bool" where
  "same_core r t \<longleftrightarrow> rn_state r = rn_state t \<and> rn_phase r = rn_phase t
     \<and> rn_compress_buf r = rn_compress_buf t \<and> rn_chunks r = rn_chunks t"

lemma same_core_refl [simp]: "same_core r r"
  by (simp add: same_core_def)

lemma same_core_trans: "same_core r s \<Longrightarrow> same_core s t \<Longrightarrow> same_core r t"
  by (simp add: same_core_def)

lemma same_core_put_line: "same_core r t \<Longrightarrow> same_core (put_line ctx l r) (put_line ctx l t)"
  by (simp add: same_core_def put_line_def emit_def)

lemma same_core_text_line: "same_core r t \<Longrightarrow> same_core (on_text_line ctx l r) (on_text_line ctx l t)"
  using same_core_put_line [of r t ctx l] by (auto simp: on_text_line_def same_core_def)

lemma same_core_sentinel:
  assumes "same_core r t"
  shows "fst (on_sentinel ctx l code r) = fst (on_sentinel ctx l code t)
    \<and> same_core (snd (on_sentinel ctx l code r)) (snd (on_sentinel ctx l code t))"
proof -
  define pre where "pre r = (case rfind_sub (DONE_MARK (xc_uuid ctx)) l of
           None \<Rightarrow> r
         | Some pos \<Rightarrow>
             if pos > 0
             then
               let pre = trim_end_matches (\<lambda>c. c = CR) (take pos l) in
               if pre \<noteq> [] \<and> \<not> is_echo_line (xc_uuid ctx) pre then put_line ctx pre r else r
             else r)" for r
  have "same_core (pre r) (pre t)"
    using assms by (simp add: pre_def Let_def same_core_put_line split: option.split)
  then show ?thesis
    unfolding on_sentinel_def pre_def [symmetric]
    by (auto simp: Let_def same_core_def emit_def split: sum.split prod.split)
qed

lemma same_core_line:
  assumes "same_core r t" "rn_state r = AwaitingSentinel"
  shows "fst (on_line ctx l r) = fst (on_line ctx l t)
    \<and> same_core (snd (on_line ctx l r)) (snd (on_line ctx l t))
    \<and> rn_state (snd (on_line ctx l r)) = AwaitingSentinel"
proof -
  have eq: "rn_state t = AwaitingSentinel" "rn_phase t = rn_phase r"
    using assms by (simp_all add: same_core_def)
  have st: "rn_state (snd (on_sentinel ctx m code r)) = rn_state r" "rn_state (on_text_line ctx m r) = rn_state r" for m code
    by (auto simp: on_sentinel_def on_text_line_def put_line_def emit_def Let_def
        split: option.split sum.split prod.split)
  show ?thesis
    using same_core_sentinel [OF assms(1)] same_core_text_line [OF assms(1)] st assms(2) eq
    by (simp add: on_line_def Let_def case_prod_beta split: option.split)
qed

lemma same_core_lines:
  assumes "same_core r t" "rn_state r = AwaitingSentinel"
  shows "fst (run_lines ctx ls r) = fst (run_lines ctx ls t)
    \<and> same_core (snd (run_lines ctx ls r)) (snd (run_lines ctx ls t))
    \<and> rn_state (snd (run_lines ctx ls r)) = AwaitingSentinel"
  using assms
proof (induction ls arbitrary: r t)
  case (Cons l ls)
  obtain a r1 where r1: "on_line ctx l r = (a, r1)" by (cases "on_line ctx l r")
  obtain b t1 where t1: "on_line ctx l t = (b, t1)" by (cases "on_line ctx l t")
  have s: "a = b" "same_core r1 t1" "rn_state r1 = AwaitingSentinel"
    using same_core_line [OF Cons.prems, of ctx l] r1 t1 by simp_all
  then show ?case using Cons.IH [OF s(2,3)] r1 t1 s by (cases b) simp_all
qed simp

section \<open>Walking the pending text is running its lines\<close>

lemma find_index_text:
  "find_index P xs = None \<Longrightarrow> \<forall>x \<in> set xs. \<not> P x"
  "find_index P xs = Some i \<Longrightarrow> i < length xs \<and> P (xs ! i) \<and> (\<forall>x \<in> set (take i xs). \<not> P x)"
proof -
  let ?t = "takeWhile (\<lambda>x. \<not> P x) xs"
  have take: "?t = take (length ?t) xs" by (rule takeWhile_eq_take)
  have none: "\<forall>x \<in> set ?t. \<not> P x" by (auto dest: set_takeWhileD)
  show "\<forall>x \<in> set xs. \<not> P x" if "find_index P xs = None"
  proof -
    have "length xs \<le> length ?t" using that by (simp add: find_index_def Let_def split: if_splits)
    then have "?t = xs" using take by (metis take_all)
    then show ?thesis using none by simp
  qed
  assume "find_index P xs = Some i"
  then have i: "i = length ?t" "i < length xs"
    by (auto simp: find_index_def Let_def split: if_splits)
  have "take i xs = ?t" using take i by simp
  moreover have "P (xs ! i)" using nth_length_takeWhile [of "\<lambda>x. \<not> P x" xs] i by simp
  ultimately show "i < length xs \<and> P (xs ! i) \<and> (\<forall>x \<in> set (take i xs). \<not> P x)"
    using none i by simp
qed

definition scanned_ok :: "runner \<Rightarrow> bool" where
  "scanned_ok r \<longleftrightarrow> rn_scanned r \<le> length (rn_pending r) \<and> NL \<notin> set (take (rn_scanned r) (rn_pending r))"

lemma walk_is_run_lines:
  assumes "rn_state r = AwaitingSentinel" "scanned_ok r"
  shows "fst (walk_lines ctx r) = fst (run_lines ctx (butlast (text_lines (rn_pending r))) r)
    \<and> same_core (snd (run_lines ctx (butlast (text_lines (rn_pending r))) r)) (snd (walk_lines ctx r))
    \<and> (fst (walk_lines ctx r) = None \<longrightarrow>
         rn_pending (snd (walk_lines ctx r)) = last (text_lines (rn_pending r)))"
  using assms
proof (induction ctx r rule: walk_lines.induct)
  case (1 ctx r)
  let ?p = "rn_pending r" and ?s = "rn_scanned r"
  show ?case
  proof (cases "find_index (\<lambda>c. c = NL) (drop ?s ?p)")
    case None
    have "NL \<notin> set (take ?s ?p @ drop ?s ?p)"
      using find_index_text(1) [OF None] 1(3) by (auto simp: scanned_ok_def simp del: append_take_drop_id)
    then have "text_lines ?p = [?p]" by (auto intro: split_by_none)
    then show ?thesis using None by (simp add: walk_lines.simps [of ctx r])
  next
    case (Some rel)
    let ?nl = "?s + rel"
    define r1 where "r1 = r\<lparr>rn_scanned := 0, rn_pending := drop (?nl + 1) ?p\<rparr>"
    have f: "rel < length (drop ?s ?p)" "drop ?s ?p ! rel = NL" "\<forall>x \<in> set (take rel (drop ?s ?p)). x \<noteq> NL"
      using find_index_text(2) [OF Some] by simp_all
    have p: "?p = take ?nl ?p @ NL # drop (?nl + 1) ?p"
      using f by (metis add.commute Suc_eq_plus1 id_take_nth_drop less_diff_conv length_drop nth_drop 1(3) scanned_ok_def)
    have "take ?nl ?p = take ?s ?p @ take rel (drop ?s ?p)" by (rule take_add)
    then have clean: "\<forall>c \<in> set (take ?nl ?p). \<not> c = NL" using f(3) 1(3) by (auto simp: scanned_ok_def)
    have segs: "text_lines ?p = take ?nl ?p # text_lines (drop (?nl + 1) ?p)"
      using split_by_step [OF clean refl, of "drop (?nl + 1) ?p"] p by simp
    obtain a r2 where ol: "on_line ctx (take ?nl ?p) r1 = (a, r2)" by (cases "on_line ctx (take ?nl ?p) r1")
    obtain b t2 where ot: "on_line ctx (take ?nl ?p) r = (b, t2)" by (cases "on_line ctx (take ?nl ?p) r")
    have "same_core r r1" by (simp add: r1_def same_core_def)
    from same_core_line [OF this 1(2), of ctx "take ?nl ?p"]
    have s: "a = b" "same_core t2 r2" "rn_state t2 = AwaitingSentinel" using ol ot by simp_all
    have "keeps_input r1 r2" using on_line_keeps [of r1] ol by (metis snd_conv)
    then have k: "rn_pending r2 = drop (?nl + 1) ?p" "rn_scanned r2 = 0"
      by (simp_all add: keeps_input_def r1_def)
    have st2: "rn_state r2 = AwaitingSentinel" using s by (simp add: same_core_def)
    let ?rest = "butlast (text_lines (drop (?nl + 1) ?p))"
    have bl: "butlast (text_lines ?p) = take ?nl ?p # ?rest" "last (text_lines ?p) = last (text_lines (drop (?nl + 1) ?p))"
      unfolding segs by simp_all
    show ?thesis
    proof (cases a)
      case (Some x)
      then show ?thesis
        using \<open>find_index _ _ = Some rel\<close> ol ot s bl by (simp add: walk_lines.simps [of ctx r] r1_def)
    next
      case None
      have "fst (walk_lines ctx r2) = fst (run_lines ctx ?rest r2)
        \<and> same_core (snd (run_lines ctx ?rest r2)) (snd (walk_lines ctx r2))
        \<and> (fst (walk_lines ctx r2) = None \<longrightarrow>
             rn_pending (snd (walk_lines ctx r2)) = last (text_lines (drop (?nl + 1) ?p)))"
        using "1.IH" [OF Some refl refl r1_def ol [symmetric] None] st2 k by (simp add: scanned_ok_def)
      moreover have "walk_lines ctx r = walk_lines ctx r2"
        using Some ol None by (simp add: walk_lines.simps [of ctx r] r1_def)
      ultimately show ?thesis
        using same_core_lines [OF s(2,3), of ctx ?rest] ot None s bl
        by (auto intro: same_core_trans)
    qed
  qed
qed

text \<open>After the payload the runner sends nothing more.\<close>

lemma on_line_wire:
  assumes "rn_state r = AwaitingSentinel"
  shows "rn_wire (snd (on_line ctx l r)) = rn_wire r"
proof -
  have "rn_wire (put_line ctx m r) = rn_wire r" for m r by (simp add: put_line_def emit_def)
  then have "rn_wire (on_text_line ctx m r) = rn_wire r" "rn_wire (snd (on_sentinel ctx m c r)) = rn_wire r" for m c
    by (auto simp: on_text_line_def on_sentinel_def emit_def Let_def split: option.split sum.split prod.split)
  then show ?thesis using assms by (simp add: on_line_def Let_def case_prod_beta split: option.split)
qed

lemma walk_lines_silent:
  "rn_state r = AwaitingSentinel \<Longrightarrow> rn_wire (snd (walk_lines ctx r)) = rn_wire r"
proof (induction ctx r rule: walk_lines.induct)
  case (1 ctx r)
  show ?case
  proof (cases "find_index (\<lambda>c. c = NL) (drop (rn_scanned r) (rn_pending r))")
    case (Some rel)
    define r1 where "r1 = r\<lparr>rn_scanned := 0, rn_pending := drop (rn_scanned r + rel + 1) (rn_pending r)\<rparr>"
    obtain a r2 where ol: "on_line ctx (take (rn_scanned r + rel) (rn_pending r)) r1 = (a, r2)"
      by (cases "on_line ctx (take (rn_scanned r + rel) (rn_pending r)) r1")
    have st: "rn_state r1 = AwaitingSentinel" using 1(2) by (simp add: r1_def)
    have "rn_wire r2 = rn_wire r" "rn_state r2 = AwaitingSentinel"
      using on_line_wire [OF st, of ctx "take (rn_scanned r + rel) (rn_pending r)"]
        same_core_line [OF same_core_refl st, of ctx "take (rn_scanned r + rel) (rn_pending r)"] ol
      by (simp_all add: r1_def)
    then show ?thesis
      using "1.IH" [OF Some refl refl r1_def ol [symmetric]] Some ol
      by (cases a) (simp_all add: walk_lines.simps [of ctx r] r1_def)
  qed (simp add: walk_lines.simps [of ctx r])
qed

section \<open>Any cuts\<close>

definition decoded :: "bytes \<Rightarrow> ustring" where
  "decoded bs = utf8_chars (fst (decode_ref bs))"

definition caught_up :: "run_ctx \<Rightarrow> runner \<Rightarrow> bytes \<Rightarrow> runner \<Rightarrow> bool" where
  "caught_up ctx r0 seen r \<longleftrightarrow>
     us_tail (rn_utf8 r) = snd (decode_ref seen)
     \<and> fst (run_lines ctx (butlast (text_lines (decoded seen))) r0) = None
     \<and> same_core (snd (run_lines ctx (butlast (text_lines (decoded seen))) r0)) r
     \<and> rn_pending r = last (text_lines (decoded seen)) \<and> rn_scanned r = length (rn_pending r)"

lemma text_lines_last: "NL \<notin> set (last (text_lines s))"
  using split_by_clean [of "last (text_lines s)" "\<lambda>c. c = NL" s] last_in_set [OF split_by_nonempty [of "\<lambda>c. c = NL" s]]
  by auto

lemma decoded_append:
  "decoded (seen @ data) = decoded seen @ utf8_chars (fst (decode_ref (snd (decode_ref seen) @ data)))"
  unfolding decoded_def decode_ref_append [of seen data]
  by (simp add: utf8_chars_append [OF decode_ref_valid])

lemma after_event_sentinel:
  assumes "rn_state r = AwaitingSentinel" "scanned_ok r"
  shows "fst (after_event ctx r) = fst (walk_lines ctx r)
    \<and> same_core (snd (walk_lines ctx r)) (snd (after_event ctx r))
    \<and> rn_wire (snd (after_event ctx r)) = rn_wire r
    \<and> (fst (after_event ctx r) = None \<longrightarrow> rn_pending (snd (after_event ctx r)) = rn_pending (snd (walk_lines ctx r))
         \<and> rn_scanned (snd (after_event ctx r)) = length (rn_pending (snd (walk_lines ctx r))))"
proof -
  obtain a r1 where w: "walk_lines ctx r = (a, r1)" by (cases "walk_lines ctx r")
  have "rn_wire r1 = rn_wire r" using walk_lines_silent [OF assms(1), of ctx] w by simp
  moreover have "rn_state r1 = AwaitingSentinel"
    using walk_is_run_lines [OF assms, of ctx] w
      same_core_lines [OF same_core_refl assms(1), of ctx "butlast (text_lines (rn_pending r))"]
    by (simp add: same_core_def)
  ultimately show ?thesis
    using w by (cases a) (simp_all add: after_event_def peek_prompt_def same_core_def)
qed

lemma caught_up_output:
  assumes st: "rn_state r0 = AwaitingSentinel" and cu: "caught_up ctx r0 seen r"
  shows "fst (on_event ctx (EvShellOutput data) r)
      = fst (run_lines ctx (butlast (text_lines (decoded (seen @ data)))) r0)
    \<and> same_core (snd (run_lines ctx (butlast (text_lines (decoded (seen @ data)))) r0))
        (snd (on_event ctx (EvShellOutput data) r))
    \<and> rn_wire (snd (on_event ctx (EvShellOutput data) r)) = rn_wire r
    \<and> (fst (on_event ctx (EvShellOutput data) r) = None \<longrightarrow>
         caught_up ctx r0 (seen @ data) (snd (on_event ctx (EvShellOutput data) r)))"
proof -
  let ?old = "butlast (text_lines (decoded seen))"
  let ?q = "utf8_chars (fst (decode_ref (snd (decode_ref seen) @ data)))"
  obtain r1 where r1: "run_lines ctx ?old r0 = (None, r1)" "same_core r1 r"
    using cu by (cases "run_lines ctx ?old r0") (auto simp: caught_up_def)
  define t where "t = take_output data r"
  have t: "rn_pending t = rn_pending r @ ?q" "rn_scanned t = rn_scanned r" "same_core r t"
    "rn_wire t = rn_wire r" "us_tail (rn_utf8 t) = snd (decode_ref (seen @ data))"
    using cu unfolding t_def take_output_def utf8_push_ref decode_ref_append [of seen data]
    by (simp_all add: caught_up_def same_core_def)
  have st1: "rn_state r1 = AwaitingSentinel"
    using same_core_lines [OF same_core_refl st, of ctx ?old] r1 by simp
  then have stt: "rn_state t = AwaitingSentinel" using r1 t by (simp add: same_core_def)
  have ok: "scanned_ok t"
    using cu t text_lines_last [of "decoded seen"] by (simp add: scanned_ok_def caught_up_def)
  let ?new = "butlast (text_lines (last (text_lines (decoded seen)) @ ?q))"
  have lines: "butlast (text_lines (decoded (seen @ data))) = ?old @ ?new"
    "last (text_lines (decoded (seen @ data))) = last (text_lines (last (text_lines (decoded seen)) @ ?q))"
    unfolding decoded_append using split_by_append [of "\<lambda>c. c = NL" "decoded seen" ?q]
    by (simp_all add: butlast_append)
  have run: "run_lines ctx (?old @ ?new) r0 = run_lines ctx ?new r1"
    unfolding run_lines_append r1 by simp
  have pend: "rn_pending t = last (text_lines (decoded seen)) @ ?q" using cu t by (simp add: caught_up_def)
  note walk = walk_is_run_lines [OF stt ok, of ctx, unfolded pend]
  have "same_core r1 t" using r1 t same_core_trans by blast
  note same = same_core_lines [OF this st1, of ctx ?new]
  note after = after_event_sentinel [OF stt ok, of ctx]
  have ev: "on_event ctx (EvShellOutput data) r = after_event ctx t" by (simp add: on_event_def t_def)
  have core: "same_core (snd (run_lines ctx ?new r1)) (snd (after_event ctx t))"
    using walk same after same_core_trans by blast
  have "us_tail (rn_utf8 (snd (after_event ctx t))) = snd (decode_ref (seen @ data))"
    using after_event_wire [of ctx t] t by simp
  then have "fst (after_event ctx t) = None \<Longrightarrow> caught_up ctx r0 (seen @ data) (snd (after_event ctx t))"
    unfolding caught_up_def lines run using walk same after core by simp
  then show ?thesis
    unfolding lines run ev using walk same after core t by simp
qed

text \<open>Everything a transport delivers that neither ends the run nor fails.\<close>

fun quiet :: "nat \<times> (exec_error + exec_event) \<Rightarrow> bool" where
  "quiet (d, Inl e) = False"
| "quiet (d, Inr (EvShellExit c)) = False"
| "quiet (d, Inr ev) = True"

fun output_of :: "nat \<times> (exec_error + exec_event) \<Rightarrow> bytes" where
  "output_of (d, Inr (EvShellOutput data)) = data"
| "output_of (d, r) = []"

abbreviation outputs :: "(nat \<times> (exec_error + exec_event)) list \<Rightarrow> bytes" where
  "outputs evs \<equiv> concat (map output_of evs)"

abbreviation delays :: "(nat \<times> (exec_error + exec_event)) list \<Rightarrow> nat" where
  "delays evs \<equiv> sum_list (map fst evs)"

lemma caught_up_nothing:
  assumes st: "rn_state r0 = AwaitingSentinel" and cu: "caught_up ctx r0 seen r"
  shows "fst (after_event ctx r) = fst (run_lines ctx (butlast (text_lines (decoded seen))) r0)
    \<and> same_core (snd (run_lines ctx (butlast (text_lines (decoded seen))) r0)) (snd (after_event ctx r))
    \<and> rn_wire (snd (after_event ctx r)) = rn_wire r
    \<and> caught_up ctx r0 seen (snd (after_event ctx r))"
proof -
  have stt: "rn_state r = AwaitingSentinel"
    using same_core_lines [OF same_core_refl st, of ctx "butlast (text_lines (decoded seen))"] cu
    by (simp add: caught_up_def same_core_def)
  have p: "NL \<notin> set (rn_pending r)" "rn_scanned r = length (rn_pending r)"
    using cu text_lines_last [of "decoded seen"] by (simp_all add: caught_up_def)
  then have "walk_lines ctx r = (None, r)"
    by (simp add: walk_lines.simps [of ctx r] find_index_def)
  then have "after_event ctx r = (None, r\<lparr>rn_scanned := length (rn_pending r)\<rparr>)"
    using stt by (simp add: after_event_def peek_prompt_def)
  then show ?thesis using cu p by (simp add: caught_up_def same_core_def)
qed

lemma caught_up_quiet:
  assumes st: "rn_state r0 = AwaitingSentinel" and cu: "caught_up ctx r0 seen r" and q: "quiet (d, Inr ev)"
  shows "fst (on_event ctx ev r)
      = fst (run_lines ctx (butlast (text_lines (decoded (seen @ output_of (d, Inr ev))))) r0)
    \<and> same_core (snd (run_lines ctx (butlast (text_lines (decoded (seen @ output_of (d, Inr ev))))) r0))
        (snd (on_event ctx ev r))
    \<and> rn_wire (snd (on_event ctx ev r)) = rn_wire r
    \<and> (fst (on_event ctx ev r) = None \<longrightarrow>
         caught_up ctx r0 (seen @ output_of (d, Inr ev)) (snd (on_event ctx ev r)))"
proof (cases ev)
  case (EvShellOutput data)
  then show ?thesis using caught_up_output [OF st cu, of data] by simp
next
  case EvShellClosed
  then show ?thesis using cu by (simp add: on_event_def caught_up_def)
next
  case (EvShellExit c)
  then show ?thesis using q by simp
next
  case (EvHostError m)
  then show ?thesis using caught_up_nothing [OF st cu] by (simp add: on_event_def)
next
  case EvIdle
  then show ?thesis using caught_up_nothing [OF st cu] by (simp add: on_event_def)
qed

lemma run_reaches:
  assumes st: "rn_state r0 = AwaitingSentinel"
    and "caught_up ctx r0 seen r" "ew_events (rn_wire r) = evs @ evs_rest" "list_all quiet evs"
    and "ew_now (rn_wire r) - started + delays evs < max_wait" "started \<le> ew_now (rn_wire r)"
    and "fst (run_lines ctx (butlast (text_lines (decoded (seen @ outputs evs)))) r0) = Some res"
  shows "fst (run_loop ctx started max_wait r) = res
    \<and> rn_chunks (snd (run_loop ctx started max_wait r))
      = rn_chunks (snd (run_lines ctx (butlast (text_lines (decoded (seen @ outputs evs)))) r0))
    \<and> ew_sent (rn_wire (snd (run_loop ctx started max_wait r))) = ew_sent (rn_wire r)"
  using assms(2-)
proof (induction evs arbitrary: seen r)
  case Nil
  then show ?case by (simp add: caught_up_def)
next
  case (Cons ev evs)
  obtain d e where ev: "ev = (d, Inr e)" "quiet (d, Inr e)"
    using Cons.prems(3) by (cases ev; cases "snd ev") auto
  let ?seen = "seen @ output_of ev" and ?w = "(rn_wire r)\<lparr>ew_events := evs @ evs_rest, ew_now := ew_now (rn_wire r) + d\<rparr>"
  let ?r = "r\<lparr>rn_wire := ?w\<rparr>"
  have recv: "wire_recv (rn_wire r) = (Inr e, ?w)" using Cons.prems(2) ev by (simp add: wire_recv_def)
  have time: "ew_now (rn_wire r) - started < max_wait" using Cons.prems(4) by simp
  have "caught_up ctx r0 seen ?r"
    using Cons.prems(1) by (simp add: caught_up_def same_core_def)
  note step = caught_up_quiet [OF st this ev(2), folded ev(1)]
  obtain a r1 where on: "on_event ctx e ?r = (a, r1)" by (cases "on_event ctx e ?r")
  have loop: "run_loop ctx started max_wait r
      = (case a of Some x \<Rightarrow> (x, r1) | None \<Rightarrow> run_loop ctx started max_wait r1)"
    using recv time on by (simp add: run_loop.simps [of ctx started max_wait r])
  show ?case
  proof (cases a)
    case None
    then have "caught_up ctx r0 ?seen r1" "rn_wire r1 = ?w" using step on by simp_all
    then show ?thesis
      using Cons.IH [of ?seen r1] Cons.prems ev None loop by simp
  next
    case (Some x)
    obtain r' where r': "run_lines ctx (butlast (text_lines (decoded ?seen))) r0 = (Some x, r')" "same_core r' r1"
      "rn_wire r1 = ?w"
      using step on Some by (cases "run_lines ctx (butlast (text_lines (decoded ?seen))) r0") simp
    have "decoded (seen @ outputs (ev # evs))
        = decoded ?seen @ utf8_chars (fst (decode_ref (snd (decode_ref ?seen) @ outputs evs)))"
      using decoded_append [of ?seen "outputs evs"] by simp
    then have "\<exists>ms. butlast (text_lines (decoded (seen @ outputs (ev # evs))))
        = butlast (text_lines (decoded ?seen)) @ ms"
      using split_by_append [of "\<lambda>c. c = NL" "decoded ?seen"] by (simp add: butlast_append)
    then obtain ms where "butlast (text_lines (decoded (seen @ outputs (ev # evs))))
        = butlast (text_lines (decoded ?seen)) @ ms" by blast
    then have "run_lines ctx (butlast (text_lines (decoded (seen @ outputs (ev # evs))))) r0 = (Some x, r')"
      using r' by (simp add: run_lines_append)
    then show ?thesis using Cons.prems(6) loop Some r' by (simp add: same_core_def)
  qed
qed

section \<open>A transcript\<close>

abbreviation trim_cr :: "ustring \<Rightarrow> ustring" where
  "trim_cr l \<equiv> trim_end_matches (\<lambda>c. c = CR) l"

text \<open>Ahead of the first marker, what the pipe path drops.\<close>

definition noise_line :: "ustring \<Rightarrow> ustring \<Rightarrow> bool" where
  "noise_line u l \<longleftrightarrow> \<not> parse_ready (trim_cr l) u
     \<and> (is_echo_line u (trim_cr l) \<or> trim (trim_cr l) = [] \<or> is_powershell_prompt (trim_cr l)
        \<or> is_powershell_continuation (trim_cr l) \<or> is_remote_prompt (trim_cr l))"

text \<open>Behind it, what is the command's own has no uuid in it; some of it may still end like a prompt.\<close>

definition own_line :: "ustring \<Rightarrow> ustring \<Rightarrow> bool" where
  "own_line u l \<longleftrightarrow> \<not> str_contains (trim_cr l) u"

definition prompt_like :: "ustring \<Rightarrow> bool" where
  "prompt_like l \<longleftrightarrow> is_powershell_prompt (trim_cr l) \<or> is_remote_prompt (trim_cr l)"

definition printed :: "ustring \<Rightarrow> bytes" where
  "printed l = utf8_encode (trim_cr l @ [NL])"

definition printed_tail :: "ustring \<Rightarrow> bytes list" where
  "printed_tail tail = (if trim_cr tail = [] then [] else [printed tail])"

lemma noise_dropped:
  assumes "list_all (noise_line (xc_uuid ctx)) ls" "rn_state r = AwaitingSentinel" "rn_phase r = MuteNoise"
  shows "run_lines ctx ls r = (None, r)"
  using assms
proof (induction ls)
  case (Cons l ls)
  have "on_line ctx l r = (None, r)"
    using Cons.prems by (auto simp: on_line_def on_text_line_def noise_line_def Let_def)
  then show ?case using Cons by simp
qed simp

lemma fresh_line:
  assumes "\<not> str_contains l u"
  shows "\<not> is_echo_line u l" "parse_sentinel l u = None" "\<not> parse_ready l u"
  using no_uuid_no_mark [OF assms] by (simp_all add: is_echo_line_def)

lemma output_passes:
  assumes "list_all (own_line (xc_uuid ctx)) ls" "rn_state r = AwaitingSentinel" "rn_phase r = Streaming"
    and "\<not> xc_compress ctx"
  shows "run_lines ctx ls r
    = (None, r\<lparr>rn_chunks := rn_chunks r @ map printed (filter (\<lambda>l. \<not> prompt_like l) ls)\<rparr>)"
  using assms
proof (induction ls arbitrary: r)
  case (Cons l ls)
  let ?r = "if prompt_like l then r else r\<lparr>rn_chunks := rn_chunks r @ [printed l]\<rparr>"
  have l: "\<not> str_contains (trim_cr l) (xc_uuid ctx)" using Cons.prems(1) by (simp add: own_line_def)
  have "on_line ctx l r = (None, ?r)"
    using Cons.prems(2-) fresh_line [OF l]
    by (simp add: on_line_def on_text_line_def put_line_def emit_def printed_def prompt_like_def Let_def)
  then show ?case using Cons.IH [of ?r] Cons.prems by simp
qed simp

lemma trim_end_snoc: "P c \<Longrightarrow> trim_end_matches P (s @ [c]) = trim_end_matches P s"
  by (simp add: trim_end_matches_def)

lemma sentinel_found:
  assumes u: "uuid_text (xc_uuid ctx)" and d: "digits d" "digits_value d < 2 ^ 31"
    and a: "\<not> str_contains tail (xc_uuid ctx)" and cr: "cr = [] \<or> cr = [CR]"
    and r: "rn_state r = AwaitingSentinel" "rn_phase r = Streaming"
  shows "on_line ctx (tail @ DONE_MARK (xc_uuid ctx) @ d @ cr) r
    = map_prod Some (\<lambda>t. t)
        (on_sentinel ctx (tail @ DONE_MARK (xc_uuid ctx) @ d) (of_nat (digits_value d)) r)"
proof -
  let ?u = "xc_uuid ctx" and ?l = "tail @ DONE_MARK (xc_uuid ctx) @ d"
  have nd: "d \<noteq> []" "last d \<noteq> CR"
    using digits_chars [OF d(1), of "last d"] d(1) by (auto simp: digits_def)
  have "trim_cr ?l = ?l" by (rule trim_end_matches_none) (use nd in simp)
  then have "trim_cr (?l @ cr) = ?l" using cr trim_end_snoc [of "\<lambda>c. c = CR" CR ?l] by (metis append_Nil2)
  then have "trim_cr (tail @ DONE_MARK ?u @ d @ cr) = ?l" by simp
  moreover have "\<not> is_echo_line ?u ?l"
    using sentinel_line_no_echo [OF u d(1) a] by (simp add: is_echo_line_def)
  moreover have "parse_sentinel ?l ?u = Some (of_nat (digits_value d))"
    by (rule parse_sentinel_glued [OF u d])
  ultimately show ?thesis using r by (simp add: on_line_def Let_def case_prod_beta map_prod_def)
qed

lemma sentinel_ends:
  assumes u: "uuid_text (xc_uuid ctx)" and d: "digits d" "digits_value d < 2 ^ 31"
    and a: "\<not> str_contains tail (xc_uuid ctx)" and cr: "cr = [] \<or> cr = [CR]"
    and r: "rn_state r = AwaitingSentinel" "rn_phase r = Streaming" "\<not> xc_compress ctx"
  shows "on_line ctx (tail @ DONE_MARK (xc_uuid ctx) @ d @ cr) r
    = (Some (Inr (of_nat (digits_value d))), r\<lparr>rn_chunks := rn_chunks r @ printed_tail tail\<rparr>)"
proof -
  let ?u = "xc_uuid ctx" and ?l = "tail @ DONE_MARK (xc_uuid ctx) @ d"
  have nd: "87 \<notin> set d" using digits_chars [OF d(1), of 87] by auto
  obtain t where "tail = trim_cr tail @ t" using trim_end_matches_prefix by blast
  then have "\<not> str_contains (trim_cr tail) ?u"
    using a str_contains_append [of "trim_cr tail" ?u "[]" t] by (metis append_Nil)
  from fresh_line(1) [OF this]
  have "on_sentinel ctx ?l (of_nat (digits_value d)) r
      = (Inr (of_nat (digits_value d)), r\<lparr>rn_chunks := rn_chunks r @ printed_tail tail\<rparr>)"
    using rfind_mark [OF u nd, of tail] r(3)
    by (auto simp: on_sentinel_def put_line_def emit_def printed_tail_def printed_def trim_end_matches_def Let_def)
  then show ?thesis using sentinel_found [OF u d a cr r(1,2)] by simp
qed

definition transcript ::
  "ustring list \<Rightarrow> ustring \<Rightarrow> ustring list \<Rightarrow> ustring \<Rightarrow> ustring \<Rightarrow> ustring list" where
  "transcript pre rdy body tail done = pre @ [rdy] @ body @ [tail @ done]"

lemma transcript_runs:
  assumes u: "uuid_text (xc_uuid ctx)" and d: "digits d" "digits_value d < 2 ^ 31"
    and tail: "\<not> str_contains tail (xc_uuid ctx)" and cr: "cr = [] \<or> cr = [CR]"
    and r: "rn_state r = AwaitingSentinel" "rn_phase r = MuteNoise" "\<not> xc_compress ctx"
    and pre: "list_all (noise_line (xc_uuid ctx)) pre" and rdy: "parse_ready (trim_cr rdy) (xc_uuid ctx)"
    and body: "list_all (own_line (xc_uuid ctx)) body"
  shows "\<exists>t. run_lines ctx (transcript pre rdy body tail (DONE_MARK (xc_uuid ctx) @ d @ cr) @ ms) r
      = (Some (Inr (of_nat (digits_value d))), t)
    \<and> rn_chunks t = rn_chunks r @ map printed (filter (\<lambda>l. \<not> prompt_like l) body) @ printed_tail tail"
proof -
  let ?r1 = "r\<lparr>rn_phase := Streaming\<rparr>"
  let ?r2 = "?r1\<lparr>rn_chunks := rn_chunks r @ map printed (filter (\<lambda>l. \<not> prompt_like l) body)\<rparr>"
  have "on_line ctx rdy r = (None, ?r1)"
    using r rdy by (simp add: on_line_def on_text_line_def Let_def)
  moreover have "run_lines ctx body ?r1 = (None, ?r2)"
    using output_passes [OF body, of ?r1] r by simp
  moreover have "on_line ctx (tail @ DONE_MARK (xc_uuid ctx) @ d @ cr) ?r2
      = (Some (Inr (of_nat (digits_value d))), ?r2\<lparr>rn_chunks := rn_chunks ?r2 @ printed_tail tail\<rparr>)"
    by (rule sentinel_ends [OF u d tail cr]) (use r in simp_all)
  ultimately show ?thesis
    using noise_dropped [OF pre r(1,2)] unfolding transcript_def by (simp add: run_lines_append)
qed

section \<open>The whole run\<close>

text \<open>Lines as they travel.\<close>

definition unlines :: "ustring list \<Rightarrow> ustring" where
  "unlines ls = concat (map (\<lambda>l. l @ [NL]) ls)"

lemma text_lines_unlines:
  "list_all (\<lambda>l. NL \<notin> set l) ls \<Longrightarrow> butlast (text_lines (unlines ls @ s)) = ls @ butlast (text_lines s)"
proof (induction ls)
  case (Cons l ls)
  have "text_lines (l @ NL # (unlines ls @ s)) = l # text_lines (unlines ls @ s)"
    by (rule split_by_step) (use Cons.prems in auto)
  then show ?case using Cons by (simp add: unlines_def)
qed (simp add: unlines_def)

lemma decode_ref_whole: "utf8_valid bs \<Longrightarrow> decode_ref bs = (bs, [])"
  by (simp add: decode_ref_check [of bs] utf8_valid_def)

lemma decoded_encode:
  "list_all is_char s \<Longrightarrow> decoded (utf8_encode s @ bs) = s @ decoded bs"
  unfolding decoded_append decode_ref_whole [OF utf8_valid_encode]
  by (simp add: decoded_def decode_ref_whole [OF utf8_valid_encode] utf8_chars_encode)

lemma pipe_run_reaches:
  assumes send: "ew_send_script w = []" and evs: "ew_events w = evs @ evs_rest" "list_all quiet evs"
    and time: "delays evs < timeout_secs * 1000"
    and ctx: "ctx = \<lparr>xc_uuid = u,
        xc_payload = (if compress then format_compressed_command u PowerShell cmd else format_command u PowerShell cmd),
        xc_compress = compress, xc_base64 = base64, xc_gunzip = gunzip\<rparr>"
    and run: "\<And>r0. rn_state r0 = AwaitingSentinel \<Longrightarrow> rn_phase r0 = MuteNoise \<Longrightarrow> rn_compress_buf r0 = []
      \<Longrightarrow> rn_chunks r0 = [] \<Longrightarrow> \<exists>t. run_lines ctx (butlast (text_lines (decoded (outputs evs)))) r0 = (Some res, t)
        \<and> rn_chunks t = calls"
  shows "\<exists>w'. run_oneshot base64 gunzip u cmd None timeout_secs compress w = (res, w', calls)
    \<and> ew_sent w' = ew_sent w @ [utf8_encode (xc_payload ctx)]"
proof -
  let ?w1 = "w\<lparr>ew_sent := ew_sent w @ [utf8_encode (xc_payload ctx)]\<rparr>"
  define r0 where "r0 = \<lparr>rn_wire = ?w1, rn_state = AwaitingSentinel, rn_phase = MuteNoise,
    rn_pending = [], rn_scanned = 0, rn_full_log = [], rn_utf8 = utf8_stream_new,
    rn_compress_buf = [], rn_chunks = []\<rparr>"
  obtain t where t: "run_lines ctx (butlast (text_lines (decoded (outputs evs)))) r0 = (Some res, t)" "rn_chunks t = calls"
    using run [of r0] by (auto simp: r0_def)
  have r0: "rn_state r0 = AwaitingSentinel" "ew_now (rn_wire r0) = ew_now w" by (simp_all add: r0_def)
  have "caught_up ctx r0 [] r0"
    by (simp add: caught_up_def r0_def utf8_stream_new_def decoded_def)
  from run_reaches [OF r0(1) this, of evs evs_rest "ew_now w" "timeout_secs * 1000" res]
  have "fst (run_loop ctx (ew_now w) (timeout_secs * 1000) r0) = res
    \<and> rn_chunks (snd (run_loop ctx (ew_now w) (timeout_secs * 1000) r0)) = calls
    \<and> ew_sent (rn_wire (snd (run_loop ctx (ew_now w) (timeout_secs * 1000) r0)))
      = ew_sent w @ [utf8_encode (xc_payload ctx)]"
    using evs time t by (simp add: r0_def)
  then show ?thesis
    using send unfolding ctx
    by (auto simp: run_oneshot_def wire_send_def Let_def ctx r0_def case_prod_beta)
qed

lemma exec_transcript:
  assumes u: "uuid_text u" and send: "ew_send_script w = []"
    and evs: "ew_events w = evs @ evs_rest" "list_all quiet evs" "delays evs < timeout_secs * 1000"
    and out: "outputs evs = utf8_encode (unlines (transcript pre rdy body tail (DONE_MARK u @ d @ cr))) @ after"
    and chars: "list_all is_char (unlines (transcript pre rdy body tail (DONE_MARK u @ d @ cr)))"
    and nl: "list_all (\<lambda>l. NL \<notin> set l) (transcript pre rdy body tail (DONE_MARK u @ d @ cr))"
    and d: "digits d" "digits_value d < 2 ^ 31" and tail: "\<not> str_contains tail u" and cr: "cr = [] \<or> cr = [CR]"
    and pre: "list_all (noise_line u) pre" and rdy: "parse_ready (trim_cr rdy) u"
    and body: "list_all (own_line u) body"
  shows "\<exists>w'. run_oneshot base64 gunzip u cmd None timeout_secs False w
      = (Inr (of_nat (digits_value d)), w', map printed (filter (\<lambda>l. \<not> prompt_like l) body) @ printed_tail tail)
    \<and> ew_sent w' = ew_sent w @ [utf8_encode (format_command u PowerShell cmd)]"
proof -
  define ctx where "ctx = \<lparr>xc_uuid = u, xc_payload = (if False then format_compressed_command u PowerShell cmd
      else format_command u PowerShell cmd), xc_compress = False, xc_base64 = base64, xc_gunzip = gunzip\<rparr>"
  let ?ls = "transcript pre rdy body tail (DONE_MARK u @ d @ cr)"
  have lines: "butlast (text_lines (decoded (outputs evs))) = ?ls @ butlast (text_lines (decoded after))"
    unfolding out decoded_encode [OF chars] by (rule text_lines_unlines [OF nl])
  have cx: "xc_uuid ctx = u" "\<not> xc_compress ctx" by (simp_all add: ctx_def)
  have "\<exists>t. run_lines ctx (butlast (text_lines (decoded (outputs evs)))) r0 = (Some (Inr (of_nat (digits_value d))), t)
        \<and> rn_chunks t = map printed (filter (\<lambda>l. \<not> prompt_like l) body) @ printed_tail tail"
    if r0: "rn_state r0 = AwaitingSentinel" "rn_phase r0 = MuteNoise" "rn_compress_buf r0 = []"
      "rn_chunks r0 = []" for r0
    using transcript_runs [of ctx, unfolded cx(1), OF u d tail cr r0(1,2) cx(2) pre rdy body,
        of "butlast (text_lines (decoded after))"] r0(4)
    unfolding lines by (metis append_Nil)
  from pipe_run_reaches [OF send evs ctx_def this]
  obtain w' where "run_oneshot base64 gunzip u cmd None timeout_secs False w
      = (Inr (of_nat (digits_value d)), w', map printed (filter (\<lambda>l. \<not> prompt_like l) body) @ printed_tail tail)"
    "ew_sent w' = ew_sent w @ [utf8_encode (xc_payload ctx)]" by blast
  moreover have "xc_payload ctx = format_command u PowerShell cmd" by (simp add: ctx_def)
  ultimately show ?thesis by metis
qed

end
