(* ===== verification/ExecSafety.thy ===== *)
theory ExecSafety
  imports ExecRuns
begin

text \<open>
  The other promises of a run: the echo of the payload is never output, a remote payload goes out
  once and after a prompt, the time limit holds, the log an expired run carries is bounded text,
  and a compressed run gives back the bytes and the exit code that were packed.
\<close>

section \<open>Echoes\<close>

lemma trim_keeps:
  assumes "c \<in> set s" "\<not> is_whitespace c"
  shows "c \<in> set (trim s)"
proof -
  obtain a where a: "s = a @ trim_start s" "\<forall>c \<in> set a. is_whitespace c"
    using trim_start_matches_suffix [of s is_whitespace] unfolding trim_start_def by blast
  obtain b where b: "trim_start s = trim s @ b" "\<forall>c \<in> set b. is_whitespace c"
    using trim_end_matches_prefix [of "trim_start s" is_whitespace] unfolding trim_def trim_end_def by blast
  have "s = a @ trim s @ b" using a(1) b(1) by simp
  then show ?thesis using assms a(2) b(2) by (metis Un_iff set_append)
qed

text \<open>A line that carries the first marker and any other visible character is an echo.\<close>

lemma marker_in_line_is_echo:
  assumes "str_contains l (READY_MARK u)" "c \<in> set l" "\<not> is_whitespace c" "c \<notin> set (READY_MARK u)"
  shows "is_echo_line u l \<and> \<not> parse_ready l u"
  using assms trim_keeps [OF assms(2,3)] by (auto simp: is_echo_line_def parse_ready_def)

lemma set_trim_cr: "c \<in> set l \<Longrightarrow> c \<noteq> CR \<Longrightarrow> c \<in> set (trim_cr l)"
  using trim_end_matches_prefix [of l "\<lambda>c. c = CR"] by (metis Un_iff set_append)

lemma contains_trim_cr:
  assumes "str_contains l p" "p \<noteq> []" "last p \<noteq> CR"
  shows "str_contains (trim_cr l) p"
proof -
  obtain t where t: "l = trim_cr l @ t" "\<forall>c \<in> set t. c = CR"
    using trim_end_matches_prefix [of l "\<lambda>c. c = CR"] by blast
  obtain a b where ab: "l = a @ p @ b" using assms(1) by (auto simp: str_contains_iff)
  show ?thesis
  proof (cases "length (a @ p) \<le> length (trim_cr l)")
    case True
    then have "take (length (trim_cr l)) l = a @ p @ take (length (trim_cr l) - length (a @ p)) b"
      using ab by simp
    then have "trim_cr l = a @ p @ take (length (trim_cr l) - length (a @ p)) b"
      using t(1) by (metis append_eq_conv_conj)
    then show ?thesis unfolding str_contains_iff by blast
  next
    case False
    let ?i = "length (a @ p) - 1"
    have "l = (a @ butlast p) @ last p # b" using ab assms(2) by simp
    then have "l ! length (a @ butlast p) = last p" by (metis nth_append_length)
    then have "l ! ?i = last p" using assms(2) by (simp add: Suc_le_eq)
    moreover have "?i < length l" "length (trim_cr l) \<le> ?i" using False ab assms(2) by auto
    then have "l ! ?i \<in> set t"
      using t(1) by (metis le_add_diff_inverse length_append nat_add_left_cancel_less nth_append_length_plus nth_mem)
    ultimately show ?thesis using t(2) assms(3) by metis
  qed
qed

lemma payload_echo_noise:
  assumes u: "uuid_text u" and cmd: "NL \<notin> set cmd" "NL \<notin> set prompt"
  shows "\<exists>l. format_command u PowerShell cmd = l @ [NL] \<and> NL \<notin> set l \<and> noise_line u (prompt @ l @ cr)"
proof -
  let ?a = "lit ''$LASTEXITCODE=0; $ErrorActionPreference='Stop'; Write-Output '' @ [QUOTE]"
  let ?b = "[QUOTE] @ lit ''; try { '' @ cmd @ lit '' } catch { $LASTEXITCODE=1 }; '' @ [QUOTE]
    @ DONE_MARK u @ lit ''$LASTEXITCODE'' @ [QUOTE]"
  let ?l = "?a @ READY_MARK u @ ?b"
  have nl: "NL \<notin> set ?l" using cmd uuid_clean(4) [OF u] by (simp add: DONE_MARK_eq READY_MARK_eq)
  have "trim_end_matches (\<lambda>c. c = NL) (?l @ [NL]) = ?l"
    using trim_end_matches_none [of ?l "\<lambda>c. c = NL"] by (simp add: trim_end_matches_def)
  then have "terminate_multiline_ps (?l @ [NL]) = ?l @ [NL]"
    using nl by (simp add: terminate_multiline_ps_def)
  then have f: "format_command u PowerShell cmd = ?l @ [NL]" by (simp add: format_command_def)
  have "str_contains (trim_cr (prompt @ ?l @ cr)) (READY_MARK u)"
    by (rule contains_trim_cr) (use str_contains_mid [of "prompt @ ?a" "READY_MARK u" "?b @ cr"] in
      \<open>simp_all add: READY_MARK_eq\<close>)
  moreover have "36 \<in> set (trim_cr (prompt @ ?l @ cr))" by (rule set_trim_cr) simp_all
  moreover have "36 \<notin> set (READY_MARK u)" using uuid_clean(3) [OF u] by (simp add: READY_MARK_eq)
  moreover have "\<not> is_whitespace 36" by (simp add: is_whitespace_def)
  ultimately have "noise_line u (prompt @ ?l @ cr)"
    using marker_in_line_is_echo by (auto simp: noise_line_def)
  then show ?thesis using f nl by blast
qed

section \<open>Runs keep what their steps keep\<close>

text \<open>One rule for every invariant of a run: each line, each send and each packet keeps it.\<close>

definition result_inv :: "(runner \<Rightarrow> bool) \<Rightarrow> (runner \<Rightarrow> bool) \<Rightarrow> ('r option \<times> runner) \<Rightarrow> bool" where
  "result_inv I Q p \<longleftrightarrow> (if fst p = None then I (snd p) else Q (snd p))"

lemma walk_lines_inv:
  assumes line: "\<And>l t. I t \<Longrightarrow> result_inv I Q (on_line ctx l t)"
    and pos: "\<And>t n p. I (t\<lparr>rn_scanned := n, rn_pending := p\<rparr>) = I t"
  shows "I r \<Longrightarrow> result_inv I Q (walk_lines ctx r)"
proof (induction "length (rn_pending r)" arbitrary: r rule: less_induct)
  case less
  show ?case
  proof (cases "find_index (\<lambda>c. c = NL) (drop (rn_scanned r) (rn_pending r))")
    case None
    then show ?thesis using less.prems by (simp add: walk_lines.simps [of ctx r] result_inv_def)
  next
    case (Some rel)
    define r1 where "r1 = r\<lparr>rn_scanned := 0, rn_pending := drop (Suc (rn_scanned r + rel)) (rn_pending r)\<rparr>"
    obtain a r2 where ol: "on_line ctx (take (rn_scanned r + rel) (rn_pending r)) r1 = (a, r2)"
      by (cases "on_line ctx (take (rn_scanned r + rel) (rn_pending r)) r1")
    have "I r1" using less.prems pos by (simp add: r1_def)
    from line [OF this, of "take (rn_scanned r + rel) (rn_pending r)"]
    have r2: "result_inv I Q (a, r2)" using ol by simp
    have "length (rn_pending r2) < length (rn_pending r)"
      using line_taken_shrinks [OF Some ol [symmetric, unfolded r1_def]] .
    then show ?thesis
      using less.hyps [of r2] r2 ol Some
      by (cases a) (simp_all add: walk_lines.simps [of ctx r] r1_def result_inv_def)
  qed
qed

lemma on_event_inv:
  assumes line: "\<And>l t. I t \<Longrightarrow> result_inv I Q (on_line ctx l t)"
    and pos: "\<And>t n p. I (t\<lparr>rn_scanned := n, rn_pending := p\<rparr>) = I t"
    and peek: "\<And>t. I t \<Longrightarrow> result_inv I Q (peek_prompt ctx t)"
    and out: "\<And>d t. I t \<Longrightarrow> I (take_output d t)"
    and stop: "\<And>t. I t \<Longrightarrow> Q t"
    and r: "I r"
  shows "result_inv I Q (on_event ctx ev r)"
proof -
  have after: "result_inv I Q (after_event ctx t)" if "I t" for t
  proof -
    obtain a t1 where w: "walk_lines ctx t = (a, t1)" by (cases "walk_lines ctx t")
    have i: "result_inv I Q (a, t1)" using walk_lines_inv [OF line pos that] w by simp
    let ?t1 = "t1\<lparr>rn_scanned := length (rn_pending t1)\<rparr>"
    obtain b t2 where p: "peek_prompt ctx ?t1 = (b, t2)" by (cases "peek_prompt ctx ?t1")
    have "I ?t1" if "a = None"
      using i that pos [where t = t1 and n = "length (rn_pending t1)" and p = "rn_pending t1"] by (simp add: result_inv_def)
    then have "result_inv I Q (b, t2)" if "a = None" using peek [of ?t1] p that by simp
    then show ?thesis using w p i by (cases a; cases b) (simp_all add: after_event_def result_inv_def)
  qed
  show ?thesis
    by (cases ev) (simp_all add: on_event_def after r out, simp_all add: result_inv_def r stop)
qed

lemma run_loop_inv:
  assumes step: "\<And>ev t. I t \<Longrightarrow> result_inv I Q (on_event ctx ev t)"
    and recv: "\<And>t. I t \<Longrightarrow> ew_now (rn_wire t) - started < max_wait
      \<Longrightarrow> result_inv I Q (if is_ok (fst (wire_recv (rn_wire t))) then None else Some (),
            t\<lparr>rn_wire := snd (wire_recv (rn_wire t))\<rparr>)"
    and stop: "\<And>t. I t \<Longrightarrow> Q (snd (timed_out t))"
  shows "I r \<Longrightarrow> Q (snd (run_loop ctx started max_wait r))"
  using assms
proof (induction ctx started max_wait r rule: run_loop.induct)
  case (1 ctx started max_wait r)
  show ?case
  proof (cases "ew_now (rn_wire r) - started < max_wait")
    case True
    obtain e w where w: "wire_recv (rn_wire r) = (e, w)" by (cases "wire_recv (rn_wire r)")
    note rc = "1.prems"(3) [OF "1.prems"(1) True, unfolded w]
    show ?thesis
    proof (cases e)
      case (Inl x)
      then show ?thesis using True w rc by (simp add: run_loop.simps [of ctx] result_inv_def)
    next
      case (Inr ev)
      obtain a t where t: "on_event ctx ev (r\<lparr>rn_wire := w\<rparr>) = (a, t)"
        by (cases "on_event ctx ev (r\<lparr>rn_wire := w\<rparr>)")
      have "I (r\<lparr>rn_wire := w\<rparr>)" using rc Inr by (simp add: result_inv_def)
      from "1.prems"(2) [OF this, of ev] have ti: "result_inv I Q (a, t)" using t by simp
      show ?thesis
      proof (cases a)
        case None
        have "Q (snd (run_loop ctx started max_wait t))"
          by (rule "1.IH" [OF True w [symmetric] Inr t [symmetric] None _ "1.prems"(2) "1.prems"(3) "1.prems"(4)])
            (use ti None in \<open>simp add: result_inv_def\<close>)
        then show ?thesis using True w Inr t None by (simp add: run_loop.simps [of ctx])
      next
        case (Some x)
        then show ?thesis using True w Inr t ti by (simp add: run_loop.simps [of ctx] result_inv_def)
      qed
    qed
  next
    case False
    then show ?thesis using "1.prems" by (simp add: run_loop.simps [of ctx started max_wait r])
  qed
qed

section \<open>Over ssh: one payload, after a prompt\<close>

definition hop_state :: "bytes list \<Rightarrow> bytes \<Rightarrow> runner \<Rightarrow> bool" where
  "hop_state before payload r \<longleftrightarrow>
     (if rn_state r = AwaitingRemotePrompt then ew_sent (rn_wire r) = before \<and> rn_chunks r = []
      else ew_sent (rn_wire r) = before @ [payload])"

definition hop_end :: "bytes list \<Rightarrow> bytes \<Rightarrow> runner \<Rightarrow> bool" where
  "hop_end before payload r \<longleftrightarrow>
     ew_sent (rn_wire r) = before \<and> rn_chunks r = [] \<or> ew_sent (rn_wire r) = before @ [payload]"

lemma send_payload_hop:
  assumes "rn_state r = AwaitingRemotePrompt" "hop_state b (utf8_encode (xc_payload ctx)) r"
  shows "result_inv (hop_state b (utf8_encode (xc_payload ctx))) (hop_end b (utf8_encode (xc_payload ctx)))
    (send_payload ctx r)"
  using assms
  by (auto simp: send_payload_def wire_send_def hop_state_def hop_end_def result_inv_def Let_def split: list.split)

lemma put_line_wire: "rn_wire (put_line ctx l r) = rn_wire r \<and> rn_state (put_line ctx l r) = rn_state r"
  by (simp add: put_line_def emit_def)

lemma on_line_hop:
  assumes "hop_state b (utf8_encode (xc_payload ctx)) r"
  shows "result_inv (hop_state b (utf8_encode (xc_payload ctx))) (hop_end b (utf8_encode (xc_payload ctx)))
    (on_line ctx l r)"
proof (cases "rn_state r")
  case AwaitingRemotePrompt
  then show ?thesis
    using send_payload_hop [OF AwaitingRemotePrompt assms] assms
    by (simp add: on_line_def result_inv_def Let_def case_prod_beta)
next
  case AwaitingSentinel
  have "rn_state (snd (on_line ctx l r)) = AwaitingSentinel"
    using same_core_line [OF same_core_refl AwaitingSentinel, of ctx l] by simp
  then show ?thesis
    using on_line_wire [OF AwaitingSentinel, of ctx l] assms AwaitingSentinel
    by (simp add: hop_state_def hop_end_def result_inv_def)
qed

lemma peek_prompt_hop:
  assumes "hop_state b (utf8_encode (xc_payload ctx)) r"
  shows "result_inv (hop_state b (utf8_encode (xc_payload ctx))) (hop_end b (utf8_encode (xc_payload ctx)))
    (peek_prompt ctx r)"
proof (cases "rn_state r = AwaitingRemotePrompt \<and> is_remote_prompt (trim_end (strip_ansi (rn_pending r)))")
  case True
  then show ?thesis
    using send_payload_hop [OF _ assms]
    by (cases "fst (send_payload ctx r)")
      (simp_all add: peek_prompt_def result_inv_def hop_state_def case_prod_beta)
next
  case False
  then have "peek_prompt ctx r = (None, r)" by (auto simp: peek_prompt_def)
  then show ?thesis using assms by (simp add: result_inv_def)
qed

lemma ssh_payload_once:
  fixes u cmd host :: ustring and compress :: bool
  assumes "ew_send_script w = []"
  defines "payload \<equiv> utf8_encode (if compress then format_compressed_command u Bash cmd else format_command u Bash cmd)"
    and "hop \<equiv> utf8_encode (lit ''ssh -tt '' @ host @ [NL])"
  shows "case run_oneshot base64 gunzip u cmd (Some host) timeout_secs compress w of (res, w', calls) \<Rightarrow>
    ew_sent w' = ew_sent w @ [hop] \<and> calls = [] \<or> ew_sent w' = ew_sent w @ [hop, payload]"
proof -
  define ctx where "ctx = \<lparr>xc_uuid = u, xc_payload = (if compress then format_compressed_command u Bash cmd
      else format_command u Bash cmd), xc_compress = compress, xc_base64 = base64, xc_gunzip = gunzip\<rparr>"
  let ?b = "ew_sent w @ [hop]" and ?p = "utf8_encode (xc_payload ctx)"
  let ?I = "hop_state ?b ?p" and ?Q = "hop_end ?b ?p"
  let ?w1 = "w\<lparr>ew_sent := ?b\<rparr>"
  define r0 where "r0 = \<lparr>rn_wire = ?w1, rn_state = AwaitingRemotePrompt, rn_phase = Mute,
    rn_pending = [], rn_scanned = 0, rn_full_log = [], rn_utf8 = utf8_stream_new,
    rn_compress_buf = [], rn_chunks = []\<rparr>"
  have recv_sent: "ew_sent (snd (wire_recv v)) = ew_sent v" for v
    by (auto simp: wire_recv_def split: list.split prod.split)
  have end_of: "?I t \<Longrightarrow> ?Q t" for t by (auto simp: hop_state_def hop_end_def split: if_splits)
  have "?Q (snd (run_loop ctx (ew_now w) (timeout_secs * 1000) r0))"
  proof (rule run_loop_inv [where I = ?I])
    show "?I r0" by (simp add: r0_def hop_state_def)
    show "result_inv ?I ?Q (on_event ctx ev t)" if "?I t" for ev t
      by (rule on_event_inv [OF on_line_hop _ peek_prompt_hop _ _ that])
        (auto simp: end_of, auto simp: hop_state_def take_output_def case_prod_beta)
    show "result_inv ?I ?Q (if is_ok (fst (wire_recv (rn_wire t))) then None else Some (),
            t\<lparr>rn_wire := snd (wire_recv (rn_wire t))\<rparr>)" if "?I t" for t
      using that end_of [OF that] recv_sent by (simp add: result_inv_def hop_state_def hop_end_def)
    show "?Q (snd (timed_out t))" if "?I t" for t
      using end_of [OF that] by (simp add: timed_out_def hop_end_def case_prod_beta Let_def)
  qed
  then show ?thesis
    using assms(1)
    by (simp add: run_oneshot_def wire_send_def Let_def case_prod_beta r0_def ctx_def hop_end_def
        payload_def hop_def)
qed

section \<open>The time limit\<close>

definition in_time :: "nat \<Rightarrow> nat \<Rightarrow> runner \<Rightarrow> bool" where
  "in_time limit slack r \<longleftrightarrow> ew_now (rn_wire r) < limit + slack
     \<and> ew_send_script (rn_wire r) = [] \<and> list_all (\<lambda>e. fst e \<le> slack) (ew_events (rn_wire r))"

definition same_clock :: "runner \<Rightarrow> runner \<Rightarrow> bool" where
  "same_clock r t \<longleftrightarrow> (ew_send_script (rn_wire r) = [] \<longrightarrow>
     ew_now (rn_wire t) = ew_now (rn_wire r) \<and> ew_send_script (rn_wire t) = []
     \<and> ew_events (rn_wire t) = ew_events (rn_wire r))"

lemma in_time_same_clock: "in_time m n r \<Longrightarrow> same_clock r t \<Longrightarrow> in_time m n t"
  by (simp add: in_time_def same_clock_def)

lemma send_payload_clock: "same_clock r (snd (send_payload ctx r))"
  by (simp add: send_payload_def wire_send_def same_clock_def case_prod_beta Let_def)

lemma on_line_clock: "same_clock r (snd (on_line ctx l r))"
proof (cases "rn_state r")
  case AwaitingRemotePrompt
  then show ?thesis
    using send_payload_clock [of r ctx] by (simp add: on_line_def Let_def case_prod_beta same_clock_def)
next
  case AwaitingSentinel
  then show ?thesis using on_line_wire [OF AwaitingSentinel, of ctx l] by (simp add: same_clock_def)
qed

lemma peek_prompt_clock: "same_clock r (snd (peek_prompt ctx r))"
  using send_payload_clock [of r ctx] by (simp add: peek_prompt_def same_clock_def case_prod_beta)

lemma run_loop_in_time:
  assumes "in_time (started + max_wait) slack r" "RECV_TICK \<le> slack"
  shows "ew_now (rn_wire (snd (run_loop ctx started max_wait r))) < started + max_wait + slack"
proof -
  let ?I = "in_time (started + max_wait) slack"
  have res: "result_inv ?I ?I p" if "?I (snd p)" for p :: "'x option \<times> runner"
    using that by (simp add: result_inv_def)
  have "?I (snd (run_loop ctx started max_wait r))"
  proof (rule run_loop_inv [where I = ?I])
    show "?I r" by (fact assms(1))
    show "result_inv ?I ?I (on_event ctx ev t)" if "?I t" for ev t
    proof (rule on_event_inv)
      show "result_inv ?I ?I (on_line ctx l s)" if "?I s" for l s
        using in_time_same_clock [OF that on_line_clock] by (simp add: result_inv_def)
      show "result_inv ?I ?I (peek_prompt ctx s)" if "?I s" for s
        using in_time_same_clock [OF that peek_prompt_clock] by (simp add: result_inv_def)
    qed (use that in \<open>simp_all add: in_time_def take_output_def case_prod_beta\<close>)
    show "result_inv ?I ?I (if is_ok (fst (wire_recv (rn_wire t))) then None else Some (),
        t\<lparr>rn_wire := snd (wire_recv (rn_wire t))\<rparr>)"
      if "?I t" "ew_now (rn_wire t) - started < max_wait" for t
      using that assms(2)
      by (auto simp: result_inv_def in_time_def wire_recv_def RECV_TICK_def split: list.split prod.split)
    show "?I (snd (timed_out t))" if "?I t" for t
      using that by (simp add: timed_out_def in_time_def case_prod_beta Let_def)
  qed
  then show ?thesis by (simp add: in_time_def)
qed

section \<open>The log of an expired run\<close>

lemma cont_inside:
  assumes "utf8_next b = Whole n" "0 < i" "i < n"
  shows "is_cont (b ! i)"
proof -
  have second: "is_cont c" if "second_of_three a c \<or> second_of_four a c" for a c
    using that by (auto simp: second_of_three_def second_of_four_def is_cont_def word_le_nat_alt split: if_splits)
  have "n \<le> 4" "n \<le> length b" using utf8_next_Whole [OF assms(1)] by simp_all
  then consider "i = 1" | "i = 2" | "i = 3" using assms by linarith
  then show ?thesis
    using assms second \<open>n \<le> length b\<close>
    by cases (cases b rule: list_upto4; auto simp: utf8_next.simps(2) split: if_splits)+
qed

lemma boundary_valid:
  "utf8_valid b \<Longrightarrow> is_char_boundary b i \<Longrightarrow> utf8_valid (drop i b)"
proof (induction b arbitrary: i rule: length_induct)
  case (1 b)
  show ?case
  proof (cases "b = [] \<or> i = 0 \<or> i = length b")
    case True
    then show ?thesis using 1 by auto
  next
    case False
    then obtain n where n: "utf8_next b = Whole n" "utf8_valid (drop n b)" using 1(2) utf8_valid_iff by blast
    have i: "i < length b" "\<not> is_cont (b ! i)" using 1(3) False by (auto simp: is_char_boundary_def)
    have "n \<le> i"
    proof (rule ccontr)
      assume "\<not> n \<le> i"
      then have "is_cont (b ! i)" using cont_inside [OF n(1), of i] False by simp
      then show False using i by simp
    qed
    have b: "is_char_boundary (drop n b) (i - n)" using i \<open>n \<le> i\<close> by (auto simp: is_char_boundary_def)
    have "length (drop n b) < length b" using utf8_next_Whole [OF n(1)] False by auto
    from 1(1) [rule_format, OF this n(2) b] have "utf8_valid (drop (i - n) (drop n b))" .
    then show ?thesis using \<open>n \<le> i\<close> by simp
  qed
qed

lemma push_bounded_tail_ok:
  assumes "utf8_valid buf" "utf8_valid new"
  shows "length (push_bounded_tail buf new cap) \<le> cap \<and> utf8_valid (push_bounded_tail buf new cap)
    \<and> (\<exists>front. buf @ new = front @ push_bounded_tail buf new cap)"
proof (cases "length (buf @ new) \<le> cap")
  case True
  then show ?thesis using utf8_valid_append [OF assms] by (simp add: push_bounded_tail_def Let_def)
next
  case False
  let ?b = "buf @ new" and ?want = "length (buf @ new) - cap"
  obtain i where i: "find (is_char_boundary ?b) [?want ..< length ?b + 1] = Some i"
  proof (cases "find (is_char_boundary ?b) [?want ..< length ?b + 1]")
    case None
    have "length ?b \<in> set [?want ..< length ?b + 1]" "is_char_boundary ?b (length ?b)"
      by (simp_all add: is_char_boundary_def)
    then show ?thesis using None by (meson find_None_iff)
  qed simp
  then have "i \<in> set [?want ..< length ?b + 1]" "is_char_boundary ?b i"
    by (metis find_Some_iff nth_mem, metis find_Some_iff)
  then have "?want \<le> i" "utf8_valid (drop i ?b)"
    using boundary_valid [OF utf8_valid_append [OF assms]] by auto
  moreover have "push_bounded_tail buf new cap = drop i ?b"
    using False i by (simp add: push_bounded_tail_def Let_def)
  moreover have "?b = take i ?b @ drop i ?b" by (rule append_take_drop_id [symmetric])
  ultimately show ?thesis by (metis (no_types, lifting) diff_diff_cancel diff_le_mono2 False length_drop nle_le)
qed

lemma utf8_lossy_is_valid: "utf8_valid (utf8_lossy bs)"
proof (induction bs rule: utf8_lossy.induct)
  case (1 bs)
  then show ?case
    by (cases "bs = []")
      (auto simp: utf8_lossy.simps [of bs] utf8_valid_append utf8_valid_whole replacement_valid
        split: utf8_head.splits)
qed

lemma run_log_bounded:
  assumes "length (rn_full_log r) \<le> TIMEOUT_LOG_TAIL" "utf8_valid (rn_full_log r)"
  shows "length (rn_full_log (snd (run_loop ctx started max_wait r))) \<le> TIMEOUT_LOG_TAIL
    \<and> utf8_valid (rn_full_log (snd (run_loop ctx started max_wait r)))"
proof -
  let ?I = "\<lambda>r. length (rn_full_log r) \<le> TIMEOUT_LOG_TAIL \<and> utf8_valid (rn_full_log r)"
  show ?thesis
  proof (rule run_loop_inv [where I = ?I and Q = ?I])
    show "?I r" using assms by simp
    show "result_inv ?I ?I (on_event ctx ev t)" if "?I t" for ev t
    proof (rule on_event_inv)
      show "result_inv ?I ?I (on_line ctx l s)" if "?I s" for l s
        using on_line_keeps [of s ctx l] that by (simp add: result_inv_def keeps_input_def)
      show "result_inv ?I ?I (peek_prompt ctx s)" if "?I s" for s
        using peek_prompt_wire [of ctx s] that by (simp add: result_inv_def)
      show "?I (take_output d s)" if "?I s" for d s
        using push_bounded_tail_ok [OF conjunct2 [OF that] utf8_push_valid]
        by (simp add: take_output_def case_prod_beta)
    qed (use that in simp_all)
    show "result_inv ?I ?I (if is_ok (fst (wire_recv (rn_wire t))) then None else Some (),
        t\<lparr>rn_wire := snd (wire_recv (rn_wire t))\<rparr>)" if "?I t" for t
      using that by (simp add: result_inv_def)
    show "?I (snd (timed_out t))" if "?I t" for t
    proof -
      have "utf8_valid (fst (utf8_finish (rn_utf8 t)))"
        by (simp add: utf8_finish_def utf8_lossy_is_valid)
      from push_bounded_tail_ok [OF conjunct2 [OF that] this] show ?thesis
        by (simp add: timed_out_def case_prod_beta Let_def)
    qed
  qed
qed

section \<open>Compressed runs\<close>

text \<open>Between the markers, base64 and blank lines.\<close>

definition packed_line :: "ustring \<Rightarrow> bool" where
  "packed_line l \<longleftrightarrow> looks_like_base64 (trim_cr l) \<or> trim (trim_cr l) = []"

lemma base64_chars:
  assumes "looks_like_base64 l" "c \<in> set l" "\<not> is_whitespace c" "c < 128"
  shows "is_ascii_alphanumeric c \<or> c = 43 \<or> c = 47 \<or> c = 61"
proof -
  have "c \<in> set (trim l)" by (rule trim_keeps [OF assms(2,3)])
  then have "(of_nat c :: u8) \<in> set (utf8_encode (trim l))"
    using assms(4) by (induction "trim l") (auto simp: utf8_encode_def char_bytes_def)
  moreover have "unat (of_nat c :: u8) = c" using assms(4) by (simp add: unat_of_nat)
  ultimately show ?thesis
    using assms(1) by (auto simp: looks_like_base64_def list_all_iff Let_def word_unat_eq_iff)
qed

lemma filter_trim: "filter (\<lambda>c. \<not> is_whitespace c) (trim s) = filter (\<lambda>c. \<not> is_whitespace c) s"
proof -
  obtain a where a: "s = a @ trim_start s" "\<forall>c \<in> set a. is_whitespace c"
    using trim_start_matches_suffix [of s is_whitespace] unfolding trim_start_def by blast
  obtain b where b: "trim_start s = trim s @ b" "\<forall>c \<in> set b. is_whitespace c"
    using trim_end_matches_prefix [of "trim_start s" is_whitespace] unfolding trim_def trim_end_def by blast
  have "s = a @ trim s @ b" using a(1) b(1) by simp
  then have "filter (\<lambda>c. \<not> is_whitespace c) s = filter (\<lambda>c. \<not> is_whitespace c) (a @ trim s @ b)" by simp
  then show ?thesis using a(2) b(2) by (simp add: filter_empty_conv)
qed

lemma last_in_trim:
  assumes "ends_with (trim_end l) [c]" "\<not> is_whitespace c"
  shows "c \<in> set l"
proof -
  obtain z where "rev (trim_end l) = c # z"
    using assms(1) by (auto simp: ends_with_def str_prefix_iff)
  then have "c \<in> set (trim_end l)" by (metis list.set_intros(1) set_rev)
  then show ?thesis unfolding trim_end_def using set_trim_end_matches by blast
qed

lemma packed_line_passes:
  assumes "packed_line l" "45 \<in> set u" "u \<noteq> []" "\<forall>c \<in> set u. \<not> is_whitespace c"
  shows "\<not> str_contains (trim_cr l) u" "\<not> is_powershell_prompt (trim_cr l)" "\<not> is_remote_prompt (trim_cr l)"
proof -
  let ?l = "trim_cr l"
  have plain: "is_ascii_alphanumeric c \<or> c = 43 \<or> c = 47 \<or> c = 61"
    if "c \<in> set ?l" "\<not> is_whitespace c" "c < 128" for c
    using assms(1) base64_chars [OF _ that] trim_keeps [OF that(1,2)] by (auto simp: packed_line_def)
  have not: "c \<notin> set ?l" if "c = 45 \<or> c = 62 \<or> c = 36 \<or> c = 35" for c
    using plain [of c] that
    by (auto simp: is_whitespace_def is_ascii_alphanumeric_def is_ascii_alphabetic_def is_ascii_upper_def
        is_ascii_lower_def is_ascii_digit_def)
  have arrow: "0x279C \<notin> set ?l"
  proof
    assume c: "0x279C \<in> set ?l"
    have w: "\<not> is_whitespace 0x279C" by (simp add: is_whitespace_def)
    have t: "0x279C \<in> set (trim ?l)" by (rule trim_keeps [OF c w])
    then have "looks_like_base64 ?l" using assms(1) by (auto simp: packed_line_def)
    moreover have "0xE2 \<in> set (utf8_encode (trim ?l))"
      using t by (auto simp: utf8_encode_def char_bytes_def intro!: bexI [of _ "0x279C"])
    ultimately show False
      by (auto simp: looks_like_base64_def Let_def list_all_iff is_ascii_alphanumeric_def
          is_ascii_alphabetic_def is_ascii_upper_def is_ascii_lower_def is_ascii_digit_def)
  qed
  show "\<not> str_contains ?l u" by (rule no_char_no_match [OF assms(2)]) (use not in blast)
  show "\<not> is_powershell_prompt ?l"
    using last_in_trim [of ?l 62] not by (auto simp: is_powershell_prompt_def Let_def is_whitespace_def)
  show "\<not> is_remote_prompt ?l"
    using last_in_trim [of ?l 36] last_in_trim [of ?l 35] last_in_trim [of ?l "0x279C"] not arrow
    by (auto simp: is_remote_prompt_def Let_def is_whitespace_def)
qed

lemma packed_lines_collected:
  assumes "list_all packed_line ls" "rn_state r = AwaitingSentinel" "rn_phase r = Streaming" "xc_compress ctx"
    and u: "45 \<in> set (xc_uuid ctx)" "\<forall>c \<in> set (xc_uuid ctx). \<not> is_whitespace c"
  shows "\<exists>buf. run_lines ctx ls r = (None, r\<lparr>rn_compress_buf := rn_compress_buf r @ buf\<rparr>)
    \<and> filter (\<lambda>c. \<not> is_whitespace c) buf
      = filter (\<lambda>c. \<not> is_whitespace c) (concat (map trim_cr ls))"
  using assms(1-3)
proof (induction ls arbitrary: r)
  case Nil
  then show ?case by (intro exI [of _ "[]"]) simp
next
  case (Cons l ls)
  let ?new = "if looks_like_base64 (trim_cr l) then trim (trim_cr l) @ [NL] else []"
  let ?r = "r\<lparr>rn_compress_buf := rn_compress_buf r @ ?new\<rparr>"
  have ne: "xc_uuid ctx \<noteq> []" using u(1) by auto
  have "packed_line l" using Cons.prems by simp
  note l = packed_line_passes [OF this u(1) ne u(2)]
  have "on_line ctx l r = (None, ?r)"
    using Cons.prems(2,3) assms(4) fresh_line [OF l(1)] l(2,3)
    by (simp add: on_line_def on_text_line_def put_line_def Let_def)
  moreover obtain buf where "run_lines ctx ls ?r = (None, ?r\<lparr>rn_compress_buf := rn_compress_buf ?r @ buf\<rparr>)"
    "filter (\<lambda>c. \<not> is_whitespace c) buf = filter (\<lambda>c. \<not> is_whitespace c) (concat (map trim_cr ls))"
    using Cons.IH [of ?r] Cons.prems by auto
  moreover have "filter (\<lambda>c. \<not> is_whitespace c) ?new = filter (\<lambda>c. \<not> is_whitespace c) (trim_cr l)"
    using Cons.prems(1) filter_trim [of "trim_cr l"] by (auto simp: packed_line_def is_whitespace_def)
  ultimately show ?case by (intro exI [of _ "?new @ buf"]) simp
qed

lemma uuid_text_visible: "uuid_text u \<Longrightarrow> \<forall>c \<in> set u. \<not> is_whitespace c"
  by (auto simp: uuid_text_def list_all_iff is_ascii_digit_def is_whitespace_def)

lemma packed_sentinel:
  assumes u: "uuid_text (xc_uuid ctx)" and d: "digits d" "digits_value d < 2 ^ 31" and cr: "cr = [] \<or> cr = [CR]"
    and r: "rn_state r = AwaitingSentinel" "rn_phase r = Streaming" "xc_compress ctx"
    and buf: "filter (\<lambda>c. \<not> is_whitespace c) (rn_compress_buf r) = packed" "packed \<noteq> []"
    and unpack: "xc_base64 ctx (utf8_encode packed) = Inr raw" "xc_gunzip ctx raw = Inr (data @ rc_trailer rc nl)"
    and rc: "digits rc" "digits_value rc < 2 ^ 31" "length rc \<le> 10" "nl = [] \<or> nl = [10]"
  shows "on_line ctx (DONE_MARK (xc_uuid ctx) @ d @ cr) r
    = (Some (Inr (of_nat (digits_value rc))),
       r\<lparr>rn_chunks := rn_chunks r @ (if data = [] then [] else [data])\<rparr>)"
proof -
  have nd: "87 \<notin> set d" using digits_chars [OF d(1), of 87] by auto
  have "rn_compress_buf r \<noteq> []" using buf by auto
  moreover have "decode_compressed_stream (xc_base64 ctx) (xc_gunzip ctx) (rn_compress_buf r)
      = Inr (data @ rc_trailer rc nl)"
    using buf unpack by (simp add: decode_compressed_stream_def)
  ultimately have "on_sentinel ctx (DONE_MARK (xc_uuid ctx) @ d) (of_nat (digits_value d)) r
      = (Inr (of_nat (digits_value rc)), r\<lparr>rn_chunks := rn_chunks r @ (if data = [] then [] else [data])\<rparr>)"
    using rfind_mark [OF u nd, of "[]"] extract_rc_trailer [OF rc, of data] r(3)
    by (simp add: on_sentinel_def emit_def)
  moreover have "\<not> str_contains [] (xc_uuid ctx)" using uuid_clean(6) [OF u] by simp
  ultimately show ?thesis using sentinel_found [OF u d _ cr r(1,2), of "[]"] by simp
qed

lemma compressed_transcript:
  assumes u: "uuid_text u" "45 \<in> set u" and send: "ew_send_script w = []"
    and evs: "ew_events w = evs @ evs_rest" "list_all quiet evs" "delays evs < timeout_secs * 1000"
    and out: "outputs evs = utf8_encode (unlines (transcript pre rdy body [] (DONE_MARK u @ d @ cr))) @ after"
    and chars: "list_all is_char (unlines (transcript pre rdy body [] (DONE_MARK u @ d @ cr)))"
    and nl: "list_all (\<lambda>l. NL \<notin> set l) (transcript pre rdy body [] (DONE_MARK u @ d @ cr))"
    and d: "digits d" "digits_value d < 2 ^ 31" and cr: "cr = [] \<or> cr = [CR]"
    and pre: "list_all (noise_line u) pre" and rdy: "parse_ready (trim_cr rdy) u"
    and body: "list_all packed_line body"
    and packed: "packed = filter (\<lambda>c. \<not> is_whitespace c) (concat (map trim_cr body))" "packed \<noteq> []"
    and unpack: "base64 (utf8_encode packed) = Inr raw" "gunzip raw = Inr (data @ rc_trailer rc rnl)"
    and rc: "digits rc" "digits_value rc < 2 ^ 31" "length rc \<le> 10" "rnl = [] \<or> rnl = [10]"
  shows "\<exists>w'. run_oneshot base64 gunzip u cmd None timeout_secs True w
      = (Inr (of_nat (digits_value rc)), w', if data = [] then [] else [data])
    \<and> ew_sent w' = ew_sent w @ [utf8_encode (format_compressed_command u PowerShell cmd)]"
proof -
  define ctx where "ctx = \<lparr>xc_uuid = u, xc_payload = (if True then format_compressed_command u PowerShell cmd
      else format_command u PowerShell cmd), xc_compress = True, xc_base64 = base64, xc_gunzip = gunzip\<rparr>"
  let ?ls = "transcript pre rdy body [] (DONE_MARK u @ d @ cr)" and ?rest = "butlast (text_lines (decoded after))"
  have lines: "butlast (text_lines (decoded (outputs evs))) = ?ls @ ?rest"
    unfolding out decoded_encode [OF chars] by (rule text_lines_unlines [OF nl])
  have cx: "xc_uuid ctx = u" "xc_compress ctx" "xc_base64 ctx = base64" "xc_gunzip ctx = gunzip"
    by (simp_all add: ctx_def)
  have "\<exists>t. run_lines ctx (butlast (text_lines (decoded (outputs evs)))) r0 = (Some (Inr (of_nat (digits_value rc))), t)
        \<and> rn_chunks t = (if data = [] then [] else [data])"
    if r0: "rn_state r0 = AwaitingSentinel" "rn_phase r0 = MuteNoise" "rn_compress_buf r0 = []"
      "rn_chunks r0 = []" for r0
  proof -
    let ?r1 = "r0\<lparr>rn_phase := Streaming\<rparr>"
    have "on_line ctx rdy r0 = (None, ?r1)"
      using r0 rdy cx by (simp add: on_line_def on_text_line_def Let_def)
    moreover obtain buf where buf: "run_lines ctx body ?r1 = (None, ?r1\<lparr>rn_compress_buf := buf\<rparr>)"
      "filter (\<lambda>c. \<not> is_whitespace c) buf = packed"
      using packed_lines_collected [OF body, of ?r1 ctx] r0 cx u(2) uuid_text_visible [OF u(1)] packed(1)
      by auto
    moreover have "on_line ctx (DONE_MARK u @ d @ cr) (?r1\<lparr>rn_compress_buf := buf\<rparr>)
        = (Some (Inr (of_nat (digits_value rc))),
           ?r1\<lparr>rn_compress_buf := buf, rn_chunks := rn_chunks r0 @ (if data = [] then [] else [data])\<rparr>)"
      using packed_sentinel [of ctx d cr "?r1\<lparr>rn_compress_buf := buf\<rparr>" packed raw data rc rnl]
        u(1) d cr r0 buf(2) packed(2) unpack rc cx by simp
    ultimately show ?thesis
      using noise_dropped [of ctx pre r0] pre r0 cx unfolding lines transcript_def
      by (simp add: run_lines_append)
  qed
  from pipe_run_reaches [OF send evs ctx_def this]
  obtain w' where "run_oneshot base64 gunzip u cmd None timeout_secs True w
      = (Inr (of_nat (digits_value rc)), w', if data = [] then [] else [data])"
    "ew_sent w' = ew_sent w @ [utf8_encode (xc_payload ctx)]" by blast
  moreover have "xc_payload ctx = format_compressed_command u PowerShell cmd" by (simp add: ctx_def)
  ultimately show ?thesis by metis
qed

end
