(* ===== verification/ExecIpc.thy ===== *)
theory ExecIpc
  imports Packet ExecRunner
begin

text \<open>
  The socket between the client and \<open>wd\<close>: the frames of
  \<open>crates/wiredesk-exec-core/src/ipc.rs\<close> (a big-endian length, then the body), the splitting of
  shell input in \<open>transport.rs\<close>, and \<open>apps/wiredesk-term/src/ipc_transport.rs\<close>, which reads the
  same frames under a read timeout. bincode is third-party: its two directions are parameters.
\<close>

section \<open>Frames\<close>

definition MAX_FRAME_BYTES :: nat where "MAX_FRAME_BYTES = 16 * 1024 * 1024"

datatype ipc_error =
    FrameExceedsU32 nat
  | FrameOverCap nat
  | UnexpectedEof
  | Bincode string
  | PacketEncode werror
  | PacketDecode werror

text \<open>\<open>u32::to_be_bytes\<close> and \<open>u32::from_be_bytes\<close>.\<close>

definition to_be32 :: "u32 \<Rightarrow> bytes" where
  "to_be32 w = rev (to_le 4 w)"

definition from_be32 :: "bytes \<Rightarrow> u32" where
  "from_be32 bs = from_le (rev bs)"

lemma length_to_be32 [simp]: "length (to_be32 w) = 4"
  by (simp add: to_be32_def)

lemma from_to_be32 [simp]: "from_be32 (to_be32 w) = w"
  by (simp add: from_be32_def to_be32_def)

text \<open>What is written, or why nothing is.\<close>

definition write_frame :: "bytes \<Rightarrow> ipc_error + bytes" where
  "write_frame payload =
     (if length payload \<ge> 2 ^ 32 then Inl (FrameExceedsU32 (length payload))
      else Inr (to_be32 (of_nat (length payload)) @ payload))"

text \<open>\<open>Read::read_exact\<close> on a blocking socket: the bytes, or the end of the stream.\<close>

definition read_exact :: "nat \<Rightarrow> bytes \<Rightarrow> (ipc_error + bytes) \<times> bytes" where
  "read_exact n s = (if n \<le> length s then (Inr (take n s), drop n s) else (Inl UnexpectedEof, []))"

definition ipc_read_frame :: "bytes \<Rightarrow> (ipc_error + bytes) \<times> bytes" where
  "ipc_read_frame s =
     (case read_exact 4 s of
        (Inl e, s1) \<Rightarrow> (Inl e, s1)
      | (Inr len_buf, s1) \<Rightarrow>
          let len = unat (from_be32 len_buf) in
          if len > MAX_FRAME_BYTES then (Inl (FrameOverCap len), s1)
          else read_exact len s1)"

definition read_decoded :: "(bytes \<Rightarrow> ipc_error + 'a) \<Rightarrow> bytes \<Rightarrow> (ipc_error + 'a) \<times> bytes" where
  "read_decoded dec s = (let (r, s1) = ipc_read_frame s in (and_then r dec, s1))"

section \<open>What the frames carry\<close>

record ipc_request =
  rq_cmd :: rstring
  rq_ssh :: "rstring option"
  rq_timeout_secs :: u64
  rq_compress :: bool

record ipc_interactive_open =
  io_shell :: rstring
  io_cols :: u16
  io_rows :: u16

datatype ipc_connect =
    IpcExec ipc_request
  | IpcInteractive ipc_interactive_open
  | IpcBrowser

datatype ipc_response =
    RespStdout bytes
  | RespExit i32
  | RespError rstring
  | RespTransportUnavailable rstring

definition write_request :: "(ipc_request \<Rightarrow> ipc_error + bytes) \<Rightarrow> ipc_request \<Rightarrow> ipc_error + bytes" where
  "write_request ser req = and_then (ser req) write_frame"

definition read_request :: "(bytes \<Rightarrow> ipc_error + ipc_request) \<Rightarrow> bytes \<Rightarrow> (ipc_error + ipc_request) \<times> bytes" where
  "read_request de = read_decoded de"

definition write_connect :: "(ipc_connect \<Rightarrow> ipc_error + bytes) \<Rightarrow> ipc_connect \<Rightarrow> ipc_error + bytes" where
  "write_connect ser c = and_then (ser c) write_frame"

definition read_connect :: "(bytes \<Rightarrow> ipc_error + ipc_connect) \<Rightarrow> bytes \<Rightarrow> (ipc_error + ipc_connect) \<times> bytes" where
  "read_connect de = read_decoded de"

definition write_response :: "(ipc_response \<Rightarrow> ipc_error + bytes) \<Rightarrow> ipc_response \<Rightarrow> ipc_error + bytes" where
  "write_response ser r = and_then (ser r) write_frame"

definition read_response :: "(bytes \<Rightarrow> ipc_error + ipc_response) \<Rightarrow> bytes \<Rightarrow> (ipc_error + ipc_response) \<times> bytes" where
  "read_response de = read_decoded de"

definition map_err :: "('e \<Rightarrow> 'f) \<Rightarrow> 'e + 'a \<Rightarrow> 'f + 'a" where
  "map_err f r = (case r of Inl e \<Rightarrow> Inl (f e) | Inr x \<Rightarrow> Inr x)"

lemma map_err_simps [simp]: "map_err f (Inl e) = Inl (f e)" "map_err f (Inr x) = Inr x"
  by (simp_all add: map_err_def)

definition write_packet_frame :: "(bytes \<Rightarrow> u16) \<Rightarrow> packet \<Rightarrow> ipc_error + bytes" where
  "write_packet_frame crc p = and_then (map_err PacketEncode (to_bytes crc p)) write_frame"

definition read_packet_frame :: "(bytes \<Rightarrow> u16) \<Rightarrow> bytes \<Rightarrow> (ipc_error + packet) \<times> bytes" where
  "read_packet_frame crc = read_decoded (\<lambda>bs. map_err PacketDecode (from_bytes crc bs))"

section \<open>Shell input in packets\<close>

definition MAX_INPUT_CHUNK :: nat where "MAX_INPUT_CHUNK = MAX_PAYLOAD"

definition shell_input_packets :: "bytes \<Rightarrow> packet list" where
  "shell_input_packets data = map (\<lambda>c. packet_new (ShellInput c) 0) (chunks MAX_INPUT_CHUNK data)"

section \<open>The stream transport of the terminal\<close>

definition FRAME_LEN_PREFIX :: nat where "FRAME_LEN_PREFIX = 4"
definition READ_CHUNK :: nat where "READ_CHUNK = 8192"

text \<open>One \<open>read\<close> on the socket: some bytes, the end, a timeout, an interruption, a failure.\<close>

datatype sock_read =
    SockBytes bytes
  | SockEof
  | SockTimeout
  | SockInterrupted
  | SockFailed string

record ipc_stream =
  is_connected :: bool
  is_rx_buf :: bytes
  is_reads :: "sock_read list"
  is_written :: bytes
  is_write_ok :: bool

definition ipc_stream_from :: "sock_read list \<Rightarrow> ipc_stream" where
  "ipc_stream_from reads =
     \<lparr>is_connected = True, is_rx_buf = [], is_reads = reads, is_written = [], is_write_ok = True\<rparr>"

text \<open>The errors of this transport are all \<open>Transport\<close>; a packet that does not decode keeps its
  reason.\<close>

datatype stream_fail =
    RecvTimeout
  | StreamOverCap nat
  | StreamDecode werror
  | StreamEof
  | StreamRead string
  | StreamWrite

definition take_buffered_frame ::
  "(bytes \<Rightarrow> u16) \<Rightarrow> ipc_stream \<Rightarrow> (stream_fail + packet option) \<times> ipc_stream" where
  "take_buffered_frame crc s =
     (if length (is_rx_buf s) < FRAME_LEN_PREFIX then (Inr None, s)
      else
        let len = unat (from_be32 (take 4 (is_rx_buf s))) in
        if len > MAX_FRAME_BYTES then (Inl (StreamOverCap len), s\<lparr>is_connected := False\<rparr>)
        else
          let total_len = FRAME_LEN_PREFIX + len in
          if length (is_rx_buf s) < total_len then (Inr None, s)
          else
            let rest = drop total_len (is_rx_buf s);
                body = subslice (is_rx_buf s) FRAME_LEN_PREFIX total_len
            in case from_bytes crc body of
                 Inl e \<Rightarrow> (Inl (StreamDecode e),
                   s\<lparr>is_connected := False, is_rx_buf := take total_len (is_rx_buf s)\<rparr>)
               | Inr p \<Rightarrow> (Inr (Some p), s\<lparr>is_rx_buf := rest\<rparr>))"

text \<open>The script is what the socket delivers; with nothing left a read times out.\<close>

fun recv_script :: "(bytes \<Rightarrow> u16) \<Rightarrow> sock_read list \<Rightarrow> ipc_stream \<Rightarrow> (stream_fail + packet) \<times> ipc_stream" where
  "recv_script crc reads s =
     (case take_buffered_frame crc s of
        (Inl e, s1) \<Rightarrow> (Inl e, s1\<lparr>is_reads := reads\<rparr>)
      | (Inr (Some p), s1) \<Rightarrow> (Inr p, s1\<lparr>is_reads := reads\<rparr>)
      | (Inr None, s1) \<Rightarrow>
          (case reads of
             [] \<Rightarrow> (Inl RecvTimeout, s1\<lparr>is_reads := []\<rparr>)
           | SockBytes bs # rs \<Rightarrow> recv_script crc rs (s1\<lparr>is_rx_buf := is_rx_buf s1 @ bs\<rparr>)
           | SockEof # rs \<Rightarrow> (Inl StreamEof, s1\<lparr>is_connected := False, is_reads := rs\<rparr>)
           | SockTimeout # rs \<Rightarrow> (Inl RecvTimeout, s1\<lparr>is_reads := rs\<rparr>)
           | SockInterrupted # rs \<Rightarrow> recv_script crc rs s1
           | SockFailed e # rs \<Rightarrow> (Inl (StreamRead e), s1\<lparr>is_connected := False, is_reads := rs\<rparr>)))"

declare recv_script.simps [simp del]

definition ipc_recv :: "(bytes \<Rightarrow> u16) \<Rightarrow> ipc_stream \<Rightarrow> (stream_fail + packet) \<times> ipc_stream" where
  "ipc_recv crc s = recv_script crc (is_reads s) s"

definition ipc_send :: "(bytes \<Rightarrow> u16) \<Rightarrow> packet \<Rightarrow> ipc_stream \<Rightarrow> stream_fail option \<times> ipc_stream" where
  "ipc_send crc p s =
     (if p_message p = Heartbeat then (None, s)
      else case write_packet_frame crc p of
        Inl e \<Rightarrow> (Some StreamWrite, s\<lparr>is_connected := False\<rparr>)
      | Inr bs \<Rightarrow>
          if is_write_ok s then (None, s\<lparr>is_written := is_written s @ bs\<rparr>)
          else (Some StreamWrite, s\<lparr>is_connected := False\<rparr>))"

section \<open>Round trips\<close>

lemma frame_roundtrip:
  assumes "length payload \<le> MAX_FRAME_BYTES"
  shows "\<exists>bs. write_frame payload = Inr bs \<and> ipc_read_frame (bs @ rest) = (Inr payload, rest)"
proof -
  have n: "length payload < 2 ^ 32" using assms by (simp add: MAX_FRAME_BYTES_def)
  then have "unat (of_nat (length payload) :: u32) = length payload" by (simp add: unat_of_nat)
  then show ?thesis
    using n assms
    by (simp add: write_frame_def ipc_read_frame_def read_exact_def)
qed

lemma oversize_frame_refused:
  assumes "MAX_FRAME_BYTES < n" "n < 2 ^ 32"
  shows "ipc_read_frame (to_be32 (of_nat n) @ rest) = (Inl (FrameOverCap n), rest)"
proof -
  have "unat (of_nat n :: u32) = n" using assms by (simp add: unat_of_nat)
  then show ?thesis using assms by (simp add: ipc_read_frame_def read_exact_def)
qed

lemma shell_input_whole:
  "concat (map (\<lambda>p. case p_message p of ShellInput d \<Rightarrow> d | _ \<Rightarrow> []) (shell_input_packets data)) = data"
proof -
  have "0 < MAX_INPUT_CHUNK" by (simp add: MAX_INPUT_CHUNK_def MAX_PAYLOAD_def)
  then show ?thesis using concat_chunks [of MAX_INPUT_CHUNK data]
    by (simp add: shell_input_packets_def packet_new_def comp_def)
qed


section \<open>The stream transport loses nothing and never desynchronises\<close>

definition packet_frame :: "(bytes \<Rightarrow> u16) \<Rightarrow> packet \<Rightarrow> bytes" where
  "packet_frame crc p = to_be32 (of_nat (length (packet_bytes crc p))) @ packet_bytes crc p"

lemma packet_bytes_small:
  "wf_packet p \<Longrightarrow> length (packet_bytes crc p) \<le> 4106"
  by (simp add: wf_packet_def length_packet_bytes MAX_PAYLOAD_def)

lemma write_packet_frame_ok:
  assumes "wf_packet p"
  shows "write_packet_frame crc p = Inr (packet_frame crc p)"
  using assms packet_bytes_small [OF assms, of crc]
  by (simp add: write_packet_frame_def to_bytes_packet_bytes wf_packet_def write_frame_def
      packet_frame_def)

lemma packet_frame_roundtrip:
  assumes "wf_packet p"
  shows "read_packet_frame crc (packet_frame crc p @ rest) = (Inr p, rest)"
proof -
  have "length (packet_bytes crc p) \<le> MAX_FRAME_BYTES" and n: "length (packet_bytes crc p) < 2 ^ 32"
    using packet_bytes_small [OF assms, of crc] by (simp_all add: MAX_FRAME_BYTES_def)
  then have "ipc_read_frame (packet_frame crc p @ rest) = (Inr (packet_bytes crc p), rest)"
    using frame_roundtrip [of "packet_bytes crc p" rest]
    by (simp add: write_frame_def packet_frame_def)
  then show ?thesis
    using from_bytes_to_bytes [OF assms, of crc "[]"]
    by (simp add: read_packet_frame_def read_decoded_def)
qed

lemma take_buffered_whole:
  assumes p: "wf_packet p" and b: "is_rx_buf s = packet_frame crc p @ rest"
  shows "take_buffered_frame crc s = (Inr (Some p), s\<lparr>is_rx_buf := rest\<rparr>)"
proof -
  have "unat (of_nat (length (packet_bytes crc p)) :: u32) = length (packet_bytes crc p)"
    using packet_bytes_small [OF p, of crc] by (simp add: unat_of_nat)
  then show ?thesis
    using packet_bytes_small [OF p, of crc] from_bytes_to_bytes [OF p, of crc "[]"] b
    by (simp add: take_buffered_frame_def packet_frame_def FRAME_LEN_PREFIX_def
        MAX_FRAME_BYTES_def subslice_def Let_def)
qed

lemma take_buffered_partial:
  assumes p: "wf_packet p" and b: "is_rx_buf s @ more_bytes = packet_frame crc p @ rest"
    and short: "length (is_rx_buf s) < length (packet_frame crc p)"
  shows "take_buffered_frame crc s = (Inr None, s)"
proof (cases "length (is_rx_buf s) < 4")
  case True
  then show ?thesis by (simp add: take_buffered_frame_def FRAME_LEN_PREFIX_def)
next
  case False
  let ?n = "length (packet_bytes crc p)"
  have "take 4 (is_rx_buf s) = take 4 (packet_frame crc p @ rest)"
    using False b [symmetric] by simp
  then have "unat (from_be32 (take 4 (is_rx_buf s))) = ?n"
    using packet_bytes_small [OF p, of crc] by (simp add: packet_frame_def unat_of_nat)
  then show ?thesis
    using False short packet_bytes_small [OF p, of crc]
    by (simp add: take_buffered_frame_def packet_frame_def FRAME_LEN_PREFIX_def
        MAX_FRAME_BYTES_def Let_def)
qed

fun read_bytes :: "sock_read list \<Rightarrow> bytes" where
  "read_bytes [] = []"
| "read_bytes (SockBytes bs # rs) = bs @ read_bytes rs"
| "read_bytes (_ # rs) = read_bytes rs"

definition read_harmless :: "sock_read \<Rightarrow> bool" where
  "read_harmless r =
     (case r of SockBytes bs \<Rightarrow> bs \<noteq> [] | SockEof \<Rightarrow> False | SockFailed _ \<Rightarrow> False | _ \<Rightarrow> True)"

text \<open>What is still to come is exactly the frames of \<open>ps\<close>.\<close>

definition holds_frames :: "(bytes \<Rightarrow> u16) \<Rightarrow> ipc_stream \<Rightarrow> packet list \<Rightarrow> bool" where
  "holds_frames crc s ps =
     (is_connected s \<and> list_all wf_packet ps \<and> list_all read_harmless (is_reads s)
      \<and> is_rx_buf s @ read_bytes (is_reads s) = concat (map (packet_frame crc) ps))"

lemma recv_script_frames:
  assumes "is_connected s" "list_all wf_packet ps" "list_all read_harmless reads"
    and "is_rx_buf s @ read_bytes reads = concat (map (packet_frame crc) ps)"
  shows "case recv_script crc reads s of
       (Inr p, s1) \<Rightarrow> (\<exists>ps'. ps = p # ps' \<and> holds_frames crc s1 ps' \<and> length (is_reads s1) \<le> length reads)
     | (Inl e, s1) \<Rightarrow> e = RecvTimeout \<and> holds_frames crc s1 ps
         \<and> (length (is_reads s1) < length reads \<or> (is_reads s1 = [] \<and> ps = []))"
  using assms
proof (induction reads arbitrary: s)
  case (Cons r rs)
  note step = recv_script.simps [of crc "r # rs" s]
  show ?case
  proof (cases "\<exists>p ps'. ps = p # ps' \<and> length (packet_frame crc p) \<le> length (is_rx_buf s)")
    case True
    then obtain p ps' where ps: "ps = p # ps'"
      and long: "length (packet_frame crc p) \<le> length (is_rx_buf s)" by blast
    have "take (length (packet_frame crc p)) (is_rx_buf s @ read_bytes (r # rs)) = packet_frame crc p"
      using Cons.prems(4) ps by simp
    then have "is_rx_buf s = packet_frame crc p @ drop (length (packet_frame crc p)) (is_rx_buf s)"
      using long append_take_drop_id [of "length (packet_frame crc p)" "is_rx_buf s"] by simp
    then obtain tl where b: "is_rx_buf s = packet_frame crc p @ tl" by blast
    then have "tl @ read_bytes (r # rs) = concat (map (packet_frame crc) ps')"
      using Cons.prems(4) ps by simp
    then show ?thesis
      using take_buffered_whole [OF _ b] Cons.prems ps by (simp add: step holds_frames_def)
  next
    case False
    have none: "take_buffered_frame crc s = (Inr None, s)"
    proof (cases ps)
      case Nil
      then show ?thesis using Cons.prems by (simp add: take_buffered_frame_def FRAME_LEN_PREFIX_def)
    next
      case (Cons p ps')
      then show ?thesis
        using take_buffered_partial [of p s "read_bytes (r # rs)" crc "concat (map (packet_frame crc) ps')"]
          False Cons.prems by (auto simp: not_le)
    qed
    show ?thesis
    proof (cases r)
      case (SockBytes bs)
      then have "recv_script crc (r # rs) s = recv_script crc rs (s\<lparr>is_rx_buf := is_rx_buf s @ bs\<rparr>)"
        using step none by simp
      then show ?thesis
        using SockBytes Cons.prems Cons.IH [of "s\<lparr>is_rx_buf := is_rx_buf s @ bs\<rparr>"]
        by (auto split: prod.splits sum.splits)
    next
      case SockInterrupted
      then have "recv_script crc (r # rs) s = recv_script crc rs s" using step none by simp
      then show ?thesis
        using SockInterrupted Cons.prems Cons.IH [of s] by (auto split: prod.splits sum.splits)
    next
      case SockTimeout
      then show ?thesis using step none Cons.prems by (simp add: holds_frames_def)
    qed (use Cons.prems in \<open>simp_all add: read_harmless_def\<close>)
  qed
next
  case Nil
  then have buf: "is_rx_buf s = concat (map (packet_frame crc) ps)" by simp
  show ?case
  proof (cases ps)
    case Nil': Nil
    then have "take_buffered_frame crc s = (Inr None, s)"
      using buf by (simp add: take_buffered_frame_def FRAME_LEN_PREFIX_def)
    then show ?thesis using Nil Nil' by (simp add: recv_script.simps holds_frames_def)
  next
    case (Cons p ps')
    then show ?thesis
      using Nil buf take_buffered_whole [of p s crc "concat (map (packet_frame crc) ps')"]
      by (simp add: recv_script.simps holds_frames_def)
  qed
qed

text \<open>The reader thread's polling: the packets of \<open>n\<close> calls, timeouts passed over.\<close>

fun poll :: "(bytes \<Rightarrow> u16) \<Rightarrow> nat \<Rightarrow> ipc_stream \<Rightarrow> (stream_fail + packet) list \<times> ipc_stream" where
  "poll crc 0 s = ([], s)"
| "poll crc (Suc n) s =
     (let (r, s1) = ipc_recv crc s; (rs, s2) = poll crc n s1 in (r # rs, s2))"

definition is_timeout :: "stream_fail + packet \<Rightarrow> bool" where
  "is_timeout r = (r = Inl RecvTimeout)"

lemma poll_frames:
  assumes "holds_frames crc s ps"
  shows "case poll crc n s of (rs, s1) \<Rightarrow>
    \<exists>got left. ps = got @ left \<and> filter (\<lambda>r. \<not> is_timeout r) rs = map Inr got
      \<and> holds_frames crc s1 left
      \<and> (length (is_reads s) + length ps \<le> n \<longrightarrow> left = [])"
  using assms
proof (induction n arbitrary: s ps)
  case (Suc n)
  obtain r s1 where r: "ipc_recv crc s = (r, s1)" by (cases "ipc_recv crc s")
  obtain rs s2 where rs: "poll crc n s1 = (rs, s2)" by (cases "poll crc n s1")
  have one: "case (r, s1) of
       (Inr p, s1) \<Rightarrow> (\<exists>ps'. ps = p # ps' \<and> holds_frames crc s1 ps' \<and> length (is_reads s1) \<le> length (is_reads s))
     | (Inl e, s1) \<Rightarrow> e = RecvTimeout \<and> holds_frames crc s1 ps
         \<and> (length (is_reads s1) < length (is_reads s) \<or> (is_reads s1 = [] \<and> ps = []))"
    using recv_script_frames [of s ps "is_reads s" crc] Suc.prems r
    by (simp add: holds_frames_def ipc_recv_def)
  show ?case
  proof (cases r)
    case (Inl e)
    then have "e = RecvTimeout" "holds_frames crc s1 ps"
      "length (is_reads s1) < length (is_reads s) \<or> (is_reads s1 = [] \<and> ps = [])"
      using one by simp_all
    then show ?thesis
      using Suc.IH [of s1 ps] r rs Inl by (auto simp: is_timeout_def)
  next
    case (Inr p)
    then obtain ps' where ps: "ps = p # ps'" and h: "holds_frames crc s1 ps'"
      and l: "length (is_reads s1) \<le> length (is_reads s)" using one by auto
    obtain got left where g: "ps' = got @ left" "filter (\<lambda>r. \<not> is_timeout r) rs = map Inr got"
      "holds_frames crc s2 left" "length (is_reads s1) + length ps' \<le> n \<longrightarrow> left = []"
      using Suc.IH [OF h] rs by auto
    have "ps = (p # got) @ left \<and> filter (\<lambda>r. \<not> is_timeout r) (r # rs) = map Inr (p # got)
      \<and> holds_frames crc s2 left
      \<and> (length (is_reads s) + length ps \<le> Suc n \<longrightarrow> left = [])"
      using g ps l Inr by (simp add: is_timeout_def)
    then show ?thesis using r rs by (simp only: poll.simps Let_def prod.case) blast
  qed
qed (auto simp: holds_frames_def)

lemma shell_input_fits:
  assumes "p \<in> set (shell_input_packets data)"
  shows "wf_packet p"
proof -
  obtain c where c: "c \<in> set (chunks MAX_INPUT_CHUNK data)" and p: "p = packet_new (ShellInput c) 0"
    using assms by (auto simp: shell_input_packets_def)
  have "0 < MAX_INPUT_CHUNK" by (simp add: MAX_INPUT_CHUNK_def MAX_PAYLOAD_def)
  then have "length c \<le> MAX_PAYLOAD"
    using c chunks_bounds [of c MAX_INPUT_CHUNK data] by (simp add: MAX_INPUT_CHUNK_def)
  then show ?thesis
    by (simp add: p wf_packet_def packet_new_def)
qed

end
