(* ===== verification/ExecHears.thy ===== *)
theory ExecHears
  imports ExecSafety ExecIpc
begin

text \<open>
  What a shell prints for one run and what the runner hears of it, as predicates, with the run's
  result under them. The properties of \<open>wd --exec\<close> and of the client's handler rest on these.
\<close>

section \<open>What a shell prints\<close>

text \<open>
  The shape of a transcript the theorems below are about: noise, the first marker, the command's
  own lines, the sentinel at the end of the last one. Nothing bounds the number or the content of
  the command's lines, except that they do not contain the run's uuid.
\<close>

definition transcript_ok ::
  "ustring \<Rightarrow> ustring list \<Rightarrow> ustring \<Rightarrow> ustring list \<Rightarrow> ustring \<Rightarrow> ustring \<Rightarrow> ustring \<Rightarrow> bool" where
  "transcript_ok u pre rdy body tail d cr =
     (uuid_text u \<and> list_all (noise_line u) pre \<and> parse_ready (trim_cr rdy) u
      \<and> list_all (own_line u) body \<and> \<not> str_contains tail u
      \<and> digits d \<and> digits_value d < 2 ^ 31 \<and> (cr = [] \<or> cr = [CR])
      \<and> list_all is_char (unlines (transcript pre rdy body tail (DONE_MARK u @ d @ cr)))
      \<and> list_all (\<lambda>l. NL \<notin> set l) (transcript pre rdy body tail (DONE_MARK u @ d @ cr)))"

text \<open>What the runner hears: that transcript, cut in any way, within the limit.\<close>

definition hears ::
  "exec_wire \<Rightarrow> nat \<Rightarrow> ustring \<Rightarrow> ustring list \<Rightarrow> ustring \<Rightarrow> ustring list \<Rightarrow> ustring \<Rightarrow> ustring \<Rightarrow> ustring \<Rightarrow> bool" where
  "hears w timeout_secs u pre rdy body tail d cr \<longleftrightarrow>
     ew_send_script w = [] \<and> transcript_ok u pre rdy body tail d cr
     \<and> (\<exists>evs rest after. ew_events w = evs @ rest \<and> list_all quiet evs
          \<and> delays evs < timeout_secs * 1000
          \<and> outputs evs = utf8_encode (unlines (transcript pre rdy body tail (DONE_MARK u @ d @ cr))) @ after)"

lemma hears_run:
  assumes "hears w timeout_secs u pre rdy body tail d cr"
  shows "\<exists>w'. run_oneshot unbase gunzip u cmd None timeout_secs False w
      = (Inr (of_nat (digits_value d)), w', map printed (filter (\<lambda>l. \<not> prompt_like l) body) @ printed_tail tail)
    \<and> ew_sent w' = ew_sent w @ [utf8_encode (format_command u PowerShell cmd)]"
  using assms unfolding hears_def transcript_ok_def
  by (elim conjE exE) (rule exec_transcript, assumption+)

text \<open>A run ends within its limit and one receive.\<close>

lemma run_in_time:
  assumes "ew_send_script w = []" "list_all (\<lambda>e. fst e \<le> slack) (ew_events w)" "RECV_TICK \<le> slack"
  shows "ew_now (fst (snd (run_oneshot unbase gunzip u cmd ssh timeout_secs compress w)))
    < ew_now w + timeout_secs * 1000 + slack"
proof -
  have "0 < slack" using assms(3) by (simp add: RECV_TICK_def)
  then show ?thesis
    using assms(1) run_loop_in_time [OF _ assms(3), of "ew_now w" "timeout_secs * 1000"] assms(2)
    by (auto simp: run_oneshot_def wire_send_def Let_def case_prod_beta in_time_def split: option.split)
qed

definition demo_uuid :: ustring where "demo_uuid = lit ''a-1''"

definition demo_lines :: "ustring list \<Rightarrow> exec_wire" where
  "demo_lines ls = \<lparr>ew_sent = [], ew_send_script = [],
     ew_events = [(7, Inr (EvShellOutput (utf8_encode (unlines ls))))], ew_now = 0\<rparr>"

lemma demo_hears:
  assumes "transcript_ok u pre rdy body tail d cr"
  shows "hears (demo_lines (transcript pre rdy body tail (DONE_MARK u @ d @ cr))) 30 u pre rdy body tail d cr"
  unfolding hears_def
  using assms
  by (intro conjI exI [of _ "ew_events (demo_lines (transcript pre rdy body tail (DONE_MARK u @ d @ cr)))"]
      exI [of _ "[]"])
    (simp_all add: demo_lines_def)

lemmas demo_eval = demo_uuid_def uuid_text_def is_ascii_digit_def noise_line_def own_line_def
  parse_ready_def READY_MARK_def DONE_MARK_def trim_end_matches_def trim_def trim_start_def
  trim_end_def trim_start_matches_def is_whitespace_def digits_def digits_value_def is_char_def
  transcript_def unlines_def is_powershell_prompt_def is_remote_prompt_def starts_with_def
  ends_with_def utf8_encode_def char_bytes_def prompt_like_def

lemma demo_transcript_ok:
  "transcript_ok demo_uuid [lit ''PS C:>''] (lit ''__WD_READY_a-1__'') [lit ''hi''] (lit ''x'') (lit ''3'') []"
  by (simp add: transcript_ok_def demo_eval)

end
