(* ===== verification/ExecProps.thy ===== *)
theory ExecProps
  imports ExecHears
begin

text \<open>
  The properties of one command over the shell channel, as the client and \<open>wd --exec\<close> run it
  (\<open>crates/wiredesk-exec-core\<close>), and of the socket between the two processes.
\<close>

section \<open>One run\<close>




lemma length_concat_filter:
  "list_ex (\<lambda>x. \<not> P x \<and> f x \<noteq> []) xs \<Longrightarrow> length (concat (map f (filter P xs))) < length (concat (map f xs))"
proof (induction xs)
  case (Cons x xs)
  have "length (concat (map f (filter P xs))) \<le> length (concat (map f xs))"
    by (induction xs) auto
  then show ?case using Cons by (cases "f x") auto
qed simp

text \<open>
  A line of the command's output that ends like a prompt is lost: of all the lines printed, the
  runner hands over those that do not end in a dollar sign, a hash or the arrow of a shell prompt,
  nor look like a PowerShell prompt, and still reports success.
\<close>

lemma exec_prompt_like_lost:
  assumes "hears w timeout_secs u pre rdy body tail d cr" "list_ex prompt_like body"
  shows "case run_oneshot unbase gunzip u cmd None timeout_secs False w of (res, w', calls) \<Rightarrow>
      res = Inr (of_nat (digits_value d))
      \<and> calls = map printed (filter (\<lambda>l. \<not> prompt_like l) body) @ printed_tail tail
      \<and> length (concat calls) < length (concat (map printed body @ printed_tail tail))"
proof -
  have ne: "printed l \<noteq> []" for l by (simp add: printed_def utf8_encode_def char_bytes_def)
  have "list_ex (\<lambda>l. \<not> \<not> prompt_like l \<and> printed l \<noteq> []) body" using assms(2) ne by (simp add: list_ex_iff)
  from length_concat_filter [OF this] show ?thesis
    using hears_run [OF assms(1), where unbase = unbase and gunzip = gunzip and cmd = cmd] by auto
qed

lemma demo_lost_ok:
  "transcript_ok demo_uuid [] (lit ''__WD_READY_a-1__'') [lit ''# a #''] [] (lit ''0'') []"
  by (simp add: transcript_ok_def demo_eval)

lemma exec_prompt_like_lost_witness:
  "case run_oneshot Inr Inr demo_uuid (lit ''dir'') None 30 False (demo_lines (transcript []
      (lit ''__WD_READY_a-1__'') [lit ''# a #''] [] (DONE_MARK demo_uuid @ lit ''0'' @ []))) of
    (res, w', calls) \<Rightarrow> res = Inr 0 \<and> calls = []"
proof -
  have "prompt_like (lit ''# a #'')" by (simp add: demo_eval)
  with exec_prompt_like_lost [OF demo_hears [OF demo_lost_ok], where unbase = Inr and gunzip = Inr and cmd = "lit ''dir''"]
  show ?thesis by (simp add: case_prod_beta digits_value_def printed_tail_def trim_end_matches_def)
qed

text \<open>
  The echo of the runner's own payload, behind any prompt and however the terminal ends the
  line, counts as noise for the run: it is neither the first marker nor the sentinel nor output.
\<close>

lemma exec_echo_is_noise:
  assumes "uuid_text (xc_uuid ctx)" "NL \<notin> set cmd" "NL \<notin> set prompt"
    and "rn_state r = AwaitingSentinel" "rn_phase r = MuteNoise"
  shows "\<exists>l. format_command (xc_uuid ctx) PowerShell cmd = l @ [NL] \<and> NL \<notin> set l
    \<and> on_line ctx (prompt @ l @ cr) r = (None, r)"
proof -
  obtain l where l: "format_command (xc_uuid ctx) PowerShell cmd = l @ [NL]" "NL \<notin> set l"
    "noise_line (xc_uuid ctx) (prompt @ l @ cr)"
    using payload_echo_noise [OF assms(1-3)] by blast
  then have "on_line ctx (prompt @ l @ cr) r = (None, r)"
    using noise_dropped [of ctx "[prompt @ l @ cr]" r] assms(4,5) by (simp split: option.splits prod.splits)
  then show ?thesis using l by blast
qed

definition demo_ctx :: run_ctx where
  "demo_ctx = \<lparr>xc_uuid = demo_uuid, xc_payload = [], xc_compress = False,
     xc_base64 = (\<lambda>b. Inr b), xc_gunzip = (\<lambda>b. Inr b)\<rparr>"

definition demo_runner :: runner where
  "demo_runner = \<lparr>rn_wire = demo_lines [], rn_state = AwaitingSentinel, rn_phase = MuteNoise,
     rn_pending = [], rn_scanned = 0, rn_full_log = [], rn_utf8 = utf8_stream_new,
     rn_compress_buf = [], rn_chunks = []\<rparr>"

lemma exec_echo_is_noise_witness:
  "\<exists>l. format_command demo_uuid PowerShell (lit ''dir'') = l @ [NL] \<and> NL \<notin> set l
    \<and> on_line demo_ctx (lit ''PS C:>'' @ l @ [CR]) demo_runner = (None, demo_runner)"
  using exec_echo_is_noise [of demo_ctx "lit ''dir''" "lit ''PS C:>''" demo_runner "[CR]"]
  by (simp add: demo_ctx_def demo_runner_def demo_uuid_def uuid_text_def is_ascii_digit_def)

text \<open>What the client hears of a compressed run: a transcript whose output lines are packed text.\<close>

definition hears_packed ::
  "exec_wire \<Rightarrow> nat \<Rightarrow> ustring \<Rightarrow> ustring list \<Rightarrow> ustring \<Rightarrow> ustring list \<Rightarrow> ustring \<Rightarrow> ustring \<Rightarrow> bool" where
  "hears_packed w timeout_secs u pre rdy body d cr \<longleftrightarrow>
     ew_send_script w = [] \<and> uuid_text u \<and> 45 \<in> set u \<and> list_all (noise_line u) pre
     \<and> parse_ready (trim_cr rdy) u \<and> list_all packed_line body
     \<and> digits d \<and> digits_value d < 2 ^ 31 \<and> (cr = [] \<or> cr = [CR])
     \<and> list_all is_char (unlines (transcript pre rdy body [] (DONE_MARK u @ d @ cr)))
     \<and> list_all (\<lambda>l. NL \<notin> set l) (transcript pre rdy body [] (DONE_MARK u @ d @ cr))
     \<and> (\<exists>evs rest after. ew_events w = evs @ rest \<and> list_all quiet evs
          \<and> delays evs < timeout_secs * 1000
          \<and> outputs evs = utf8_encode (unlines (transcript pre rdy body [] (DONE_MARK u @ d @ cr))) @ after)"

text \<open>
  C14: a compressed run returns the code from the trailer inside the archive and hands over exactly
  the unpacked bytes in front of that trailer, in one piece, whatever the line breaks of the unbase
  text and the cuts of the packets.
\<close>

theorem exec_compressed_exact:
  assumes "hears_packed w timeout_secs u pre rdy body d cr"
    and packed: "packed = filter (\<lambda>c. \<not> is_whitespace c) (concat (map trim_cr body))" "packed \<noteq> []"
    and unpack: "unbase (utf8_encode packed) = Inr raw" "gunzip raw = Inr (data @ rc_trailer rc rnl)"
    and rc: "digits rc" "digits_value rc < 2 ^ 31" "length rc \<le> 10" "rnl = [] \<or> rnl = [10]"
  shows "case run_oneshot unbase gunzip u cmd None timeout_secs True w of (res, w', calls) \<Rightarrow>
      res = Inr (of_nat (digits_value rc)) \<and> calls = (if data = [] then [] else [data])"
proof -
  have "\<exists>w'. run_oneshot unbase gunzip u cmd None timeout_secs True w
      = (Inr (of_nat (digits_value rc)), w', if data = [] then [] else [data])
    \<and> ew_sent w' = ew_sent w @ [utf8_encode (format_compressed_command u PowerShell cmd)]"
    using assms unfolding hears_packed_def
    by (elim conjE exE) (rule compressed_transcript, assumption+)
  then show ?thesis by auto
qed

definition demo_gunzip :: "bytes \<Rightarrow> string + bytes" where
  "demo_gunzip b = (if b = utf8_encode (lit ''QUJD'') then Inr ([104, 105] @ rc_trailer (lit ''5'') []) else Inl [])"

theorem exec_compressed_exact_witness:
  "case run_oneshot Inr demo_gunzip demo_uuid (lit ''dir'') None 30 True (demo_lines (transcript []
      (lit ''__WD_READY_a-1__'') [lit ''QU'', lit ''JD''] [] (DONE_MARK demo_uuid @ lit ''0'' @ []))) of
    (res, w', calls) \<Rightarrow> res = Inr 5 \<and> calls = [[104, 105]]"
proof -
  let ?ls = "transcript [] (lit ''__WD_READY_a-1__'') [lit ''QU'', lit ''JD''] [] (DONE_MARK demo_uuid @ lit ''0'' @ [])"
  have packed: "list_all packed_line [lit ''QU'', lit ''JD'']"
    by (simp add: packed_line_def looks_like_base64_def demo_eval is_ascii_alphanumeric_def
        is_ascii_alphabetic_def is_ascii_upper_def is_ascii_lower_def)
  have ok: "list_all is_char (unlines ?ls)" "list_all (\<lambda>l. NL \<notin> set l) ?ls"
    "parse_ready (trim_cr (lit ''__WD_READY_a-1__'')) demo_uuid" "uuid_text demo_uuid" "45 \<in> set demo_uuid"
    by (simp_all add: demo_eval)
  have "\<exists>evs rest after. ew_events (demo_lines ?ls) = evs @ rest \<and> list_all quiet evs
      \<and> delays evs < 30 * 1000 \<and> outputs evs = utf8_encode (unlines ?ls) @ after"
    by (intro exI [of _ "ew_events (demo_lines ?ls)"] exI [of _ "[]"]) (simp add: demo_lines_def)
  with packed ok have h: "hears_packed (demo_lines ?ls) 30 demo_uuid [] (lit ''__WD_READY_a-1__'')
      [lit ''QU'', lit ''JD''] (lit ''0'') []"
    unfolding hears_packed_def by (simp add: digits_def is_ascii_digit_def digits_value_def demo_lines_def)
  have "concat (map trim_cr [lit ''QU'', lit ''JD'']) = lit ''QUJD''"
    by (simp add: trim_end_matches_def)
  then show ?thesis
    using exec_compressed_exact [OF h refl, where unbase = Inr and gunzip = demo_gunzip
        and raw = "utf8_encode (lit ''QUJD'')" and data = "[104, 105]" and rc = "lit ''5''" and rnl = "[]" and cmd = "lit ''dir''"]
    by (simp add: demo_gunzip_def is_whitespace_def digits_def is_ascii_digit_def digits_value_def)
qed

text \<open>
  C20: over ssh the command reaches the wire at most once, behind the hop and never ahead of it, and
  nothing is handed over before it is out: a run that never saw a remote prompt has sent the hop
  alone.
\<close>

theorem ssh_payload_at_most_once:
  assumes "ew_send_script w = []"
  shows "case run_oneshot unbase gunzip u cmd (Some host) timeout_secs compress w of (res, w', calls) \<Rightarrow>
    ew_sent w' = ew_sent w @ [utf8_encode (lit ''ssh -tt '' @ host @ [NL])] \<and> calls = []
    \<or> ew_sent w' = ew_sent w @ [utf8_encode (lit ''ssh -tt '' @ host @ [NL]),
        utf8_encode (if compress then format_compressed_command u Bash cmd else format_command u Bash cmd)]"
  using assms by (rule ssh_payload_once)

theorem ssh_payload_at_most_once_witness:
  "length (ew_sent (fst (snd (run_oneshot Inr Inr demo_uuid (lit ''ls'') (Some (lit ''prod'')) 30 False (demo_lines [lit ''$'']))))) \<le> 2"
  using ssh_payload_at_most_once [of "demo_lines [lit ''$'']", where unbase = Inr and gunzip = Inr and u = demo_uuid
      and cmd = "lit ''ls''" and host = "lit ''prod''" and timeout_secs = 30 and compress = False]
  by (auto simp: case_prod_beta demo_lines_def)

text \<open>
  C36: a run ends in time: when no single receive takes longer than the slack, it is over before its
  limit and one slack have passed, whatever arrives and whether or not the sentinel ever does.
\<close>

theorem exec_time_limit:
  assumes "ew_send_script w = []" "list_all (\<lambda>e. fst e \<le> slack) (ew_events w)" "RECV_TICK \<le> slack"
  shows "ew_now (fst (snd (run_oneshot unbase gunzip u cmd ssh timeout_secs compress w)))
    < ew_now w + timeout_secs * 1000 + slack"
  using assms by (rule run_in_time)

theorem exec_time_limit_witness:
  "ew_now (fst (snd (run_oneshot Inr Inr demo_uuid (lit ''ls'') None 30 False (demo_lines [lit ''x''])))) < 30100"
  using exec_time_limit [of "demo_lines [lit ''x'']" 100, where unbase = Inr and gunzip = Inr and u = demo_uuid
      and cmd = "lit ''ls''" and ssh = None and timeout_secs = 30 and compress = False]
  by (simp add: demo_lines_def RECV_TICK_def)

section \<open>The socket\<close>

text \<open>
  C32: the terminal's stream transport yields exactly the packets written, in order, however the
  socket cuts them and wherever its read times out or is interrupted: a timeout in the middle of a
  frame loses nothing and the connection stays up.
\<close>

theorem ipc_stream_delivers:
  assumes "list_all wf_packet ps" "list_all read_harmless reads"
    and "read_bytes reads = concat (map (packet_frame crc) ps)" "length reads + length ps \<le> n"
  shows "filter (\<lambda>r. \<not> is_timeout r) (fst (poll crc n (ipc_stream_from reads))) = map Inr ps
    \<and> is_connected (snd (poll crc n (ipc_stream_from reads)))"
proof -
  have "holds_frames crc (ipc_stream_from reads) ps"
    using assms(1-3) by (simp add: holds_frames_def ipc_stream_from_def)
  from poll_frames [OF this, of n] assms(4) show ?thesis
    by (auto simp: case_prod_beta ipc_stream_from_def holds_frames_def)
qed

theorem ipc_stream_delivers_witness:
  "let p = packet_new Heartbeat 7; bs = packet_frame (\<lambda>_. 0) p in
     filter (\<lambda>r. \<not> is_timeout r)
       (fst (poll (\<lambda>_. 0) 5 (ipc_stream_from [SockBytes (take 3 bs), SockTimeout, SockBytes (drop 3 bs)])))
     = [Inr p]"
proof -
  let ?p = "packet_new Heartbeat 7"
  have "wf_packet ?p" by (simp add: wf_packet_def packet_new_def MAX_PAYLOAD_def)
  moreover have "3 < length (packet_frame (\<lambda>_. 0) ?p)" by (simp add: packet_frame_def)
  then have "take 3 (packet_frame (\<lambda>_. 0) ?p) \<noteq> []" "drop 3 (packet_frame (\<lambda>_. 0) ?p) \<noteq> []" by auto
  ultimately show ?thesis
    using ipc_stream_delivers [of "[?p]" "[SockBytes (take 3 (packet_frame (\<lambda>_. 0) ?p)), SockTimeout,
      SockBytes (drop 3 (packet_frame (\<lambda>_. 0) ?p))]" "\<lambda>_. 0" 5]
    by (simp add: Let_def read_harmless_def)
qed

text \<open>
  The two sides of the socket do not agree on the cap of a frame. The writer accepts every body
  shorter than four gigabytes; the reader takes it back unchanged up to the cap of 16 MB and refuses
  it beyond, with the body left in the stream.
\<close>

lemma frame_cap_is_the_readers:
  assumes "length payload < 2 ^ 32"
  shows "\<exists>bs. write_frame payload = Inr bs
    \<and> ipc_read_frame (bs @ rest)
      = (if length payload \<le> MAX_FRAME_BYTES then (Inr payload, rest)
         else (Inl (FrameOverCap (length payload)), payload @ rest))"
proof (cases "length payload \<le> MAX_FRAME_BYTES")
  case True
  then show ?thesis using frame_roundtrip by simp
next
  case False
  then show ?thesis
    using oversize_frame_refused [of "length payload" "payload @ rest"] assms
    by (simp add: write_frame_def)
qed

lemma frame_cap_is_the_readers_witness:
  "\<exists>bs. write_frame [1, 2, 3] = Inr bs \<and> ipc_read_frame (bs @ [9]) = (Inr [1, 2, 3], [9])"
  using frame_cap_is_the_readers [of "[1, 2, 3]" "[9]"] by (simp add: MAX_FRAME_BYTES_def)

end
