(* ===== verification/ClientClip.thy ===== *)
theory ClientClip
  imports HostClipboard
begin

text \<open>
  \<open>apps/wiredesk-client/src/clipboard.rs\<close>: the client's side of clipboard synchronisation. Three
  owners share it: the poll thread, which looks at the pasteboard and queues transfers; the reader,
  which reassembles what the host sends; the writer, which counts what has left. One record holds
  the shared state and the locals of the poll thread. Constants, the hash, the PNG codec and the
  pasteboard record are those of the host's half, where the code has them twice.
\<close>

section \<open>Recently seen content\<close>

record last_seen =
  ls_text_history :: "u64 list"
  ls_image :: "u64 option"
  ls_oversize_image :: "u64 option"
  ls_file :: "u64 option"
  ls_oversize_file :: "u64 option"

definition TEXT_HISTORY :: nat where "TEXT_HISTORY = 4"

definition last_seen_default :: last_seen where
  "last_seen_default =
     \<lparr>ls_text_history = [], ls_image = None, ls_oversize_image = None, ls_file = None, ls_oversize_file = None\<rparr>"

definition seen_image :: "last_seen \<Rightarrow> u64 \<Rightarrow> bool" where
  "seen_image s h = (ls_image s = Some h \<or> ls_oversize_image s = Some h)"

definition seen_text :: "last_seen \<Rightarrow> u64 \<Rightarrow> bool" where
  "seen_text s h = (h \<in> set (ls_text_history s))"

definition seen_file :: "last_seen \<Rightarrow> u64 \<Rightarrow> bool" where
  "seen_file s h = (ls_file s = Some h \<or> ls_oversize_file s = Some h)"

definition set_text :: "u64 \<Rightarrow> last_seen \<Rightarrow> last_seen" where
  "set_text h s =
     (case ls_text_history s of
        x # xs \<Rightarrow>
          if x = h then s
          else s\<lparr>ls_text_history := take TEXT_HISTORY (h # remove1 h (x # xs))\<rparr>
      | [] \<Rightarrow> s\<lparr>ls_text_history := take TEXT_HISTORY [h]\<rparr>)"

definition set_image :: "u64 \<Rightarrow> last_seen \<Rightarrow> last_seen" where
  "set_image h s =
     s\<lparr>ls_image := Some h,
       ls_oversize_image := (if ls_oversize_image s = Some h then None else ls_oversize_image s)\<rparr>"

definition set_oversize_image :: "u64 \<Rightarrow> last_seen \<Rightarrow> last_seen" where
  "set_oversize_image h s = s\<lparr>ls_oversize_image := Some h\<rparr>"

definition set_file :: "u64 \<Rightarrow> last_seen \<Rightarrow> last_seen" where
  "set_file h s =
     s\<lparr>ls_file := Some h,
       ls_oversize_file := (if ls_oversize_file s = Some h then None else ls_oversize_file s)\<rparr>"

definition set_oversize_file :: "u64 \<Rightarrow> last_seen \<Rightarrow> last_seen" where
  "set_oversize_file h s = s\<lparr>ls_oversize_file := Some h\<rparr>"

section \<open>State\<close>

record mac_clip =
  mc_os :: clip_os
  mc_change_count :: int
  mc_seen :: last_seen
  mc_expected_len :: u32
  mc_expected_format :: u8
  mc_received :: "(u16, bytes) btree"
  mc_received_total :: u32
  mc_incoming_progress :: u64
  mc_incoming_total :: u64
  mc_receive_images :: bool
  mc_receive_text :: bool
  mc_receive_files :: bool
  mc_in_flight_file :: "ustring option"
  mc_file_change_count :: int
  mc_pending_text :: "u64 option"
  mc_sent_names :: "(rstring \<times> nat) list"
  mc_send_images :: bool
  mc_send_text :: bool
  mc_send_files :: bool
  mc_text_in_flight :: bool
  mc_out_progress :: u64
  mc_out_total :: u64
  mc_out_label :: rstring
  mc_outgoing_cancel :: bool
  mc_incoming_cancel :: bool

section \<open>What the poll thread decides\<close>

datatype toast =
    ToastImageTooLarge nat
  | ToastFileTooLarge nat
  | ToastPeerDeclinedFile
  | ToastDeclined

definition format_oversize_toast :: "nat \<Rightarrow> toast" where
  "format_oversize_toast png_len = ToastImageTooLarge (png_len div 1024)"

definition format_oversize_file_toast :: "nat \<Rightarrow> toast" where
  "format_oversize_file_toast size_bytes = ToastFileTooLarge (size_bytes div 1024)"

definition emit_offer_and_chunks :: "u8 \<Rightarrow> bytes \<Rightarrow> packet list" where
  "emit_offer_and_chunks format payload =
     packet_new (ClipOffer format (of_nat (length payload))) 0
     # map (\<lambda>(idx, chunk). packet_new (ClipChunk (of_nat idx) chunk) 0)
         (enumerate 0 (chunks CHUNK_SIZE payload))"

datatype text_send_decision = SendText | HoldText | SkipText

definition decide_text_send :: "u64 \<Rightarrow> bool \<Rightarrow> u64 option \<Rightarrow> bool \<Rightarrow> text_send_decision" where
  "decide_text_send h already_sent pending kicked =
     (if already_sent then SkipText
      else if kicked \<or> pending = Some h then SendText
      else HoldText)"

definition SENT_FILE_NAME_WINDOW :: nat where "SENT_FILE_NAME_WINDOW = 30000"
definition SENT_FILE_NAME_CAPACITY :: nat where "SENT_FILE_NAME_CAPACITY = 4"

definition push_sent_file_name ::
  "(rstring \<times> nat) list \<Rightarrow> rstring \<Rightarrow> nat \<Rightarrow> (rstring \<times> nat) list" where
  "push_sent_file_name entries name now = take SENT_FILE_NAME_CAPACITY ((name, now) # entries)"

text \<open>The first entry with that name and a fresh time is refreshed.\<close>

fun recent_file_names_contains ::
  "(rstring \<times> nat) list \<Rightarrow> rstring \<Rightarrow> nat \<Rightarrow> bool \<times> (rstring \<times> nat) list" where
  "recent_file_names_contains [] s now = (False, [])"
| "recent_file_names_contains ((name, at) # es) s now =
     (if name = s \<and> now - at \<le> SENT_FILE_NAME_WINDOW then (True, (name, now) # es)
      else let (r, es') = recent_file_names_contains es s now in (r, (name, at) # es'))"

text \<open>\<open>clipboard_files::poll_file_url\<close>: nothing until the pasteboard has changed.\<close>

definition poll_file_url :: "mac_clip \<Rightarrow> file_probe option \<times> mac_clip" where
  "poll_file_url c =
     (if mc_change_count c = mc_file_change_count c then (None, c)
      else (os_hdrop (mc_os c), c\<lparr>mc_file_change_count := mc_change_count c\<rparr>))"

text \<open>What the thread does before its first tick: it marks what is there as seen.\<close>

definition poll_startup :: "clip_env \<Rightarrow> mac_clip \<Rightarrow> mac_clip" where
  "poll_startup env c =
     (let c1 = (case os_text (mc_os c) of
          Some (b # bs) \<Rightarrow> c\<lparr>mc_seen := set_text (ce_hash env (b # bs)) (mc_seen c)\<rparr>
        | _ \<Rightarrow> c);
          c2 = (case os_image (mc_os c1) of
          Some img \<Rightarrow> c1\<lparr>mc_seen := set_image (ce_hash env (im_bytes img)) (mc_seen c1)\<rparr>
        | None \<Rightarrow> c1);
          (path, c3) = poll_file_url (c2\<lparr>mc_file_change_count := -1\<rparr>);
          c4 = (case path of
          None \<Rightarrow> c3
        | Some p \<Rightarrow>
            (case pre_stamp_file_path env p MAX_FILE_BYTES of
               PreStamped name h \<Rightarrow> c3\<lparr>mc_seen := set_file h (mc_seen c3)\<rparr>
             | _ \<Rightarrow> c3))
      in c4\<lparr>mc_pending_text := None, mc_sent_names := []\<rparr>)"

section \<open>A tick of the poll thread\<close>

text \<open>Each probe yields the packets it queues, the toasts, and the state.\<close>

type_synonym probe_result = "packet list \<times> toast list \<times> mac_clip"

definition probe_file :: "clip_env \<Rightarrow> bool \<Rightarrow> nat \<Rightarrow> mac_clip \<Rightarrow> probe_result" where
  "probe_file env link_ready now c0 =
     (let (path, c) = poll_file_url c0 in
      case path of
        None \<Rightarrow> ([], [], c)
      | Some p \<Rightarrow>
          if \<not> mc_send_files c \<or> \<not> link_ready then ([], [], c)
          else (case pack_file_or_warn env p MAX_FILE_BYTES of
              FileReady name h packed \<Rightarrow>
                if seen_file (mc_seen c) h then ([], [], c)
                else (emit_offer_and_chunks FORMAT_FILE packed, [],
                  c\<lparr>mc_out_label := name,
                    mc_sent_names := push_sent_file_name (mc_sent_names c) name now\<rparr>)
            | FileOversize path_hash e \<Rightarrow>
                if seen_file (mc_seen c) path_hash then ([], [], c)
                else ([], [format_oversize_file_toast e],
                  c\<lparr>mc_seen := set_oversize_file path_hash (mc_seen c)\<rparr>)
            | FileSkipped reason \<Rightarrow> ([], [], c)))"

definition probe_text :: "clip_env \<Rightarrow> bool \<Rightarrow> bool \<Rightarrow> nat \<Rightarrow> mac_clip \<Rightarrow> probe_result" where
  "probe_text env link_ready kicked now c =
     (if mc_send_text c \<and> link_ready then
        (case os_text (mc_os c) of
           Some (b # bs) \<Rightarrow>
             let text = b # bs; h = ce_hash env text;
                 (is_pending_file_name, names) = recent_file_names_contains (mc_sent_names c) text now;
                 c1 = c\<lparr>mc_sent_names := names\<rparr>
             in if is_pending_file_name then ([], [], c1\<lparr>mc_pending_text := None\<rparr>)
                else (case decide_text_send h (seen_text (mc_seen c1) h) (mc_pending_text c1) kicked of
                    SkipText \<Rightarrow> ([], [], c1\<lparr>mc_pending_text := None\<rparr>)
                  | HoldText \<Rightarrow> ([], [], c1\<lparr>mc_pending_text := Some h\<rparr>)
                  | SendText \<Rightarrow>
                      let c2 = c1\<lparr>mc_pending_text := None, mc_seen := set_text h (mc_seen c1)\<rparr> in
                      if length text > MAX_CLIPBOARD_BYTES then ([], [], c2)
                      else (emit_offer_and_chunks FORMAT_TEXT_UTF8 text, [],
                            c2\<lparr>mc_text_in_flight := True\<rparr>))
         | _ \<Rightarrow> ([], [], c\<lparr>mc_pending_text := None\<rparr>))
      else ([], [], c\<lparr>mc_pending_text := None\<rparr>))"

definition probe_image :: "clip_env \<Rightarrow> bool \<Rightarrow> mac_clip \<Rightarrow> probe_result" where
  "probe_image env link_ready c =
     (if \<not> mc_send_images c \<or> \<not> link_ready then ([], [], c)
      else case os_image (mc_os c) of
        None \<Rightarrow> ([], [], c)
      | Some img \<Rightarrow>
          let h = ce_hash env (im_bytes img) in
          if seen_image (mc_seen c) h then ([], [], c)
          else (case ce_png_encode env img of
              None \<Rightarrow> ([], [], c)
            | Some png \<Rightarrow>
                (case check_size (length png) MAX_IMAGE_BYTES of
                   Inl e \<Rightarrow> ([], [format_oversize_toast e],
                             c\<lparr>mc_seen := set_oversize_image h (mc_seen c)\<rparr>)
                 | Inr u \<Rightarrow> (emit_offer_and_chunks FORMAT_PNG_IMAGE png, [],
                             c\<lparr>mc_seen := set_image h (mc_seen c)\<rparr>))))"

definition poll_tick :: "clip_env \<Rightarrow> bool \<Rightarrow> bool \<Rightarrow> nat \<Rightarrow> mac_clip \<Rightarrow> probe_result" where
  "poll_tick env link_ready kicked now c =
     (let (p1, t1, c1) = probe_file env link_ready now (c\<lparr>mc_text_in_flight := False\<rparr>);
          (p2, t2, c2) = probe_text env link_ready kicked now c1;
          (p3, t3, c3) = probe_image env link_ready c2
      in (p1 @ p2 @ p3, t1 @ t2 @ t3, c3))"

section \<open>Receiving\<close>

definition mac_reset_reassembly :: "mac_clip \<Rightarrow> mac_clip" where
  "mac_reset_reassembly c =
     c\<lparr>mc_expected_len := 0, mc_expected_format := 0, mc_received := [], mc_received_total := 0,
       mc_incoming_total := 0, mc_incoming_progress := 0\<rparr>"

text \<open>\<open>IncomingClipboard::reset\<close>.\<close>

definition mac_reset :: "mac_clip \<Rightarrow> mac_clip" where
  "mac_reset c =
     (let c1 = mac_reset_reassembly c in
      case mc_in_flight_file c1 of
        None \<Rightarrow> c1
      | Some path \<Rightarrow>
          c1\<lparr>mc_in_flight_file := None,
             mc_os := (mc_os c1)\<lparr>os_cache := (os_cache (mc_os c1))(path := None)\<rparr>\<rparr>)"

definition mac_on_offer :: "mac_clip \<Rightarrow> u8 \<Rightarrow> u32 \<Rightarrow> message option \<times> mac_clip" where
  "mac_on_offer c format total_len =
     (if format \<noteq> FORMAT_TEXT_UTF8 \<and> format \<noteq> FORMAT_PNG_IMAGE \<and> format \<noteq> FORMAT_FILE
      then (None, mac_reset_reassembly c)
      else if format = FORMAT_TEXT_UTF8 \<and> \<not> mc_receive_text c
      then (Some (ClipDecline format), mac_reset_reassembly c)
      else if format = FORMAT_PNG_IMAGE \<and> \<not> mc_receive_images c
      then (Some (ClipDecline format), mac_reset_reassembly c)
      else if format = FORMAT_FILE \<and> \<not> mc_receive_files c
      then (Some (ClipDecline format), mac_reset_reassembly c)
      else if unat total_len > format_cap format
      then (None, mac_reset c)
      else (None, c\<lparr>mc_expected_len := total_len, mc_expected_format := format,
                    mc_received := [], mc_received_total := 0,
                    mc_incoming_total := ucast total_len, mc_incoming_progress := 0\<rparr>))"

definition mac_commit_text :: "clip_env \<Rightarrow> mac_clip \<Rightarrow> bytes \<Rightarrow> mac_clip" where
  "mac_commit_text env c buf =
     (if \<not> utf8_valid buf then c
      else
        let h = ce_hash env buf; marked = set_text h (mc_seen c) in
        if \<not> os_backend (mc_os c) then c\<lparr>mc_seen := marked\<rparr>
        else if os_set_ok (mc_os c)
        then c\<lparr>mc_os := (mc_os c)\<lparr>os_written := HoldsText buf\<rparr>, mc_seen := marked\<rparr>
        else c)"

definition mac_commit_image :: "clip_env \<Rightarrow> mac_clip \<Rightarrow> bytes \<Rightarrow> mac_clip" where
  "mac_commit_image env c buf =
     (case decode_png_to_rgba env buf of
        None \<Rightarrow> c
      | Some img \<Rightarrow>
          let h = ce_hash env (im_bytes img); marked = set_image h (mc_seen c) in
          if \<not> os_backend (mc_os c) then c\<lparr>mc_seen := marked\<rparr>
          else if os_set_ok (mc_os c)
          then c\<lparr>mc_os := (mc_os c)\<lparr>os_written := HoldsImage img\<rparr>, mc_seen := marked\<rparr>
          else c)"

definition mac_commit_file :: "clip_env \<Rightarrow> mac_clip \<Rightarrow> bytes \<Rightarrow> mac_clip" where
  "mac_commit_file env c buf =
     (case unpack_first_chunk buf of
        Inl e \<Rightarrow> c
      | Inr (raw_name, content) \<Rightarrow>
          let path = sanitize_basename (utf8_chars raw_name); os = mc_os c in
          if \<not> os_mkdir_ok os then c
          else if \<not> os_write_ok os
          then c\<lparr>mc_in_flight_file := None, mc_os := os\<lparr>os_cache := (os_cache os)(path := None)\<rparr>\<rparr>
          else
            let os1 = os\<lparr>os_cache := (os_cache os)(path \<mapsto> content)\<rparr> in
            if os_hdrop_ok os1
            then c\<lparr>mc_in_flight_file := None, mc_os := os1\<lparr>os_written := HoldsFile path\<rparr>,
                   mc_seen := set_file (ce_hash env content) (mc_seen c)\<rparr>
            else c\<lparr>mc_in_flight_file := None, mc_os := os1\<rparr>)"

definition mac_commit :: "clip_env \<Rightarrow> mac_clip \<Rightarrow> mac_clip" where
  "mac_commit env c =
     (if \<not> contiguous (mc_received c) then mac_reset c
      else
        let buf = concat (map snd (mc_received c)); c1 = c\<lparr>mc_received := []\<rparr> in
        if (of_nat (length buf) :: u32) \<noteq> mc_expected_len c then mac_reset c1
        else mac_reset
          (if mc_expected_format c1 = FORMAT_TEXT_UTF8 then mac_commit_text env c1 buf
           else if mc_expected_format c1 = FORMAT_PNG_IMAGE then mac_commit_image env c1 buf
           else if mc_expected_format c1 = FORMAT_FILE then mac_commit_file env c1 buf
           else c1))"

definition mac_on_chunk :: "clip_env \<Rightarrow> mac_clip \<Rightarrow> u16 \<Rightarrow> bytes \<Rightarrow> mac_clip" where
  "mac_on_chunk env c index data =
     (if mc_expected_len c = 0 then c
      else
        let added = of_nat (length data) :: u32;
            fresh = (map_of (mc_received c) index = None);
            c1 = c\<lparr>mc_received := bt_insert index data (mc_received c)\<rparr>;
            c2 = (if fresh
                  then c1\<lparr>mc_received_total := saturating_add32 (mc_received_total c1) added,
                          mc_incoming_progress := mc_incoming_progress c1 + ucast added\<rparr>
                  else c1)
        in if mc_received_total c2 \<ge> mc_expected_len c2 then mac_commit env c2 else c2)"

section \<open>What the writer counts\<close>

definition apply_outgoing_progress :: "message \<Rightarrow> mac_clip \<Rightarrow> mac_clip" where
  "apply_outgoing_progress m c =
     (case m of
        ClipOffer format total_len \<Rightarrow> c\<lparr>mc_out_total := ucast total_len, mc_out_progress := 0\<rparr>
      | ClipChunk index data \<Rightarrow>
          let new_progress = mc_out_progress c + of_nat (length data) in
          if mc_out_total c > 0 \<and> new_progress \<ge> mc_out_total c
          then c\<lparr>mc_out_total := 0, mc_out_progress := 0, mc_out_label := []\<rparr>
          else c\<lparr>mc_out_progress := new_progress\<rparr>
      | _ \<Rightarrow> c)"

definition send_decline_toast :: "u8 \<Rightarrow> toast" where
  "send_decline_toast format = (if format = FORMAT_FILE then ToastPeerDeclinedFile else ToastDeclined)"

definition apply_clip_decline :: "u8 \<Rightarrow> mac_clip \<Rightarrow> toast \<times> mac_clip" where
  "apply_clip_decline format c =
     (send_decline_toast format, c\<lparr>mc_outgoing_cancel := True, mc_out_label := []\<rparr>)"

text \<open>What the reader clears when a session starts or ends.\<close>

definition reset_session_state :: "mac_clip \<Rightarrow> mac_clip" where
  "reset_session_state c =
     (mac_reset c)\<lparr>mc_seen := last_seen_default, mc_out_progress := 0, mc_out_total := 0\<rparr>"

section \<open>The receiver is the host's\<close>

text \<open>
  The host keeps one last hash where the client keeps one per kind; apart from that both reassemble
  in the same way. \<open>rx_view\<close> reads the client's receiver as a host's without its last hash.
\<close>

definition rx_view :: "mac_clip \<Rightarrow> clipboard_sync" where
  "rx_view c =
     \<lparr>cs_os = mc_os c, cs_last = LkNone, cs_last_poll = 0, cs_expected_len = mc_expected_len c,
      cs_expected_format = mc_expected_format c, cs_received_total = mc_received_total c,
      cs_received = mc_received c, cs_incoming_progress = mc_incoming_progress c,
      cs_incoming_total = mc_incoming_total c, cs_outgoing_progress = 0, cs_outgoing_total = 0,
      cs_outbox = [], cs_warning = None, cs_receive_files = mc_receive_files c,
      cs_in_flight_file = mc_in_flight_file c, cs_last_seq = 0\<rparr>"

definition forget_last :: "clipboard_sync \<Rightarrow> clipboard_sync" where
  "forget_last c = c\<lparr>cs_last := LkNone\<rparr>"

lemma rx_view_fields [simp]:
  "cs_os (rx_view c) = mc_os c" "cs_received (rx_view c) = mc_received c"
  "cs_expected_len (rx_view c) = mc_expected_len c" "cs_expected_format (rx_view c) = mc_expected_format c"
  "cs_received_total (rx_view c) = mc_received_total c" "cs_receive_files (rx_view c) = mc_receive_files c"
  "cs_incoming_progress (rx_view c) = mc_incoming_progress c"
  "cs_in_flight_file (rx_view c) = mc_in_flight_file c" "cs_last (rx_view c) = LkNone"
  by (simp_all add: rx_view_def)

lemma rx_view_resets [simp]:
  "rx_view (mac_reset_reassembly c) = reset_reassembly (rx_view c)"
  "rx_view (mac_reset c) = remove_in_flight (reset_reassembly (rx_view c))"
  by (simp_all add: mac_reset_def rx_view_def mac_reset_reassembly_def reset_reassembly_def
      remove_in_flight_def Let_def split: option.split)

lemma rx_view_arm:
  "rx_view (c\<lparr>mc_expected_len := l, mc_expected_format := f, mc_received := r, mc_received_total := t,
       mc_incoming_total := it, mc_incoming_progress := p\<rparr>)
   = (rx_view c)\<lparr>cs_expected_len := l, cs_expected_format := f, cs_received := r, cs_received_total := t,
       cs_incoming_total := it, cs_incoming_progress := p\<rparr>"
  by (simp add: rx_view_def)

lemma rx_view_offer:
  assumes "format = FORMAT_TEXT_UTF8 \<Longrightarrow> mc_receive_text c" "format = FORMAT_PNG_IMAGE \<Longrightarrow> mc_receive_images c"
  shows "fst (mac_on_offer c format n) = fst (on_offer (rx_view c) format n)
    \<and> rx_view (snd (mac_on_offer c format n)) = snd (on_offer (rx_view c) format n)"
proof -
  have "\<not> (format = FORMAT_TEXT_UTF8 \<and> \<not> mc_receive_text c)"
    "\<not> (format = FORMAT_PNG_IMAGE \<and> \<not> mc_receive_images c)" using assms by blast+
  then show ?thesis
    unfolding mac_on_offer_def on_offer_def by (simp only: if_False) (simp add: rx_view_arm)
qed

text \<open>No file is left in flight between two operations, so no reset deletes one.\<close>

lemma rx_view_commit:
  assumes "mc_in_flight_file c = None"
  shows "rx_view (mac_commit env c) = forget_last (commit env (rx_view c))
    \<and> mc_in_flight_file (mac_commit env c) = None"
proof -
  have r: "remove_in_flight (reset_reassembly (rx_view d)) = reset_reassembly (rx_view d)"
    "mc_in_flight_file (mac_reset d) = None" if "mc_in_flight_file d = None" for d
    using that by (simp_all add: mac_reset_def remove_in_flight_def mac_reset_reassembly_def reset_reassembly_def Let_def)
  have cb: "rx_view (mac_commit_text env d buf) = forget_last (commit_text env (rx_view d) buf)"
    "rx_view (mac_commit_image env d buf) = forget_last (commit_image env (rx_view d) buf)"
    "rx_view (mac_commit_file env d buf) = forget_last (commit_file env (rx_view d) buf)"
    "mc_in_flight_file d = None \<Longrightarrow> mc_in_flight_file (mac_commit_text env d buf) = None"
    "mc_in_flight_file d = None \<Longrightarrow> mc_in_flight_file (mac_commit_image env d buf) = None"
    "mc_in_flight_file d = None \<Longrightarrow> mc_in_flight_file (mac_commit_file env d buf) = None" for d buf
    by (auto simp: mac_commit_text_def commit_text_def mac_commit_image_def commit_image_def
        mac_commit_file_def commit_file_def rx_view_def forget_last_def Let_def
        split: option.split sum.split)
  have fl: "reset_reassembly (forget_last d) = forget_last (reset_reassembly d)"
    "forget_last (rx_view e) = rx_view e" for d e
    by (simp_all add: reset_reassembly_def forget_last_def rx_view_def)
  have view: "(rx_view c)\<lparr>cs_received := []\<rparr> = rx_view (c\<lparr>mc_received := []\<rparr>)"
    by (simp add: rx_view_def)
  have rf: "forget_last (reset_reassembly (rx_view d)) = reset_reassembly (rx_view d)" for d
    using fl by metis
  show ?thesis
    using assms
    by (simp add: mac_commit_def commit_def commit_buffer_def view Let_def r cb fl rf)
qed

lemma rx_view_chunk:
  assumes "mc_in_flight_file c = None"
  shows "rx_view (mac_on_chunk env c index data) = forget_last (on_chunk env (rx_view c) index data)
    \<and> mc_in_flight_file (mac_on_chunk env c index data) = None"
proof (cases "mc_expected_len c = 0")
  case True
  then show ?thesis using assms by (simp add: mac_on_chunk_def on_chunk_def rx_view_def forget_last_def)
next
  case False
  define c2 where "c2 = (if map_of (mc_received c) index = None
    then c\<lparr>mc_received := bt_insert index data (mc_received c),
           mc_received_total := saturating_add32 (mc_received_total c) (of_nat (length data)),
           mc_incoming_progress := mc_incoming_progress c + ucast (of_nat (length data) :: u32)\<rparr>
    else c\<lparr>mc_received := bt_insert index data (mc_received c)\<rparr>)"
  have m: "mac_on_chunk env c index data
      = (if mc_received_total c2 \<ge> mc_expected_len c2 then mac_commit env c2 else c2)"
    using False by (simp add: mac_on_chunk_def c2_def Let_def)
  have h: "on_chunk env (rx_view c) index data
      = (if mc_received_total c2 \<ge> mc_expected_len c2 then commit env (rx_view c2) else rx_view c2)"
    using False by (simp add: on_chunk_def c2_def rx_view_def Let_def)
  have "mc_in_flight_file c2 = None" using assms by (simp add: c2_def)
  moreover have "forget_last (rx_view c2) = rx_view c2" by (simp add: forget_last_def rx_view_def)
  ultimately show ?thesis using rx_view_commit [of c2 env] m h by simp
qed

text \<open>The chunks of a transfer, in any order, at both receivers.\<close>

lemma forget_chunk:
  "forget_last (on_chunk env (forget_last c) index data) = forget_last (on_chunk env c index data)"
proof -
  have cb: "forget_last (commit_text env (forget_last d) buf) = forget_last (commit_text env d buf)"
    "forget_last (commit_image env (forget_last d) buf) = forget_last (commit_image env d buf)"
    "forget_last (commit_file env (forget_last d) buf) = forget_last (commit_file env d buf)" for d buf
    by (auto simp: commit_text_def commit_image_def commit_file_def forget_last_def Let_def
        split: option.split sum.split)
  have rr: "forget_last (reset_reassembly d) = reset_reassembly (forget_last d)" for d
    by (simp add: forget_last_def reset_reassembly_def)
  have up: "(forget_last d)\<lparr>cs_received := r\<rparr> = forget_last (d\<lparr>cs_received := r\<rparr>)"
    "(forget_last d)\<lparr>cs_received_total := t, cs_incoming_progress := p\<rparr>
      = forget_last (d\<lparr>cs_received_total := t, cs_incoming_progress := p\<rparr>)"
    "cs_received (forget_last d) = cs_received d" "cs_expected_len (forget_last d) = cs_expected_len d"
    "cs_expected_format (forget_last d) = cs_expected_format d"
    "cs_received_total (forget_last d) = cs_received_total d"
    "cs_incoming_progress (forget_last d) = cs_incoming_progress d" "forget_last (forget_last d) = forget_last d"
    for d r t p by (simp_all add: forget_last_def)
  have cm: "forget_last (commit env (forget_last d)) = forget_last (commit env d)" for d
    by (simp add: commit_def commit_buffer_def up rr cb Let_def)
  show ?thesis by (auto simp: on_chunk_def up cm Let_def)
qed

definition mac_receive_chunks :: "clip_env \<Rightarrow> mac_clip \<Rightarrow> (u16 \<times> bytes) list \<Rightarrow> mac_clip" where
  "mac_receive_chunks env c ics = foldl (\<lambda>c (index, data). mac_on_chunk env c index data) c ics"

lemma rx_view_chunks:
  assumes "mc_in_flight_file c = None"
  shows "rx_view (mac_receive_chunks env c ics)
      = forget_last (foldl (\<lambda>c (index, data). on_chunk env c index data) (rx_view c) ics)
    \<and> mc_in_flight_file (mac_receive_chunks env c ics) = None"
proof (induction ics rule: rev_induct)
  case Nil
  then show ?case using assms by (simp add: mac_receive_chunks_def forget_last_def rx_view_def)
next
  case (snoc ic ics)
  obtain i d where ic: "ic = (i, d)" by (cases ic)
  have "rx_view (mac_receive_chunks env c (ics @ [ic]))
      = forget_last (on_chunk env (rx_view (mac_receive_chunks env c ics)) i d)"
    using rx_view_chunk [of "mac_receive_chunks env c ics" env i d] snoc ic
    by (simp add: mac_receive_chunks_def)
  then show ?case
    using snoc ic rx_view_chunk [of "mac_receive_chunks env c ics" env i d] forget_chunk
    by (simp add: mac_receive_chunks_def)
qed

end
