(* ===== verification/ClipPeer.thy ===== *)
theory ClipPeer
  imports ClipTransfer
begin

text \<open>
  The contract both clipboard receivers keep, the host's and the client's: a whole transfer is
  committed, whatever was received before it. The locale states the laws of one receiver; it is
  interpreted on the host's here and on the client's where that is modelled.
\<close>

section \<open>The contract\<close>

locale clip_peer =
  fixes hear :: "'s \<Rightarrow> message \<Rightarrow> 's"
    and ready :: "u8 \<Rightarrow> 's \<Rightarrow> bool"
    and holds :: "'s \<Rightarrow> clip_content"
    and stored :: "'s \<Rightarrow> ustring \<Rightarrow> bytes option"
  assumes ready_hear: "ready f s \<Longrightarrow> ready f (hear s m)"
    and hear_text: "ready FORMAT_TEXT_UTF8 s \<Longrightarrow> t \<noteq> [] \<Longrightarrow> utf8_valid t \<Longrightarrow> length t \<le> MAX_CLIPBOARD_BYTES
      \<Longrightarrow> holds (foldl hear s (build_offer_and_chunks FORMAT_TEXT_UTF8 t)) = HoldsText t"
    and hear_file: "ready FORMAT_FILE s \<Longrightarrow> pack_first_chunk name content = Inr payload \<Longrightarrow> utf8_valid name
      \<Longrightarrow> length content \<le> MAX_FILE_BYTES
      \<Longrightarrow> stored (foldl hear s (build_offer_and_chunks FORMAT_FILE payload))
            (sanitize_basename (utf8_chars name)) = Some content"
begin

lemma ready_run: "ready f s \<Longrightarrow> ready f (foldl hear s ms)"
  by (induction ms arbitrary: s) (simp_all add: ready_hear)

lemma text_after_anything:
  assumes "ready FORMAT_TEXT_UTF8 s" "t \<noteq> []" "utf8_valid t" "length t \<le> MAX_CLIPBOARD_BYTES"
  shows "holds (foldl hear s (ms @ build_offer_and_chunks FORMAT_TEXT_UTF8 t)) = HoldsText t"
  using hear_text [of "foldl hear s ms"] assms by (simp add: ready_run)

lemma file_after_anything:
  assumes "ready FORMAT_FILE s" "pack_first_chunk name content = Inr payload" "utf8_valid name"
    and "length content \<le> MAX_FILE_BYTES"
  shows "stored (foldl hear s (ms @ build_offer_and_chunks FORMAT_FILE payload))
      (sanitize_basename (utf8_chars name)) = Some content"
  using hear_file [of "foldl hear s ms"] assms by (simp add: ready_run)

end

section \<open>The host keeps it\<close>

definition host_hears :: "clip_env \<Rightarrow> clipboard_sync \<Rightarrow> message \<Rightarrow> clipboard_sync" where
  "host_hears env c m =
     (case m of
        ClipOffer format total_len \<Rightarrow> snd (on_offer c format total_len)
      | ClipChunk index data \<Rightarrow> on_chunk env c index data
      | _ \<Rightarrow> c)"

definition host_ready :: "u8 \<Rightarrow> clipboard_sync \<Rightarrow> bool" where
  "host_ready f c =
     (if f = FORMAT_FILE then cs_receive_files c \<and> os_mkdir_ok (cs_os c) \<and> os_write_ok (cs_os c)
      else os_backend (cs_os c) \<and> os_set_ok (cs_os c))"

text \<open>What an operation may not change: the switches and the answers of the system.\<close>

definition same_answers :: "clipboard_sync \<Rightarrow> clipboard_sync \<Rightarrow> bool" where
  "same_answers c d \<longleftrightarrow> cs_receive_files c = cs_receive_files d
     \<and> os_mkdir_ok (cs_os c) = os_mkdir_ok (cs_os d) \<and> os_write_ok (cs_os c) = os_write_ok (cs_os d)
     \<and> os_backend (cs_os c) = os_backend (cs_os d) \<and> os_set_ok (cs_os c) = os_set_ok (cs_os d)
     \<and> os_hdrop_ok (cs_os c) = os_hdrop_ok (cs_os d)"

lemma same_answers_fields [simp]:
  "same_answers c c" "same_answers (reset_reassembly c) d = same_answers c d"
  "same_answers (remove_in_flight c) d = same_answers c d"
  "same_answers (c\<lparr>cs_received := r\<rparr>) d = same_answers c d"
  by (simp_all add: same_answers_def reset_reassembly_def remove_in_flight_def split: option.split)

lemma same_answers_commit: "same_answers (commit env c) c"
  by (auto simp: commit_def commit_buffer_def commit_text_def commit_image_def commit_file_def
      same_answers_def reset_reassembly_def Let_def split: option.split sum.split)

lemma same_answers_trans: "same_answers c d \<Longrightarrow> same_answers d e \<Longrightarrow> same_answers c e"
  by (simp add: same_answers_def)

lemma same_answers_hear: "same_answers (host_hears env c m) c"
proof -
  have "same_answers (on_chunk env c i d) c" for i d
    using same_answers_commit [of env "c\<lparr>cs_received := bt_insert i d (cs_received c),
        cs_received_total := saturating_add32 (cs_received_total c) (of_nat (length d)),
        cs_incoming_progress := cs_incoming_progress c + ucast (of_nat (length d) :: u32)\<rparr>"]
      same_answers_commit [of env "c\<lparr>cs_received := bt_insert i d (cs_received c)\<rparr>"]
    by (simp add: on_chunk_def Let_def same_answers_def)
  moreover have "same_answers (snd (on_offer c f n)) c" for f n
    by (simp add: on_offer_def same_answers_def reset_reassembly_def remove_in_flight_def split: option.split)
  ultimately show ?thesis by (simp add: host_hears_def split: message.split)
qed

lemma host_hears_transfer:
  "foldl (host_hears env) c (build_offer_and_chunks f p)
   = receive_chunks env (snd (on_offer c f (of_nat (length p)))) p [0..<length (CHUNKS p)]"
proof -
  have "foldl (host_hears env) d (map (\<lambda>i. ClipChunk (of_nat i) (CHUNKS p ! i)) is)
      = receive_chunks env d p is" for d "is"
    by (induction "is" arbitrary: d) (simp_all add: receive_chunks_def host_hears_def)
  then show ?thesis by (simp add: build_offer_and_chunks_eq host_hears_def)
qed

lemma in_order:
  assumes "0 < n"
  obtains ks k where "[0..<n] = ks @ [k]" "set ks \<subseteq> {..<n}" "k < n" "k \<notin> set ks" "insert k (set ks) = {..<n}"
proof
  show "[0..<n] = [0..<n - 1] @ [n - 1]" using assms by (metis Suc_pred' upt_Suc_append zero_le)
  show "insert (n - 1) (set [0..<n - 1]) = {..<n}" using assms by auto
qed (use assms in auto)

lemma packed_length:
  "pack_first_chunk name content = Inr payload \<Longrightarrow> length content \<le> MAX_FILE_BYTES
   \<Longrightarrow> payload \<noteq> [] \<and> length payload \<le> MAX_FILE_PAYLOAD_BYTES"
  by (auto simp: pack_first_chunk_def MAX_FILE_PAYLOAD_BYTES_def split: if_splits)

interpretation host_peer: clip_peer "host_hears env" host_ready "\<lambda>c. os_written (cs_os c)"
    "\<lambda>c. os_cache (cs_os c)" for env
proof unfold_locales
  show "host_ready f s \<Longrightarrow> host_ready f (host_hears env s m)" for f s m
    using same_answers_hear [of env s m] by (simp add: host_ready_def same_answers_def)
next
  fix s and t :: bytes
  assume r: "host_ready FORMAT_TEXT_UTF8 s" and t: "t \<noteq> []" "utf8_valid t" "length t \<le> MAX_CLIPBOARD_BYTES"
  have "length t \<le> MAX_FILE_PAYLOAD_BYTES" using t(3) by (simp add: clip_consts)
  from chunks_of_payload(1) [OF t(1) this] obtain ks k where
    k: "[0..<length (CHUNKS t)] = ks @ [k]" "set ks \<subseteq> {..<length (CHUNKS t)}" "k < length (CHUNKS t)"
      "k \<notin> set ks" "insert k (set ks) = {..<length (CHUNKS t)}"
    using in_order [of "length (CHUNKS t)"] by auto
  have "accepts s FORMAT_TEXT_UTF8 (length t)" "os_backend (cs_os s)" "os_set_ok (cs_os s)"
    using r t(3)
    by (simp_all add: accepts_def known_format_def format_cap_def host_ready_def FORMAT_TEXT_UTF8_def
        FORMAT_PNG_IMAGE_def FORMAT_FILE_def)
  from transfer_text [OF this(1) t(1,2) k(2-5) this(2,3), of env]
  show "os_written (cs_os (foldl (host_hears env) s (build_offer_and_chunks FORMAT_TEXT_UTF8 t))) = HoldsText t"
    by (simp add: host_hears_transfer k(1))
next
  fix s and name content payload :: bytes
  assume r: "host_ready FORMAT_FILE s" and p: "pack_first_chunk name content = Inr payload"
    and n: "utf8_valid name" and c: "length content \<le> MAX_FILE_BYTES"
  note len = packed_length [OF p c]
  from chunks_of_payload(1) [OF conjunct1 [OF len] conjunct2 [OF len]] obtain ks k where
    k: "[0..<length (CHUNKS payload)] = ks @ [k]" "set ks \<subseteq> {..<length (CHUNKS payload)}"
      "k < length (CHUNKS payload)" "k \<notin> set ks" "insert k (set ks) = {..<length (CHUNKS payload)}"
    using in_order [of "length (CHUNKS payload)"] by auto
  have "accepts s FORMAT_FILE (length payload)" "os_mkdir_ok (cs_os s)" "os_write_ok (cs_os s)"
    using r len
    by (simp_all add: accepts_def known_format_def format_cap_def host_ready_def FORMAT_TEXT_UTF8_def
        FORMAT_PNG_IMAGE_def FORMAT_FILE_def)
  from transfer_file [OF p n this(1) k(2-5) this(2,3), of env]
  show "os_cache (cs_os (foldl (host_hears env) s (build_offer_and_chunks FORMAT_FILE payload)))
      (sanitize_basename (utf8_chars name)) = Some content"
    by (simp add: host_hears_transfer k(1))
qed

end
