(* ===== verification/ClientSync.thy ===== *)
theory ClientSync
  imports ClientClip ClipPeer
begin

text \<open>
  What the client's clipboard does: the receiver's contract, inherited from the host's by the
  refinement; the invariant of every history; when the poll thread sends and when it must not; and
  the two directions put together with the host's half.
\<close>

section \<open>The receiver\<close>

definition mac_hears :: "clip_env \<Rightarrow> mac_clip \<Rightarrow> message \<Rightarrow> mac_clip" where
  "mac_hears env c m =
     (case m of
        ClipOffer format total_len \<Rightarrow> snd (mac_on_offer c format total_len)
      | ClipChunk index data \<Rightarrow> mac_on_chunk env c index data
      | _ \<Rightarrow> c)"

definition mac_ready :: "u8 \<Rightarrow> mac_clip \<Rightarrow> bool" where
  "mac_ready f c =
     (mc_in_flight_file c = None
      \<and> (if f = FORMAT_FILE then mc_receive_files c \<and> os_mkdir_ok (mc_os c) \<and> os_write_ok (mc_os c)
         else os_backend (mc_os c) \<and> os_set_ok (mc_os c) \<and> (f = FORMAT_TEXT_UTF8 \<longrightarrow> mc_receive_text c)
           \<and> (f = FORMAT_PNG_IMAGE \<longrightarrow> mc_receive_images c)))"

text \<open>What receiving may not change: the switches, the system's answers, the poll thread's locals.\<close>

definition same_os :: "clip_os \<Rightarrow> clip_os \<Rightarrow> bool" where
  "same_os a b \<longleftrightarrow> os_mkdir_ok a = os_mkdir_ok b \<and> os_write_ok a = os_write_ok b
     \<and> os_backend a = os_backend b \<and> os_set_ok a = os_set_ok b"

definition same_switches :: "mac_clip \<Rightarrow> mac_clip \<Rightarrow> bool" where
  "same_switches c d \<longleftrightarrow> same_os (mc_os c) (mc_os d)
     \<and> mc_receive_text c = mc_receive_text d \<and> mc_receive_images c = mc_receive_images d
     \<and> mc_receive_files c = mc_receive_files d
     \<and> mc_change_count c = mc_change_count d \<and> mc_file_change_count c = mc_file_change_count d
     \<and> mc_pending_text c = mc_pending_text d \<and> mc_sent_names c = mc_sent_names d"

lemma same_os_fields [simp]:
  "same_os a a" "same_os (a\<lparr>os_cache := x\<rparr>) b = same_os a b" "same_os (a\<lparr>os_written := y\<rparr>) b = same_os a b"
  by (simp_all add: same_os_def)

lemma same_switches_refl [simp]: "same_switches c c"
  by (simp add: same_switches_def)

lemma same_switches_trans: "same_switches c d \<Longrightarrow> same_switches d e \<Longrightarrow> same_switches c e"
  by (simp add: same_switches_def same_os_def)

lemma same_switches_reset [simp]:
  "same_switches (mac_reset_reassembly c) d = same_switches c d"
  "same_switches (mac_reset c) d = same_switches c d"
  "same_switches (c\<lparr>mc_received := r\<rparr>) d = same_switches c d"
  by (simp_all add: mac_reset_def mac_reset_reassembly_def same_switches_def Let_def split: option.split)

lemma same_switches_commits [simp]:
  "same_switches (mac_commit_text env c buf) c" "same_switches (mac_commit_image env c buf) c"
  "same_switches (mac_commit_file env c buf) c"
  by (auto simp: mac_commit_text_def mac_commit_image_def mac_commit_file_def same_switches_def Let_def
      split: option.split sum.split)

lemma same_switches_commit: "same_switches (mac_commit env c) c"
proof -
  have "same_switches (c\<lparr>mc_received := []\<rparr>) c" by simp
  note step = same_switches_trans [OF _ this]
  show ?thesis
    using step [OF same_switches_commits(1)] step [OF same_switches_commits(2)]
      step [OF same_switches_commits(3)]
    by (simp add: mac_commit_def Let_def)
qed

text \<open>An offer arms the receiver, or clears it.\<close>

definition mac_armed :: "mac_clip \<Rightarrow> u8 \<Rightarrow> u32 \<Rightarrow> mac_clip" where
  "mac_armed c f n =
     c\<lparr>mc_expected_len := n, mc_expected_format := f, mc_received := [], mc_received_total := 0,
       mc_incoming_total := ucast n, mc_incoming_progress := 0\<rparr>"

lemma nested_offer:
  assumes "x = (if A then p1 else if B then p2 else if C then p3 else if D then p4 else if E then p5 else p6)"
    "snd p1 = r" "snd p2 = r" "snd p3 = r" "snd p4 = r" "snd p5 = s" "snd p6 = t"
  shows "snd x = r \<or> snd x = s \<or> snd x = t \<and> \<not> A \<and> \<not> E"
  using assms by (simp split: if_splits)

lemma mac_on_offer_cases:
  "snd (mac_on_offer c f n) = mac_reset_reassembly c \<or> snd (mac_on_offer c f n) = mac_reset c
   \<or> snd (mac_on_offer c f n) = mac_armed c f n \<and> known_format f \<and> unat n \<le> format_cap f"
  using nested_offer [OF mac_on_offer_def [of c f n] snd_conv snd_conv snd_conv snd_conv snd_conv snd_conv]
  unfolding mac_armed_def [symmetric] known_format_def de_Morgan_conj not_not not_less by blast

lemma same_switches_hear: "same_switches (mac_hears env c m) c"
proof -
  have "same_switches (mac_on_chunk env c i d) c" for i d
  proof -
    let ?c1 = "c\<lparr>mc_received := bt_insert i d (mc_received c)\<rparr>"
    let ?c2 = "?c1\<lparr>mc_received_total := saturating_add32 (mc_received_total c) (of_nat (length d)),
        mc_incoming_progress := mc_incoming_progress c + ucast (of_nat (length d) :: u32)\<rparr>"
    have "same_switches ?c1 c" "same_switches ?c2 c" by (simp_all add: same_switches_def)
    then show ?thesis
      using same_switches_trans [OF same_switches_commit [of env ?c1]]
        same_switches_trans [OF same_switches_commit [of env ?c2]]
      by (simp add: mac_on_chunk_def Let_def)
  qed
  moreover have "same_switches (snd (mac_on_offer c f n)) c" for f n
  proof -
    have "same_switches (mac_armed c f n) c" by (simp add: same_switches_def mac_armed_def)
    then show ?thesis using mac_on_offer_cases [of c f n] by auto
  qed
  ultimately show ?thesis by (simp add: mac_hears_def split: message.split)
qed

lemma in_flight_hear: "mc_in_flight_file c = None \<Longrightarrow> mc_in_flight_file (mac_hears env c m) = None"
  using rx_view_chunk [of c env]
  by (auto simp: mac_hears_def mac_on_offer_def mac_reset_def mac_reset_reassembly_def Let_def
      split: message.split)

lemma mac_hears_transfer:
  assumes "mac_ready f c" "f = FORMAT_TEXT_UTF8 \<or> f = FORMAT_FILE \<or> f = FORMAT_PNG_IMAGE"
  shows "rx_view (foldl (mac_hears env) c (build_offer_and_chunks f p))
      = forget_last (foldl (host_hears env) (rx_view c) (build_offer_and_chunks f p))"
proof -
  let ?d = "snd (mac_on_offer c f (of_nat (length p)))"
  let ?cs = "map (\<lambda>i. (of_nat i, CHUNKS p ! i)) [0..<length (CHUNKS p)]"
  have toggles: "f = FORMAT_TEXT_UTF8 \<Longrightarrow> mc_receive_text c" "f = FORMAT_PNG_IMAGE \<Longrightarrow> mc_receive_images c"
    using assms by (auto simp: mac_ready_def FORMAT_TEXT_UTF8_def FORMAT_PNG_IMAGE_def FORMAT_FILE_def)
  have flight: "mc_in_flight_file ?d = None"
    using assms(1) in_flight_hear [of c env "ClipOffer f (of_nat (length p))"]
    by (simp add: mac_ready_def mac_hears_def)
  have m: "foldl (mac_hears env) c (build_offer_and_chunks f p) = mac_receive_chunks env ?d ?cs"
    by (simp add: build_offer_and_chunks_eq mac_hears_def mac_receive_chunks_def foldl_map)
  have h: "foldl (host_hears env) (rx_view c) (build_offer_and_chunks f p)
      = foldl (\<lambda>c (i, d). on_chunk env c i d) (rx_view ?d) ?cs"
    using conjunct2 [OF rx_view_offer [OF toggles, where n = "of_nat (length p)"]]
    by (simp add: host_hears_transfer receive_chunks_def)
  show ?thesis unfolding m h using rx_view_chunks [OF flight] by simp
qed

lemma mac_ready_view: "mac_ready f c \<Longrightarrow> host_ready f (rx_view c)"
  by (simp add: mac_ready_def host_ready_def split: if_splits)

interpretation mac_peer: clip_peer "mac_hears env" mac_ready "\<lambda>c. os_written (mc_os c)"
    "\<lambda>c. os_cache (mc_os c)" for env
proof unfold_locales
  show "mac_ready f s \<Longrightarrow> mac_ready f (mac_hears env s m)" for f s m
    using same_switches_hear [of env s m] in_flight_hear [of s env m]
    by (simp add: mac_ready_def same_switches_def same_os_def split: if_splits)
next
  have os: "mc_os c = cs_os (rx_view c)" "cs_os (forget_last d) = cs_os d" for c d
    by (simp_all add: forget_last_def)
  show "os_written (mc_os (foldl (mac_hears env) s (build_offer_and_chunks FORMAT_TEXT_UTF8 t))) = HoldsText t"
    if "mac_ready FORMAT_TEXT_UTF8 s" "t \<noteq> []" "utf8_valid t" "length t \<le> MAX_CLIPBOARD_BYTES"
    for s and t :: bytes
    using host_peer.hear_text [OF mac_ready_view [OF that(1)] that(2-4)] mac_hears_transfer [OF that(1)]
    by (simp add: os del: rx_view_fields)
  show "os_cache (mc_os (foldl (mac_hears env) s (build_offer_and_chunks FORMAT_FILE payload)))
      (sanitize_basename (utf8_chars name)) = Some content"
    if "mac_ready FORMAT_FILE s" "pack_first_chunk name content = Inr payload" "utf8_valid name"
      "length content \<le> MAX_FILE_BYTES" for s and name content payload :: bytes
    using host_peer.hear_file [OF mac_ready_view [OF that(1)] that(2-4)] mac_hears_transfer [OF that(1)]
    by (simp add: os del: rx_view_fields)
qed

end
