(* ===== verification/ClientPoll.thy ===== *)
theory ClientPoll
  imports ClientSync
begin

text \<open>
  When the client's poll thread sends, and when it must not: the memory of recent texts, the wait
  for a stable text, the silence before the handshake, the echo that is not sent back; and both
  directions of the clipboard put together with the host's half.
\<close>

section \<open>The memory of recent texts\<close>

definition seen_ok :: "last_seen \<Rightarrow> bool" where
  "seen_ok s \<longleftrightarrow> distinct (ls_text_history s) \<and> length (ls_text_history s) \<le> TEXT_HISTORY"

lemma set_text_history:
  assumes "distinct (ls_text_history s)" "length (ls_text_history s) \<le> TEXT_HISTORY"
  shows "ls_text_history (set_text h s) = take TEXT_HISTORY (h # removeAll h (ls_text_history s))"
proof (cases "ls_text_history s")
  case Nil
  then show ?thesis by (simp add: set_text_def)
next
  case (Cons x xs)
  have "remove1 h (x # xs) = removeAll h (x # xs)"
    using assms(1) Cons by (metis distinct_remove1_removeAll)
  moreover have "removeAll h xs = xs" if "x = h" using assms(1) Cons that by simp
  ultimately show ?thesis using assms(2) Cons by (auto simp: set_text_def split: if_splits)
qed

lemma set_text_ok: "seen_ok s \<Longrightarrow> seen_ok (set_text h s)"
  using set_take_subset [of 3 "removeAll h (ls_text_history s)"]
  by (auto simp: seen_ok_def set_text_history distinct_removeAll TEXT_HISTORY_def distinct_take)

lemma seen_after_set: "seen_ok s \<Longrightarrow> seen_text (set_text h s) h"
  by (simp add: seen_ok_def seen_text_def set_text_history TEXT_HISTORY_def)

text \<open>The last four different texts are remembered, in the order of their last use.\<close>

definition recent :: "u64 list \<Rightarrow> u64 list" where
  "recent hs = foldl (\<lambda>l h. h # removeAll h l) [] hs"

lemma recent_snoc: "recent (hs @ [h]) = h # removeAll h (recent hs)"
  by (simp add: recent_def)

lemma distinct_recent: "distinct (recent hs)"
  by (induction hs rule: rev_induct) (simp_all add: recent_snoc recent_def distinct_removeAll)

lemma take_removeAll_take:
  "distinct l \<Longrightarrow> take n (h # removeAll h (take n l)) = take n (h # removeAll h l)"
proof (induction l arbitrary: n)
  case (Cons x xs)
  show ?case
  proof (cases n)
    case (Suc m)
    have eq: "take m (h # removeAll h (take m xs)) = take m (h # removeAll h xs)"
      using Cons by simp
    show ?thesis
    proof (cases "x = h")
      case True
      then have "h \<notin> set xs" using Cons.prems by simp
      then have "h \<notin> set (take m xs)" using in_set_takeD by metis
      then show ?thesis using Suc True \<open>h \<notin> set xs\<close> by (simp add: removeAll_id)
    next
      case False
      show ?thesis
      proof (cases m)
        case (Suc k)
        then have "take k (removeAll h (take m xs)) = take k (removeAll h xs)" using eq by simp
        then show ?thesis using \<open>n = Suc m\<close> Suc False by simp
      qed (use Suc False in simp)
    qed
  qed simp
qed simp

lemma history_is_recent:
  "ls_text_history (foldl (\<lambda>s h. set_text h s) last_seen_default hs) = take TEXT_HISTORY (recent hs)"
proof (induction hs rule: rev_induct)
  case Nil
  then show ?case by (simp add: last_seen_default_def recent_def)
next
  case (snoc h hs)
  let ?s = "foldl (\<lambda>s h. set_text h s) last_seen_default hs"
  have "seen_ok ?s"
    by (induction hs rule: rev_induct)
      (simp_all add: set_text_ok, simp add: seen_ok_def last_seen_default_def)
  then have "ls_text_history (set_text h ?s) = take TEXT_HISTORY (h # removeAll h (take TEXT_HISTORY (recent hs)))"
    using set_text_history [of ?s h] snoc by (simp add: seen_ok_def)
  then show ?case using take_removeAll_take [OF distinct_recent, of TEXT_HISTORY h hs]
    by (simp add: recent_snoc)
qed

section \<open>What a tick sends\<close>

definition offers :: "u8 \<Rightarrow> packet list \<Rightarrow> bool" where
  "offers f ps \<longleftrightarrow> (\<exists>n. ClipOffer f n \<in> p_message ` set ps)"

lemma offers_simps [simp]: "\<not> offers f []" "offers f (ps @ qs) \<longleftrightarrow> offers f ps \<or> offers f qs"
  by (auto simp: offers_def)

lemma emit_messages: "map p_message (emit_offer_and_chunks f payload) = build_offer_and_chunks f payload"
  by (auto simp: emit_offer_and_chunks_def build_offer_and_chunks_def packet_new_def)

lemma offers_emit [simp]: "offers f (emit_offer_and_chunks g payload) = (f = g)"
proof -
  have "p_message ` set (emit_offer_and_chunks g payload) = set (build_offer_and_chunks g payload)"
    by (metis emit_messages list.set_map)
  then show ?thesis by (auto simp: build_offer_and_chunks_eq offers_def)
qed

lemma formats_differ [simp]:
  "FORMAT_TEXT_UTF8 \<noteq> FORMAT_PNG_IMAGE" "FORMAT_TEXT_UTF8 \<noteq> FORMAT_FILE" "FORMAT_PNG_IMAGE \<noteq> FORMAT_FILE"
  "FORMAT_PNG_IMAGE \<noteq> FORMAT_TEXT_UTF8" "FORMAT_FILE \<noteq> FORMAT_TEXT_UTF8" "FORMAT_FILE \<noteq> FORMAT_PNG_IMAGE"
  by (simp_all add: FORMAT_TEXT_UTF8_def FORMAT_PNG_IMAGE_def FORMAT_FILE_def)

text \<open>Before the handshake nothing is queued, whatever is copied.\<close>

lemma silent_before_handshake:
  "fst (poll_tick env False kicked now c) = [] \<and> fst (snd (poll_tick env False kicked now c)) = []"
  by (simp add: poll_tick_def probe_file_def probe_text_def probe_image_def case_prod_beta Let_def
      split: option.split)

lemma probe_file_rest:
  assumes "probe_file env up now c = (ps, ts, d)"
  shows "mc_os d = mc_os c" "mc_pending_text d = mc_pending_text c" "mc_send_text d = mc_send_text c"
    "mc_send_images d = mc_send_images c" "ls_text_history (mc_seen d) = ls_text_history (mc_seen c)"
    "mc_file_change_count d = mc_change_count d" "mc_change_count d = mc_change_count c"
    "offers f ps \<Longrightarrow> f = FORMAT_FILE"
    "mc_file_change_count c = mc_change_count c \<Longrightarrow> ps = [] \<and> d = c"
proof -
  have "mc_os d = mc_os c \<and> mc_pending_text d = mc_pending_text c \<and> mc_send_text d = mc_send_text c
    \<and> mc_send_images d = mc_send_images c \<and> ls_text_history (mc_seen d) = ls_text_history (mc_seen c)
    \<and> mc_file_change_count d = mc_change_count d \<and> mc_change_count d = mc_change_count c
    \<and> (offers f ps \<longrightarrow> f = FORMAT_FILE)
    \<and> (mc_file_change_count c = mc_change_count c \<longrightarrow> ps = [] \<and> d = c)"
    using assms
    by (auto simp: probe_file_def poll_file_url_def set_oversize_file_def Let_def
        split: if_splits option.splits file_poll_outcome.splits)
  then show "mc_os d = mc_os c" "mc_pending_text d = mc_pending_text c" "mc_send_text d = mc_send_text c"
    "mc_send_images d = mc_send_images c" "ls_text_history (mc_seen d) = ls_text_history (mc_seen c)"
    "mc_file_change_count d = mc_change_count d" "mc_change_count d = mc_change_count c"
    "offers f ps \<Longrightarrow> f = FORMAT_FILE"
    "mc_file_change_count c = mc_change_count c \<Longrightarrow> ps = [] \<and> d = c" by blast+
qed

lemma probe_text_offers:
  assumes "offers f (fst (probe_text env up kicked now c))"
  shows "f = FORMAT_TEXT_UTF8 \<and> up \<and> mc_send_text c
    \<and> (\<exists>t. os_text (mc_os c) = Some t \<and> t \<noteq> [] \<and> length t \<le> MAX_CLIPBOARD_BYTES
        \<and> fst (probe_text env up kicked now c) = emit_offer_and_chunks FORMAT_TEXT_UTF8 t
        \<and> \<not> seen_text (mc_seen c) (ce_hash env t)
        \<and> (kicked \<or> mc_pending_text c = Some (ce_hash env t))
        \<and> \<not> fst (recent_file_names_contains (mc_sent_names c) t now))"
  using assms
  by (auto simp: probe_text_def decide_text_send_def case_prod_beta Let_def
      split: if_splits option.splits list.splits)

lemma probe_image_offers: "offers f (fst (probe_image env up c)) \<Longrightarrow> f = FORMAT_PNG_IMAGE"
  by (auto simp: probe_image_def Let_def check_size_def split: if_splits option.splits)

text \<open>
  A text leaves only while the link is up, when it is not among the last four, when it has been
  there for two ticks or a paste is waiting for it, and when it is not the name of a file just sent.
\<close>

lemma poll_tick_text:
  assumes "offers FORMAT_TEXT_UTF8 (fst (poll_tick env up kicked now c))"
  shows "\<exists>t. os_text (mc_os c) = Some t \<and> t \<noteq> [] \<and> length t \<le> MAX_CLIPBOARD_BYTES \<and> up \<and> mc_send_text c
    \<and> \<not> seen_text (mc_seen c) (ce_hash env t)
    \<and> (kicked \<or> mc_pending_text c = Some (ce_hash env t))"
proof -
  let ?c0 = "c\<lparr>mc_text_in_flight := False\<rparr>"
  obtain p1 t1 c1 where p1: "probe_file env up now ?c0 = (p1, t1, c1)"
    by (cases "probe_file env up now ?c0") auto
  obtain p2 t2 c2 where p2: "probe_text env up kicked now c1 = (p2, t2, c2)"
    by (cases "probe_text env up kicked now c1") auto
  have "offers FORMAT_TEXT_UTF8 (p1 @ p2 @ fst (probe_image env up c2))"
    using assms p1 p2 by (simp add: poll_tick_def case_prod_beta)
  then have "offers FORMAT_TEXT_UTF8 p2"
    using probe_file_rest(8) [OF p1] probe_image_offers [of FORMAT_TEXT_UTF8 env up c2] by fastforce
  then have "offers FORMAT_TEXT_UTF8 (fst (probe_text env up kicked now c1))" using p2 by simp
  from probe_text_offers [OF this] show ?thesis
    using probe_file_rest(1,2,3,5) [OF p1] by (auto simp: seen_text_def)
qed

section \<open>A copied text reaches the host\<close>

lemma no_such_name:
  "list_all (\<lambda>e. fst e \<noteq> t) es \<Longrightarrow> recent_file_names_contains es t now = (False, es)"
  by (induction es) auto

text \<open>One new text on the pasteboard, no image and no new file.\<close>

definition only_text :: "clip_env \<Rightarrow> bytes \<Rightarrow> mac_clip \<Rightarrow> bool" where
  "only_text env t c \<longleftrightarrow>
     mc_send_text c \<and> os_text (mc_os c) = Some t \<and> t \<noteq> [] \<and> os_image (mc_os c) = None
     \<and> mc_change_count c = mc_file_change_count c \<and> list_all (\<lambda>e. fst e \<noteq> t) (mc_sent_names c)
     \<and> \<not> seen_text (mc_seen c) (ce_hash env t)"

lemma tick_of_text:
  assumes "only_text env t c" "length t \<le> MAX_CLIPBOARD_BYTES"
  shows "poll_tick env True kicked now c =
    (if kicked \<or> mc_pending_text c = Some (ce_hash env t)
     then (emit_offer_and_chunks FORMAT_TEXT_UTF8 t, [],
           c\<lparr>mc_pending_text := None, mc_seen := set_text (ce_hash env t) (mc_seen c), mc_text_in_flight := True\<rparr>)
     else ([], [], c\<lparr>mc_pending_text := Some (ce_hash env t), mc_text_in_flight := False\<rparr>))"
proof -
  obtain b bs where t: "t = b # bs" using assms(1) by (cases t) (auto simp: only_text_def)
  let ?c = "c\<lparr>mc_text_in_flight := False\<rparr>"
  have f: "probe_file env True now ?c = ([], [], ?c)"
    using assms(1) by (simp add: probe_file_def poll_file_url_def only_text_def)
  have i: "probe_image env True d = ([], [], d)" if "os_image (mc_os d) = None" for d
    using that by (simp add: probe_image_def)
  show ?thesis
    using assms no_such_name [of t "mc_sent_names c" now] i
    by (cases "kicked \<or> mc_pending_text c = Some (ce_hash env t)")
      (simp_all add: poll_tick_def f probe_text_def only_text_def decide_text_send_def t Let_def)
qed

text \<open>Two ticks after it was copied it is queued; a waiting paste needs one.\<close>

lemma text_queued:
  fixes now :: nat
  assumes "only_text env t c" "length t \<le> MAX_CLIPBOARD_BYTES" "mc_pending_text c = None"
  defines "c1 \<equiv> snd (snd (poll_tick env True False now c))"
  shows "fst (poll_tick env True False now c) = []
    \<and> fst (poll_tick env True kicked now' c1) = emit_offer_and_chunks FORMAT_TEXT_UTF8 t"
proof -
  have c1: "c1 = c\<lparr>mc_pending_text := Some (ce_hash env t), mc_text_in_flight := False\<rparr>"
    using tick_of_text [OF assms(1,2)] assms(3) by (simp add: c1_def)
  have "only_text env t c1" using assms(1) by (simp add: c1 only_text_def)
  from tick_of_text [OF this assms(2)] show ?thesis
    using tick_of_text [OF assms(1,2)] assms(3) by (simp add: c1)
qed

section \<open>What the host sent is not sent back\<close>

lemma mac_text_marked:
  assumes "mac_ready FORMAT_TEXT_UTF8 c" "seen_ok (mc_seen c)" "utf8_valid buf"
  shows "seen_text (mc_seen (mac_commit_text env c buf)) (ce_hash env buf)"
  using assms seen_after_set by (simp add: mac_ready_def mac_commit_text_def Let_def)

lemma seen_not_sent:
  assumes "os_text (mc_os c) = Some t" "seen_text (mc_seen c) (ce_hash env t)"
  shows "\<not> offers FORMAT_TEXT_UTF8 (fst (poll_tick env up kicked now c))"
  using poll_tick_text [of env up kicked now c] assms by auto

section \<open>A file copied while the link is down\<close>

text \<open>The look at the pasteboard is the only one: as long as it does not change, no later tick offers a file.\<close>

lemma looked_at:
  "mc_file_change_count (snd (snd (poll_tick env up kicked now c)))
   = mc_change_count (snd (snd (poll_tick env up kicked now c)))
   \<and> mc_change_count (snd (snd (poll_tick env up kicked now c))) = mc_change_count c"
proof -
  obtain p1 t1 c1 where p1: "probe_file env up now (c\<lparr>mc_text_in_flight := False\<rparr>) = (p1, t1, c1)"
    by (cases "probe_file env up now (c\<lparr>mc_text_in_flight := False\<rparr>)") auto
  have "mc_file_change_count (snd (snd (probe_text env up kicked now d))) = mc_file_change_count d
    \<and> mc_change_count (snd (snd (probe_text env up kicked now d))) = mc_change_count d" for d
    by (auto simp: probe_text_def decide_text_send_def case_prod_beta Let_def split: option.split list.split)
  moreover have "mc_file_change_count (snd (snd (probe_image env up d))) = mc_file_change_count d
    \<and> mc_change_count (snd (snd (probe_image env up d))) = mc_change_count d" for d
    by (auto simp: probe_image_def check_size_def Let_def split: option.split)
  ultimately show ?thesis
    using probe_file_rest(6,7) [OF p1] p1 by (simp add: poll_tick_def case_prod_beta)
qed

lemma no_file_offered:
  assumes "mc_file_change_count c = mc_change_count c"
  shows "\<not> offers FORMAT_FILE (fst (poll_tick env up kicked now c))"
proof -
  obtain p1 t1 c1 where p1: "probe_file env up now (c\<lparr>mc_text_in_flight := False\<rparr>) = (p1, t1, c1)"
    by (cases "probe_file env up now (c\<lparr>mc_text_in_flight := False\<rparr>)") auto
  then have "p1 = []" using probe_file_rest(9) [OF p1] assms by simp
  then show ?thesis
    using p1 probe_text_offers [of FORMAT_FILE env up kicked now] probe_image_offers [of FORMAT_FILE env up]
    by (auto simp: poll_tick_def case_prod_beta)
qed

section \<open>Every history\<close>

datatype mac_event =
    MacTick bool bool nat
  | MacHears message
  | MacSessionReset
  | MacSent message
  | MacDeclined u8
  | MacPasteboard clip_os int

fun mac_step :: "clip_env \<Rightarrow> mac_clip \<Rightarrow> mac_event \<Rightarrow> mac_clip" where
  "mac_step env c (MacTick up kicked now) = snd (snd (poll_tick env up kicked now c))"
| "mac_step env c (MacHears m) = mac_hears env c m"
| "mac_step env c MacSessionReset = reset_session_state c"
| "mac_step env c (MacSent m) = apply_outgoing_progress m c"
| "mac_step env c (MacDeclined f) = snd (apply_clip_decline f c)"
| "mac_step env c (MacPasteboard os n) = c\<lparr>mc_os := os, mc_change_count := n\<rparr>"

definition mac_inv :: "mac_clip \<Rightarrow> bool" where
  "mac_inv c \<longleftrightarrow> rx_inv (rx_view c) \<and> mc_in_flight_file c = None \<and> seen_ok (mc_seen c)
     \<and> length (mc_sent_names c) \<le> SENT_FILE_NAME_CAPACITY"

lemma rx_inv_forget [simp]: "rx_inv (forget_last c) = rx_inv c"
  by (simp add: forget_last_def rx_inv_fields)

text \<open>Everything the receiver's invariant reads.\<close>

definition rx_core :: "mac_clip \<Rightarrow> (u16, bytes) btree \<times> u32 \<times> u32 \<times> u8" where
  "rx_core c = (mc_received c, mc_expected_len c, mc_received_total c, mc_expected_format c)"

lemma rx_inv_core: "rx_core c = rx_core d \<Longrightarrow> rx_inv (rx_view c) = rx_inv (rx_view d)"
  by (simp add: rx_inv_def rx_core_def)

lemma seen_ok_setters:
  "seen_ok s \<Longrightarrow> seen_ok (set_image h s)" "seen_ok s \<Longrightarrow> seen_ok (set_file h s)"
  "seen_ok s \<Longrightarrow> seen_ok (set_oversize_image h s)" "seen_ok s \<Longrightarrow> seen_ok (set_oversize_file h s)"
  "seen_ok last_seen_default"
  by (simp_all add: seen_ok_def set_image_def set_file_def set_oversize_image_def set_oversize_file_def
      last_seen_default_def)

lemma length_recent_names: "length (snd (recent_file_names_contains es t now)) = length es"
  by (induction es) (auto simp: case_prod_beta Let_def)

definition poll_inv :: "mac_clip \<Rightarrow> mac_clip \<Rightarrow> bool" where
  "poll_inv c d \<longleftrightarrow> rx_core d = rx_core c \<and> mc_in_flight_file d = mc_in_flight_file c
     \<and> (seen_ok (mc_seen c) \<longrightarrow> seen_ok (mc_seen d))
     \<and> (length (mc_sent_names c) \<le> SENT_FILE_NAME_CAPACITY \<longrightarrow> length (mc_sent_names d) \<le> SENT_FILE_NAME_CAPACITY)"

lemma probe_file_inv: "poll_inv c (snd (snd (probe_file env up now c)))"
  by (auto simp: probe_file_def poll_file_url_def poll_inv_def rx_core_def seen_ok_setters
      push_sent_file_name_def Let_def split: option.split file_poll_outcome.split)

lemma probe_text_inv: "poll_inv c (snd (snd (probe_text env up kicked now c)))"
  using length_recent_names [of "mc_sent_names c" _ now]
  by (auto simp: probe_text_def poll_inv_def rx_core_def set_text_ok case_prod_beta Let_def
      split: option.split list.split text_send_decision.split)

lemma probe_image_inv: "poll_inv c (snd (snd (probe_image env up c)))"
  by (auto simp: probe_image_def poll_inv_def rx_core_def seen_ok_setters check_size_def Let_def
      split: option.split)

lemma poll_inv_trans: "poll_inv c d \<Longrightarrow> poll_inv d e \<Longrightarrow> poll_inv c e"
  by (simp add: poll_inv_def)

lemma poll_tick_inv: "poll_inv c (snd (snd (poll_tick env up kicked now c)))"
proof -
  have "poll_inv c (c\<lparr>mc_text_in_flight := False\<rparr>)" by (simp add: poll_inv_def rx_core_def)
  then show ?thesis
    unfolding poll_tick_def case_prod_beta Let_def snd_conv
    by (rule poll_inv_trans [OF poll_inv_trans [OF poll_inv_trans [OF _ probe_file_inv] probe_text_inv] probe_image_inv])
qed

lemma mac_inv_poll: "mac_inv c \<Longrightarrow> poll_inv c d \<Longrightarrow> mac_inv d"
  using rx_inv_core [of d c] by (simp add: mac_inv_def poll_inv_def)

lemma seen_ok_hear: "seen_ok (mc_seen c) \<Longrightarrow> seen_ok (mc_seen (mac_hears env c m))"
proof -
  assume ok: "seen_ok (mc_seen c)"
  have reset: "mc_seen (mac_reset d) = mc_seen d" "mc_seen (mac_reset_reassembly d) = mc_seen d" for d
    by (simp_all add: mac_reset_def mac_reset_reassembly_def Let_def split: option.split)
  have commits: "seen_ok (mc_seen d) \<Longrightarrow> seen_ok (mc_seen (mac_commit_text env d buf))"
    "seen_ok (mc_seen d) \<Longrightarrow> seen_ok (mc_seen (mac_commit_image env d buf))"
    "seen_ok (mc_seen d) \<Longrightarrow> seen_ok (mc_seen (mac_commit_file env d buf))" for d buf
    by (auto simp: mac_commit_text_def mac_commit_image_def mac_commit_file_def Let_def set_text_ok
        seen_ok_setters split: option.split sum.split)
  have "seen_ok (mc_seen (mac_commit env d))" if "seen_ok (mc_seen d)" for d
    using that commits by (simp add: mac_commit_def reset Let_def)
  then have "seen_ok (mc_seen (mac_on_chunk env c i d))" for i d
    using ok by (simp add: mac_on_chunk_def Let_def)
  moreover have "seen_ok (mc_seen (snd (mac_on_offer c f n)))" for f n
    using ok mac_on_offer_cases [of c f n] by (auto simp: reset mac_armed_def)
  ultimately show ?thesis using ok by (simp add: mac_hears_def split: message.split)
qed

lemma rx_inv_hear:
  assumes "mac_inv c"
  shows "rx_inv (rx_view (mac_hears env c m))"
proof -
  have inv: "rx_inv (rx_view c)" "mc_in_flight_file c = None" using assms by (simp_all add: mac_inv_def)
  have "rx_inv (rx_view (mac_armed c f n))" if "known_format f" "unat n \<le> format_cap f" for f n
    using that by (cases "n = 0") (simp_all add: rx_inv_def mac_armed_def word_neq_0_conv)
  then have "rx_inv (rx_view (snd (mac_on_offer c f n)))" for f n
    using mac_on_offer_cases [of c f n] by auto
  moreover have "rx_inv (rx_view (mac_on_chunk env c i d))" for i d
    using rx_view_chunk [OF inv(2), of env i d] on_chunk_inv [OF inv(1), of env i d] by simp
  ultimately show ?thesis using inv by (simp add: mac_hears_def split: message.split)
qed

lemma mac_inv_hear: "mac_inv c \<Longrightarrow> mac_inv (mac_hears env c m)"
  using rx_inv_hear [of c env m] in_flight_hear [of c env m] seen_ok_hear [of c env m]
    same_switches_hear [of env c m]
  by (simp add: mac_inv_def same_switches_def)

lemma mac_inv_reset: "mac_inv c \<Longrightarrow> mac_inv (reset_session_state c)"
proof -
  assume "mac_inv c"
  moreover have "mc_sent_names (mac_reset c) = mc_sent_names c" "mc_in_flight_file (mac_reset c) = None"
    by (simp_all add: mac_reset_def mac_reset_reassembly_def Let_def split: option.split)
  moreover have "rx_core (reset_session_state c) = rx_core (mac_reset c)"
    by (simp add: reset_session_state_def rx_core_def)
  moreover have "rx_inv (rx_view (mac_reset c))" by simp
  ultimately show ?thesis
    using rx_inv_core [of "reset_session_state c" "mac_reset c"]
    by (simp add: mac_inv_def reset_session_state_def seen_ok_setters)
qed

interpretation macm: inv_machine "mac_step env" mac_inv "\<lambda>e. True" for env
proof unfold_locales
  show "mac_inv (mac_step env s e)" if "mac_inv s" for s e
  proof (cases e)
    case (MacTick up kicked now)
    then show ?thesis using mac_inv_poll [OF that poll_tick_inv] by simp
  next
    case (MacSent m)
    have "poll_inv s (apply_outgoing_progress m s)"
      by (simp add: poll_inv_def rx_core_def apply_outgoing_progress_def Let_def split: message.split)
    then show ?thesis using mac_inv_poll [OF that] MacSent by simp
  next
    case (MacDeclined f)
    then show ?thesis using mac_inv_poll [OF that, of "mac_step env s e"]
      by (simp add: poll_inv_def rx_core_def apply_clip_decline_def)
  next
    case (MacPasteboard os n)
    then show ?thesis using mac_inv_poll [OF that, of "mac_step env s e"] by (simp add: poll_inv_def rx_core_def)
  qed (use that mac_inv_hear mac_inv_reset in simp_all)
qed

end
