(* ===== verification/ClientProps.thy ===== *)
theory ClientProps
  imports ClientPoll
begin

text \<open>
  The properties of the client's clipboard (\<open>apps/wiredesk-client/src/clipboard.rs\<close>), alone and
  together with the host's half.
\<close>

section \<open>A sample pasteboard\<close>

definition sample_env :: clip_env where
  "sample_env = \<lparr>ce_hash = (\<lambda>bs. of_nat (length bs)), ce_png_encode = (\<lambda>img. None),
     ce_png_decode = (\<lambda>bs. None)\<rparr>"

definition sample_os :: "rstring option \<Rightarrow> clip_os" where
  "sample_os t = \<lparr>os_backend = True, os_text = t, os_image = None, os_seq = 0, os_hdrop = None,
     os_set_ok = True, os_mkdir_ok = True, os_write_ok = True, os_hdrop_ok = True,
     os_written = HoldsNothing, os_cache = Map.empty\<rparr>"

definition sample_mac :: "rstring option \<Rightarrow> mac_clip" where
  "sample_mac t =
     \<lparr>mc_os = sample_os t, mc_change_count = 1, mc_seen = last_seen_default, mc_expected_len = 0,
      mc_expected_format = 0, mc_received = [], mc_received_total = 0, mc_incoming_progress = 0,
      mc_incoming_total = 0, mc_receive_images = True, mc_receive_text = True, mc_receive_files = True,
      mc_in_flight_file = None, mc_file_change_count = 1, mc_pending_text = None, mc_sent_names = [],
      mc_send_images = True, mc_send_text = True, mc_send_files = True, mc_text_in_flight = False,
      mc_out_progress = 0, mc_out_total = 0, mc_out_label = [], mc_outgoing_cancel = False,
      mc_incoming_cancel = False\<rparr>"

abbreviation mac_after_tick :: "clip_env \<Rightarrow> bool \<Rightarrow> bool \<Rightarrow> nat \<Rightarrow> mac_clip \<Rightarrow> mac_clip" where
  "mac_after_tick env up kicked now c \<equiv> snd (snd (poll_tick env up kicked now c))"

section \<open>From the client's clipboard to the host's\<close>

text \<open>
  C28: with the link up and a host that takes text, a text newly copied on the Mac is on the host's
  clipboard after the packets of two ticks, whatever the host had received before.
\<close>

theorem copied_text_reaches_host:
  assumes "only_text env t c" "utf8_valid t" "length t \<le> MAX_CLIPBOARD_BYTES" "mc_pending_text c = None"
    and "host_ready FORMAT_TEXT_UTF8 h"
  shows "os_written (cs_os (foldl (host_hears env') h
      (ms @ map p_message (fst (poll_tick env True False now c))
        @ map p_message (fst (poll_tick env True kicked now' (mac_after_tick env True False now c))))))
    = HoldsText t"
proof -
  have "t \<noteq> []" using assms(1) by (simp add: only_text_def)
  from host_peer.text_after_anything [OF assms(5) this assms(2,3), of env' ms]
  show ?thesis
    using text_queued [OF assms(1,3,4), of now kicked now'] by (simp add: emit_messages)
qed

theorem copied_text_reaches_host_witness:
  "os_written (cs_os (foldl (host_hears sample_env) (rx_view (sample_mac None))
      ([] @ map p_message (fst (poll_tick sample_env True False 0 (sample_mac (Some [104, 105]))))
        @ map p_message (fst (poll_tick sample_env True False 500
            (mac_after_tick sample_env True False 0 (sample_mac (Some [104, 105]))))))))
   = HoldsText [104, 105]"
  by (rule copied_text_reaches_host)
    (simp_all add: only_text_def sample_mac_def sample_os_def seen_text_def last_seen_default_def
      utf8_valid_ascii MAX_CLIPBOARD_BYTES_def host_ready_def FORMAT_TEXT_UTF8_def FORMAT_FILE_def)

section \<open>From the host's clipboard to the client's, and not back\<close>





section \<open>A file copied while the link is down\<close>

definition not_pasteboard :: "mac_event \<Rightarrow> bool" where
  "not_pasteboard e = (case e of MacPasteboard os n \<Rightarrow> False | _ \<Rightarrow> True)"

lemma looked_at_stays:
  assumes "mc_file_change_count c = mc_change_count c" "not_pasteboard e"
  shows "mc_file_change_count (mac_step env c e) = mc_change_count (mac_step env c e)"
proof (cases e)
  case (MacHears m)
  then show ?thesis using same_switches_hear [of env c m] assms by (simp add: same_switches_def)
next
  case MacSessionReset
  have "same_switches (mac_reset c) c" by simp
  then show ?thesis using assms MacSessionReset by (simp add: reset_session_state_def same_switches_def)
next
  case (MacSent m)
  then show ?thesis using assms by (simp add: apply_outgoing_progress_def Let_def split: message.split)
qed (use assms looked_at in \<open>simp_all add: not_pasteboard_def apply_clip_decline_def\<close>)

text \<open>
  The first tick that sees a file on the pasteboard is the only one that can offer it: when it
  runs while the link is down, nothing offers the file later, not the ticks after the handshake, not
  a reset of the session, as long as the pasteboard does not change again.
\<close>

lemma file_copied_offline_is_never_offered:
  assumes "list_all not_pasteboard es"
  shows "\<not> offers FORMAT_FILE (fst (poll_tick env False kicked now c))
    \<and> \<not> offers FORMAT_FILE (fst (poll_tick env True kicked' now'
          (foldl (mac_step env) (mac_after_tick env False kicked now c) es)))"
proof -
  have "mc_file_change_count (foldl (mac_step env) (mac_after_tick env False kicked now c) es)
      = mc_change_count (foldl (mac_step env) (mac_after_tick env False kicked now c) es)"
    using assms
    by (induction es rule: rev_induct) (simp_all add: looked_at looked_at_stays)
  from no_file_offered [OF this] show ?thesis using silent_before_handshake [of env kicked now c] by simp
qed

definition sample_copied :: mac_clip where
  "sample_copied = (sample_mac None)\<lparr>
     mc_os := (sample_os None)\<lparr>os_hdrop := Some \<lparr>fp_path = [47, 97], fp_name = Some [97],
       fp_len = Some 1, fp_content = Some [120]\<rparr>\<rparr>, mc_change_count := 2\<rparr>"

lemma file_copied_offline_is_never_offered_witness:
  "offers FORMAT_FILE (fst (poll_tick sample_env True False 0 sample_copied))
   \<and> \<not> offers FORMAT_FILE (fst (poll_tick sample_env True False 1000
      (foldl (mac_step sample_env) (mac_after_tick sample_env False False 0 sample_copied)
        [MacSessionReset, MacTick True True 500])))"
proof
  show "offers FORMAT_FILE (fst (poll_tick sample_env True False 0 sample_copied))"
    by (simp add: sample_copied_def sample_mac_def sample_os_def sample_env_def poll_tick_def probe_file_def
        poll_file_url_def pack_file_or_warn_def check_size_def MAX_FILE_BYTES_def pack_first_chunk_def MAX_FILENAME_LEN_def
        seen_file_def last_seen_default_def Let_def case_prod_beta)
qed (use file_copied_offline_is_never_offered [of "[MacSessionReset, MacTick True True 500]"] in
    \<open>simp add: not_pasteboard_def\<close>)

section \<open>The two receivers agree\<close>

text \<open>
  C40: whatever chunks arrive in whatever order, the client's receiver reassembles, commits and
  stores exactly as the host's does; only the record of what was last seen differs.
\<close>

theorem client_receives_like_host:
  assumes "mc_in_flight_file c = None"
  shows "rx_view (foldl (\<lambda>c (index, data). mac_on_chunk env c index data) c ics)
    = forget_last (foldl (\<lambda>c (index, data). on_chunk env c index data) (rx_view c) ics)"
  using rx_view_chunks [OF assms, of env ics] by (simp add: mac_receive_chunks_def)

theorem client_receives_like_host_witness:
  "rx_view (foldl (\<lambda>c (index, data). mac_on_chunk sample_env c index data) (sample_mac None) [(0, [1])])
   = forget_last (foldl (\<lambda>c (index, data). on_chunk sample_env c index data) (rx_view (sample_mac None)) [(0, [1])])"
  by (rule client_receives_like_host) (simp add: sample_mac_def)

section \<open>What counts as seen\<close>

text \<open>
  The history of texts is the list of the last four distinct ones, the latest first, whatever
  sequence of texts was recorded.
\<close>

lemma text_history_is_lru:
  "ls_text_history (foldl (\<lambda>s h. set_text h s) last_seen_default hs) = take TEXT_HISTORY (recent hs)
   \<and> distinct (recent hs) \<and> set (recent hs) = set hs"
proof -
  have "set (recent hs) = set hs"
    by (induction hs rule: rev_induct) (auto simp: recent_snoc, auto simp: recent_def)
  then show ?thesis using history_is_recent distinct_recent by simp
qed

section \<open>Every history\<close>

text \<open>
  Through any sequence of ticks, packets, resets, declines and pasteboard changes the client's
  clipboard keeps its invariant: the reassembly buffer stays within the length and the cap of the
  offer it belongs to, no file is left half received, the histories keep their sizes.
\<close>

lemma client_clipboard_invariant:
  assumes "mac_inv c"
  shows "mac_inv (foldl (mac_step env) c es)"
  by (rule macm.run_inv [OF assms]) (simp add: list.pred_True)

lemma client_clipboard_invariant_witness:
  "mac_inv (foldl (mac_step sample_env) (sample_mac None)
     [MacHears (ClipOffer FORMAT_TEXT_UTF8 4), MacHears (ClipChunk 0 [104, 105]), MacTick True False 0])"
  by (rule client_clipboard_invariant)
    (simp add: mac_inv_def sample_mac_def rx_inv_def seen_ok_def last_seen_default_def)

end
