(* ===== verification/ClientRoute.thy ===== *)
theory ClientRoute
  imports ExecRunner HostSession ClientClip
begin

text \<open>
  \<open>apps/wiredesk-client/src/exec_bridge.rs\<close>: the slots through which the client's reader hands
  shell events to a \<open>wd --exec\<close> run and to an interactive console, and the browser's route. A
  channel is the queue of what was sent and not yet taken, with whether its receiver still exists.
  A mutex makes every access one step; a poisoned one (a handler that panicked) is not modelled.
\<close>

section \<open>Slots\<close>

record consumer =
  cn_alive :: bool
  cn_queue :: "exec_event list"

text \<open>The bounded channel of the browser relay, with the identity its handler was given.\<close>

record browser_route =
  br_id :: u64
  br_alive :: bool
  br_capacity :: nat
  br_queue :: "packet list"

datatype slot_kind = SlotExec | SlotPty

record shell_slots =
  ss_exec :: "consumer option"
  ss_pty :: "consumer option"
  ss_browser :: "browser_route option"
  ss_legacy_fallback :: bool

definition slots_new :: shell_slots where
  "slots_new = \<lparr>ss_exec = None, ss_pty = None, ss_browser = None, ss_legacy_fallback = False\<rparr>"

definition forget_host_generation :: "shell_slots \<Rightarrow> shell_slots" where
  "forget_host_generation s = s\<lparr>ss_legacy_fallback := False, ss_browser := None\<rparr>"

definition any_installed :: "shell_slots \<Rightarrow> bool" where
  "any_installed s = (ss_exec s \<noteq> None \<or> ss_pty s \<noteq> None)"

definition pty_installed :: "shell_slots \<Rightarrow> bool" where
  "pty_installed s = (ss_pty s \<noteq> None)"

text \<open>\<open>ExecSlotGuard::install\<close> and its \<open>Drop\<close>.\<close>

definition slot_install :: "slot_kind \<Rightarrow> shell_slots \<Rightarrow> shell_slots" where
  "slot_install k s =
     (let tx = Some \<lparr>cn_alive = True, cn_queue = []\<rparr> in
      case k of SlotExec \<Rightarrow> s\<lparr>ss_exec := tx\<rparr> | SlotPty \<Rightarrow> s\<lparr>ss_pty := tx\<rparr>)"

definition slot_clear :: "slot_kind \<Rightarrow> shell_slots \<Rightarrow> shell_slots" where
  "slot_clear k s = (case k of SlotExec \<Rightarrow> s\<lparr>ss_exec := None\<rparr> | SlotPty \<Rightarrow> s\<lparr>ss_pty := None\<rparr>)"

section \<open>Routing\<close>

definition deliver :: "consumer option \<Rightarrow> exec_event \<Rightarrow> exec_event option \<times> consumer option" where
  "deliver slot event =
     (case slot of
        Some tx \<Rightarrow> (None, Some (if cn_alive tx then tx\<lparr>cn_queue := cn_queue tx @ [event]\<rparr> else tx))
      | None \<Rightarrow> (Some event, None))"

definition route :: "shell_slots \<Rightarrow> slot_kind \<Rightarrow> exec_event \<Rightarrow> shell_slots" where
  "route s kind event =
     (case kind of
        SlotExec \<Rightarrow>
          (let (left, e) = deliver (ss_exec s) event; s1 = s\<lparr>ss_exec := e\<rparr> in
           case left of
             None \<Rightarrow> s1
           | Some ev \<Rightarrow> if ss_legacy_fallback s1 then s1\<lparr>ss_pty := snd (deliver (ss_pty s1) ev)\<rparr> else s1)
      | SlotPty \<Rightarrow>
          (let (left, p) = deliver (ss_pty s) event; s1 = s\<lparr>ss_pty := p\<rparr> in
           case left of
             None \<Rightarrow> s1
           | Some ev \<Rightarrow> if ss_legacy_fallback s1 then s1\<lparr>ss_exec := snd (deliver (ss_exec s1) ev)\<rparr> else s1))"

text \<open>The reader's arms for shell packets: which slot the opcode, or the code of an error, names.\<close>

definition shell_event_of :: "message \<Rightarrow> (slot_kind \<times> exec_event) option" where
  "shell_event_of m =
     (case m of
        ShellOutput data \<Rightarrow> Some (SlotExec, EvShellOutput data)
      | ShellExit code \<Rightarrow> Some (SlotExec, EvShellExit code)
      | ShellClosed \<Rightarrow> Some (SlotExec, EvShellClosed)
      | PtyOutput data \<Rightarrow> Some (SlotPty, EvShellOutput data)
      | PtyExit code \<Rightarrow> Some (SlotPty, EvShellExit code)
      | Error code msg \<Rightarrow>
          if code = ERR_SHELL_BUSY \<or> code = ERR_SHELL_SPAWN then Some (SlotExec, EvHostError msg)
          else if code = ERR_PTY_BUSY \<or> code = ERR_PTY_SPAWN then Some (SlotPty, EvHostError msg)
          else None
      | _ \<Rightarrow> None)"

definition route_message :: "shell_slots \<Rightarrow> message \<Rightarrow> shell_slots" where
  "route_message s m = (case shell_event_of m of None \<Rightarrow> s | Some (k, ev) \<Rightarrow> route s k ev)"

text \<open>The browser's packets: a full or abandoned channel ends the route, and the host is told.\<close>

definition browser_closed :: packet where
  "browser_closed = packet_new (Browser 0 6 0 []) 0"

definition route_browser :: "shell_slots \<Rightarrow> message \<Rightarrow> packet list \<times> shell_slots" where
  "route_browser s msg =
     (case ss_browser s of
        None \<Rightarrow> ([], s)
      | Some b \<Rightarrow>
          if br_alive b \<and> length (br_queue b) < br_capacity b
          then ([], s\<lparr>ss_browser := Some (b\<lparr>br_queue := br_queue b @ [packet_new msg 0]\<rparr>)\<rparr>)
          else ([browser_closed], s\<lparr>ss_browser := None\<rparr>))"

section \<open>What a sequence of packets does\<close>

definition events_for :: "slot_kind \<Rightarrow> message list \<Rightarrow> exec_event list" where
  "events_for k ms = map snd (filter (\<lambda>(k', ev). k' = k) (List.map_filter shell_event_of ms))"

lemma events_for_simps [simp]:
  "events_for k [] = []"
  "events_for k (m # ms) = (case shell_event_of m of
       None \<Rightarrow> events_for k ms
     | Some (k', ev) \<Rightarrow> if k' = k then ev # events_for k ms else events_for k ms)"
  by (simp_all add: events_for_def List.map_filter_simps split: option.split)

lemma events_for_append: "events_for k (ms @ ns) = events_for k ms @ events_for k ns"
  by (induction ms) (simp_all split: option.split)

definition feed_consumer :: "exec_event list \<Rightarrow> consumer option \<Rightarrow> consumer option" where
  "feed_consumer evs slot = map_option (\<lambda>tx. if cn_alive tx then tx\<lparr>cn_queue := cn_queue tx @ evs\<rparr> else tx) slot"

lemma feed_consumer_simps [simp]:
  "feed_consumer [] slot = slot" "feed_consumer evs None = None"
  "feed_consumer es (feed_consumer evs slot) = feed_consumer (evs @ es) slot"
  "feed_consumer evs slot = None \<longleftrightarrow> slot = None"
  by (cases slot; simp add: feed_consumer_def)+

lemma deliver_feeds: "deliver slot ev = (if slot = None then Some ev else None, feed_consumer [ev] slot)"
  by (simp add: deliver_def feed_consumer_def split: option.split)

text \<open>Against a host with both slots every event goes to its own slot, or nowhere.\<close>

lemma route_strict:
  assumes "\<not> ss_legacy_fallback s"
  shows "route s SlotExec ev = s\<lparr>ss_exec := feed_consumer [ev] (ss_exec s)\<rparr>"
    and "route s SlotPty ev = s\<lparr>ss_pty := feed_consumer [ev] (ss_pty s)\<rparr>"
  using assms by (simp_all add: route_def deliver_feeds Let_def)

lemma routed_strict:
  assumes "\<not> ss_legacy_fallback s"
  shows "foldl route_message s ms
    = s\<lparr>ss_exec := feed_consumer (events_for SlotExec ms) (ss_exec s),
        ss_pty := feed_consumer (events_for SlotPty ms) (ss_pty s)\<rparr>"
  using assms
proof (induction ms arbitrary: s)
  case (Cons m ms)
  show ?case
  proof (cases "shell_event_of m")
    case None
    then show ?thesis using Cons by (simp add: route_message_def)
  next
    case (Some kev)
    obtain k ev where kev: "kev = (k, ev)" by (cases kev)
    then show ?thesis
      using Cons Some by (cases k) (simp_all add: route_message_def route_strict)
  qed
qed simp

text \<open>Against a legacy host the one consumer there is gets every event, whatever its opcode.\<close>

definition all_events :: "message list \<Rightarrow> exec_event list" where
  "all_events ms = map snd (List.map_filter shell_event_of ms)"

lemma all_events_simps [simp]:
  "all_events [] = []"
  "all_events (m # ms) = (case shell_event_of m of None \<Rightarrow> all_events ms | Some kev \<Rightarrow> snd kev # all_events ms)"
  by (simp_all add: all_events_def List.map_filter_simps split: option.split)

definition slot_of :: "slot_kind \<Rightarrow> shell_slots \<Rightarrow> consumer option" where
  "slot_of k s = (case k of SlotExec \<Rightarrow> ss_exec s | SlotPty \<Rightarrow> ss_pty s)"

definition with_slot :: "slot_kind \<Rightarrow> consumer option \<Rightarrow> shell_slots \<Rightarrow> shell_slots" where
  "with_slot k c s = (case k of SlotExec \<Rightarrow> s\<lparr>ss_exec := c\<rparr> | SlotPty \<Rightarrow> s\<lparr>ss_pty := c\<rparr>)"

lemma slot_simps [simp]:
  "slot_of k (with_slot k c s) = c" "with_slot k c (with_slot k d s) = with_slot k c s"
  "with_slot k (slot_of k s) s = s" "ss_legacy_fallback (with_slot k c s) = ss_legacy_fallback s"
  "k \<noteq> k' \<Longrightarrow> slot_of k' (with_slot k c s) = slot_of k' s"
  by (cases k; cases k'; simp add: slot_of_def with_slot_def)+

lemma route_legacy:
  assumes "ss_legacy_fallback s" "k \<noteq> k'" "slot_of k' s = None"
  shows "route s kind ev = with_slot k (feed_consumer [ev] (slot_of k s)) s"
  using assms
  by (cases k; cases k'; cases kind; cases "slot_of k s")
    (simp_all add: route_def deliver_feeds slot_of_def with_slot_def Let_def)

lemma routed_legacy:
  assumes "ss_legacy_fallback s" "k \<noteq> k'" "slot_of k' s = None"
  shows "foldl route_message s ms = with_slot k (feed_consumer (all_events ms) (slot_of k s)) s"
  using assms
proof (induction ms arbitrary: s)
  case (Cons m ms)
  show ?case
  proof (cases "shell_event_of m")
    case None
    then show ?thesis using Cons by (simp add: route_message_def)
  next
    case (Some kev)
    have "route_message s m = with_slot k (feed_consumer [snd kev] (slot_of k s)) s"
      using route_legacy [OF Cons.prems] Some by (simp add: route_message_def case_prod_beta)
    then show ?thesis using Cons Some by simp
  qed
qed simp

end
