(* ===== verification/ClientLink.thy ===== *)
theory ClientLink
  imports ClientRoute ClientPoll
begin

text \<open>
  \<open>apps/wiredesk-client/src/link.rs\<close>: the client's end of the link. A writer drains one queue of
  packets, a reader hands what arrives to the clipboard, the shell slots and the window, and a
  supervisor replaces both when either reports the link lost. Each pass of a loop is a definition;
  the threads interleave between passes. Log lines and their throttling counters are left out,
  \<open>SILENT_CYCLES\<close> apart, which the threads share.
\<close>

section \<open>Shared state\<close>

record host_info =
  hi_name :: rstring
  hi_width :: u32
  hi_height :: u32
  hi_proto :: u8

datatype down_reason = DownError werror | DownByHost | DownSilent | DownStorm | DownClone werror

datatype transport_event =
    TeConnected rstring u16 u16
  | TeDisconnected down_reason
  | TeReconnecting u32
  | TeHeartbeat
  | TeToast toast

record link_context =
  cx_client_name :: rstring
  cx_clip :: mac_clip
  cx_slots :: shell_slots
  cx_outgoing :: "packet list"
  cx_link_up :: bool
  cx_host_info :: "host_info option"
  cx_events :: "transport_event list"
  cx_silent_cycles :: u32

definition send_event :: "transport_event \<Rightarrow> link_context \<Rightarrow> link_context" where
  "send_event e cx = cx\<lparr>cx_events := cx_events cx @ [e]\<rparr>"

definition enqueue :: "packet list \<Rightarrow> link_context \<Rightarrow> link_context" where
  "enqueue ps cx = cx\<lparr>cx_outgoing := cx_outgoing cx @ ps\<rparr>"

definition silent_cycle_is_loud :: "u32 \<Rightarrow> bool" where
  "silent_cycle_is_loud n = (n \<le> 3 \<or> n mod 10 = 0)"

section \<open>Reports of decoded output\<close>

definition RX_PROGRESS_INTERVAL :: nat where "RX_PROGRESS_INTERVAL = 50"

record rx_progress =
  rp_enabled :: bool
  rp_decoded :: u64
  rp_reported :: u64
  rp_last_sent :: "nat option"

definition rp_default :: rx_progress where
  "rp_default = \<lparr>rp_enabled = False, rp_decoded = 0, rp_reported = 0, rp_last_sent = None\<rparr>"

definition rp_reset :: "bool \<Rightarrow> rx_progress" where
  "rp_reset enabled = rp_default\<lparr>rp_enabled := enabled\<rparr>"

definition rp_note :: "nat \<Rightarrow> rx_progress \<Rightarrow> rx_progress" where
  "rp_note n r = r\<lparr>rp_decoded := rp_decoded r + of_nat n\<rparr>"

definition rp_due :: "nat \<Rightarrow> bool \<Rightarrow> rx_progress \<Rightarrow> u64 option" where
  "rp_due now console_open r =
     (if \<not> rp_enabled r \<or> \<not> console_open \<or> rp_decoded r = rp_reported r then None
      else case rp_last_sent r of
        Some t \<Rightarrow> if now - t < RX_PROGRESS_INTERVAL then None else Some (rp_decoded r)
      | None \<Rightarrow> Some (rp_decoded r))"

definition rp_mark_sent :: "u64 \<Rightarrow> nat \<Rightarrow> rx_progress \<Rightarrow> rx_progress" where
  "rp_mark_sent n now r = r\<lparr>rp_reported := n, rp_last_sent := Some now\<rparr>"

section \<open>The reader\<close>

definition RECV_TIMEOUT_IDLE :: nat where "RECV_TIMEOUT_IDLE = 6000"
definition RECV_TIMEOUT_BUSY :: nat where "RECV_TIMEOUT_BUSY = 30000"

record link_reader =
  rd_storm :: storm_counter
  rd_last_recv :: nat
  rd_handshaked :: bool
  rd_cancel_seen :: bool
  rd_progress :: rx_progress

definition reader_start :: "nat \<Rightarrow> link_reader" where
  "reader_start now =
     \<lparr>rd_storm = storm_new DEFAULT_STORM_THRESHOLD, rd_last_recv = now, rd_handshaked = False,
      rd_cancel_seen = False, rd_progress = rp_default\<rparr>"

definition link_transfer_in_flight :: "link_context \<Rightarrow> bool" where
  "link_transfer_in_flight cx =
     (let c = cx_clip cx in
      mc_out_total c > mc_out_progress c \<or> mc_incoming_total c > mc_incoming_progress c
      \<or> any_installed (cx_slots cx))"

definition reset_session :: "link_context \<Rightarrow> link_context" where
  "reset_session cx = cx\<lparr>cx_clip := reset_session_state (cx_clip cx)\<rparr>"

text \<open>The top of a pass: a report when one is due.\<close>

definition reader_report :: "nat \<Rightarrow> link_reader \<Rightarrow> link_context \<Rightarrow> link_reader \<times> link_context" where
  "reader_report now rd cx =
     (case rp_due now (pty_installed (cx_slots cx)) (rd_progress rd) of
        None \<Rightarrow> (rd, cx)
      | Some n \<Rightarrow>
          (rd\<lparr>rd_progress := rp_mark_sent n now (rd_progress rd)\<rparr>,
           enqueue [packet_new (RxProgress n) 0] cx))"

text \<open>
  The stores of a \<open>HelloAck\<close> other threads can see, in the order of the code, and those of the
  reader's exit.
\<close>

definition hello_ack_stores :: "u8 \<Rightarrow> rstring \<Rightarrow> u16 \<Rightarrow> u16 \<Rightarrow> (link_context \<Rightarrow> link_context) list" where
  "hello_ack_stores version host_name w h =
     [\<lambda>cx. cx\<lparr>cx_silent_cycles := 0\<rparr>,
      reset_session,
      \<lambda>cx. cx\<lparr>cx_host_info := Some \<lparr>hi_name = host_name, hi_width = ucast w, hi_height = ucast h,
                                       hi_proto = version\<rparr>\<rparr>,
      \<lambda>cx. cx\<lparr>cx_slots := (cx_slots cx)\<lparr>ss_legacy_fallback := \<not> pty_slot_supported version\<rparr>\<rparr>,
      \<lambda>cx. cx\<lparr>cx_link_up := True\<rparr>,
      send_event (TeConnected host_name w h)]"

definition reader_exit_stores :: "(link_context \<Rightarrow> link_context) list" where
  "reader_exit_stores =
     [\<lambda>cx. cx\<lparr>cx_host_info := None\<rparr>,
      \<lambda>cx. cx\<lparr>cx_slots := forget_host_generation (cx_slots cx)\<rparr>,
      \<lambda>cx. cx\<lparr>cx_link_up := False\<rparr>]"

definition do_stores :: "(link_context \<Rightarrow> link_context) list \<Rightarrow> link_context \<Rightarrow> link_context" where
  "do_stores fs cx = foldl (\<lambda>cx f. f cx) cx fs"

definition reader_exit :: "link_context \<Rightarrow> link_context" where
  "reader_exit = do_stores reader_exit_stores"

definition on_hello_ack ::
  "bool \<Rightarrow> u8 \<Rightarrow> rstring \<Rightarrow> u16 \<Rightarrow> u16 \<Rightarrow> link_reader \<Rightarrow> link_context \<Rightarrow> link_reader \<times> link_context" where
  "on_hello_ack buffers_sends version host_name w h rd cx =
     (rd\<lparr>rd_handshaked := True,
         rd_progress := rp_reset (rx_progress_supported version \<and> buffers_sends)\<rparr>,
      do_stores (hello_ack_stores version host_name w h) cx)"

text \<open>A decoded packet. The result says whether the loop goes on.\<close>

definition clip_cancelled :: "link_reader \<Rightarrow> link_context \<Rightarrow> link_reader \<times> link_context" where
  "clip_cancelled rd cx =
     (if rd_cancel_seen rd then (rd, cx)
      else (rd\<lparr>rd_cancel_seen := True\<rparr>, cx\<lparr>cx_clip := mac_reset (cx_clip cx)\<rparr>))"

definition link_clip_offer :: "u8 \<Rightarrow> u32 \<Rightarrow> link_reader \<Rightarrow> link_context \<Rightarrow> link_reader \<times> link_context" where
  "link_clip_offer format total_len rd cx =
     (let (decline, c) = mac_on_offer ((cx_clip cx)\<lparr>mc_incoming_cancel := False\<rparr>) format total_len;
          cx1 = cx\<lparr>cx_clip := c\<rparr>
      in (rd\<lparr>rd_cancel_seen := False\<rparr>,
          case decline of None \<Rightarrow> cx1 | Some m \<Rightarrow> enqueue [packet_new m 0] cx1))"

definition on_message ::
  "clip_env \<Rightarrow> bool \<Rightarrow> message \<Rightarrow> link_reader \<Rightarrow> link_context \<Rightarrow> bool \<times> link_reader \<times> link_context" where
  "on_message env buffers_sends m rd cx =
     (case m of
        HelloAck version host_name w h \<Rightarrow> (True, on_hello_ack buffers_sends version host_name w h rd cx)
      | Heartbeat \<Rightarrow> (True, rd, send_event TeHeartbeat cx)
      | Browser stream kind offset data \<Rightarrow>
          (let (ps, slots) = route_browser (cx_slots cx) m in (True, rd, enqueue ps (cx\<lparr>cx_slots := slots\<rparr>)))
      | ClipOffer format total_len \<Rightarrow> (True, link_clip_offer format total_len rd cx)
      | ClipDecline format \<Rightarrow>
          (let (toast, c) = apply_clip_decline format (cx_clip cx) in
           (True, rd, send_event (TeToast toast) (cx\<lparr>cx_clip := c\<rparr>)))
      | ClipChunk index data \<Rightarrow>
          (if mc_incoming_cancel (cx_clip cx) then (True, clip_cancelled rd cx)
           else (True, rd, cx\<lparr>cx_clip := mac_on_chunk env (cx_clip cx) index data\<rparr>))
      | ShellOutput data \<Rightarrow>
          (True, rd\<lparr>rd_progress := rp_note (length data) (rd_progress rd)\<rparr>,
           cx\<lparr>cx_slots := route_message (cx_slots cx) m\<rparr>)
      | PtyOutput data \<Rightarrow>
          (True, rd\<lparr>rd_progress := rp_note (length data) (rd_progress rd)\<rparr>,
           cx\<lparr>cx_slots := route_message (cx_slots cx) m\<rparr>)
      | ShellExit code \<Rightarrow> (True, rd, cx\<lparr>cx_slots := route_message (cx_slots cx) m\<rparr>)
      | ShellClosed \<Rightarrow> (True, rd, cx\<lparr>cx_slots := route_message (cx_slots cx) m\<rparr>)
      | PtyExit code \<Rightarrow> (True, rd, cx\<lparr>cx_slots := route_message (cx_slots cx) m\<rparr>)
      | Error code msg \<Rightarrow> (True, rd, cx\<lparr>cx_slots := route_message (cx_slots cx) m\<rparr>)
      | Disconnect \<Rightarrow> (False, rd, send_event (TeDisconnected DownByHost) (reset_session cx))
      | _ \<Rightarrow> (True, rd, cx))"

text \<open>
  \<open>e.to_string().contains("timeout")\<close>: the kind's name in front of the text never contributes, and
  no text of a protocol error contains the word.
\<close>

definition reads_timeout :: "werror \<Rightarrow> bool" where
  "reads_timeout e =
     (case e of
        Transport msg \<Rightarrow> str_contains msg ''timeout''
      | Protocol r \<Rightarrow> False
      | Input msg \<Rightarrow> str_contains msg ''timeout''
      | Clipboard msg \<Rightarrow> str_contains msg ''timeout''
      | Config msg \<Rightarrow> str_contains msg ''timeout''
      | Io msg \<Rightarrow> str_contains msg ''timeout'')"

definition on_silence :: "nat \<Rightarrow> nat \<Rightarrow> nat \<Rightarrow> link_reader \<Rightarrow> link_context \<Rightarrow> bool \<times> link_reader \<times> link_context" where
  "on_silence idle_timeout busy_timeout now rd cx =
     (let limit = (if link_transfer_in_flight cx then busy_timeout else idle_timeout) in
      if now - rd_last_recv rd \<ge> limit
      then
        let cx1 = (if rd_handshaked rd then cx else cx\<lparr>cx_silent_cycles := cx_silent_cycles cx + 1\<rparr>) in
        (False, rd, send_event (TeDisconnected DownSilent) (reset_session cx1))
      else (True, rd, cx))"

text \<open>What a pass does with the result of \<open>recv\<close>, at the time it returned.\<close>

definition reader_receives ::
  "clip_env \<Rightarrow> bool \<Rightarrow> nat \<Rightarrow> nat \<Rightarrow> nat \<Rightarrow> werror + packet \<Rightarrow> link_reader \<Rightarrow> link_context
    \<Rightarrow> bool \<times> link_reader \<times> link_context" where
  "reader_receives env buffers_sends idle_timeout busy_timeout now result rd cx =
     (case result of
        Inr p \<Rightarrow>
          on_message env buffers_sends (p_message p)
            (rd\<lparr>rd_storm := on_valid_packet (rd_storm rd), rd_last_recv := now\<rparr>) cx
      | Inl e \<Rightarrow>
          if reads_timeout e then on_silence idle_timeout busy_timeout now rd cx
          else (case e of
              Protocol r \<Rightarrow>
                let (fired, storm) = on_protocol_error (rd_storm rd); rd1 = rd\<lparr>rd_storm := storm\<rparr> in
                if fired then (False, rd1, send_event (TeDisconnected DownStorm) (reset_session cx))
                else (True, rd1, cx)
            | _ \<Rightarrow> (False, rd, send_event (TeDisconnected (DownError e)) (reset_session cx))))"

text \<open>\<open>reader_loop\<close> with its budgets, and the exit of \<open>reader_thread\<close> behind it.\<close>

definition reader_pass ::
  "clip_env \<Rightarrow> bool \<Rightarrow> nat \<Rightarrow> werror + packet \<Rightarrow> link_reader \<Rightarrow> link_context \<Rightarrow> link_reader option \<times> link_context" where
  "reader_pass env buffers_sends now result rd cx =
     (let (goes_on, rd1, cx1) =
        reader_receives env buffers_sends RECV_TIMEOUT_IDLE RECV_TIMEOUT_BUSY now result rd cx
      in if goes_on then (Some rd1, cx1) else (None, reader_exit cx1))"

section \<open>The writer\<close>

definition WRITER_HEARTBEAT_INTERVAL :: nat where "WRITER_HEARTBEAT_INTERVAL = 2000"

record link_writer =
  wr_last_heartbeat :: nat
  wr_sent :: "packet list"

definition hello_packet :: "link_context \<Rightarrow> packet" where
  "hello_packet cx = packet_new (Hello VERSION (cx_client_name cx)) 0"

definition writer_fails :: "werror \<Rightarrow> link_context \<Rightarrow> link_context" where
  "writer_fails e cx = send_event (TeDisconnected (DownError e)) (cx\<lparr>cx_link_up := False\<rparr>)"

definition writer_start :: "nat \<Rightarrow> werror option \<Rightarrow> link_context \<Rightarrow> link_writer option \<times> link_context" where
  "writer_start now answer cx =
     (case answer of
        Some e \<Rightarrow> (None, writer_fails e cx)
      | None \<Rightarrow> (Some \<lparr>wr_last_heartbeat = now, wr_sent = [hello_packet cx]\<rparr>, cx))"

definition is_clip :: "packet \<Rightarrow> bool" where
  "is_clip p = (case p_message p of ClipOffer f n \<Rightarrow> True | ClipChunk i d \<Rightarrow> True | _ \<Rightarrow> False)"

definition clear_cancel :: "link_context \<Rightarrow> link_context" where
  "clear_cancel cx = cx\<lparr>cx_clip := (cx_clip cx)\<lparr>mc_outgoing_cancel := False\<rparr>\<rparr>"

text \<open>The end of a pass: a heartbeat, or a greeting while the handshake is outstanding.\<close>

definition writer_tick :: "nat \<Rightarrow> werror option \<Rightarrow> link_writer \<Rightarrow> link_context \<Rightarrow> link_writer option \<times> link_context" where
  "writer_tick now answer w cx =
     (if now - wr_last_heartbeat w \<ge> WRITER_HEARTBEAT_INTERVAL
      then
        let tick = (if cx_link_up cx then packet_new Heartbeat 0 else hello_packet cx) in
        case answer of
          Some e \<Rightarrow> (None, writer_fails e cx)
        | None \<Rightarrow> (Some (w\<lparr>wr_last_heartbeat := now, wr_sent := wr_sent w @ [tick]\<rparr>), cx)
      else (Some w, cx))"

text \<open>
  A packet that is not dropped: a refusal of the encoder costs only that packet, any other error
  ends the thread; progress is counted behind a successful send.
\<close>

definition writer_sends ::
  "nat \<Rightarrow> werror option \<Rightarrow> werror option \<Rightarrow> packet \<Rightarrow> link_writer \<Rightarrow> link_context \<Rightarrow> link_writer option \<times> link_context" where
  "writer_sends now answer tick_answer p w cx =
     (case answer of
        Some (Protocol r) \<Rightarrow> (Some w, cx)
      | Some e \<Rightarrow> (None, writer_fails e cx)
      | None \<Rightarrow>
          writer_tick now tick_answer (w\<lparr>wr_sent := wr_sent w @ [p]\<rparr>)
            (cx\<lparr>cx_clip := apply_outgoing_progress (p_message p) (cx_clip cx)\<rparr>))"

text \<open>A pass: the head of the queue, or nothing within the timeout; the two answers are the sends'.\<close>

definition writer_pass ::
  "nat \<Rightarrow> werror option \<Rightarrow> werror option \<Rightarrow> link_writer \<Rightarrow> link_context \<Rightarrow> link_writer option \<times> link_context" where
  "writer_pass now answer tick_answer w cx =
     (let cancelling = mc_outgoing_cancel (cx_clip cx) in
      case cx_outgoing cx of
        [] \<Rightarrow> writer_tick now tick_answer w (if cancelling then clear_cancel cx else cx)
      | p # rest \<Rightarrow>
          let cx1 = cx\<lparr>cx_outgoing := rest\<rparr> in
          if is_clip p \<and> cancelling then (Some w, cx1)
          else writer_sends now answer tick_answer p w (if cancelling then clear_cancel cx1 else cx1))"

section \<open>The supervisor\<close>

datatype sup_phase = SupWaiting | SupOpening u32

record link_sys =
  sy_cx :: link_context
  sy_reader :: "link_reader option"
  sy_writer :: "link_writer option"
  sy_phase :: sup_phase
  sy_requests :: nat
  sy_delays :: "nat list"

text \<open>
  A request: the gate is closed, the threads are told to stop and joined. Joining the reader runs
  its exit.
\<close>

definition tear_down_link :: "link_sys \<Rightarrow> link_sys" where
  "tear_down_link s =
     (let cx = sy_cx s;
          cx1 = cx\<lparr>cx_link_up := False, cx_host_info := None,
                   cx_slots := forget_host_generation (cx_slots cx)\<rparr>
      in s\<lparr>sy_cx := (if sy_reader s = None then cx1 else reader_exit cx1),
           sy_reader := None, sy_writer := None, sy_phase := SupOpening 0\<rparr>)"

text \<open>An attempt to open; a failed one sleeps, an opened port is cloned for the writer.\<close>

definition try_open ::
  "nat \<Rightarrow> werror option \<Rightarrow> werror option \<Rightarrow> werror option \<Rightarrow> u32 \<Rightarrow> link_sys \<Rightarrow> link_sys" where
  "try_open now opened cloned hello_answer attempt0 s =
     (let attempt = saturating_inc attempt0; cx = send_event (TeReconnecting attempt) (sy_cx s) in
      case opened of
        Some e \<Rightarrow> s\<lparr>sy_cx := cx, sy_phase := SupOpening attempt,
                    sy_delays := sy_delays s @ [backoff_delay attempt]\<rparr>
      | None \<Rightarrow>
          (case cloned of
             Some e \<Rightarrow> s\<lparr>sy_cx := send_event (TeDisconnected (DownClone e)) cx, sy_phase := SupWaiting\<rparr>
           | None \<Rightarrow>
               let (w, cx1) = writer_start now hello_answer cx in
               s\<lparr>sy_cx := cx1, sy_reader := Some (reader_start now), sy_writer := w,
                 sy_phase := SupWaiting, sy_requests := 0\<rparr>))"

section \<open>The threads together\<close>

text \<open>
  The other threads: handlers install and clear slots and queue packets, the window cancels
  transfers and asks for a reconnect, the poll thread looks at the pasteboard.
\<close>

datatype link_event =
    LnReport nat
  | LnReceives nat "werror + packet"
  | LnWrites nat "werror option" "werror option"
  | LnRequest
  | LnRestart
  | LnOpens nat "werror option" "werror option" "werror option"
  | LnQueues "packet list"
  | LnInstalls slot_kind
  | LnClears slot_kind
  | LnTakes slot_kind
  | LnBrowser "browser_route option"
  | LnClip mac_event
  | LnCancels bool bool

definition take_event :: "slot_kind \<Rightarrow> shell_slots \<Rightarrow> shell_slots" where
  "take_event k s = with_slot k (map_option (\<lambda>tx. tx\<lparr>cn_queue := tl (cn_queue tx)\<rparr>) (slot_of k s)) s"

definition other_thread :: "clip_env \<Rightarrow> link_event \<Rightarrow> link_context \<Rightarrow> link_context" where
  "other_thread env e cx =
     (case e of
        LnQueues ps \<Rightarrow> enqueue ps cx
      | LnInstalls k \<Rightarrow> cx\<lparr>cx_slots := slot_install k (cx_slots cx)\<rparr>
      | LnClears k \<Rightarrow> cx\<lparr>cx_slots := slot_clear k (cx_slots cx)\<rparr>
      | LnTakes k \<Rightarrow> cx\<lparr>cx_slots := take_event k (cx_slots cx)\<rparr>
      | LnBrowser b \<Rightarrow> cx\<lparr>cx_slots := (cx_slots cx)\<lparr>ss_browser := b\<rparr>\<rparr>
      | LnClip me \<Rightarrow>
          (case me of
             MacTick up kicked now \<Rightarrow>
               (let (ps, toasts, c) = poll_tick env (cx_link_up cx) kicked now (cx_clip cx) in
                enqueue ps (cx\<lparr>cx_clip := c, cx_events := cx_events cx @ map TeToast toasts\<rparr>))
           | MacPasteboard os n \<Rightarrow> cx\<lparr>cx_clip := mac_step env (cx_clip cx) me\<rparr>
           | _ \<Rightarrow> cx)
      | LnCancels outgoing incoming \<Rightarrow>
          cx\<lparr>cx_clip := (cx_clip cx)\<lparr>mc_outgoing_cancel := mc_outgoing_cancel (cx_clip cx) \<or> outgoing,
             mc_incoming_cancel := mc_incoming_cancel (cx_clip cx) \<or> incoming\<rparr>\<rparr>
      | _ \<Rightarrow> cx)"

fun link_step :: "clip_env \<Rightarrow> bool \<Rightarrow> link_sys \<Rightarrow> link_event \<Rightarrow> link_sys" where
  "link_step env buffers_sends s (LnReport now) =
     (case sy_reader s of
        None \<Rightarrow> s
      | Some rd \<Rightarrow>
          (let (rd1, cx) = reader_report now rd (sy_cx s) in s\<lparr>sy_reader := Some rd1, sy_cx := cx\<rparr>))"
| "link_step env buffers_sends s (LnReceives now result) =
     (case sy_reader s of
        None \<Rightarrow> s
      | Some rd \<Rightarrow>
          (let (rd1, cx) = reader_pass env buffers_sends now result rd (sy_cx s) in
           s\<lparr>sy_reader := rd1, sy_cx := cx\<rparr>))"
| "link_step env buffers_sends s (LnWrites now answer tick_answer) =
     (case sy_writer s of
        None \<Rightarrow> s
      | Some w \<Rightarrow>
          (let (w1, cx) = writer_pass now answer tick_answer w (sy_cx s) in
           s\<lparr>sy_writer := w1, sy_cx := cx\<rparr>))"
| "link_step env buffers_sends s LnRequest = s\<lparr>sy_requests := sy_requests s + 1\<rparr>"
| "link_step env buffers_sends s LnRestart =
     (if sy_phase s = SupWaiting \<and> sy_requests s > 0
      then tear_down_link (s\<lparr>sy_requests := sy_requests s - 1\<rparr>) else s)"
| "link_step env buffers_sends s (LnOpens now opened cloned hello_answer) =
     (case sy_phase s of
        SupWaiting \<Rightarrow> s
      | SupOpening attempt \<Rightarrow> try_open now opened cloned hello_answer attempt s)"
| "link_step env buffers_sends s e = s\<lparr>sy_cx := other_thread env e (sy_cx s)\<rparr>"

end
