(* ===== verification/ClientLinkRuns.thy ===== *)
theory ClientLinkRuns
  imports ClientLink
begin

text \<open>
  What every history of the client's link keeps: the gate other threads look at is open only while
  a greeted reader runs and then describes the host that answered; a link that ends is announced; a
  silent one ends; and the writer loses, repeats and reorders nothing but cancelled transfers.
\<close>

section \<open>The gate\<close>

definition gate :: "link_context \<Rightarrow> bool \<times> host_info option \<times> bool" where
  "gate cx = (cx_link_up cx, cx_host_info cx, ss_legacy_fallback (cx_slots cx))"

abbreviation gate_shut :: "bool \<times> host_info option \<times> bool" where
  "gate_shut \<equiv> (False, None, False)"

lemma gate_simps [simp]:
  "gate (send_event e cx) = gate cx" "gate (enqueue ps cx) = gate cx" "gate (reset_session cx) = gate cx"
  "gate (cx\<lparr>cx_clip := c\<rparr>) = gate cx" "gate (cx\<lparr>cx_outgoing := ps\<rparr>) = gate cx"
  "gate (cx\<lparr>cx_events := es\<rparr>) = gate cx" "gate (cx\<lparr>cx_silent_cycles := n\<rparr>) = gate cx"
  "gate (clear_cancel cx) = gate cx" "gate (reader_exit cx) = gate_shut"
  "gate (cx\<lparr>cx_slots := slots\<rparr>) = (cx_link_up cx, cx_host_info cx, ss_legacy_fallback slots)"
  by (simp_all add: gate_def send_event_def enqueue_def reset_session_def clear_cancel_def reader_exit_def
      do_stores_def reader_exit_stores_def forget_host_generation_def)

lemma legacy_kept [simp]:
  "ss_legacy_fallback (route_message s m) = ss_legacy_fallback s"
  "ss_legacy_fallback (snd (route_browser s m)) = ss_legacy_fallback s"
  "ss_legacy_fallback (slot_install k s) = ss_legacy_fallback s"
  "ss_legacy_fallback (slot_clear k s) = ss_legacy_fallback s"
  "ss_legacy_fallback (take_event k s) = ss_legacy_fallback s"
  by (simp_all add: route_message_def route_def route_browser_def slot_install_def slot_clear_def
      take_event_def Let_def split: option.split prod.split slot_kind.split)

text \<open>What a reader in the loop may leave behind, by whether it has been greeted.\<close>

definition gate_ok :: "bool \<Rightarrow> bool \<times> host_info option \<times> bool \<Rightarrow> bool" where
  "gate_ok handshaked g =
     (case g of (up, info, legacy) \<Rightarrow>
        if handshaked then (case info of None \<Rightarrow> False | Some i \<Rightarrow> legacy = (\<not> pty_slot_supported (hi_proto i)))
        else g = gate_shut)"

lemma gate_ok_shut [simp]: "gate_ok False gate_shut"
  by (simp add: gate_ok_def)

lemma gate_ok_down: "gate_ok h (up, info, legacy) \<Longrightarrow> gate_ok h (False, info, legacy)"
  by (simp add: gate_ok_def split: if_splits)

lemma gate_hello_ack:
  "gate_ok True (gate (do_stores (hello_ack_stores version name w h) cx))"
  by (simp add: do_stores_def hello_ack_stores_def gate_ok_def gate_def send_event_def reset_session_def)

lemma gate_message:
  assumes "gate_ok (rd_handshaked rd) (gate cx)" "on_message env b m rd cx = (go, rd1, cx1)"
  shows "gate_ok (rd_handshaked rd1) (gate cx1)"
proof -
  have slots: "gate (cx\<lparr>cx_slots := route_message (cx_slots cx) m'\<rparr>) = gate cx" for m'
    by (simp add: gate_def)
  have browser: "gate (cx\<lparr>cx_slots := snd (route_browser (cx_slots cx) m')\<rparr>) = gate cx" for m'
    by (simp add: gate_def)
  show ?thesis
  proof (cases m)
    case (HelloAck v n w h)
    then show ?thesis using assms(2) gate_hello_ack by (auto simp: on_message_def on_hello_ack_def)
  next
    case (Browser s k off d)
    then show ?thesis using assms browser by (auto simp: on_message_def Let_def case_prod_beta)
  next
    case (ClipOffer f n)
    then show ?thesis using assms
      by (auto simp: on_message_def link_clip_offer_def Let_def case_prod_beta split: option.splits)
  qed (use assms slots in \<open>auto simp: on_message_def clip_cancelled_def case_prod_beta Let_def split: if_splits\<close>)
qed

lemma gate_receives:
  assumes "gate_ok (rd_handshaked rd) (gate cx)"
    and "reader_receives env b idle busy now result rd cx = (go, rd1, cx1)"
  shows "gate_ok (rd_handshaked rd1) (gate cx1)"
proof (cases result)
  case (Inr p)
  then show ?thesis
    using gate_message [of "rd\<lparr>rd_storm := on_valid_packet (rd_storm rd), rd_last_recv := now\<rparr>"] assms
    by (auto simp: reader_receives_def)
next
  case (Inl e)
  show ?thesis
  proof (cases "reads_timeout e")
    case True
    then show ?thesis using Inl assms
      by (auto simp: reader_receives_def on_silence_def Let_def split: if_splits)
  next
    case False
    then show ?thesis using Inl assms
      by (cases e) (auto simp: reader_receives_def Let_def case_prod_beta split: if_splits)
  qed
qed

lemma gate_writer_tick:
  assumes "gate_ok h (gate cx)" "writer_tick now a w cx = (w1, cx1)"
  shows "gate_ok h (gate cx1) \<and> (w1 = None \<longrightarrow> \<not> cx_link_up cx1)"
proof -
  have "gate (writer_fails e cx) = (False, cx_host_info cx, ss_legacy_fallback (cx_slots cx))" for e
    by (simp add: writer_fails_def gate_def send_event_def)
  then show ?thesis
    using assms gate_ok_down [of h "cx_link_up cx" "cx_host_info cx" "ss_legacy_fallback (cx_slots cx)"]
    by (auto simp: writer_tick_def Let_def gate_def writer_fails_def send_event_def split: if_splits option.splits)
qed

lemma gate_writer_sends:
  assumes "gate_ok h (gate cx)" "writer_sends now a t p w cx = (w1, cx1)"
  shows "gate_ok h (gate cx1) \<and> (w1 = None \<longrightarrow> \<not> cx_link_up cx1)"
proof (cases a)
  case None
  have "gate_ok h (gate (cx\<lparr>cx_clip := apply_outgoing_progress (p_message p) (cx_clip cx)\<rparr>))"
    using assms(1) by simp
  from gate_writer_tick [OF this] show ?thesis using assms(2) None by (auto simp: writer_sends_def)
next
  case (Some e)
  have "gate_ok h (gate (writer_fails e cx))"
    using assms(1) gate_ok_down [of h "cx_link_up cx" "cx_host_info cx" "ss_legacy_fallback (cx_slots cx)"]
    by (simp add: writer_fails_def gate_def send_event_def)
  then show ?thesis using assms Some by (cases e) (auto simp: writer_sends_def writer_fails_def send_event_def)
qed

lemma gate_writer_pass:
  assumes "gate_ok h (gate cx)" "writer_pass now a t w cx = (w1, cx1)"
  shows "gate_ok h (gate cx1) \<and> (w1 = None \<longrightarrow> \<not> cx_link_up cx1)"
proof -
  define cancelling where "cancelling = mc_outgoing_cancel (cx_clip cx)"
  define d where "d e = (if cancelling then clear_cancel e else e)" for e
  have ok: "gate_ok h (gate (d cx))" "gate_ok h (gate (d (cx\<lparr>cx_outgoing := rest\<rparr>)))" for rest
    using assms(1) by (simp_all add: d_def)
  show ?thesis
  proof (cases "cx_outgoing cx")
    case Nil
    then have "writer_tick now t w (d cx) = (w1, cx1)"
      using assms(2) by (simp add: writer_pass_def Let_def d_def cancelling_def)
    from gate_writer_tick [OF ok(1) this] show ?thesis .
  next
    case (Cons p rest)
    show ?thesis
    proof (cases "is_clip p \<and> cancelling")
      case True
      then show ?thesis using assms Cons by (auto simp: writer_pass_def Let_def cancelling_def)
    next
      case False
      then have "writer_sends now a t p w (d (cx\<lparr>cx_outgoing := rest\<rparr>)) = (w1, cx1)"
        using assms(2) Cons unfolding writer_pass_def Let_def d_def cancelling_def
        by (cases "mc_outgoing_cancel (cx_clip cx)") simp_all
      from gate_writer_sends [OF ok(2) this] show ?thesis .
    qed
  qed
qed

section \<open>Histories\<close>

definition link_inv :: "link_sys \<Rightarrow> bool" where
  "link_inv s \<longleftrightarrow>
     (case sy_reader s of
        None \<Rightarrow> gate (sy_cx s) = gate_shut
      | Some rd \<Rightarrow> gate_ok (rd_handshaked rd) (gate (sy_cx s)) \<and> sy_phase s = SupWaiting)
     \<and> (sy_phase s \<noteq> SupWaiting \<longrightarrow> sy_writer s = None)"

lemma gate_other: "gate (other_thread env e cx) = gate cx"
proof (cases e)
  case (LnClip me)
  then show ?thesis by (cases me) (simp_all add: other_thread_def case_prod_beta Let_def gate_def enqueue_def)
qed (simp_all add: other_thread_def, simp_all add: gate_def)

lemma gate_report [simp]:
  "gate (snd (reader_report now rd cx)) = gate cx"
  "rd_handshaked (fst (reader_report now rd cx)) = rd_handshaked rd"
  by (simp_all add: reader_report_def split: option.split)

lemma tear_down_link_gate [simp]:
  "gate (sy_cx (tear_down_link s)) = gate_shut" "sy_reader (tear_down_link s) = None"
  "sy_writer (tear_down_link s) = None"
  by (simp_all add: tear_down_link_def Let_def) (simp add: gate_def forget_host_generation_def)

lemma link_inv_other: "link_inv s \<Longrightarrow> link_inv (s\<lparr>sy_cx := other_thread env e (sy_cx s)\<rparr>)"
  by (simp add: link_inv_def gate_other split: option.splits)

lemma link_inv_step:
  assumes "link_inv s"
  shows "link_inv (link_step env b s e)"
proof (cases e)
  case (LnReport now)
  then show ?thesis
    using assms by (auto simp: link_inv_def case_prod_beta split: option.splits)
next
  case (LnReceives now result)
  show ?thesis
  proof (cases "sy_reader s")
    case None
    then show ?thesis using assms LnReceives by simp
  next
    case (Some rd)
    obtain go rd1 cx1 where r: "reader_receives env b RECV_TIMEOUT_IDLE RECV_TIMEOUT_BUSY now result rd (sy_cx s)
        = (go, rd1, cx1)" by (metis prod_cases3)
    from gate_receives [OF _ this] show ?thesis
      using assms Some LnReceives r by (auto simp: link_inv_def reader_pass_def split: option.splits)
  qed
next
  case (LnWrites now a t)
  show ?thesis
  proof (cases "sy_writer s")
    case None
    then show ?thesis using assms LnWrites by simp
  next
    case (Some w)
    obtain w1 cx1 where w: "writer_pass now a t w (sy_cx s) = (w1, cx1)" by fastforce
    have "gate_ok h (gate (sy_cx s)) \<Longrightarrow> gate_ok h (gate cx1)" for h
      using gate_writer_pass [OF _ w] by blast
    moreover have "gate cx1 = gate_shut" if "gate (sy_cx s) = gate_shut"
      using gate_writer_pass [OF _ w, of False] that by (auto simp: gate_ok_def split: prod.splits)
    ultimately show ?thesis
      using assms Some LnWrites w by (auto simp: link_inv_def split: option.splits)
  qed
next
  case LnRestart
  then show ?thesis
    using assms by (simp add: link_inv_def)
next
  case (LnOpens now opened cloned answer)
  show ?thesis
  proof (cases "sy_phase s")
    case SupWaiting
    then show ?thesis using assms LnOpens by simp
  next
    case (SupOpening attempt)
    then have "gate (sy_cx s) = gate_shut" "sy_writer s = None" "sy_reader s = None"
      using assms by (auto simp: link_inv_def split: option.splits)
    then show ?thesis using LnOpens SupOpening
      by (auto simp: link_inv_def try_open_def writer_start_def writer_fails_def reader_start_def gate_def
          send_event_def gate_ok_def Let_def split: option.split)
  qed
next
  case LnRequest
  then show ?thesis using assms by (simp add: link_inv_def split: option.splits)
qed (use assms link_inv_other in simp_all)

definition link_start :: "rstring \<Rightarrow> mac_clip \<Rightarrow> link_sys" where
  "link_start name c =
     \<lparr>sy_cx = \<lparr>cx_client_name = name, cx_clip = c, cx_slots = slots_new, cx_outgoing = [], cx_link_up = False,
               cx_host_info = None, cx_events = [], cx_silent_cycles = 0\<rparr>,
      sy_reader = None, sy_writer = None, sy_phase = SupWaiting, sy_requests = 1, sy_delays = []\<rparr>"

interpretation linkm: init_machine "link_step env b" link_inv "\<lambda>e. True" "link_start name c" for env b name c
  by unfold_locales (simp_all add: link_inv_step, simp add: link_inv_def link_start_def gate_def slots_new_def)

end
