(* ===== verification/ClientLinkFlow.thy ===== *)
theory ClientLinkFlow
  imports ClientLinkRuns
begin

text \<open>
  How a link ends and what its writer puts on the wire: every end is announced, a silent host is
  noticed within the liveness limit, and the queue goes out in order.
\<close>

section \<open>Every end is announced\<close>

text \<open>The events that say how the link stands.\<close>

definition is_status :: "transport_event \<Rightarrow> bool" where
  "is_status e = (case e of TeReconnecting n \<Rightarrow> True | TeDisconnected r \<Rightarrow> True | _ \<Rightarrow> False)"

definition announced :: "transport_event list \<Rightarrow> bool" where
  "announced es = (case rev (filter is_status es) of [] \<Rightarrow> True | e # _ \<Rightarrow> (\<exists>r. e = TeDisconnected r))"

lemma announced_down [simp]: "announced (es @ [TeDisconnected r])"
  by (simp add: announced_def is_status_def)

lemma announced_down2 [simp]: "announced (es @ [e, TeDisconnected r])"
  using announced_down [of "es @ [e]" r] by simp

lemma announced_append: "announced es \<Longrightarrow> list_all (\<lambda>e. \<forall>n. e \<noteq> TeReconnecting n) fs \<Longrightarrow> announced (es @ fs)"
proof (induction fs rule: rev_induct)
  case (snoc f fs)
  then show ?case by (cases f) (simp_all add: announced_def is_status_def)
qed simp

definition dead_announced :: "link_sys \<Rightarrow> bool" where
  "dead_announced s \<longleftrightarrow>
     (sy_phase s = SupWaiting \<and> (sy_reader s = None \<or> sy_writer s = None) \<longrightarrow> announced (cx_events (sy_cx s)))"

text \<open>What a thread's pass adds to the events, and that its end adds the announcement last.\<close>

definition extends :: "bool \<Rightarrow> link_context \<Rightarrow> link_context \<Rightarrow> bool" where
  "extends goes_on cx cx1 \<longleftrightarrow>
     (\<exists>fs. cx_events cx1 = cx_events cx @ fs \<and> list_all (\<lambda>e. \<forall>n. e \<noteq> TeReconnecting n) fs
       \<and> (\<not> goes_on \<longrightarrow> (\<exists>r fs'. fs = fs' @ [TeDisconnected r])))"

lemma extends_same: "cx_events cx1 = cx_events cx \<Longrightarrow> go \<Longrightarrow> extends go cx cx1"
  by (simp add: extends_def)

lemma extends_one: "cx_events cx1 = cx_events cx @ [e] \<Longrightarrow> (\<And>n. e \<noteq> TeReconnecting n) \<Longrightarrow> go \<Longrightarrow> extends go cx cx1"
  by (simp add: extends_def)

lemma extends_down: "cx_events cx1 = cx_events cx @ [TeDisconnected r] \<Longrightarrow> extends go cx cx1"
  by (auto simp: extends_def)

lemma extends_announced:
  assumes "extends go cx cx1"
  shows "announced (cx_events cx) \<or> \<not> go \<Longrightarrow> announced (cx_events cx1)"
  using assms announced_append unfolding extends_def by (metis announced_down append.assoc)

lemma events_kept [simp]:
  "cx_events (send_event e cx) = cx_events cx @ [e]" "cx_events (enqueue ps cx) = cx_events cx"
  "cx_events (reset_session cx) = cx_events cx" "cx_events (clear_cancel cx) = cx_events cx"
  "cx_events (reader_exit cx) = cx_events cx"
  by (simp_all add: send_event_def enqueue_def reset_session_def clear_cancel_def reader_exit_def do_stores_def
      reader_exit_stores_def)

lemma message_extends: "on_message env b m rd cx = (go, rd1, cx1) \<Longrightarrow> extends go cx cx1"
  by (cases m)
    (auto simp: on_message_def on_hello_ack_def do_stores_def hello_ack_stores_def clip_cancelled_def
      link_clip_offer_def apply_clip_decline_def case_prod_beta Let_def extends_def
      split: option.split if_splits)

lemma receives_extends: "reader_receives env b idle busy now result rd cx = (go, rd1, cx1) \<Longrightarrow> extends go cx cx1"
proof (cases result)
  case (Inr p)
  then show "reader_receives env b idle busy now result rd cx = (go, rd1, cx1) \<Longrightarrow> extends go cx cx1"
    using message_extends by (simp add: reader_receives_def)
next
  case (Inl e)
  assume eq: "reader_receives env b idle busy now result rd cx = (go, rd1, cx1)"
  show ?thesis
  proof (cases "reads_timeout e")
    case True
    then show ?thesis using eq Inl
      by (auto simp: reader_receives_def on_silence_def Let_def intro: extends_same extends_down split: if_splits)
  next
    case False
    then show ?thesis using eq Inl
      by (cases e) (auto simp: reader_receives_def case_prod_beta Let_def intro: extends_same extends_down
          split: if_splits)
  qed
qed

lemma tick_extends: "writer_tick now a w cx = (w1, cx1) \<Longrightarrow> extends (w1 \<noteq> None) cx cx1"
  by (auto simp: writer_tick_def writer_fails_def Let_def intro: extends_same extends_down split: if_splits option.splits)

lemma extends_from: "extends go cx cx1 \<Longrightarrow> cx_events cx = cx_events cx0 \<Longrightarrow> extends go cx0 cx1"
  by (simp add: extends_def)

lemma sends_extends: "writer_sends now a t p w cx = (w1, cx1) \<Longrightarrow> extends (w1 \<noteq> None) cx cx1"
proof (cases a)
  case None
  assume "writer_sends now a t p w cx = (w1, cx1)"
  then show ?thesis using None by (auto simp: writer_sends_def simp del: not_None_eq intro: extends_from [OF tick_extends])
next
  case (Some e)
  assume "writer_sends now a t p w cx = (w1, cx1)"
  then show ?thesis using Some
    by (cases e) (auto simp: writer_sends_def writer_fails_def intro: extends_same extends_down)
qed

lemma writer_extends: "writer_pass now a t w cx = (w1, cx1) \<Longrightarrow> extends (w1 \<noteq> None) cx cx1"
  by (auto simp: writer_pass_def Let_def simp del: not_None_eq intro: extends_same extends_from [OF tick_extends] extends_from [OF sends_extends]
      split: list.splits if_splits)

lemma other_extends: "extends True cx (other_thread env e cx)"
proof (cases e)
  case (LnClip me)
  then show ?thesis
    by (cases me) (auto simp: other_thread_def case_prod_beta Let_def extends_def list_all_iff)
qed (simp_all add: other_thread_def extends_same)

lemma dead_announced_step:
  assumes "dead_announced s" "link_inv s"
  shows "dead_announced (link_step env b s e)"
proof (cases e)
  case (LnReport now)
  then show ?thesis using assms(1)
    by (auto simp: dead_announced_def case_prod_beta reader_report_def split: option.split)
next
  case (LnReceives now result)
  show ?thesis
  proof (cases "sy_reader s")
    case None
    then show ?thesis using assms(1) LnReceives by simp
  next
    case (Some rd)
    obtain go rd1 cx1 where r: "reader_receives env b RECV_TIMEOUT_IDLE RECV_TIMEOUT_BUSY now result rd (sy_cx s)
        = (go, rd1, cx1)" by (metis prod_cases3)
    then show ?thesis
      using assms(1) Some LnReceives extends_announced [OF receives_extends [OF r]]
      by (auto simp: dead_announced_def reader_pass_def)
  qed
next
  case (LnWrites now a t)
  show ?thesis
  proof (cases "sy_writer s")
    case None
    then show ?thesis using assms(1) LnWrites by simp
  next
    case (Some w)
    obtain w1 cx1 where w: "writer_pass now a t w (sy_cx s) = (w1, cx1)" by fastforce
    then show ?thesis
      using assms(1) Some LnWrites extends_announced [OF writer_extends [OF w]]
      by (auto simp: dead_announced_def)
  qed
next
  case (LnOpens now opened cloned answer)
  show ?thesis
  proof (cases "sy_phase s")
    case SupWaiting
    then show ?thesis using assms(1) LnOpens by simp
  next
    case (SupOpening attempt)
    then show ?thesis using LnOpens
      by (auto simp: dead_announced_def try_open_def writer_start_def writer_fails_def Let_def split: option.split)
  qed
next
  case LnRestart
  then show ?thesis using assms(1) by (simp add: dead_announced_def tear_down_link_def Let_def)
next
  case LnRequest
  then show ?thesis using assms(1) by (simp add: dead_announced_def)
qed (use assms(1) extends_announced [OF other_extends] in \<open>auto simp: dead_announced_def\<close>)

interpretation announcem: inv_machine "link_step env b" "\<lambda>s. link_inv s \<and> dead_announced s" "\<lambda>e. True" for env b
  by unfold_locales (simp add: link_inv_step dead_announced_step)

section \<open>A silent host\<close>

definition hears_nothing :: "link_event \<Rightarrow> bool" where
  "hears_nothing e = (case e of LnReceives now (Inr p) \<Rightarrow> False | LnRestart \<Rightarrow> False | LnOpens _ _ _ _ \<Rightarrow> False | _ \<Rightarrow> True)"

lemma receives_last_recv:
  "reader_receives env b idle busy now (Inl e) rd cx = (go, rd1, cx1) \<Longrightarrow> rd_last_recv rd1 = rd_last_recv rd"
  by (cases e) (auto simp: reader_receives_def on_silence_def case_prod_beta Let_def split: if_splits)

text \<open>While nothing is heard the reader is either the same as to the time of its last packet, or gone.\<close>

definition still_silent :: "nat \<Rightarrow> link_sys \<Rightarrow> bool" where
  "still_silent t s \<longleftrightarrow> (case sy_reader s of None \<Rightarrow> True | Some rd \<Rightarrow> rd_last_recv rd = t)"

lemma still_silent_step:
  assumes "still_silent t s" "hears_nothing e"
  shows "still_silent t (link_step env b s e) \<and> (sy_reader s = None \<longrightarrow> sy_reader (link_step env b s e) = None)"
proof (cases e)
  case (LnReceives now result)
  then obtain er where "result = Inl er" using assms(2) by (cases result) (auto simp: hears_nothing_def)
  then show ?thesis
    using assms(1) LnReceives receives_last_recv [of env b RECV_TIMEOUT_IDLE RECV_TIMEOUT_BUSY now er]
    by (auto simp: still_silent_def reader_pass_def case_prod_beta Let_def split: option.splits)
      (metis prod.collapse)
next
  case (LnReport now)
  then show ?thesis using assms
    by (auto simp: still_silent_def reader_report_def case_prod_beta split: option.splits)
next
  case (LnWrites now a t)
  then show ?thesis using assms by (auto simp: still_silent_def case_prod_beta split: option.splits)
qed (use assms in \<open>simp_all add: still_silent_def hears_nothing_def\<close>)

lemma limit_reached:
  assumes "sy_reader s = Some rd" "reads_timeout er" "rd_last_recv rd + RECV_TIMEOUT_BUSY \<le> now"
  shows "sy_reader (link_step env b s (LnReceives now (Inl er))) = None"
  using assms by (auto simp: reader_pass_def reader_receives_def on_silence_def RECV_TIMEOUT_BUSY_def RECV_TIMEOUT_IDLE_def Let_def)

lemma silent_run:
  assumes "still_silent t s" "list_all hears_nothing es"
    and "LnReceives now (Inl er) \<in> set es" "reads_timeout er" "t + RECV_TIMEOUT_BUSY \<le> now"
  shows "sy_reader (foldl (link_step env b) s es) = None"
  using assms(1-3)
proof (induction es arbitrary: s)
  case (Cons e es)
  have gone: "sy_reader (foldl (link_step env b) s' es') = None"
    if "sy_reader s' = None" "list_all hears_nothing es'" for s' es'
    using that
  proof (induction es' arbitrary: s')
    case (Cons e' es')
    then show ?case using still_silent_step [of t s' e' env b] by (simp add: still_silent_def)
  qed simp
  show ?case
  proof (cases "e = LnReceives now (Inl er)")
    case True
    have "sy_reader (link_step env b s e) = None"
    proof (cases "sy_reader s")
      case (Some rd)
      then show ?thesis using limit_reached [OF Some assms(4)] True Cons.prems(1) assms(5)
        by (simp add: still_silent_def)
    qed (use True in simp)
    then show ?thesis using gone Cons.prems(2) by simp
  next
    case False
    then show ?thesis using Cons still_silent_step [of t s e env b] by simp
  qed
qed simp

end
