(* ===== verification/ClientLinkWriter.thy ===== *)
theory ClientLinkWriter
  imports ClientLinkFlow
begin

text \<open>
  The writer as a queue: what was queued goes out in order, once each, and only a cancelled
  transfer's packets are left out. The reader's reports count the output it has decoded.
\<close>

section \<open>The order of the queue\<close>

definition is_tick_packet :: "packet \<Rightarrow> bool" where
  "is_tick_packet p = (case p_message p of Hello v n \<Rightarrow> True | Heartbeat \<Rightarrow> True | _ \<Rightarrow> False)"

text \<open>The packets the statement is about: no heartbeats and greetings, and transfers only when wanted.\<close>

definition counted :: "bool \<Rightarrow> packet \<Rightarrow> bool" where
  "counted clips p = (\<not> is_tick_packet p \<and> (clips \<or> \<not> is_clip p))"

abbreviation "cancelling cx \<equiv> mc_outgoing_cancel (cx_clip cx)"

lemma cancel_kept [simp]:
  "mc_outgoing_cancel (apply_outgoing_progress m c) = mc_outgoing_cancel c"
  "mc_outgoing_cancel (mac_reset_reassembly c) = mc_outgoing_cancel c"
  "mc_outgoing_cancel (mac_reset c) = mc_outgoing_cancel c"
  "mc_outgoing_cancel (reset_session_state c) = mc_outgoing_cancel c"
  "mc_outgoing_cancel (mac_commit_text env c buf) = mc_outgoing_cancel c"
  "mc_outgoing_cancel (mac_commit_image env c buf) = mc_outgoing_cancel c"
  "mc_outgoing_cancel (mac_commit_file env c buf) = mc_outgoing_cancel c"
  by (simp_all add: apply_outgoing_progress_def mac_reset_reassembly_def mac_reset_def reset_session_state_def
      mac_commit_text_def mac_commit_image_def mac_commit_file_def Let_def
      split: message.split option.split sum.split)

lemma cancel_kept_commit [simp]: "mc_outgoing_cancel (mac_commit env c) = mc_outgoing_cancel c"
  by (simp add: mac_commit_def Let_def)

lemma cancel_kept_rx [simp]:
  "mc_outgoing_cancel (mac_on_chunk env c i d) = mc_outgoing_cancel c"
  "mc_outgoing_cancel (snd (mac_on_offer c f n)) = mc_outgoing_cancel c"
proof -
  show "mc_outgoing_cancel (snd (mac_on_offer c f n)) = mc_outgoing_cancel c"
    using mac_on_offer_cases [of c f n] by (elim disjE) (simp_all add: mac_armed_def)
qed (simp add: mac_on_chunk_def Let_def)

lemma cancel_kept_poll [simp]: "mc_outgoing_cancel (snd (snd (poll_tick env up kicked now c))) = mc_outgoing_cancel c"
proof -
  have "mc_outgoing_cancel (snd (snd (probe_file env up now d))) = mc_outgoing_cancel d" for d
    by (auto simp: probe_file_def poll_file_url_def Let_def split: option.split file_poll_outcome.split)
  moreover have "mc_outgoing_cancel (snd (snd (probe_text env up kicked now d))) = mc_outgoing_cancel d" for d
    by (auto simp: probe_text_def decide_text_send_def case_prod_beta Let_def split: option.split list.split)
  moreover have "mc_outgoing_cancel (snd (snd (probe_image env up d))) = mc_outgoing_cancel d" for d
    by (auto simp: probe_image_def check_size_def Let_def split: option.split)
  ultimately show ?thesis by (simp add: poll_tick_def case_prod_beta)
qed

subsection \<open>A pass of the writer\<close>

lemma tick_conserves:
  "writer_tick now None w cx = (w1, cx1) \<Longrightarrow>
    cx1 = cx \<and> (\<exists>w'. w1 = Some w' \<and> filter (counted c) (wr_sent w') = filter (counted c) (wr_sent w))"
  by (auto simp: writer_tick_def hello_packet_def counted_def is_tick_packet_def packet_new_def Let_def
      split: if_splits)

lemma pass_conserves:
  assumes "c \<longrightarrow> \<not> cancelling cx" "writer_pass now None None w cx = (w1, cx1)"
  shows "\<exists>w'. w1 = Some w'
      \<and> filter (counted c) (wr_sent w' @ cx_outgoing cx1) = filter (counted c) (wr_sent w @ cx_outgoing cx)
      \<and> (c \<longrightarrow> \<not> cancelling cx1)"
proof (cases "cx_outgoing cx")
  case Nil
  let ?cx = "if cancelling cx then clear_cancel cx else cx"
  have "writer_tick now None w ?cx = (w1, cx1)" using assms(2) Nil by (simp add: writer_pass_def Let_def)
  from tick_conserves [OF this, of c] assms(1) Nil show ?thesis by (auto simp: clear_cancel_def)
next
  case (Cons p rest)
  show ?thesis
  proof (cases "is_clip p \<and> cancelling cx")
    case True
    then show ?thesis using assms Cons by (auto simp: writer_pass_def counted_def Let_def)
  next
    case False
    define cx2 where "cx2 = (if cancelling cx then clear_cancel (cx\<lparr>cx_outgoing := rest\<rparr>) else cx\<lparr>cx_outgoing := rest\<rparr>)"
    define cx3 where "cx3 = cx2\<lparr>cx_clip := apply_outgoing_progress (p_message p) (cx_clip cx2)\<rparr>"
    have "writer_pass now None None w cx = writer_sends now None None p w cx2"
      using False Cons unfolding writer_pass_def Let_def cx2_def by (cases "cancelling cx") simp_all
    then have "writer_tick now None (w\<lparr>wr_sent := wr_sent w @ [p]\<rparr>) cx3 = (w1, cx1)"
      using assms(2) by (simp add: writer_sends_def cx3_def)
    moreover have "cx_outgoing cx3 = rest" "\<not> cancelling cx3"
      by (simp_all add: cx3_def cx2_def clear_cancel_def)
    ultimately obtain w' where "w1 = Some w'" "cx1 = cx3" "cx_outgoing cx3 = rest" "\<not> cancelling cx3"
      "filter (counted c) (wr_sent w') = filter (counted c) (wr_sent w @ [p])"
      using tick_conserves [of now "w\<lparr>wr_sent := wr_sent w @ [p]\<rparr>" cx3 w1 cx1 c] by auto
    then show ?thesis using Cons by simp
  qed
qed

subsection \<open>The other threads only append\<close>

definition sends_succeed :: "link_event \<Rightarrow> bool" where
  "sends_succeed e =
     (case e of
        LnWrites now a t \<Rightarrow> a = None \<and> t = None
      | LnRestart \<Rightarrow> False
      | LnOpens now a b c \<Rightarrow> False
      | _ \<Rightarrow> True)"

text \<open>Nobody cancels: not the user, not the host by declining.\<close>

definition no_cancel :: "link_event \<Rightarrow> bool" where
  "no_cancel e =
     (case e of
        LnCancels outgoing incoming \<Rightarrow> \<not> outgoing
      | LnReceives now (Inr p) \<Rightarrow> (case p_message p of ClipDecline f \<Rightarrow> False | _ \<Rightarrow> True)
      | _ \<Rightarrow> True)"

lemma outgoing_kept [simp]:
  "cx_outgoing (send_event e cx) = cx_outgoing cx" "cx_outgoing (enqueue ps cx) = cx_outgoing cx @ ps"
  "cx_outgoing (reset_session cx) = cx_outgoing cx" "cx_outgoing (reader_exit cx) = cx_outgoing cx"
  "cx_clip (send_event e cx) = cx_clip cx" "cx_clip (enqueue ps cx) = cx_clip cx"
  "cx_clip (reset_session cx) = reset_session_state (cx_clip cx)" "cx_clip (reader_exit cx) = cx_clip cx"
  by (simp_all add: send_event_def enqueue_def reset_session_def reader_exit_def do_stores_def reader_exit_stores_def)

definition only_appends :: "bool \<Rightarrow> link_context \<Rightarrow> link_context \<Rightarrow> bool" where
  "only_appends c cx cx1 \<longleftrightarrow> (\<exists>ps. cx_outgoing cx1 = cx_outgoing cx @ ps) \<and> (c \<longrightarrow> cancelling cx1 = cancelling cx)"

lemma message_appends:
  assumes "on_message env b m rd cx = (go, rd1, cx1)" "c \<longrightarrow> (case m of ClipDecline f \<Rightarrow> False | _ \<Rightarrow> True)"
  shows "only_appends c cx cx1"
  using assms
  by (cases m)
    (auto simp: on_message_def on_hello_ack_def do_stores_def hello_ack_stores_def clip_cancelled_def
      link_clip_offer_def apply_clip_decline_def case_prod_beta Let_def only_appends_def
      split: option.splits if_splits)

lemma receives_appends:
  assumes "reader_receives env b idle busy now result rd cx = (go, rd1, cx1)"
    and "c \<longrightarrow> no_cancel (LnReceives now result)"
  shows "only_appends c cx cx1"
proof (cases result)
  case (Inr p)
  then show ?thesis using assms message_appends [of env b "p_message p"]
    by (fastforce simp: reader_receives_def no_cancel_def)
next
  case (Inl e)
  show ?thesis
  proof (cases "reads_timeout e")
    case True
    then show ?thesis using assms Inl
      by (auto simp: reader_receives_def on_silence_def only_appends_def Let_def split: if_splits)
  next
    case False
    then show ?thesis using assms Inl
      by (cases e) (auto simp: reader_receives_def only_appends_def case_prod_beta Let_def split: if_splits)
  qed
qed

lemma other_appends: "c \<longrightarrow> no_cancel e \<Longrightarrow> only_appends c cx (other_thread env e cx)"
proof (cases e)
  case (LnClip me)
  then show ?thesis
    by (cases me) (simp_all add: other_thread_def case_prod_beta Let_def only_appends_def)
qed (simp_all add: other_thread_def only_appends_def no_cancel_def)

text \<open>A pass of a thread that is not the writer.\<close>

lemma step_appends:
  assumes "sends_succeed e" "c \<longrightarrow> no_cancel e" "\<And>now a t. e \<noteq> LnWrites now a t"
  shows "only_appends c (sy_cx s) (sy_cx (link_step env b s e)) \<and> sy_writer (link_step env b s e) = sy_writer s"
proof (cases e)
  case (LnReport now)
  then show ?thesis
    by (auto simp: only_appends_def reader_report_def case_prod_beta split: option.split)
next
  case (LnReceives now result)
  show ?thesis
  proof (cases "sy_reader s")
    case None
    then show ?thesis using LnReceives by (simp add: only_appends_def)
  next
    case (Some rd)
    obtain go rd1 cx1 where r: "reader_receives env b RECV_TIMEOUT_IDLE RECV_TIMEOUT_BUSY now result rd (sy_cx s)
        = (go, rd1, cx1)" by (metis prod_cases3)
    then show ?thesis using receives_appends [OF r, of c] assms(2) Some LnReceives
      by (simp add: reader_pass_def only_appends_def)
  qed
qed (use assms other_appends in \<open>simp_all add: sends_succeed_def, simp_all add: only_appends_def\<close>)

subsection \<open>A whole run\<close>

text \<open>What a run queues, pass by pass.\<close>

fun queued_by :: "clip_env \<Rightarrow> bool \<Rightarrow> link_sys \<Rightarrow> link_event list \<Rightarrow> packet list" where
  "queued_by env b s [] = []"
| "queued_by env b s (e # es) =
     (case e of LnWrites now a t \<Rightarrow> []
      | _ \<Rightarrow> drop (length (cx_outgoing (sy_cx s))) (cx_outgoing (sy_cx (link_step env b s e))))
     @ queued_by env b (link_step env b s e) es"

lemma run_conserves:
  assumes "sy_writer s = Some w" "list_all sends_succeed es"
    and "c \<longrightarrow> \<not> cancelling (sy_cx s) \<and> list_all no_cancel es"
  shows "\<exists>w'. sy_writer (foldl (link_step env b) s es) = Some w'
    \<and> filter (counted c) (wr_sent w' @ cx_outgoing (sy_cx (foldl (link_step env b) s es)))
      = filter (counted c) (wr_sent w @ cx_outgoing (sy_cx s) @ queued_by env b s es)"
  using assms
proof (induction es arbitrary: s w)
  case (Cons e es)
  let ?s = "link_step env b s e"
  show ?case
  proof (cases "\<exists>now a t. e = LnWrites now a t")
    case True
    then obtain now where e: "e = LnWrites now None None" using Cons.prems(2) by (auto simp: sends_succeed_def)
    obtain w1 cx1 where p: "writer_pass now None None w (sy_cx s) = (w1, cx1)" by fastforce
    from pass_conserves [OF _ p, of c] Cons.prems(3) obtain w' where w':
      "w1 = Some w'" "filter (counted c) (wr_sent w' @ cx_outgoing cx1)
        = filter (counted c) (wr_sent w @ cx_outgoing (sy_cx s))" "c \<longrightarrow> \<not> cancelling cx1" by auto
    define s1 where "s1 = s\<lparr>sy_writer := Some w', sy_cx := cx1\<rparr>"
    have s: "link_step env b s e = s1" using e Cons.prems(1) p w'(1) by (simp add: s1_def)
    have "sy_writer s1 = Some w'" "sy_cx s1 = cx1" by (simp_all add: s1_def)
    moreover have "queued_by env b s (e # es) = queued_by env b s1 es" using s e by simp
    moreover have "filter (counted c) (wr_sent w' @ cx_outgoing cx1 @ q)
        = filter (counted c) (wr_sent w @ cx_outgoing (sy_cx s) @ q)" for q
      using w'(2) by (metis append_assoc filter_append)
    moreover have "list_all sends_succeed es" "c \<longrightarrow> \<not> cancelling cx1 \<and> list_all no_cancel es"
      using Cons.prems w'(3) by auto
    ultimately show ?thesis using Cons.IH [of s1 w'] by (simp only: s foldl_Cons)
  next
    case False
    then have n: "\<And>now a t. e \<noteq> LnWrites now a t" by blast
    have a: "only_appends c (sy_cx s) (sy_cx ?s)" "sy_writer ?s = sy_writer s"
      using step_appends [OF _ _ n, of c s env b] Cons.prems by auto
    then obtain ps where ps: "cx_outgoing (sy_cx ?s) = cx_outgoing (sy_cx s) @ ps"
      by (auto simp: only_appends_def)
    have q: "queued_by env b s (e # es) = ps @ queued_by env b ?s es"
      using False ps by (cases e) simp_all
    have "c \<longrightarrow> \<not> cancelling (sy_cx ?s)" using a(1) Cons.prems(3) by (simp add: only_appends_def)
    then show ?thesis using Cons.IH [of ?s w] Cons.prems a(2) ps q by simp
  qed
qed simp

section \<open>What a cancel drops\<close>

text \<open>Everything of a transfer that is queued when the flag is up goes, whichever transfer it is of.\<close>

lemma cancel_drops:
  assumes "list_all is_clip (cx_outgoing (sy_cx s))" "cancelling (sy_cx s)" "sy_writer s = Some w"
    and "length es = length (cx_outgoing (sy_cx s))" "list_all (\<lambda>e. \<exists>now a t. e = LnWrites now a t) es"
  shows "sy_writer (foldl (link_step env b) s es) = Some w
    \<and> sy_cx (foldl (link_step env b) s es) = (sy_cx s)\<lparr>cx_outgoing := []\<rparr>"
  using assms
proof (induction es arbitrary: s)
  case (Cons e es)
  then obtain p rest where q: "cx_outgoing (sy_cx s) = p # rest" by (cases "cx_outgoing (sy_cx s)") auto
  obtain now a t where e: "e = LnWrites now a t" using Cons.prems(5) by auto
  let ?s = "s\<lparr>sy_cx := (sy_cx s)\<lparr>cx_outgoing := rest\<rparr>\<rparr>"
  have "link_step env b s e = s\<lparr>sy_writer := Some w, sy_cx := (sy_cx s)\<lparr>cx_outgoing := rest\<rparr>\<rparr>"
    using Cons.prems q e by (simp add: writer_pass_def Let_def)
  moreover have "s\<lparr>sy_writer := Some w, sy_cx := cx\<rparr> = s\<lparr>sy_cx := cx\<rparr>" for cx
    using Cons.prems(3) by simp
  ultimately have "link_step env b s e = ?s" by simp
  then show ?case using Cons.IH [of ?s] Cons.prems q by simp
qed simp

section \<open>Reports\<close>

definition shell_bytes :: "message \<Rightarrow> nat" where
  "shell_bytes m = (case m of ShellOutput d \<Rightarrow> length d | PtyOutput d \<Rightarrow> length d | _ \<Rightarrow> 0)"

definition is_hello_ack :: "message \<Rightarrow> bool" where
  "is_hello_ack m = (case m of HelloAck v n w h \<Rightarrow> True | _ \<Rightarrow> False)"

lemma message_counts:
  assumes "on_message env b m rd cx = (go, rd1, cx1)" "\<not> is_hello_ack m"
  shows "rd_progress rd1 = rp_note (shell_bytes m) (rd_progress rd)"
proof -
  have [simp]: "rp_note 0 r = r" for r by (simp add: rp_note_def)
  show ?thesis using assms
    by (cases m) (auto simp: on_message_def link_clip_offer_def clip_cancelled_def apply_clip_decline_def
        shell_bytes_def is_hello_ack_def case_prod_beta Let_def split: if_splits)
qed

definition event_bytes :: "link_event \<Rightarrow> nat" where
  "event_bytes e = (case e of LnReceives now (Inr p) \<Rightarrow> shell_bytes (p_message p) | _ \<Rightarrow> 0)"

text \<open>Events within one handshake of one link.\<close>

definition within_session :: "link_event \<Rightarrow> bool" where
  "within_session e =
     (case e of
        LnReceives now (Inr p) \<Rightarrow> \<not> is_hello_ack (p_message p)
      | LnRestart \<Rightarrow> False
      | LnOpens now a b c \<Rightarrow> False
      | _ \<Rightarrow> True)"

definition progress_at :: "u64 \<Rightarrow> link_reader \<Rightarrow> bool" where
  "progress_at n rd \<longleftrightarrow> rp_enabled (rd_progress rd) \<and> rp_decoded (rd_progress rd) = n"

lemma receives_counts:
  assumes "reader_receives env b idle busy now result rd cx = (go, rd1, cx1)" "within_session (LnReceives now result)"
    and "progress_at n rd"
  shows "progress_at (n + of_nat (event_bytes (LnReceives now result))) rd1"
proof (cases result)
  case (Inr p)
  then have "rd_progress rd1 = rp_note (shell_bytes (p_message p)) (rd_progress rd)"
    using assms(1,2) message_counts [of env b "p_message p"
        "rd\<lparr>rd_storm := on_valid_packet (rd_storm rd), rd_last_recv := now\<rparr>"]
    by (simp add: reader_receives_def within_session_def)
  then show ?thesis using assms(3) Inr by (simp add: progress_at_def event_bytes_def rp_note_def)
next
  case (Inl e)
  have "rd_progress rd1 = rd_progress rd"
    using assms(1) Inl
    by (cases e) (auto simp: reader_receives_def on_silence_def case_prod_beta Let_def split: if_splits)
  then show ?thesis using assms(3) Inl by (simp add: progress_at_def event_bytes_def)
qed

lemma step_counts:
  assumes "sy_reader s = Some rd" "within_session e" "progress_at n rd"
  shows "case sy_reader (link_step env b s e) of None \<Rightarrow> True | Some rd' \<Rightarrow> progress_at (n + of_nat (event_bytes e)) rd'"
proof (cases e)
  case (LnReceives now result)
  obtain go rd1 cx1 where r: "reader_receives env b RECV_TIMEOUT_IDLE RECV_TIMEOUT_BUSY now result rd (sy_cx s)
      = (go, rd1, cx1)" by (metis prod_cases3)
  then show ?thesis using assms LnReceives receives_counts [OF r] by (simp add: reader_pass_def)
next
  case (LnReport now)
  then show ?thesis using assms
    by (auto simp: reader_report_def progress_at_def rp_mark_sent_def event_bytes_def case_prod_beta split: option.split)
next
  case (LnWrites now a t)
  then show ?thesis using assms by (simp add: case_prod_beta event_bytes_def Let_def split: option.split)
qed (use assms in \<open>simp_all add: within_session_def event_bytes_def\<close>)

lemma gone_stays:
  "sy_reader s = None \<Longrightarrow> list_all within_session es \<Longrightarrow> sy_reader (foldl (link_step env b) s es) = None"
proof (induction es arbitrary: s)
  case (Cons e es)
  have "sy_reader (link_step env b s e) = None"
    using Cons.prems by (cases e) (simp_all add: within_session_def case_prod_beta Let_def split: option.split)
  then show ?case using Cons by simp
qed simp

lemma run_counts:
  assumes "sy_reader s = Some rd" "list_all within_session es" "progress_at n rd"
    and "sy_reader (foldl (link_step env b) s es) = Some rd'"
  shows "progress_at (n + of_nat (sum_list (map event_bytes es))) rd'"
  using assms
proof (induction es arbitrary: s rd n)
  case (Cons e es)
  show ?case
  proof (cases "sy_reader (link_step env b s e)")
    case None
    then show ?thesis using gone_stays [of "link_step env b s e" es env b] Cons.prems by simp
  next
    case (Some rd1)
    then have "progress_at (n + of_nat (event_bytes e)) rd1"
      using step_counts [OF Cons.prems(1) _ Cons.prems(3), of e env b] Cons.prems(2) by simp
    from Cons.IH [OF Some _ this] Cons.prems show ?thesis by (simp add: add.assoc)
  qed
qed simp

end
