(* ===== verification/LinkProps.thy ===== *)
theory LinkProps
  imports ClientLinkWriter ClientProps
begin

text \<open>
  The properties of the client's end of the link (\<open>apps/wiredesk-client/src/link.rs\<close>,
  \<open>exec_bridge.rs\<close>), over every interleaving of its reader, writer, supervisor and the threads
  that use them.
\<close>

section \<open>The gate\<close>


definition greeted_events :: "link_event list" where
  "greeted_events =
     [LnRestart, LnOpens 0 None None None, LnReceives 5 (Inr (packet_new (HelloAck 5 [104] 800 600) 0))]"

definition greeted :: link_sys where
  "greeted = foldl (link_step sample_env True) (link_start [109] (sample_mac None)) greeted_events"

lemmas greeted_simps = greeted_def greeted_events_def link_start_def tear_down_link_def try_open_def
  writer_start_def reader_start_def reader_pass_def reader_receives_def on_message_def on_hello_ack_def
  do_stores_def hello_ack_stores_def send_event_def reset_session_def packet_new_def saturating_inc_def
  Let_def

lemma greeted_facts:
  "cx_link_up (sy_cx greeted)" "sy_phase greeted = SupWaiting"
  "sy_reader greeted = Some \<lparr>rd_storm = on_valid_packet (storm_new DEFAULT_STORM_THRESHOLD), rd_last_recv = 5,
     rd_handshaked = True, rd_cancel_seen = False, rd_progress = rp_reset True\<rparr>"
  "sy_writer greeted = Some \<lparr>wr_last_heartbeat = 0, wr_sent = [packet_new (Hello VERSION [109]) 0]\<rparr>"
  "cx_outgoing (sy_cx greeted) = []" "cx_slots (sy_cx greeted) = slots_new"
  "cx_clip (sy_cx greeted) = reset_session_state (sample_mac None)"
  by (simp_all add: greeted_simps hello_packet_def forget_host_generation_def slots_new_def
      rx_progress_supported_def pty_slot_supported_def)


text \<open>
  At the grain of single stores the opening is safe and the closing is not: while a
  \<open>HelloAck\<close> is handled the gate opens behind the cache and the mode, but when the reader
  ends, the cache is emptied first, so there is a moment with the gate open and no host behind it.
\<close>

lemma gate_outlives_cache:
  "list_all (\<lambda>k. let cx = do_stores (take k (hello_ack_stores v name w h)) (cx0\<lparr>cx_link_up := False\<rparr>) in
      cx_link_up cx \<longrightarrow> map_option hi_proto (cx_host_info cx) = Some v
        \<and> ss_legacy_fallback (cx_slots cx) = (\<not> pty_slot_supported v)) [0..<7]
   \<and> cx_link_up (do_stores (take 1 reader_exit_stores) cx0) = cx_link_up cx0
   \<and> cx_host_info (do_stores (take 1 reader_exit_stores) cx0) = None"
  by (simp add: upt_rec do_stores_def hello_ack_stores_def reader_exit_stores_def send_event_def
      reset_session_def Let_def)

lemma gate_outlives_cache_witness:
  "cx_link_up (do_stores (take 1 reader_exit_stores) (sy_cx greeted))
   \<and> cx_host_info (do_stores (take 1 reader_exit_stores) (sy_cx greeted)) = None"
  using gate_outlives_cache [where v = 5 and name = "[]" and w = 0 and h = 0 and ?cx0.0 = "sy_cx greeted"]
    greeted_facts(1) by simp

text \<open>
  A writer that fails closes the gate, but a \<open>HelloAck\<close> still on its way opens it again in
  front of a queue that nobody drains, until the supervisor acts.
\<close>

lemma gate_reopened_without_writer:
  assumes "sy_reader s = Some rd" "sy_writer s = Some w" "cx_outgoing (sy_cx s) = p # rest"
    and "\<not> (is_clip p \<and> mc_outgoing_cancel (cx_clip (sy_cx s)))"
  shows "let s1 = link_step env b s (LnWrites now (Some (Io msg)) None);
             s2 = link_step env b s1 (LnReceives now' (Inr (packet_new (HelloAck v name ww hh) seq)))
    in sy_writer s1 = None \<and> \<not> cx_link_up (sy_cx s1)
     \<and> sy_writer s2 = None \<and> cx_link_up (sy_cx s2) \<and> cx_outgoing (sy_cx s2) = rest"
proof -
  have "writer_pass now (Some (Io msg)) None w (sy_cx s) = (None, writer_fails (Io msg)
      (if mc_outgoing_cancel (cx_clip (sy_cx s)) then clear_cancel ((sy_cx s)\<lparr>cx_outgoing := rest\<rparr>)
       else (sy_cx s)\<lparr>cx_outgoing := rest\<rparr>))"
    using assms(3,4) by (auto simp: writer_pass_def writer_sends_def Let_def)
  then show ?thesis
    using assms(1,2)
    by (simp add: Let_def writer_fails_def reader_pass_def reader_receives_def on_message_def on_hello_ack_def
        packet_new_def do_stores_def hello_ack_stores_def clear_cancel_def) (simp add: send_event_def reset_session_def)
qed

definition sample_queue :: link_sys where
  "sample_queue = link_step sample_env True greeted (LnQueues [packet_new ShellClose 0])"

lemma gate_reopened_without_writer_witness:
  "let s1 = link_step sample_env True sample_queue (LnWrites 6 (Some (Io ''gone'')) None);
       s2 = link_step sample_env True s1 (LnReceives 7 (Inr (packet_new (HelloAck 5 [104] 800 600) 0)))
   in sy_writer s2 = None \<and> cx_link_up (sy_cx s2)"
  using gate_reopened_without_writer [of sample_queue _ _ "packet_new ShellClose 0" "[]",
      where env = sample_env and b = True and now = 6 and msg = "''gone''" and now' = 7 and v = 5
        and name = "[104]" and ww = 800 and hh = 600 and seq = 0]
  by (simp add: sample_queue_def greeted_facts other_thread_def enqueue_def is_clip_def packet_new_def Let_def)

section \<open>The end of a link\<close>




text \<open>
  C22: a host from which nothing is heard is given up within the limit: once the reader has waited
  thirty seconds since the last packet, whatever the other threads did meanwhile, it has ended, the
  gate is shut and the cache is empty.
\<close>

theorem silent_host_given_up:
  assumes "link_inv s" "sy_reader s = Some rd" "list_all hears_nothing es"
    and "LnReceives now (Inl er) \<in> set es" "reads_timeout er" "rd_last_recv rd + RECV_TIMEOUT_BUSY \<le> now"
  shows "sy_reader (foldl (link_step env b) s es) = None
    \<and> \<not> cx_link_up (sy_cx (foldl (link_step env b) s es))
    \<and> cx_host_info (sy_cx (foldl (link_step env b) s es)) = None"
proof -
  have "sy_reader (foldl (link_step env b) s es) = None"
    by (rule silent_run [OF _ assms(3-6)]) (simp add: still_silent_def assms(2))
  moreover have "link_inv (foldl (link_step env b) s es)"
    by (rule linkm.run_inv [OF assms(1)]) (simp add: list.pred_True)
  ultimately show ?thesis by (auto simp: link_inv_def gate_def split: option.splits)
qed

lemma greeted_inv: "link_inv greeted"
  unfolding greeted_def by (rule linkm.reachable_inv) (simp add: list.pred_True)

theorem silent_host_given_up_witness:
  "sy_reader (foldl (link_step sample_env True) greeted
     [LnInstalls SlotExec, LnReceives 30005 (Inl (Transport ''read timeout''))]) = None"
  using silent_host_given_up [OF greeted_inv greeted_facts(3),
      of "[LnInstalls SlotExec, LnReceives 30005 (Inl (Transport ''read timeout''))]" 30005 "Transport ''read timeout''"]
  by (simp add: hears_nothing_def reads_timeout_def RECV_TIMEOUT_BUSY_def)

section \<open>The queue\<close>

text \<open>
  C13: while its sends succeed the writer puts every packet that was queued on the wire once and in
  the order of the queue, between its own heartbeats and greetings: what it has sent followed by
  what still waits is what it had sent and all that was queued. When transfers are cancelled this
  holds of all other packets; when none is, of the transfers too.
\<close>

theorem writer_in_order:
  assumes "sy_writer s = Some w" "list_all sends_succeed es"
    and "clips \<longrightarrow> \<not> mc_outgoing_cancel (cx_clip (sy_cx s)) \<and> list_all no_cancel es"
  shows "\<exists>w'. sy_writer (foldl (link_step env b) s es) = Some w'
    \<and> filter (counted clips) (wr_sent w' @ cx_outgoing (sy_cx (foldl (link_step env b) s es)))
      = filter (counted clips) (wr_sent w @ cx_outgoing (sy_cx s) @ queued_by env b s es)"
  using assms by (rule run_conserves)

theorem writer_in_order_witness:
  "\<exists>w'. sy_writer (foldl (link_step sample_env True) sample_queue [LnWrites 2000 None None]) = Some w'
    \<and> filter (counted True) (wr_sent w') = [packet_new ShellClose 0]"
proof -
  have s: "sy_writer sample_queue = sy_writer greeted" "cx_outgoing (sy_cx sample_queue) = [packet_new ShellClose 0]"
    "\<not> mc_outgoing_cancel (cx_clip (sy_cx sample_queue))"
    by (simp_all add: sample_queue_def other_thread_def enqueue_def greeted_facts) (simp add: sample_mac_def)
  have "cx_outgoing (sy_cx (link_step sample_env True sample_queue (LnWrites 2000 None None))) = []"
    using s by (simp add: greeted_facts writer_pass_def writer_sends_def writer_tick_def is_clip_def packet_new_def Let_def)
  then show ?thesis
    using writer_in_order [of sample_queue _ "[LnWrites 2000 None None]" True, where env = sample_env and b = True] s
    by (simp add: greeted_facts sends_succeed_def no_cancel_def counted_def is_tick_packet_def is_clip_def packet_new_def)
qed






section \<open>Routing\<close>



section \<open>Reports\<close>

text \<open>
  To a host that asked for reports, a report gives exactly the bytes of shell and console
  output decoded since the greeting, whatever arrived and happened in between; it is made while a
  console is open, when there is something new, and at most every fifty milliseconds.
\<close>

lemma reports_count_output:
  assumes "sy_reader s = Some rd" "rd_progress rd = rp_reset True" "list_all within_session es"
    and "s1 = foldl (link_step env b) s es" "sy_reader s1 = Some rd1"
  shows "cx_outgoing (sy_cx (link_step env b s1 (LnReport now))) = cx_outgoing (sy_cx s1) @
    (if pty_installed (cx_slots (sy_cx s1))
        \<and> rp_reported (rd_progress rd1) \<noteq> of_nat (sum_list (map event_bytes es))
        \<and> (case rp_last_sent (rd_progress rd1) of None \<Rightarrow> True | Some t \<Rightarrow> t + 50 \<le> now)
     then [packet_new (RxProgress (of_nat (sum_list (map event_bytes es)))) 0] else [])"
proof -
  have "progress_at 0 rd" by (simp add: progress_at_def assms(2) rp_reset_def rp_default_def)
  from run_counts [OF assms(1,3) this, of env b rd1] assms(4,5)
  have p: "rp_enabled (rd_progress rd1)" "rp_decoded (rd_progress rd1) = of_nat (sum_list (map event_bytes es))"
    by (simp_all add: progress_at_def)
  then show ?thesis
    using assms(5)
    by (auto simp: reader_report_def rp_due_def RX_PROGRESS_INTERVAL_def case_prod_beta split: option.splits)
qed

lemma reports_count_output_witness:
  "cx_outgoing (sy_cx (link_step sample_env True (foldl (link_step sample_env True) greeted
      [LnInstalls SlotPty, LnReceives 9 (Inr (packet_new (PtyOutput [65, 66, 67]) 0))]) (LnReport 10)))
   = [packet_new (RxProgress 3) 0]"
proof -
  let ?es = "[LnInstalls SlotPty, LnReceives 9 (Inr (packet_new (PtyOutput [65, 66, 67]) 0))]"
  let ?s1 = "foldl (link_step sample_env True) greeted ?es"
  have s1: "sy_reader ?s1 = Some \<lparr>rd_storm = on_valid_packet (on_valid_packet (storm_new DEFAULT_STORM_THRESHOLD)),
       rd_last_recv = 9, rd_handshaked = True, rd_cancel_seen = False, rd_progress = rp_note (Suc (Suc (Suc 0))) (rp_reset True)\<rparr>"
    "cx_outgoing (sy_cx ?s1) = []" "pty_installed (cx_slots (sy_cx ?s1))"
    by (simp_all add: greeted_facts other_thread_def reader_pass_def reader_receives_def on_message_def packet_new_def
        slot_install_def slots_new_def route_message_def shell_event_of_def route_def deliver_def pty_installed_def Let_def)
  have "list_all within_session ?es" "rd_progress (the (sy_reader greeted)) = rp_reset True"
    by (simp_all add: within_session_def is_hello_ack_def packet_new_def greeted_facts)
  then show ?thesis
    using reports_count_output [OF greeted_facts(3) _ _ refl s1(1), where now = 10] s1(2,3)
    by (simp add: event_bytes_def shell_bytes_def packet_new_def rp_note_def rp_reset_def rp_default_def)
qed

end
