(* ===== verification/ClientIpc.thy ===== *)
theory ClientIpc
  imports ClientLink ExecIpc ShellChannel
begin

text \<open>
  \<open>apps/wiredesk-client/src/ipc.rs\<close>: the window's socket server. One handler per connection: a
  \<open>wd --exec\<close> run, an interactive console, or the browser companion. Handlers are functions of
  what they observe, in the order they observe it: the gate and the host's generation, whether a
  write or a clone succeeded, the events of their slot with the time each wait took. What a
  handler does to the shared state is its list of queued packets, the frames it writes to its
  socket and the guards it takes and drops.
\<close>

section \<open>The transport of a run\<close>

text \<open>\<open>IpcExecTransport::recv_event\<close>: the end of a wait is \<open>Idle\<close>, a dropped sender is an error.\<close>

datatype slot_wait = SlotEvent exec_event | SlotQuiet | SlotGone

fun ipc_recv_event :: "nat \<times> slot_wait \<Rightarrow> nat \<times> (exec_error + exec_event)" where
  "ipc_recv_event (d, SlotEvent ev) = (d, Inr ev)"
| "ipc_recv_event (d, SlotQuiet) = (d, Inr EvIdle)"
| "ipc_recv_event (d, SlotGone) = (d, Inl ExClosed)"

text \<open>\<open>send_input\<close>: the writer's queue outlives the links, so a send fails only with the program.\<close>

definition ipc_wire :: "bool \<Rightarrow> (nat \<times> slot_wait) list \<Rightarrow> exec_wire" where
  "ipc_wire queue_open waits =
     \<lparr>ew_sent = [], ew_send_script = (if queue_open then [] else [(0, Some ExClosed)]),
      ew_events = map ipc_recv_event waits, ew_now = 0\<rparr>"

definition host_supports_pty_slot :: "host_info option \<Rightarrow> bool" where
  "host_supports_pty_slot info = (case info of None \<Rightarrow> False | Some hi \<Rightarrow> pty_slot_supported (hi_proto hi))"

section \<open>Accepting\<close>

definition MAX_ACCEPT_ERRORS :: u32 where "MAX_ACCEPT_ERRORS = 10"

text \<open>The acceptor's loop over what \<open>accept\<close> returns: the connections handed on, and whether it gave up.\<close>

fun accept_loop :: "u32 \<Rightarrow> bytes option list \<Rightarrow> bytes list \<times> bool" where
  "accept_loop n [] = ([], False)"
| "accept_loop n (Some stream # rest) = (let (streams, gave_up) = accept_loop 0 rest in (stream # streams, gave_up))"
| "accept_loop n (None # rest) = (if n + 1 \<ge> MAX_ACCEPT_ERRORS then ([], True) else accept_loop (n + 1) rest)"

text \<open>The first frame of a connection chooses its handler; one that does not decode drops it.\<close>

definition dispatch_connection :: "(bytes \<Rightarrow> ipc_error + ipc_connect) \<Rightarrow> bytes \<Rightarrow> ipc_connect option" where
  "dispatch_connection de stream = (case fst (read_connect de stream) of Inl e \<Rightarrow> None | Inr conn \<Rightarrow> Some conn)"

definition CMD_LOG_CHARS :: nat where "CMD_LOG_CHARS = 160"

text \<open>What the log keeps of a command, and how many characters it leaves out.\<close>

definition abbreviate_cmd :: "ustring \<Rightarrow> ustring \<times> nat option" where
  "abbreviate_cmd cmd =
     (let n = length cmd in
      if n \<le> CMD_LOG_CHARS then (cmd, None) else (take CMD_LOG_CHARS cmd, Some (n - CMD_LOG_CHARS)))"

section \<open>A run of \<open>wd --exec\<close>\<close>

datatype refusal = Reconnecting | ConsoleActive

text \<open>What the response frames say; the texts of refusals and failures are their reasons.\<close>

datatype exec_frame =
    FrStdout bytes
  | FrExit i32
  | FrOpenFailed
  | FrTransport string
  | FrClosed
  | FrCompression string
  | FrUnavailable refusal

definition final_frame :: "exec_error + i32 \<Rightarrow> exec_frame" where
  "final_frame result =
     (case result of
        Inr code \<Rightarrow> FrExit code
      | Inl (ExTimeout buf) \<Rightarrow> FrExit 124
      | Inl (ExTransport m) \<Rightarrow> FrTransport m
      | Inl ExClosed \<Rightarrow> FrClosed
      | Inl (ExCompressionFailed m) \<Rightarrow> FrCompression m)"

definition post_run_idle :: "bool \<Rightarrow> nat" where
  "post_run_idle sentinel_seen = (if sentinel_seen then 150 else 2000)"

definition SHELL_KILL_GRACE_MAX :: nat where "SHELL_KILL_GRACE_MAX = 30000"

text \<open>
  The wait behind a run, until the host's answer, a quiet wait or the limit. A wait takes at most
  the budget; the script's times are cut to it. The result is the time spent and whether the
  answer came.
\<close>

fun post_run_drain :: "nat \<Rightarrow> nat \<Rightarrow> (nat \<times> slot_wait) list \<Rightarrow> nat \<times> bool" where
  "post_run_drain idle spent waits =
     (if spent \<ge> SHELL_KILL_GRACE_MAX then (spent, False)
      else case waits of
        [] \<Rightarrow> (spent + idle, False)
      | (d, SlotEvent ev) # rest \<Rightarrow>
          let now = spent + min d idle in
          if ev = EvShellClosed \<or> (\<exists>c. ev = EvShellExit c) then (now, True)
          else post_run_drain idle now rest
      | (d, SlotQuiet) # rest \<Rightarrow> (spent + idle, False)
      | (d, SlotGone) # rest \<Rightarrow> (spent + min d idle, False))"

declare post_run_drain.simps [simp del]

record exec_view =
  xv_link_up :: bool
  xv_host_info :: "host_info option"
  xv_keepalive_ok :: bool
  xv_link_up_again :: bool
  xv_queue_open :: bool
  xv_clone_ok :: bool
  xv_waits :: "(nat \<times> slot_wait) list"
  xv_drain :: "(nat \<times> slot_wait) list"

record exec_effect =
  xo_frames :: "exec_frame list"
  xo_packets :: "packet list"
  xo_held :: nat

definition exec_refused :: "exec_frame list \<Rightarrow> exec_effect" where
  "exec_refused fs = \<lparr>xo_frames = fs, xo_packets = [], xo_held = 0\<rparr>"

text \<open>Behind the lock: the second look at the gate, the run, the final frame, the drain.\<close>

definition exec_locked ::
  "(bytes \<Rightarrow> string + bytes) \<Rightarrow> (bytes \<Rightarrow> string + bytes) \<Rightarrow> ustring \<Rightarrow> ustring \<Rightarrow> ustring option \<Rightarrow> nat
     \<Rightarrow> bool \<Rightarrow> exec_view \<Rightarrow> exec_effect" where
  "exec_locked base64 gunzip u cmd ssh timeout_secs compress v =
     (if \<not> xv_link_up_again v then exec_refused [FrUnavailable Reconnecting]
      else if \<not> xv_queue_open v then exec_refused [FrOpenFailed]
      else if \<not> xv_clone_ok v
      then \<lparr>xo_frames = [], xo_packets = [packet_new (ShellOpen []) 0], xo_held = 0\<rparr>
      else
        let (result, w, calls) =
              run_oneshot base64 gunzip u cmd ssh timeout_secs compress (ipc_wire (xv_queue_open v) (xv_waits v));
            (spent, answered) = post_run_drain (post_run_idle (is_ok result)) 0 (xv_drain v)
        in \<lparr>xo_frames = map FrStdout calls @ [final_frame result],
            xo_packets = packet_new (ShellOpen []) 0 # concat (map shell_input_packets (ew_sent w))
              @ [packet_new ShellClose 0],
            xo_held = ew_now w + spent\<rparr>)"

text \<open>In front of the lock: the gate, the claim of the channel, the keepalive. The guard drops at the end.\<close>

definition handle_exec ::
  "(bytes \<Rightarrow> string + bytes) \<Rightarrow> (bytes \<Rightarrow> string + bytes) \<Rightarrow> ustring \<Rightarrow> ustring \<Rightarrow> ustring option \<Rightarrow> nat
     \<Rightarrow> bool \<Rightarrow> exec_view \<Rightarrow> channel_state \<Rightarrow> exec_effect \<times> channel_state" where
  "handle_exec base64 gunzip u cmd ssh timeout_secs compress v owner =
     (if \<not> xv_link_up v then (exec_refused [FrUnavailable Reconnecting], owner)
      else case try_acquire owner OwnerExec (host_supports_pty_slot (xv_host_info v)) of
        (None, owner1) \<Rightarrow> (exec_refused [FrUnavailable ConsoleActive], owner1)
      | (Some k, owner1) \<Rightarrow>
          if \<not> xv_keepalive_ok v then (exec_refused [], guard_drop k owner1)
          else
            let e = exec_locked base64 gunzip u cmd ssh timeout_secs compress v in
            (e\<lparr>xo_frames := FrStdout [] # xo_frames e\<rparr>, guard_drop k owner1))"

section \<open>An interactive console\<close>

definition SYNTH_HELLO_ACK_VERSION :: u8 where "SYNTH_HELLO_ACK_VERSION = 1"
definition RELAY_REFUSE_CODE :: u16 where "RELAY_REFUSE_CODE = 125"

definition relay_error_packet :: "rstring \<Rightarrow> packet" where
  "relay_error_packet msg = packet_new (Error RELAY_REFUSE_CODE msg) 0"

definition synth_hello_ack :: "host_info option \<Rightarrow> packet" where
  "synth_hello_ack info =
     (let (host_name, screen_w, screen_h) =
        (case info of Some hi \<Rightarrow> (hi_name hi, ucast (hi_width hi), ucast (hi_height hi)) | None \<Rightarrow> ([], 0, 0))
      in packet_new (HelloAck SYNTH_HELLO_ACK_VERSION host_name screen_w screen_h) 0)"

definition open_message :: "bool \<Rightarrow> ipc_interactive_open \<Rightarrow> message" where
  "open_message dual open =
     (if dual then PtyOpen (io_shell open) (io_cols open) (io_rows open)
      else ShellOpenPty (io_shell open) (io_cols open) (io_rows open))"

definition close_message :: "bool \<Rightarrow> message" where
  "close_message dual = (if dual then PtyClose else ShellClose)"

text \<open>A packet of the terminal: the dialect's input, then what is forwarded and what ends the relay.\<close>

definition readdress :: "bool \<Rightarrow> packet \<Rightarrow> packet" where
  "readdress dual pkt =
     (if dual
      then (case p_message pkt of
              ShellInput data \<Rightarrow> packet_new (PtyInput data) (p_seq pkt)
            | message \<Rightarrow> packet_new message (p_seq pkt))
      else pkt)"

datatype relay_verdict = RelayDrops | RelayStops | RelayForwards packet

definition on_term_packet :: "bool \<Rightarrow> packet \<Rightarrow> relay_verdict" where
  "on_term_packet dual pkt0 =
     (let pkt = readdress dual pkt0 in
      case p_message pkt of
        Hello v n \<Rightarrow> RelayDrops
      | Heartbeat \<Rightarrow> RelayDrops
      | ShellClose \<Rightarrow> RelayStops
      | Disconnect \<Rightarrow> RelayStops
      | ShellInput d \<Rightarrow> RelayForwards pkt
      | PtyInput d \<Rightarrow> RelayForwards pkt
      | PtyResize c r \<Rightarrow> RelayForwards pkt
      | _ \<Rightarrow> RelayDrops)"

text \<open>An event of the slot: what is written to the terminal, and whether the pump ends.\<close>

definition on_slot_event :: "exec_event \<Rightarrow> packet list \<times> bool" where
  "on_slot_event ev =
     (case ev of
        EvShellOutput data \<Rightarrow> ([packet_new (ShellOutput data) 0], False)
      | EvShellExit code \<Rightarrow> ([packet_new (ShellExit code) 0], True)
      | EvShellClosed \<Rightarrow> ([], False)
      | EvHostError msg \<Rightarrow> ([packet_new (Error 0 msg) 0], True)
      | EvIdle \<Rightarrow> ([], False))"

text \<open>
  The two pumps. The reader thread reads the terminal until \<open>stop\<close>; the main thread looks at the
  gate, then at \<open>stop\<close>, then waits for an event. A write of output that fails ends the main pump.
\<close>

record relay =
  rl_queued :: "packet list"
  rl_frames :: "packet list"
  rl_stop :: bool
  rl_reading :: bool
  rl_pumping :: bool

datatype relay_step =
    TermSends packet bool
  | TermGone
  | PumpPass bool "slot_wait" bool

definition relay_start :: relay where
  "relay_start = \<lparr>rl_queued = [], rl_frames = [], rl_stop = False, rl_reading = True, rl_pumping = True\<rparr>"

definition term_sends :: "bool \<Rightarrow> packet \<Rightarrow> bool \<Rightarrow> relay \<Rightarrow> relay" where
  "term_sends dual pkt queue_open r =
     (if \<not> rl_reading r then r
      else if rl_stop r then r\<lparr>rl_reading := False\<rparr>
      else case on_term_packet dual pkt of
        RelayDrops \<Rightarrow> r
      | RelayStops \<Rightarrow> r\<lparr>rl_stop := True, rl_reading := False\<rparr>
      | RelayForwards p \<Rightarrow>
          if queue_open then r\<lparr>rl_queued := rl_queued r @ [p]\<rparr>
          else r\<lparr>rl_stop := True, rl_reading := False\<rparr>)"

definition pump_pass :: "bool \<Rightarrow> slot_wait \<Rightarrow> bool \<Rightarrow> relay \<Rightarrow> relay" where
  "pump_pass link_up w write_ok r =
     (if \<not> rl_pumping r then r
      else if \<not> link_up
      then r\<lparr>rl_frames := rl_frames r @ [packet_new Disconnect 0], rl_pumping := False\<rparr>
      else if rl_stop r then r\<lparr>rl_pumping := False\<rparr>
      else case w of
        SlotQuiet \<Rightarrow> r
      | SlotGone \<Rightarrow> r\<lparr>rl_pumping := False\<rparr>
      | SlotEvent ev \<Rightarrow>
          let (ps, ends) = on_slot_event ev in
          if ps \<noteq> [] \<and> \<not> write_ok then r\<lparr>rl_pumping := False\<rparr>
          else r\<lparr>rl_frames := rl_frames r @ ps, rl_pumping := \<not> ends\<rparr>)"

fun relay_pass :: "bool \<Rightarrow> relay \<Rightarrow> relay_step \<Rightarrow> relay" where
  "relay_pass dual r (TermSends pkt queue_open) = term_sends dual pkt queue_open r"
| "relay_pass dual r TermGone = (if rl_reading r then r\<lparr>rl_stop := True, rl_reading := False\<rparr> else r)"
| "relay_pass dual r (PumpPass link_up w write_ok) = pump_pass link_up w write_ok r"

text \<open>The cache of the host is read three times: for readiness, for the dialect, for the answer.\<close>

record console_view =
  cv_link_up :: bool
  cv_host_info :: "host_info option"
  cv_host_info_then :: "host_info option"
  cv_host_info_at_ack :: "host_info option"
  cv_first :: "packet option"
  cv_ack_ok :: bool
  cv_queue_open :: bool
  cv_clone_ok :: bool
  cv_steps :: "relay_step list"

record console_effect =
  co_frames :: "packet list"
  co_packets :: "packet list"
  co_slot :: "slot_kind option"

definition console_refused :: "packet list \<Rightarrow> slot_kind option \<Rightarrow> console_effect" where
  "console_refused fs slot = \<lparr>co_frames = fs, co_packets = [], co_slot = slot\<rparr>"

text \<open>With the console claimed and the slot installed: the handshake, the open, the pumps, the teardown.\<close>

definition console_session :: "bool \<Rightarrow> ipc_interactive_open \<Rightarrow> console_view \<Rightarrow> console_effect" where
  "console_session dual open v =
     (let slot = Some (if dual then SlotPty else SlotExec); opened = packet_new (open_message dual open) 0 in
      case cv_first v of
        None \<Rightarrow> console_refused [] slot
      | Some pkt \<Rightarrow>
          (case p_message pkt of
             Hello ver name \<Rightarrow>
               if \<not> cv_ack_ok v then console_refused [] slot
               else
                 let ack = synth_hello_ack (cv_host_info_at_ack v) in
                 if \<not> cv_queue_open v then console_refused [ack] slot
                 else if \<not> cv_clone_ok v
                 then \<lparr>co_frames = [ack], co_packets = [opened], co_slot = slot\<rparr>
                 else
                   let r = foldl (relay_pass dual) relay_start (cv_steps v) in
                   \<lparr>co_frames = ack # rl_frames r,
                    co_packets = opened # rl_queued r @ [packet_new (close_message dual) 0],
                    co_slot = slot\<rparr>
           | _ \<Rightarrow> console_refused [] slot))"

definition handle_console ::
  "rstring \<Rightarrow> rstring \<Rightarrow> ipc_interactive_open \<Rightarrow> console_view \<Rightarrow> channel_state \<Rightarrow> console_effect \<times> channel_state" where
  "handle_console not_ready busy open v owner =
     (if \<not> cv_link_up v \<or> cv_host_info v = None then (console_refused [relay_error_packet not_ready] None, owner)
      else
        let dual = host_supports_pty_slot (cv_host_info_then v) in
        case try_acquire owner OwnerInteractive dual of
          (None, owner1) \<Rightarrow> (console_refused [relay_error_packet busy] None, owner1)
        | (Some k, owner1) \<Rightarrow> (console_session dual open v, guard_drop k owner1))"

section \<open>The browser companion\<close>

definition BROWSER_QUEUE :: nat where "BROWSER_QUEUE = 64"

datatype browser_refusal = NoHost | AlreadyConnected

text \<open>The claim of the route, under its lock; ids are handed out in order and not reused.\<close>

record browser_gate =
  bg_slots :: shell_slots
  bg_next :: u64
  bg_link_up :: bool
  bg_host_info :: "host_info option"
  bg_outgoing :: "packet list"

definition claim_browser :: "browser_gate \<Rightarrow> (browser_refusal + u64) \<times> browser_gate" where
  "claim_browser g =
     (case bg_host_info g of
        None \<Rightarrow> (Inl NoHost, g)
      | Some info \<Rightarrow>
          if \<not> (bg_link_up g \<and> browser_supported (hi_proto info)) then (Inl NoHost, g)
          else
            let n = bg_next g; g1 = g\<lparr>bg_next := n + 1\<rparr> in
            if ss_browser (bg_slots g) \<noteq> None then (Inl AlreadyConnected, g1)
            else (Inr n, g1\<lparr>bg_slots := (bg_slots g)\<lparr>ss_browser :=
              Some \<lparr>br_id = n, br_alive = True, br_capacity = BROWSER_QUEUE, br_queue = []\<rparr>\<rparr>\<rparr>))"

definition owns_route :: "u64 \<Rightarrow> browser_gate \<Rightarrow> bool" where
  "owns_route n g = (case ss_browser (bg_slots g) of None \<Rightarrow> False | Some b \<Rightarrow> br_id b = n)"

text \<open>
  A packet of the companion: the ownership check and the enqueueing are one step. The result says
  whether the input pump goes on.
\<close>

definition browser_input :: "u8 \<Rightarrow> u64 \<Rightarrow> bool \<Rightarrow> packet \<Rightarrow> browser_gate \<Rightarrow> bool \<times> browser_gate" where
  "browser_input proto n alive pkt g =
     (if \<not> alive \<or> \<not> bg_link_up g then (False, g)
      else case p_message pkt of
        Browser stream kind offset data \<Rightarrow>
          if kind = 8 \<and> \<not> desktop_supported proto then (False, g)
          else if \<not> owns_route n g then (False, g)
          else (True, g\<lparr>bg_outgoing := bg_outgoing g @ [pkt]\<rparr>)
      | _ \<Rightarrow> (False, g))"

text \<open>The end of a companion: its reset while it still owns the route, then the guard's release.\<close>

definition browser_reset :: "u64 \<Rightarrow> browser_gate \<Rightarrow> browser_gate" where
  "browser_reset n g =
     (if owns_route n g \<and> bg_link_up g then g\<lparr>bg_outgoing := bg_outgoing g @ [browser_closed]\<rparr> else g)"

definition browser_release :: "u64 \<Rightarrow> browser_gate \<Rightarrow> browser_gate" where
  "browser_release n g =
     (if owns_route n g then g\<lparr>bg_slots := (bg_slots g)\<lparr>ss_browser := None\<rparr>\<rparr> else g)"

end
