(* ===== verification/ClientIpcRuns.thy ===== *)
theory ClientIpcRuns
  imports ClientIpc ExecHears HostBehaviour
begin

text \<open>
  What the handlers of the socket server do over every script: a run from the host's shell to the
  frames on the socket, the packets a console puts on the wire, who may use the browser's route.
\<close>

section \<open>Waiting\<close>

definition heard :: "(nat \<times> slot_wait) list \<Rightarrow> exec_event list" where
  "heard waits = concat (map (\<lambda>w. case snd w of SlotEvent ev \<Rightarrow> [ev] | _ \<Rightarrow> []) waits)"

lemma heard_simps [simp]:
  "heard [] = []" "heard (ws @ vs) = heard ws @ heard vs"
  "heard ((d, SlotEvent ev) # ws) = ev # heard ws" "heard ((d, SlotQuiet) # ws) = heard ws"
  by (simp_all add: heard_def)

definition not_gone :: "nat \<times> slot_wait \<Rightarrow> bool" where
  "not_gone w = (snd w \<noteq> SlotGone)"

lemma heard_split:
  assumes "heard ws = es @ [e]" "list_all not_gone ws"
  obtains vs d vs' where "ws = vs @ (d, SlotEvent e) # vs'" "heard vs = es"
proof -
  have "\<exists>vs d vs'. ws = vs @ (d, SlotEvent e) # vs' \<and> heard vs = es"
    using assms
  proof (induction ws rule: rev_induct)
    case (snoc w ws)
    obtain d x where w: "w = (d, x)" by (cases w)
    show ?case
    proof (cases x)
      case (SlotEvent ev)
      then show ?thesis using snoc.prems w by (intro exI [of _ ws] exI [of _ d] exI [of _ "[]"]) simp
    next
      case SlotQuiet
      then have "heard ws = es @ [e]" "list_all not_gone ws" using snoc.prems w by simp_all
      from snoc.IH [OF this] obtain vs d' vs' where "ws = vs @ (d', SlotEvent e) # vs'" "heard vs = es" by blast
      then show ?thesis using w by (intro exI [of _ vs] exI [of _ d'] exI [of _ "vs' @ [w]"]) simp
    qed (use snoc.prems w in \<open>simp add: not_gone_def\<close>)
  qed simp
  then show ?thesis using that by blast
qed

text \<open>Waits that only bring output are quiet, and bring what the packets held.\<close>

lemma output_waits:
  assumes "heard ws = map EvShellOutput ps" "list_all not_gone ws"
  shows "list_all quiet (map ipc_recv_event ws) \<and> outputs (map ipc_recv_event ws) = concat ps"
  using assms
proof (induction ws arbitrary: ps)
  case (Cons w ws)
  obtain d x where w: "w = (d, x)" by (cases w)
  show ?case
  proof (cases x)
    case (SlotEvent ev)
    then obtain p ps' where "ps = p # ps'" "ev = EvShellOutput p" "heard ws = map EvShellOutput ps'"
      using Cons.prems w by (cases ps) auto
    then show ?thesis using Cons w SlotEvent by simp
  qed (use Cons w in \<open>simp_all add: not_gone_def\<close>)
qed simp

lemma delays_recv: "delays (map ipc_recv_event ws) = sum_list (map fst ws)"
proof (induction ws)
  case (Cons w ws)
  then show ?case by (cases w; cases "snd w") auto
qed simp

section \<open>From the host's shell to the socket\<close>

definition for_exec :: "message \<Rightarrow> bool" where
  "for_exec m = (case shell_event_of m of Some (SlotExec, ev) \<Rightarrow> True | _ \<Rightarrow> False)"

lemma events_for_filter: "events_for SlotExec ms = events_for SlotExec (filter for_exec ms)"
proof (induction ms)
  case (Cons m ms)
  then show ?case by (auto simp: for_exec_def split: option.split slot_kind.split)
qed simp

lemma events_for_outputs: "events_for SlotExec (map ShellOutput ps @ [ShellExit c]) = map EvShellOutput ps @ [EvShellExit c]"
  by (induction ps) (simp_all add: shell_event_of_def)

text \<open>What the handler's run hears when the consumer's queue holds a stream of output and its end.\<close>

lemma hears_queue:
  assumes "heard waits = map EvShellOutput ps @ [EvShellExit c]" "list_all not_gone waits"
    and "concat ps = utf8_encode (unlines (transcript pre rdy body tail (DONE_MARK u @ d @ cr))) @ after"
    and "transcript_ok u pre rdy body tail d cr" "sum_list (map fst waits) < timeout_secs * 1000"
  shows "hears (ipc_wire True waits) timeout_secs u pre rdy body tail d cr"
proof -
  obtain vs t vs' where w: "waits = vs @ (t, SlotEvent (EvShellExit c)) # vs'" "heard vs = map EvShellOutput ps"
    using heard_split [OF assms(1,2)] by blast
  have q: "list_all quiet (map ipc_recv_event vs) \<and> outputs (map ipc_recv_event vs) = concat ps"
    by (rule output_waits [OF w(2)]) (use assms(2) w(1) in simp)
  have "delays (map ipc_recv_event vs) < timeout_secs * 1000"
    using assms(5) w(1) delays_recv [of vs] by (simp del: map_map)
  moreover have "ew_events (ipc_wire True waits) = map ipc_recv_event vs @ map ipc_recv_event ((t, SlotEvent (EvShellExit c)) # vs')"
    using w(1) by (simp add: ipc_wire_def)
  moreover have "ew_send_script (ipc_wire True waits) = []" by (simp add: ipc_wire_def)
  ultimately show ?thesis
    unfolding hears_def using q assms(3,4)
    by (intro conjI exI [of _ "map ipc_recv_event vs"]
        exI [of _ "map ipc_recv_event ((t, SlotEvent (EvShellExit c)) # vs')"] exI [of _ after]) simp_all
qed

lemma exec_frames_of_run:
  assumes "run_oneshot unbase gunzip u cmd ssh timeout_secs compress (ipc_wire True (xv_waits v)) = (Inr code, w, calls)"
    and "xv_link_up v" "xv_keepalive_ok v" "xv_link_up_again v" "xv_queue_open v" "xv_clone_ok v"
    and "fst (try_acquire owner OwnerExec (host_supports_pty_slot (xv_host_info v))) = Some k"
  shows "xo_frames (fst (handle_exec unbase gunzip u cmd ssh timeout_secs compress v owner))
      = FrStdout [] # map FrStdout calls @ [FrExit code]
    \<and> xo_packets (fst (handle_exec unbase gunzip u cmd ssh timeout_secs compress v owner))
      = packet_new (ShellOpen []) 0 # concat (map shell_input_packets (ew_sent w)) @ [packet_new ShellClose 0]"
  using assms
  by (cases "try_acquire owner OwnerExec (host_supports_pty_slot (xv_host_info v))")
    (auto simp: handle_exec_def exec_locked_def final_frame_def case_prod_beta Let_def)

text \<open>Whatever the result of the run.\<close>

lemma exec_frames_any:
  assumes "run_oneshot unbase gunzip u cmd ssh timeout_secs compress (ipc_wire True (xv_waits v)) = (result, w, calls)"
    and "xv_link_up v" "xv_keepalive_ok v" "xv_link_up_again v" "xv_queue_open v" "xv_clone_ok v"
    and "fst (try_acquire owner OwnerExec (host_supports_pty_slot (xv_host_info v))) = Some k"
  shows "xo_frames (fst (handle_exec unbase gunzip u cmd ssh timeout_secs compress v owner))
      = FrStdout [] # map FrStdout calls @ [final_frame result]"
  using assms
  by (cases "try_acquire owner OwnerExec (host_supports_pty_slot (xv_host_info v))")
    (auto simp: handle_exec_def exec_locked_def case_prod_beta Let_def)

section \<open>The drain\<close>

lemma drain_bound: "spent < SHELL_KILL_GRACE_MAX + idle \<Longrightarrow> fst (post_run_drain idle spent waits) < SHELL_KILL_GRACE_MAX + idle"
proof (induction idle spent waits rule: post_run_drain.induct)
  case (1 idle spent waits)
  show ?case
  proof (cases "spent \<ge> SHELL_KILL_GRACE_MAX")
    case True
    then show ?thesis using 1(2) by (subst post_run_drain.simps) simp
  next
    case spent: False
    show ?thesis
    proof (cases waits)
      case Nil
      then show ?thesis using spent by (subst post_run_drain.simps) simp
    next
      case (Cons w rest)
      obtain d x where w: "w = (d, x)" by (cases w)
      show ?thesis
      proof (cases x)
        case (SlotEvent ev)
        have "spent + min d idle < SHELL_KILL_GRACE_MAX + idle" using spent by simp
        then show ?thesis
          using 1(1) [OF spent Cons w [symmetric] SlotEvent refl] spent Cons w SlotEvent
          by (subst post_run_drain.simps) (auto simp: Let_def)
      next
        case SlotGone
        then show ?thesis using spent Cons w by (subst post_run_drain.simps) simp
      next
        case SlotQuiet
        then show ?thesis using spent Cons w by (subst post_run_drain.simps) simp
      qed
    qed
  qed
qed

section \<open>The console's relay\<close>

definition console_input :: "bool \<Rightarrow> message \<Rightarrow> bool" where
  "console_input dual m =
     (case m of ShellInput d \<Rightarrow> \<not> dual | PtyInput d \<Rightarrow> True | PtyResize c r \<Rightarrow> True | _ \<Rightarrow> False)"

lemma forwards_dialect: "on_term_packet dual pkt = RelayForwards p \<Longrightarrow> console_input dual (p_message p)"
  by (cases "p_message pkt")
    (auto simp: on_term_packet_def readdress_def console_input_def packet_new_def Let_def split: if_splits)

lemma relay_dialect:
  "list_all (\<lambda>p. console_input dual (p_message p)) (rl_queued r)
   \<Longrightarrow> list_all (\<lambda>p. console_input dual (p_message p)) (rl_queued (foldl (relay_pass dual) r steps))"
proof (induction steps arbitrary: r)
  case (Cons st steps)
  have "list_all (\<lambda>p. console_input dual (p_message p)) (rl_queued (relay_pass dual r st))"
  proof (cases st)
    case (TermSends pkt ok)
    then show ?thesis using Cons.prems forwards_dialect [of dual pkt]
      by (auto simp: term_sends_def split: relay_verdict.split)
  next
    case (PumpPass up w ok)
    then show ?thesis using Cons.prems
      by (auto simp: pump_pass_def case_prod_beta Let_def split: slot_wait.split)
  qed (use Cons.prems in simp)
  then show ?case using Cons.IH by simp
qed simp

text \<open>While both ends go on, everything typed goes out and everything printed comes back, in order.\<close>

fun goes_on :: "relay_step \<Rightarrow> bool" where
  "goes_on (TermSends pkt ok) = (ok \<and> (case p_message pkt of ShellClose \<Rightarrow> False | Disconnect \<Rightarrow> False | _ \<Rightarrow> True))"
| "goes_on TermGone = False"
| "goes_on (PumpPass up w ok) =
     (up \<and> ok \<and> (case w of SlotGone \<Rightarrow> False | SlotQuiet \<Rightarrow> True
        | SlotEvent ev \<Rightarrow> (case ev of EvShellExit c \<Rightarrow> False | EvHostError m \<Rightarrow> False | _ \<Rightarrow> True)))"

definition typed :: "packet \<Rightarrow> bytes" where
  "typed p = (case p_message p of ShellInput d \<Rightarrow> d | PtyInput d \<Rightarrow> d | _ \<Rightarrow> [])"

definition shown :: "packet \<Rightarrow> bytes" where
  "shown p = (case p_message p of ShellOutput d \<Rightarrow> d | _ \<Rightarrow> [])"

fun step_typed :: "relay_step \<Rightarrow> bytes" where
  "step_typed (TermSends pkt ok) = typed pkt"
| "step_typed st = []"

fun step_shown :: "relay_step \<Rightarrow> bytes" where
  "step_shown (PumpPass up (SlotEvent (EvShellOutput d)) ok) = d"
| "step_shown st = []"

lemma forwards_typed:
  "(case on_term_packet dual pkt of RelayForwards p \<Rightarrow> typed p | _ \<Rightarrow> []) = typed pkt"
  by (cases "p_message pkt") (simp_all add: on_term_packet_def readdress_def typed_def packet_new_def)

lemma not_stopped:
  "goes_on (TermSends pkt ok) \<Longrightarrow> on_term_packet dual pkt \<noteq> RelayStops"
  by (cases "p_message pkt") (simp_all add: on_term_packet_def readdress_def packet_new_def)

lemma relay_step_exact:
  assumes "goes_on st" "rl_reading r" "rl_pumping r" "\<not> rl_stop r"
  shows "rl_reading (relay_pass dual r st) \<and> rl_pumping (relay_pass dual r st) \<and> \<not> rl_stop (relay_pass dual r st)
    \<and> concat (map typed (rl_queued (relay_pass dual r st))) = concat (map typed (rl_queued r)) @ step_typed st
    \<and> concat (map shown (rl_frames (relay_pass dual r st))) = concat (map shown (rl_frames r)) @ step_shown st"
proof (cases st)
  case (TermSends pkt ok)
  then show ?thesis
    using assms forwards_typed [of dual pkt] not_stopped [of pkt ok dual]
    by (auto simp: term_sends_def split: relay_verdict.splits)
next
  case (PumpPass up w ok)
  show ?thesis
  proof (cases w)
    case (SlotEvent ev)
    then show ?thesis using assms PumpPass
      by (cases ev) (simp_all add: pump_pass_def on_slot_event_def shown_def packet_new_def)
  qed (use assms PumpPass in \<open>simp_all add: pump_pass_def\<close>)
qed (use assms in simp)

lemma relay_exact:
  assumes "list_all goes_on steps" "rl_reading r" "rl_pumping r" "\<not> rl_stop r"
  shows "concat (map typed (rl_queued (foldl (relay_pass dual) r steps)))
      = concat (map typed (rl_queued r)) @ concat (map step_typed steps)
    \<and> concat (map shown (rl_frames (foldl (relay_pass dual) r steps)))
      = concat (map shown (rl_frames r)) @ concat (map step_shown steps)"
  using assms
proof (induction steps arbitrary: r)
  case (Cons st steps)
  then show ?case using relay_step_exact [of st r dual] by simp
qed simp

section \<open>The browser's route\<close>

datatype browser_event =
    BgClaims
  | BgInput u8 u64 bool packet
  | BgHost message
  | BgResets u64
  | BgReleases u64
  | BgLinkDown
  | BgLinkUp host_info

fun browser_step :: "browser_gate \<Rightarrow> browser_event \<Rightarrow> browser_gate" where
  "browser_step g BgClaims = snd (claim_browser g)"
| "browser_step g (BgInput proto n alive pkt) = snd (browser_input proto n alive pkt g)"
| "browser_step g (BgHost m) =
     (let (ps, slots) = route_browser (bg_slots g) m in
      g\<lparr>bg_slots := slots, bg_outgoing := bg_outgoing g @ ps\<rparr>)"
| "browser_step g (BgResets n) = browser_reset n g"
| "browser_step g (BgReleases n) = browser_release n g"
| "browser_step g BgLinkDown =
     g\<lparr>bg_link_up := False, bg_host_info := None, bg_slots := forget_host_generation (bg_slots g)\<rparr>"
| "browser_step g (BgLinkUp info) = g\<lparr>bg_link_up := True, bg_host_info := Some info\<rparr>"

text \<open>An id that is handed out and no longer owns the route never owns it again.\<close>

definition lost_route :: "u64 \<Rightarrow> browser_gate \<Rightarrow> bool" where
  "lost_route n g \<longleftrightarrow> \<not> owns_route n g \<and> n < bg_next g"

lemma lost_route_step:
  assumes "lost_route n g" "unat (bg_next g) + 1 < 2 ^ 64"
  shows "lost_route n (browser_step g e) \<and> unat (bg_next (browser_step g e)) \<le> unat (bg_next g) + 1"
proof -
  have up: "unat (bg_next g + 1) = unat (bg_next g) + 1"
    using assms(2) by (simp add: unat_word_ariths)
  then have less: "n < bg_next g + 1" "bg_next g \<noteq> n"
    using assms(1) by (auto simp: lost_route_def word_less_nat_alt)
  show ?thesis
  proof (cases e)
    case BgClaims
    then show ?thesis using assms(1) less up
      by (auto simp: claim_browser_def lost_route_def owns_route_def Let_def split: option.splits)
  next
    case (BgHost m)
    then show ?thesis using assms(1)
      by (auto simp: route_browser_def lost_route_def owns_route_def Let_def split: option.splits)
  next
    case (BgInput proto k alive pkt)
    then show ?thesis using assms(1)
      by (auto simp: browser_input_def lost_route_def owns_route_def split: message.split)
  qed (use assms(1) in \<open>auto simp: browser_reset_def browser_release_def lost_route_def owns_route_def
      forget_host_generation_def split: option.splits\<close>)
qed

lemma lost_route_run:
  assumes "lost_route n g" "unat (bg_next g) + length es < 2 ^ 64"
  shows "lost_route n (foldl browser_step g es)"
  using assms
proof (induction es arbitrary: g)
  case (Cons e es)
  then show ?case using lost_route_step [of n g e] by simp
qed simp

lemma lost_route_input: "lost_route n g \<Longrightarrow> browser_input proto n alive pkt g = (False, g)"
  by (simp add: browser_input_def lost_route_def split: message.split)

end
