(* ===== verification/Terminal.thy ===== *)
theory Terminal
  imports ClientIpc
begin

text \<open>
  \<open>apps/wiredesk-term\<close>, the \<open>wd\<close> command, with the port detection of
  \<open>wiredesk-transport/src/detect.rs\<close>: which port and rate are used (\<open>resolve.rs\<close>), the exec run over
  the window's socket and over the serial port, the handshake, the threads of the interactive
  bridge, and the exit code of the process (\<open>main.rs\<close>). What the terminal, the socket and the port do
  are scripts of results with the time each took; an empty script of receives keeps timing out.
  The printed texts are left out, except the bytes of the remote shell.
\<close>

section \<open>Port and rate\<close>

definition WCH_VID :: u16 where "WCH_VID = 0x1A86"
definition FTDI_VID :: u16 where "FTDI_VID = 0x0403"

datatype adapter_kind = Ch34x | Ftdi | OtherUsb | NonUsb

definition is_target :: "adapter_kind \<Rightarrow> bool" where
  "is_target k = (k = Ch34x \<or> k = Ftdi)"

definition chip_label :: "u16 \<Rightarrow> u16 \<Rightarrow> string option" where
  "chip_label vid pid =
     (if vid = WCH_VID then
        Some (if pid = 0x7523 then ''CH340'' else if pid = 0x5523 then ''CH341''
              else if pid = 0x55D3 then ''CH343'' else if pid = 0x55D4 then ''CH9102'' else ''CH34x'')
      else if vid = FTDI_VID then
        Some (if pid = 0x6001 then ''FT232R'' else if pid = 0x6010 then ''FT2232''
              else if pid = 0x6011 then ''FT4232'' else if pid = 0x6014 then ''FT232H''
              else if pid = 0x6015 then ''FT-X'' else ''FTDI'')
      else if vid = 0x10C4 then Some ''CP210x''
      else if vid = 0x067B then Some ''PL2303'' else None)"

text \<open>A port as the system lists it: its name, and vendor and product of a USB device.\<close>

type_synonym port_info = "rstring \<times> (u16 \<times> u16) option"

datatype port_label = LabelChip string | LabelUsb u16 u16 | LabelSerial

record detected_port =
  dp_name :: rstring
  dp_label :: port_label
  dp_kind :: adapter_kind

definition classify_port :: "port_info \<Rightarrow> detected_port" where
  "classify_port p =
     (case snd p of
        Some (vid, pid) \<Rightarrow>
          \<lparr>dp_name = fst p,
           dp_label = (case chip_label vid pid of Some chip \<Rightarrow> LabelChip chip | None \<Rightarrow> LabelUsb vid pid),
           dp_kind = (if vid = WCH_VID then Ch34x else if vid = FTDI_VID then Ftdi else OtherUsb)\<rparr>
      | None \<Rightarrow> \<lparr>dp_name = fst p, dp_label = LabelSerial, dp_kind = NonUsb\<rparr>)"

definition classify_ports :: "port_info list \<Rightarrow> detected_port list" where
  "classify_ports = map classify_port"

definition target_indices :: "detected_port list \<Rightarrow> nat list" where
  "target_indices ps = filter (\<lambda>i. is_target (dp_kind (ps ! i))) [0..<length ps]"

definition dedupe_tty_variants :: "rstring list \<Rightarrow> rstring list" where
  "dedupe_tty_variants names = filter (\<lambda>n. \<not> str_prefix (blit ''/dev/tty.'') n) names"

definition detect_target_ports :: "port_info list option \<Rightarrow> rstring list" where
  "detect_target_ports available =
     (case available of
        None \<Rightarrow> []
      | Some ports \<Rightarrow>
          let ps = classify_ports ports in dedupe_tty_variants (map (\<lambda>i. dp_name (ps ! i)) (target_indices ps)))"

datatype value_source = FromCli | AutoDetected | FromConfigToml | Fallback

definition resolve_port ::
  "rstring option \<Rightarrow> rstring list \<Rightarrow> rstring option \<Rightarrow> rstring \<Rightarrow> rstring \<times> value_source" where
  "resolve_port cli detected toml fallback =
     (case cli of
        Some p \<Rightarrow> (p, FromCli)
      | None \<Rightarrow>
          if length detected = 1 then (hd detected, AutoDetected)
          else case toml of Some p \<Rightarrow> (p, FromConfigToml) | None \<Rightarrow> (fallback, Fallback))"

definition resolve_baud :: "u32 option \<Rightarrow> u32 option \<Rightarrow> u32 \<Rightarrow> u32 \<times> value_source" where
  "resolve_baud cli toml fallback =
     (case cli of
        Some b \<Rightarrow> (b, FromCli)
      | None \<Rightarrow> (case toml of Some b \<Rightarrow> (b, FromConfigToml) | None \<Rightarrow> (fallback, Fallback)))"

text \<open>The targets in the order of the system's list.\<close>

lemma target_names:
  "map (\<lambda>i. dp_name (ps ! i)) (target_indices ps) = map dp_name (filter (\<lambda>p. is_target (dp_kind p)) ps)"
proof -
  have "map (\<lambda>i. dp_name (ps ! i)) (filter (\<lambda>i. is_target (dp_kind (ps ! i))) [0..<length ps])
      = map dp_name (filter (\<lambda>p. is_target (dp_kind p)) (map ((!) ps) [0..<length ps]))"
    by (simp add: filter_map comp_def)
  then show ?thesis by (simp add: target_indices_def map_nth)
qed

section \<open>A run over the window's socket\<close>

datatype 'a try_read = Got 'a | NoneInTime | ReadFailed

text \<open>The exit code of a frame that ends the run.\<close>

definition classify_terminal_response :: "exec_frame \<Rightarrow> i32 option" where
  "classify_terminal_response resp =
     (case resp of
        FrStdout b \<Rightarrow> None
      | FrExit code \<Rightarrow> Some code
      | FrUnavailable r \<Rightarrow> Some 125
      | _ \<Rightarrow> Some 1)"

text \<open>The loop over the responses: what reaches the terminal, and the code.\<close>

fun read_responses :: "exec_frame try_read list \<Rightarrow> bytes \<Rightarrow> bytes \<times> (werror + i32)" where
  "read_responses [] printed_so_far = (printed_so_far, Inl (Transport ''IPC read''))"
| "read_responses (Got resp # rs) printed_so_far =
     (case classify_terminal_response resp of
        Some code \<Rightarrow> (printed_so_far, Inr code)
      | None \<Rightarrow> read_responses rs (case resp of FrStdout b \<Rightarrow> printed_so_far @ b | _ \<Rightarrow> printed_so_far))"
| "read_responses (other # rs) printed_so_far = (printed_so_far, Inl (Transport ''IPC read''))"

record socket_view =
  so_connect :: bool
  so_timeout_set :: bool
  so_written :: bool
  so_reads :: "exec_frame try_read list"

definition try_socket_first :: "socket_view \<Rightarrow> bytes \<times> (werror + i32 option)" where
  "try_socket_first v =
     (if \<not> so_connect v \<or> \<not> so_timeout_set v \<or> \<not> so_written v then ([], Inr None)
      else case so_reads v of
             NoneInTime # rs \<Rightarrow> ([], Inr None)
           | rs \<Rightarrow> (case read_responses rs [] of (out, r) \<Rightarrow> (out, map_sum id Some r)))"

section \<open>A run over the serial port\<close>

text \<open>\<open>SerialExecTransport\<close>: the texts of errors are a parameter, nothing looks into them.\<close>

definition serial_recv_event :: "(u16 \<Rightarrow> rstring \<Rightarrow> rstring) \<Rightarrow> (werror \<Rightarrow> string) \<Rightarrow> werror + packet \<Rightarrow> exec_error + exec_event" where
  "serial_recv_event host_text show_error r =
     (case r of
        Inr p \<Rightarrow>
          (case p_message p of
             ShellOutput data \<Rightarrow> Inr (EvShellOutput data)
           | ShellExit code \<Rightarrow> Inr (EvShellExit code)
           | Error code msg \<Rightarrow> Inr (EvHostError (host_text code msg))
           | _ \<Rightarrow> Inr EvIdle)
      | Inl e \<Rightarrow> if is_recv_timeout e then Inr EvIdle else Inl (ExTransport (show_error e)))"

definition serial_wire :: "(u16 \<Rightarrow> rstring \<Rightarrow> rstring) \<Rightarrow> (werror \<Rightarrow> string) \<Rightarrow> (nat \<times> (werror + packet)) list \<Rightarrow> exec_wire" where
  "serial_wire host_text show_error script =
     \<lparr>ew_sent = [], ew_send_script = [],
      ew_events = map (\<lambda>(d, r). (d, serial_recv_event host_text show_error r)) script, ew_now = 0\<rparr>"

text \<open>\<open>run_exec_oneshot\<close>: its result, from that of the runner.\<close>

definition oneshot_code :: "exec_error + i32 \<Rightarrow> werror + i32" where
  "oneshot_code result =
     (case result of
        Inr code \<Rightarrow> Inr code
      | Inl (ExTimeout buf) \<Rightarrow> Inr 124
      | Inl (ExTransport m) \<Rightarrow> Inl (Transport m)
      | Inl ExClosed \<Rightarrow> Inl (Transport ''transport closed'')
      | Inl (ExCompressionFailed m) \<Rightarrow> Inr 125)"

text \<open>The code the process exits with, as \<open>main\<close> takes it from \<open>run\<close>.\<close>

definition process_code :: "werror + i32 \<Rightarrow> i32" where
  "process_code r = (case r of Inr code \<Rightarrow> code | Inl e \<Rightarrow> 1)"

section \<open>The handshake\<close>

definition hello_message :: "rstring \<Rightarrow> message" where
  "hello_message name = Hello VERSION name"

definition is_ipc_write :: "werror \<Rightarrow> bool" where
  "is_ipc_write e = (case e of Transport m \<Rightarrow> str_contains m ''ipc write'' | _ \<Rightarrow> False)"

definition HANDSHAKE_DEADLINE :: nat where "HANDSHAKE_DEADLINE = 5000"

text \<open>The loop; without an answer the receives time out until the deadline.\<close>

fun await_ack :: "werror option \<Rightarrow> nat \<Rightarrow> (nat \<times> (werror + packet)) list \<Rightarrow> werror + unit option" where
  "await_ack hello_err now [] = (case hello_err of Some e \<Rightarrow> Inl e | None \<Rightarrow> Inr None)"
| "await_ack hello_err now ((d, r) # rs) =
     (if now \<ge> HANDSHAKE_DEADLINE then (case hello_err of Some e \<Rightarrow> Inl e | None \<Rightarrow> Inr None)
      else case r of
             Inr p \<Rightarrow>
               (case p_message p of
                  HelloAck v name w h \<Rightarrow> Inr (Some ())
                | Error code msg \<Rightarrow> Inl (Transport ''host returned error'')
                | _ \<Rightarrow> await_ack hello_err (now + d) rs)
           | Inl e \<Rightarrow>
               if is_recv_timeout e then await_ack hello_err (now + d) rs
               else Inl (case hello_err of Some we \<Rightarrow> we | None \<Rightarrow> e))"

definition handshake :: "werror option \<Rightarrow> (nat \<times> (werror + packet)) list \<Rightarrow> werror + unit option" where
  "handshake hello_send script =
     (case hello_send of
        None \<Rightarrow> await_ack None 0 script
      | Some e \<Rightarrow> if is_ipc_write e then await_ack (Some e) 0 script else Inl e)"

section \<open>The interactive bridge\<close>

definition ESCAPE_BYTE :: u8 where "ESCAPE_BYTE = 0x1D"

datatype stdin_read = StdinBytes bytes | StdinInterrupted | StdinFailed

text \<open>
  \<open>stdin_pump\<close>: over what each read returns, whether the stop flag is seen set before it, and whether
  the send behind it succeeds. The result is what it sent; the flag is set when it ends.
\<close>

fun stdin_pump :: "(bool \<times> stdin_read \<times> bool) list \<Rightarrow> packet list \<Rightarrow> packet list \<times> bool" where
  "stdin_pump [] sent = (sent, False)"
| "stdin_pump ((stopped, r, send_ok) # rs) sent =
     (if stopped then (sent, True)
      else case r of
             StdinBytes chunk \<Rightarrow>
               if chunk = [] \<or> ESCAPE_BYTE \<in> set chunk then (sent, True)
               else let sent1 = sent @ [packet_new (ShellInput chunk) 0] in
                 if send_ok then stdin_pump rs sent1 else (sent1, True)
           | StdinInterrupted \<Rightarrow> stdin_pump rs sent
           | StdinFailed \<Rightarrow> (sent, True))"

definition compute_resize_packet :: "(u16 \<times> u16) option \<Rightarrow> u16 \<times> u16 \<Rightarrow> message option" where
  "compute_resize_packet prev cur =
     (if prev = Some cur then None else Some (PtyResize (fst cur) (snd cur)))"

text \<open>\<open>resize_poll_thread\<close>, over the sizes each poll reads.\<close>

fun resize_poll :: "(u16 \<times> u16) option \<Rightarrow> (u16 \<times> u16) option list \<Rightarrow> packet list" where
  "resize_poll prev [] = []"
| "resize_poll prev (None # sizes) = resize_poll prev sizes"
| "resize_poll prev (Some cur # sizes) =
     (case compute_resize_packet prev cur of
        None \<Rightarrow> resize_poll prev sizes
      | Some msg \<Rightarrow> packet_new msg 0 # resize_poll (Some cur) sizes)"

definition TERM_HEARTBEAT_INTERVAL :: nat where "TERM_HEARTBEAT_INTERVAL = 2000"
definition TERM_HEARTBEAT_TICK :: nat where "TERM_HEARTBEAT_TICK = 100"

text \<open>One pass of \<open>heartbeat_thread\<close>: the time since the last beat, and the packet of this one.\<close>

definition heartbeat_pass :: "nat \<Rightarrow> nat \<times> packet list" where
  "heartbeat_pass elapsed =
     (let e = elapsed + TERM_HEARTBEAT_TICK in
      if e < TERM_HEARTBEAT_INTERVAL then (e, []) else (0, [packet_new Heartbeat 0]))"

datatype term_output = Bytes bytes | NoteExited i32 | NoteHostError u16 rstring | NoteDisconnected

text \<open>\<open>reader_thread\<close> for one result of \<open>recv\<close>: what is printed, and whether the session ends.\<close>

definition term_reader_pass :: "bool \<Rightarrow> werror + packet \<Rightarrow> term_output list \<times> bool" where
  "term_reader_pass connected r =
     (case r of
        Inr p \<Rightarrow>
          (case p_message p of
             ShellOutput data \<Rightarrow> ([Bytes data], False)
           | ShellExit code \<Rightarrow> ([NoteExited code], True)
           | Error code msg \<Rightarrow> ([NoteHostError code msg], False)
           | Disconnect \<Rightarrow> ([], True)
           | _ \<Rightarrow> ([], False))
      | Inl e \<Rightarrow>
          if is_recv_timeout e then ([], False)
          else if \<not> connected then ([NoteDisconnected], True) else ([], False))"

fun term_reader :: "(bool \<times> bool \<times> (werror + packet)) list \<Rightarrow> term_output list" where
  "term_reader [] = []"
| "term_reader ((stopped, connected, r) # rs) =
     (if stopped then []
      else case term_reader_pass connected r of (out, ended) \<Rightarrow> out @ (if ended then [] else term_reader rs))"

section \<open>The command\<close>

definition build_shell_open_message :: "rstring \<Rightarrow> bool \<Rightarrow> u16 \<Rightarrow> u16 \<Rightarrow> message" where
  "build_shell_open_message shell exec cols rows =
     (if exec then ShellOpen shell else ShellOpenPty shell cols rows)"

record term_args =
  ta_shell :: rstring
  ta_exec :: bool
  ta_ssh :: "rstring option"
  ta_command :: "rstring option"

definition check_args :: "term_args \<Rightarrow> werror + unit" where
  "check_args a =
     (if ta_exec a \<and> ta_command a = None then Inl (Input ''--exec requires a COMMAND'')
      else if \<not> ta_exec a \<and> ta_command a \<noteq> None then Inl (Input ''COMMAND is only valid together with --exec'')
      else if ta_ssh a \<noteq> None \<and> \<not> ta_exec a then Inl (Input ''--ssh is only valid together with --exec'')
      else Inr ())"

text \<open>
  \<open>run\<close>. What the socket attempt, the open, the handshake, the send of the open message and the session
  itself (the exec run or the bridge) come to is what the command observes; the packets are those it
  sends itself, outside the session.
\<close>

record term_view =
  tv_socket :: "werror + i32 option"
  tv_open :: "werror + unit"
  tv_handshake :: "werror + unit option"
  tv_size :: "(u16 \<times> u16) option"
  tv_open_sent :: "werror + unit"
  tv_raw :: "werror + unit"
  tv_session :: "werror + i32"

definition term_run :: "term_args \<Rightarrow> rstring \<Rightarrow> term_view \<Rightarrow> packet list \<times> (werror + i32)" where
  "term_run a name v =
     (case check_args a of
        Inl e \<Rightarrow> ([], Inl e)
      | Inr u \<Rightarrow>
      (case tv_socket v of
         Inl e \<Rightarrow> ([], Inl e)
       | Inr (Some code) \<Rightarrow> ([], Inr code)
       | Inr None \<Rightarrow>
      (case tv_open v of
         Inl e \<Rightarrow> ([], Inl e)
       | Inr u \<Rightarrow>
      (case tv_handshake v of
         Inl e \<Rightarrow> ([packet_new (hello_message name) 0], Inl e)
       | Inr None \<Rightarrow> ([packet_new (hello_message name) 0], Inl (Transport ''handshake: no HelloAck within 5 seconds''))
       | Inr (Some u) \<Rightarrow>
          let (cols, rows) = (if \<not> ta_exec a then (case tv_size v of Some s \<Rightarrow> s | None \<Rightarrow> (100, 40)) else (0, 0));
              opened = [packet_new (hello_message name) 0,
                        packet_new (build_shell_open_message (ta_shell a) (ta_exec a) cols rows) 0]
          in case tv_open_sent v of
               Inl e \<Rightarrow> (opened, Inl e)
             | Inr u \<Rightarrow>
                 if \<not> ta_exec a \<and> tv_raw v \<noteq> Inr () then (opened, and_then (tv_raw v) (\<lambda>u. Inr 0))
                 else (opened @ [packet_new ShellClose 0, packet_new Disconnect 0],
                       if ta_exec a then tv_session v else and_then (tv_session v) (\<lambda>c. Inr 0))))))"

section \<open>What the terminal gets\<close>

lemma read_responses_stdout:
  "read_responses (map Got (map FrStdout calls @ rs)) out = read_responses (map Got rs) (out @ concat calls)"
  by (induction calls arbitrary: out) (simp_all add: classify_terminal_response_def)

lemma socket_prints:
  assumes "classify_terminal_response f = Some code"
  shows "try_socket_first \<lparr>so_connect = True, so_timeout_set = True, so_written = True,
      so_reads = map Got (FrStdout [] # map FrStdout calls @ [f])\<rparr> = (concat calls, Inr (Some code))"
proof -
  have "read_responses (map Got (FrStdout [] # map FrStdout calls @ [f])) [] = (concat calls, Inr code)"
    using assms read_responses_stdout [of "[] # calls" "[f]" "[]"] by simp
  then show ?thesis by (simp add: try_socket_first_def)
qed

text \<open>The two ways of a run agree on its exit code, but for output that could not be unpacked.\<close>

lemma final_frame_code:
  "classify_terminal_response (final_frame r) =
    Some (case r of Inl (ExCompressionFailed m) \<Rightarrow> 1 | _ \<Rightarrow> process_code (oneshot_code r))"
  by (simp add: final_frame_def classify_terminal_response_def process_code_def oneshot_code_def
      split: sum.splits exec_error.splits)

text \<open>What is typed_chunks goes out in order, chunk by chunk, up to the one with the escape.\<close>

definition typed_chunks :: "(bool \<times> stdin_read \<times> bool) list \<Rightarrow> bytes list" where
  "typed_chunks rs = concat (map (\<lambda>(s, r, k). case r of StdinBytes b \<Rightarrow> [b] | _ \<Rightarrow> []) rs)"

lemma stdin_pump_sent:
  "\<exists>n. fst (stdin_pump rs sent) = sent @ map (\<lambda>b. packet_new (ShellInput b) 0) (take n (typed_chunks rs))
     \<and> (\<forall>b \<in> set (take n (typed_chunks rs)). ESCAPE_BYTE \<notin> set b)"
proof (induction rs arbitrary: sent)
  case (Cons x rs)
  obtain s r k where x: "x = (s, r, k)" by (cases x)
  have none: "\<exists>n. sent = sent @ map (\<lambda>b. packet_new (ShellInput b) 0) (take n (typed_chunks (x # rs)))
      \<and> (\<forall>b \<in> set (take n (typed_chunks (x # rs))). ESCAPE_BYTE \<notin> set b)"
    by (intro exI [of _ 0]) simp
  show ?case
  proof (cases "s \<or> r = StdinFailed")
    case True
    then show ?thesis using none x by (cases s) auto
  next
    case False
    then consider chunk where "r = StdinBytes chunk" | "r = StdinInterrupted" by (cases r) auto
    then show ?thesis
    proof cases
      case (1 chunk)
      show ?thesis
      proof (cases "chunk = [] \<or> ESCAPE_BYTE \<in> set chunk")
        case True
        then show ?thesis using none x 1 False by auto
      next
        case keep: False
        let ?sent = "sent @ [packet_new (ShellInput chunk) 0]"
        obtain n where n: "fst (stdin_pump rs ?sent) = ?sent @ map (\<lambda>b. packet_new (ShellInput b) 0) (take n (typed_chunks rs))"
          "\<forall>b \<in> set (take n (typed_chunks rs)). ESCAPE_BYTE \<notin> set b"
          using Cons.IH [of ?sent] by blast
        show ?thesis
        proof (cases k)
          case True
          then show ?thesis using n x 1 False keep
            by (intro exI [of _ "Suc n"]) (auto simp: typed_chunks_def Let_def)
        next
          case stopped: False
          then show ?thesis using x 1 False keep
            by (intro exI [of _ 1]) (auto simp: typed_chunks_def Let_def)
        qed
      qed
    next
      case 2
      then show ?thesis using Cons.IH [of sent] x False by (auto simp: typed_chunks_def)
    qed
  qed
qed (simp add: typed_chunks_def)

end
