(* ===== verification/IpcProps.thy ===== *)
theory IpcProps
  imports ClientIpcRuns HostProps Terminal
begin

text \<open>
  The properties of the client's socket server (\<open>apps/wiredesk-client/src/ipc.rs\<close>): a command from
  the host's shell to the caller's socket, what a handler leaves behind, the console's dialect, and
  the browser's route.
\<close>

section \<open>A command, end to end\<close>


text \<open>Two lines over the wire, with a console's packet among them.\<close>

definition sample_view :: "exec_event list \<Rightarrow> exec_view" where
  "sample_view evs = \<lparr>xv_link_up = True, xv_host_info = None, xv_keepalive_ok = True, xv_link_up_again = True,
     xv_queue_open = True, xv_clone_ok = True, xv_waits = map (\<lambda>e. (0, SlotEvent e)) evs, xv_drain = []\<rparr>"



text \<open>
  C23: the two ways of a run agree. When the handler gets to the run, the terminal at the socket prints
  exactly what the runner emitted and exits with the code the same result has over the serial port;
  except a payload that could not be unpacked, which is 1 over the socket and 125 over the port.
\<close>

theorem exec_ways_agree:
  assumes "run_oneshot unbase gunzip u cmd ssh timeout_secs compress (ipc_wire True (xv_waits v)) = (result, w, calls)"
    and "xv_link_up v" "xv_keepalive_ok v" "xv_link_up_again v" "xv_queue_open v" "xv_clone_ok v"
    and "fst (try_acquire owner OwnerExec (host_supports_pty_slot (xv_host_info v))) = Some k"
  shows "\<exists>code. try_socket_first \<lparr>so_connect = True, so_timeout_set = True, so_written = True,
        so_reads = map Got (xo_frames (fst (handle_exec unbase gunzip u cmd ssh timeout_secs compress v owner)))\<rparr>
      = (concat calls, Inr (Some code))
    \<and> (case result of
         Inl (ExCompressionFailed m) \<Rightarrow> code = 1 \<and> process_code (oneshot_code result) = 125
       | _ \<Rightarrow> code = process_code (oneshot_code result))"
proof -
  have "xo_frames (fst (handle_exec unbase gunzip u cmd ssh timeout_secs compress v owner))
      = FrStdout [] # map FrStdout calls @ [final_frame result]"
    by (rule exec_frames_any [OF assms])
  then show ?thesis
    using socket_prints [OF final_frame_code [of result], of calls]
    by (auto simp: process_code_def oneshot_code_def split: sum.splits exec_error.splits)
qed

text \<open>A run that gets nothing until its limit of no seconds: 124 both ways.\<close>

theorem exec_ways_agree_witness:
  "\<exists>calls. try_socket_first \<lparr>so_connect = True, so_timeout_set = True, so_written = True,
        so_reads = map Got (xo_frames (fst (handle_exec Inr Inr demo_uuid (lit ''dir'') None 0 False (sample_view []) new_shared_owner)))\<rparr>
      = (calls, Inr (Some 124))"
proof -
  let ?r = "run_oneshot Inr Inr demo_uuid (lit ''dir'') None 0 False (ipc_wire True [])"
  have v: "xv_link_up (sample_view [])" "xv_keepalive_ok (sample_view [])" "xv_link_up_again (sample_view [])"
    "xv_queue_open (sample_view [])" "xv_clone_ok (sample_view [])" "xv_waits (sample_view []) = []"
    "fst (try_acquire new_shared_owner OwnerExec (host_supports_pty_slot (xv_host_info (sample_view [])))) = Some OwnerExec"
    by (simp_all add: sample_view_def try_acquire_def new_shared_owner_def host_supports_pty_slot_def)
  have "\<exists>buf. fst ?r = Inl (ExTimeout buf)"
    by (simp add: run_oneshot_def wire_send_def ipc_wire_def run_loop.simps [of _ _ 0] timed_out_def case_prod_beta Let_def)
  then obtain buf w calls where "?r = (Inl (ExTimeout buf), w, calls)" by (metis prod_cases3 fst_conv)
  from exec_ways_agree [OF this [folded v(6)] v(1-5,7)] show ?thesis
    by (auto simp: process_code_def oneshot_code_def)
qed

section \<open>What a handler leaves behind\<close>

text \<open>
  C27: on every path a handler gives back the channel it claimed, and what it queues is nothing, or
  one open, input, and one close; except when the socket cannot be cloned after the open: then the
  host's shell is left open and the caller gets no final frame.
\<close>

theorem exec_handler_balanced:
  assumes "exec_refs owner + 1 \<noteq> 0"
  shows "case handle_exec unbase gunzip u cmd ssh timeout_secs compress v owner of (e, owner') \<Rightarrow>
      owner' = owner
      \<and> (xo_packets e = []
         \<or> (\<exists>ds. xo_packets e = packet_new (ShellOpen []) 0 # concat (map shell_input_packets ds)
               @ [packet_new ShellClose 0]
             \<and> (\<exists>calls f. xo_frames e = FrStdout [] # map FrStdout calls @ [f] \<and> (\<forall>b. f \<noteq> FrStdout b)))
         \<or> (\<not> xv_clone_ok v \<and> xo_packets e = [packet_new (ShellOpen []) 0] \<and> xo_frames e = [FrStdout []]))"
proof -
  have guard: "guard_drop k o1 = owner" if "try_acquire owner OwnerExec dual = (Some k, o1)" for dual k o1
    using that assms
    by (auto simp: try_acquire_def guard_drop_def saturating_dec_def split: if_splits)
  have same: "o1 = owner" if "try_acquire owner OwnerExec dual = (None, o1)" for dual o1
    using that by (auto simp: try_acquire_def split: if_splits)
  have final: "final_frame r \<noteq> FrStdout b" for r b
    by (auto simp: final_frame_def split: sum.split exec_error.split)
  obtain g o1 where t: "try_acquire owner OwnerExec (host_supports_pty_slot (xv_host_info v)) = (g, o1)" by fastforce
  show ?thesis
  proof (cases "xv_link_up v \<and> g \<noteq> None \<and> xv_keepalive_ok v")
    case False
    then show ?thesis using t guard same
      by (cases g) (auto simp: handle_exec_def exec_refused_def)
  next
    case True
    then obtain k where k: "g = Some k" by blast
    have o: "guard_drop k o1 = owner" using guard t k by blast
    obtain result w calls where r: "run_oneshot unbase gunzip u cmd ssh timeout_secs compress
        (ipc_wire (xv_queue_open v) (xv_waits v)) = (result, w, calls)" by (metis prod_cases3)
    have "handle_exec unbase gunzip u cmd ssh timeout_secs compress v owner
        = ((exec_locked unbase gunzip u cmd ssh timeout_secs compress v)\<lparr>xo_frames := FrStdout [] #
             xo_frames (exec_locked unbase gunzip u cmd ssh timeout_secs compress v)\<rparr>, owner)"
      using True t k o by (simp add: handle_exec_def Let_def)
    then show ?thesis
      using r final by (auto simp: exec_locked_def exec_refused_def case_prod_beta Let_def)
  qed
qed

definition quiet_view :: exec_view where
  "quiet_view = \<lparr>xv_link_up = True, xv_host_info = None, xv_keepalive_ok = True, xv_link_up_again = True,
     xv_queue_open = True, xv_clone_ok = False, xv_waits = [], xv_drain = []\<rparr>"

theorem exec_handler_balanced_witness:
  "xo_packets (fst (handle_exec Inr Inr [] [] None 1 False quiet_view new_shared_owner)) = [packet_new (ShellOpen []) 0]
   \<and> snd (handle_exec Inr Inr [] [] None 1 False quiet_view new_shared_owner) = new_shared_owner"
proof -
  have "xo_packets (fst (handle_exec Inr Inr [] [] None 1 False quiet_view new_shared_owner)) = [packet_new (ShellOpen []) 0]"
    by (simp add: handle_exec_def quiet_view_def exec_locked_def try_acquire_def new_shared_owner_def
        host_supports_pty_slot_def Let_def)
  moreover have "exec_refs new_shared_owner + 1 \<noteq> 0" by (simp add: new_shared_owner_def)
  from exec_handler_balanced [OF this, where unbase = Inr and gunzip = Inr and u = "[]" and cmd = "[]" and ssh = None
      and timeout_secs = 1 and compress = False and v = quiet_view]
  have "snd (handle_exec Inr Inr [] [] None 1 False quiet_view new_shared_owner) = new_shared_owner"
    by (simp add: case_prod_beta)
  ultimately show ?thesis by simp
qed



section \<open>The console\<close>


text \<open>
  Between the handshake and the end of either side, every byte the terminal sends reaches the
  wire as the console's input, and every byte the host prints reaches the terminal, in order.
\<close>

lemma console_relays_exactly:
  assumes "list_all goes_on steps"
  shows "concat (map typed (rl_queued (foldl (relay_pass dual) relay_start steps))) = concat (map step_typed steps)
    \<and> concat (map shown (rl_frames (foldl (relay_pass dual) relay_start steps))) = concat (map step_shown steps)"
  using relay_exact [OF assms, of relay_start dual] by (simp add: relay_start_def)

lemma console_relays_exactly_witness:
  "concat (map typed (rl_queued (foldl (relay_pass True) relay_start
     [TermSends (packet_new (ShellInput [108]) 0) True, PumpPass True (SlotEvent (EvShellOutput [36])) True,
      TermSends (packet_new (ShellInput [115]) 0) True]))) = [108, 115]"
  using console_relays_exactly [of "[TermSends (packet_new (ShellInput [108]) 0) True,
      PumpPass True (SlotEvent (EvShellOutput [36])) True, TermSends (packet_new (ShellInput [115]) 0) True]" True]
  by (simp add: packet_new_def typed_def)

section \<open>The browser\<close>

text \<open>
  Once a companion has lost the route (its queue overflowed, the link went down, it ended),
  nothing it still sends is queued, whoever claims the route later and whatever arrives.
\<close>

lemma browser_route_lost_for_good:
  assumes "\<not> owns_route n g" "n < bg_next g" "unat (bg_next g) + length es < 2 ^ 64"
  shows "browser_input proto n alive pkt (foldl browser_step g es) = (False, foldl browser_step g es)"
  using lost_route_input [OF lost_route_run [of n g es]] assms by (simp add: lost_route_def)

definition sample_gate :: browser_gate where
  "sample_gate = \<lparr>bg_slots = slots_new, bg_next = 2, bg_link_up = True,
     bg_host_info = Some \<lparr>hi_name = [], hi_width = 1, hi_height = 1, hi_proto = 5\<rparr>, bg_outgoing = []\<rparr>"

lemma browser_route_lost_for_good_witness:
  "fst (browser_input 5 1 True (packet_new (Browser 1 1 0 []) 0) (foldl browser_step sample_gate [BgClaims])) = False
   \<and> owns_route 2 (foldl browser_step sample_gate [BgClaims])"
proof -
  have "\<not> owns_route 1 sample_gate" "(1 :: u64) < bg_next sample_gate"
    "unat (bg_next sample_gate) + length [BgClaims] < 2 ^ 64"
    by (simp_all add: sample_gate_def owns_route_def slots_new_def word_less_nat_alt)
  from browser_route_lost_for_good [OF this] show ?thesis
    by (simp add: sample_gate_def claim_browser_def owns_route_def slots_new_def browser_supported_def Let_def
        word_le_nat_alt)
qed

end
