(* ===== verification/Http.thy ===== *)
theory Http
  imports Text
begin

text \<open>
  The HTTP framing shared by the browser parts, and \<open>crates/wiredesk-browser/src/request.rs\<close>:
  \<open>request_body\<close> and the memory-only \<open>RequestSocket\<close> that collects one desktop request, hands
  it to its handler and serves the response. The handler is a parameter; the requests it is
  given are returned beside the result of each write, in order.
\<close>

section \<open>Errors and text\<close>

datatype http_error =
    Refused string \<comment> \<open>\<open>io::Error::other\<close> with its message\<close>
  | NotUtf8
  | NotNumber
  | UnexpectedEof
  | WouldBlock
  | IoFailed

definition CRLF :: ustring where "CRLF = [13, 10]"
definition HEADER_END :: bytes where "HEADER_END = [13, 10, 13, 10]"

text \<open>\<open>windows(4).position(...)\<close> and the four bytes themselves.\<close>

definition header_end :: "bytes \<Rightarrow> nat option" where
  "header_end raw = map_option (\<lambda>p. p + 4) (find_sub HEADER_END raw)"

definition from_utf8 :: "bytes \<Rightarrow> http_error + ustring" where
  "from_utf8 bs = (if utf8_valid bs then Inr (utf8_chars bs) else Inl NotUtf8)"

text \<open>\<open>line.split_once(':')\<close> or the refusal.\<close>

definition split_header :: "ustring \<Rightarrow> http_error + ustring \<times> ustring" where
  "split_header line =
     (case split_once 58 line of None \<Rightarrow> Inl (Refused ''invalid header'') | Some nv \<Rightarrow> Inr nv)"

definition header_is :: "ustring \<Rightarrow> string \<Rightarrow> bool" where
  "header_is name s = eq_ignore_ascii_case name (lit s)"

text \<open>\<open>str::parse::<usize>\<close>.\<close>

definition parse_usize :: "ustring \<Rightarrow> http_error + nat" where
  "parse_usize s = (case parse_unsigned 64 s of None \<Rightarrow> Inl NotNumber | Some n \<Rightarrow> Inr n)"

text \<open>The decimal text of a number.\<close>

fun dec_text :: "nat \<Rightarrow> ustring" where
  "dec_text n = (if n < 10 then [] else dec_text (n div 10)) @ [48 + n mod 10]"

declare dec_text.simps [simp del]

section \<open>One request\<close>

definition MAX_REQUEST :: nat where "MAX_REQUEST = 16 * 1024"
definition MAX_RESPONSE :: nat where "MAX_RESPONSE = 2 * 1024 * 1024"

text \<open>The loop over the header lines, with the length found so far.\<close>

fun body_length :: "ustring list \<Rightarrow> nat option \<Rightarrow> http_error + nat option" where
  "body_length [] len = Inr len"
| "body_length (line # ls) len =
     and_then (split_header line) (\<lambda>(name, v).
       if header_is name ''transfer-encoding''
       then Inl (Refused ''chunked desktop request rejected'')
       else if header_is name ''content-length'' then
         (if len \<noteq> None then Inl (Refused ''duplicate content length'')
          else and_then (parse_usize (trim v)) (\<lambda>n. body_length ls (Some n)))
       else body_length ls len)"

definition request_body :: "bytes \<Rightarrow> http_error + (ustring \<times> bytes) option" where
  "request_body raw =
     (if length raw > MAX_REQUEST then Inl (Refused ''desktop request too large'')
      else case header_end raw of
             None \<Rightarrow> Inr None
           | Some end \<Rightarrow>
               and_then (from_utf8 (take end raw)) (\<lambda>header.
               let ls = split_str CRLF header in
               and_then (body_length (filter (\<lambda>l. l \<noteq> []) (tl ls)) None) (\<lambda>len.
               let total_len = end + (case len of None \<Rightarrow> 0 | Some n \<Rightarrow> n) in
               if \<not> (total_len < 2 ^ 64 \<and> total_len \<le> MAX_REQUEST)
               then Inl (Refused ''desktop body too large'')
               else if length raw > total_len
               then Inl (Refused ''pipelined desktop request rejected'')
               else if length raw < total_len then Inr None
               else Inr (Some (hd ls, subslice raw end total_len)))))"

section \<open>The socket\<close>

type_synonym request_handler = "bytes \<Rightarrow> http_error + bytes"

record request_socket =
  rs_request :: bytes
  rs_response :: "(bytes \<times> nat) option" \<comment> \<open>a cursor: the bytes and the position\<close>

definition request_socket_new :: request_socket where
  "request_socket_new = \<lparr>rs_request = [], rs_response = None\<rparr>"

definition request_shutdown_write :: "request_socket \<Rightarrow> http_error + unit" where
  "request_shutdown_write s = (if rs_response s \<noteq> None then Inr () else Inl UnexpectedEof)"

text \<open>\<open>write\<close>: its result, the socket, and the request the handler was given, if any.\<close>

definition request_write ::
  "request_handler \<Rightarrow> bytes \<Rightarrow> request_socket \<Rightarrow> (http_error + nat) \<times> request_socket \<times> bytes list" where
  "request_write handler data s =
     (if rs_response s \<noteq> None \<or> length (rs_request s) + length data > MAX_REQUEST
      then (Inl (Refused ''invalid desktop request size/state''), s, [])
      else
        let req = rs_request s @ data; s1 = s\<lparr>rs_request := req\<rparr> in
        case request_body req of
          Inl e \<Rightarrow> (Inl e, s1, [])
        | Inr None \<Rightarrow> (Inr (length data), s1, [])
        | Inr (Some _) \<Rightarrow>
            (case handler req of
               Inl e \<Rightarrow> (Inl e, s1, [req])
             | Inr response \<Rightarrow>
                 if length response > MAX_RESPONSE
                 then (Inl (Refused ''desktop response too large''), s1, [req])
                 else (Inr (length data), \<lparr>rs_request = [], rs_response = Some (response, 0)\<rparr>, [req])))"

text \<open>\<open>read\<close> into a buffer of \<open>n\<close> bytes.\<close>

definition request_read :: "nat \<Rightarrow> request_socket \<Rightarrow> (http_error + bytes) \<times> request_socket" where
  "request_read n s =
     (case rs_response s of
        None \<Rightarrow> (Inl WouldBlock, s)
      | Some (response, pos) \<Rightarrow>
          let got = take n (drop pos response) in
          (Inr got, s\<lparr>rs_response := Some (response, pos + length got)\<rparr>))"

text \<open>A sequence of writes and a sequence of reads.\<close>

fun request_writes ::
  "request_handler \<Rightarrow> bytes list \<Rightarrow> request_socket \<Rightarrow> (http_error + nat) list \<times> request_socket \<times> bytes list" where
  "request_writes handler [] s = ([], s, [])"
| "request_writes handler (d # ds) s =
     (let (r, s1, given) = request_write handler d s;
          (rs, s2, given2) = request_writes handler ds s1
      in (r # rs, s2, given @ given2))"

fun request_reads :: "nat list \<Rightarrow> request_socket \<Rightarrow> (http_error + bytes) list \<times> request_socket" where
  "request_reads [] s = ([], s)"
| "request_reads (n # ns) s =
     (let (r, s1) = request_read n s; (rs, s2) = request_reads ns s1 in (r # rs, s2))"

section \<open>Framing\<close>

lemma header_end_bounds:
  assumes "header_end raw = Some e"
  shows "4 \<le> e" "e \<le> length raw"
  using assms find_sub_Some by (fastforce simp: header_end_def HEADER_END_def)+

lemma header_end_append: "header_end raw = Some e \<Longrightarrow> header_end (raw @ more_bytes) = Some e"
  by (auto simp: header_end_def find_sub_append)

text \<open>The header ends at the first place it can, so a prefix that holds it ends it there too.\<close>

lemma header_end_take:
  assumes "header_end raw = Some e" "header_end (take n raw) = Some e'"
  shows "e' = e"
  using header_end_append [OF assms(2), of "drop n raw"] assms(1) by simp

text \<open>Any proper prefix of a complete request is an incomplete request.\<close>

lemma request_body_prefix:
  assumes whole: "request_body raw = Inr (Some r)" and n: "n < length raw"
  shows "request_body (take n raw) = Inr None"
proof (cases "header_end (take n raw)")
  case None
  then show ?thesis using assms by (auto simp: request_body_def split: if_splits)
next
  case (Some e)
  then have whole_end: "header_end raw = Some e" using header_end_append [OF Some, of "drop n raw"] by simp
  have "e \<le> n" using header_end_bounds(2) [OF Some] n by simp
  then have "take e (take n raw) = take e raw" by (simp add: min_def)
  then show ?thesis
    using whole n Some whole_end
    by (auto simp: request_body_def and_then_def Let_def split: if_splits sum.splits)
qed

lemma request_body_length: "request_body raw = Inr (Some r) \<Longrightarrow> 4 \<le> length raw \<and> length raw \<le> MAX_REQUEST"
  using header_end_bounds [of raw]
  by (fastforce simp: request_body_def split: if_splits option.splits)

text \<open>What a complete request consists of.\<close>

lemma request_body_parts:
  assumes "request_body raw = Inr (Some (line, body))"
  obtains e header where "header_end raw = Some e" "from_utf8 (take e raw) = Inr header"
    "line = hd (split_str CRLF header)" "body = drop e raw" "e \<le> length raw"
proof -
  from assms obtain e where e: "header_end raw = Some e"
    by (auto simp: request_body_def split: if_splits option.splits)
  from assms e obtain header where h: "from_utf8 (take e raw) = Inr header"
    by (auto simp: request_body_def and_then_Inr_iff split: if_splits)
  from assms e h have "line = hd (split_str CRLF header) \<and> body = drop e raw"
    by (auto simp: request_body_def and_then_Inr_iff Let_def subslice_def split: if_splits)
  then show thesis using that e h header_end_bounds(2) [OF e] by blast
qed

section \<open>Requests are handled once\<close>

text \<open>The socket while a request is arriving: the bytes so far, nothing handled.\<close>

definition gathering :: "bytes \<Rightarrow> request_socket" where
  "gathering got = \<lparr>rs_request = got, rs_response = None\<rparr>"

lemma request_write_partial:
  assumes "request_body (got @ data) = Inr None" "length (got @ data) \<le> MAX_REQUEST"
  shows "request_write handler data (gathering got) = (Inr (length data), gathering (got @ data), [])"
  using assms by (simp add: request_write_def gathering_def)

lemma request_write_last:
  assumes "request_body (got @ data) = Inr (Some r)" "handler (got @ data) = Inr response"
    and "length response \<le> MAX_RESPONSE"
  shows "request_write handler data (gathering got) =
    (Inr (length data), \<lparr>rs_request = [], rs_response = Some (response, 0)\<rparr>, [got @ data])"
  using assms request_body_length [OF assms(1)] by (simp add: request_write_def gathering_def)

lemma request_writes_collect:
  assumes whole: "request_body raw = Inr (Some r)" and ok: "handler raw = Inr response"
    and fits: "length response \<le> MAX_RESPONSE"
    and "got @ concat pieces = raw" "[] \<notin> set pieces" "pieces \<noteq> []"
  shows "request_writes handler pieces (gathering got) =
    (map (\<lambda>d. Inr (length d)) pieces, \<lparr>rs_request = [], rs_response = Some (response, 0)\<rparr>, [raw])"
  using assms(4-6)
proof (induction pieces arbitrary: got)
  case (Cons d ds)
  show ?case
  proof (cases "ds = []")
    case True
    then show ?thesis
      using Cons.prems request_write_last [of got d r handler response] whole ok fits by simp
  next
    case False
    then have later: "concat ds \<noteq> []" using Cons.prems by (cases ds) auto
    have raw: "raw = (got @ d) @ concat ds" using Cons.prems by simp
    then have "take (length (got @ d)) raw = got @ d" "length (got @ d) < length raw"
      using later by simp_all
    then have part: "request_body (got @ d) = Inr None" using request_body_prefix [OF whole] by metis
    have "length (got @ d) \<le> MAX_REQUEST" using raw request_body_length [OF whole] by simp
    then show ?thesis
      using request_write_partial [OF part] Cons.IH [of "got @ d"] Cons.prems False by simp
  qed
qed simp

lemma request_write_after:
  "rs_response s \<noteq> None \<Longrightarrow>
   request_write handler d s = (Inl (Refused ''invalid desktop request size/state''), s, [])"
  by (simp add: request_write_def)

lemma request_reads_concat:
  "rs_response s = Some (response, pos) \<Longrightarrow> pos \<le> length response \<Longrightarrow>
   \<exists>got. fst (request_reads ns s) = map Inr got \<and> concat got = take (sum_list ns) (drop pos response)"
proof (induction ns arbitrary: s pos)
  case (Cons n ns)
  let ?s = "s\<lparr>rs_response := Some (response, pos + length (take n (drop pos response)))\<rparr>"
  let ?p = "pos + length (take n (drop pos response))"
  have "?p \<le> length response" using Cons.prems by simp
  then obtain got where got: "fst (request_reads ns ?s) = map Inr got"
    "concat got = take (sum_list ns) (drop ?p response)"
    using Cons.IH [of ?s ?p] by auto
  have "drop ?p response = drop n (drop pos response)"
    by (cases "n \<le> length response - pos") (simp_all add: add.commute min_def)
  then have "take n (drop pos response) @ concat got = take (n + sum_list ns) (drop pos response)"
    using got(2) by (simp add: take_add)
  then show ?case
    using Cons.prems got
    by (intro exI [of _ "take n (drop pos response) # got"])
       (simp add: request_read_def case_prod_beta Let_def)
qed simp

section \<open>Numbers in headers\<close>

lemma dec_text_digits: "list_all is_ascii_digit (dec_text n) \<and> dec_text n \<noteq> []"
proof (induction n rule: dec_text.induct)
  case (1 n)
  have "is_ascii_digit (48 + n mod 10)" by (simp add: is_ascii_digit_def)
  then show ?case using 1 by (subst (1 2) dec_text.simps) auto
qed

lemma digits_value_snoc: "digits_value (ds @ [c]) = 10 * digits_value ds + (c - 48)"
  by (simp add: digits_value_def)

lemma digits_value_dec_text: "digits_value (dec_text n) = n"
proof (induction n rule: dec_text.induct)
  case (1 n)
  show ?case
  proof (cases "n < 10")
    case True
    then show ?thesis by (subst dec_text.simps) (simp add: digits_value_def)
  next
    case False
    then show ?thesis using 1 by (subst dec_text.simps) (simp add: digits_value_snoc)
  qed
qed

lemma dec_text_hd: "is_ascii_digit (hd (dec_text n))" "is_ascii_digit (last (dec_text n))"
  using dec_text_digits [of n] by (auto simp: list_all_iff)

lemma parse_usize_dec_text: "n < 2 ^ 64 \<Longrightarrow> parse_usize (dec_text n) = Inr n"
  using dec_text_digits [of n] dec_text_hd [of n]
  by (simp add: parse_usize_def parse_unsigned_def Let_def digits_value_dec_text is_ascii_digit_def)

lemma trim_tight:
  assumes "s \<noteq> []" "\<not> is_whitespace (hd s)" "\<not> is_whitespace (last s)"
  shows "trim (32 # s) = s"
proof -
  have "dropWhile is_whitespace (32 # s) = s"
    using assms(1,2) by (cases s) (simp_all add: is_whitespace_def [of 32])
  moreover have "dropWhile is_whitespace (rev s) = rev s"
    using assms(1,3) by (simp add: dropWhile_eq_self_iff hd_rev)
  ultimately show ?thesis
    by (simp add: trim_def trim_start_def trim_end_def trim_start_matches_def trim_end_matches_def)
qed

lemma trim_dec_text: "trim (32 # dec_text n) = dec_text n"
  using dec_text_digits [of n] dec_text_hd [of n]
  by (intro trim_tight) (auto simp: is_whitespace_def is_ascii_digit_def)

section \<open>Composed headers\<close>

text \<open>Lines of ASCII text with their terminators, and the empty line that ends the header.\<close>

definition compose_header :: "ustring list \<Rightarrow> ustring" where
  "compose_header ls = concat (map (\<lambda>l. l @ CRLF) ls) @ CRLF"

definition clean_line :: "ustring \<Rightarrow> bool" where
  "clean_line l = (l \<noteq> [] \<and> list_all (\<lambda>c. c \<noteq> 13 \<and> c \<noteq> 10 \<and> c < 128) l)"

lemma compose_header_simps:
  "compose_header [] = CRLF"
  "compose_header (l # ls) = l @ CRLF @ compose_header ls"
  by (simp_all add: compose_header_def)

lemma find_sub_skip:
  "p \<noteq> [] \<Longrightarrow> hd p \<notin> set a \<Longrightarrow> find_sub p (a @ s) = map_option (\<lambda>i. length a + i) (find_sub p s)"
proof (induction a)
  case (Cons c a)
  then show ?case by (cases p) (auto simp: option.map_comp comp_def)
qed (simp add: map_option_cong [of _ _ "(+) 0" "\<lambda>x. x"] option.map_ident)

lemma utf8_encode_ascii: "list_all (\<lambda>c. c < 128) s \<Longrightarrow> utf8_encode s = map of_nat s"
  by (induction s) (auto simp: char_bytes_def)

lemma clean_ascii: "clean_line l \<Longrightarrow> list_all (\<lambda>c. c < 128) l"
  by (auto simp: clean_line_def list_all_iff)

lemma compose_header_ascii: "list_all clean_line ls \<Longrightarrow> list_all (\<lambda>c. c < 128) (compose_header ls)"
  by (induction ls) (auto simp: compose_header_simps CRLF_def clean_ascii)

lemma ascii_is_char: "list_all (\<lambda>c. c < 128) s \<Longrightarrow> list_all is_char s"
  by (auto simp: list_all_iff is_char_def)

lemma from_utf8_header:
  assumes "list_all clean_line ls"
  shows "from_utf8 (utf8_encode (compose_header ls)) = Inr (compose_header ls)"
  using ascii_is_char [OF compose_header_ascii [OF assms]]
  by (simp add: from_utf8_def utf8_valid_encode utf8_chars_encode)

lemma clean_bytes:
  assumes "clean_line l"
  shows "utf8_encode l = map of_nat l" "13 \<notin> set (utf8_encode l)" "utf8_encode l \<noteq> []"
proof -
  show eq: "utf8_encode l = map of_nat l" using assms clean_ascii utf8_encode_ascii by blast
  have "(of_nat c :: u8) \<noteq> 13" if "c \<in> set l" for c
    using that assms byte_num(4) [of c "num.Bit1 (num.Bit0 (num.Bit1 num.One))"]
    by (auto simp: clean_line_def list_all_iff)
  then show "13 \<notin> set (utf8_encode l)" using eq by auto
  show "utf8_encode l \<noteq> []" using eq assms by (simp add: clean_line_def)
qed

lemma find_header_end:
  "list_all clean_line ls \<Longrightarrow> ls \<noteq> [] \<Longrightarrow>
   find_sub HEADER_END (utf8_encode (compose_header ls) @ body) =
     Some (length (compose_header ls) - 4)"
proof (induction ls)
  case (Cons l ls)
  note l = clean_bytes [of l]
  have len: "length (utf8_encode l) = length l" using l Cons.prems by simp
  have crlf: "utf8_encode CRLF = [13, 10]" by (simp add: CRLF_def char_bytes_def)
  have skip: "find_sub HEADER_END (utf8_encode (compose_header (l # ls)) @ body) =
    map_option (\<lambda>i. length l + i) (find_sub HEADER_END ([13, 10] @ utf8_encode (compose_header ls) @ body))"
    using find_sub_skip [of HEADER_END "utf8_encode l"] l Cons.prems len
    by (simp add: compose_header_simps crlf HEADER_END_def)
  show ?case
  proof (cases ls)
    case Nil
    then show ?thesis unfolding skip
      by (simp add: compose_header_simps crlf HEADER_END_def) (simp add: CRLF_def)
  next
    case (Cons l2 ls2)
    then have l2: "13 \<notin> set (utf8_encode l2)" "utf8_encode l2 \<noteq> []"
      using clean_bytes [of l2] Cons.prems by simp_all
    have rest: "find_sub HEADER_END (utf8_encode (compose_header ls) @ body) = Some (length (compose_header ls) - 4)"
      using Cons.IH Cons.prems Cons by simp
    obtain c r where c: "utf8_encode (compose_header ls) @ body = c # r" "c \<noteq> 13"
      using l2 Cons by (cases "utf8_encode l2") (auto simp: compose_header_simps)
    have "4 \<le> length (compose_header ls)" using Cons by (simp add: compose_header_simps CRLF_def) (simp add: compose_header_def CRLF_def)
    moreover have "find_sub HEADER_END (13 # 10 # c # r) = map_option (\<lambda>i. 2 + i) (find_sub HEADER_END (c # r))"
      using c(2) by (simp add: HEADER_END_def option.map_comp comp_def del: find_sub.simps)
        (simp add: option.map_comp comp_def)
    ultimately show ?thesis unfolding skip using rest c
      by (simp add: compose_header_simps CRLF_def)
  qed
qed simp

lemma length_compose_header: "ls \<noteq> [] \<Longrightarrow> 4 \<le> length (compose_header ls)"
  by (cases ls) (simp_all add: compose_header_def CRLF_def)

lemma header_end_compose:
  "list_all clean_line ls \<Longrightarrow> ls \<noteq> [] \<Longrightarrow>
   header_end (utf8_encode (compose_header ls) @ body) = Some (length (compose_header ls))"
  using length_compose_header [of ls] by (simp add: header_end_def find_header_end)

lemma length_encode_compose:
  "list_all clean_line ls \<Longrightarrow> length (utf8_encode (compose_header ls)) = length (compose_header ls)"
  using utf8_encode_ascii [OF compose_header_ascii] by simp

lemma split_compose_header:
  "list_all clean_line ls \<Longrightarrow> split_str CRLF (compose_header ls) = ls @ [[], []]"
proof (induction ls)
  case Nil
  show ?case
    by (simp add: compose_header_simps CRLF_def split_str.simps [of _ "13 # x" for x])
       (simp add: split_str.simps)
next
  case (Cons l ls)
  have "find_sub CRLF (l @ CRLF @ compose_header ls) = Some (length l)"
    using find_sub_skip [of CRLF l] Cons.prems
    by (auto simp: CRLF_def clean_line_def list_all_iff)
  then show ?case using Cons
    by (subst split_str.simps) (simp add: compose_header_simps CRLF_def)
qed

lemma split_by_skip:
  "list_all (\<lambda>c. \<not> P c) a \<Longrightarrow> P c \<Longrightarrow> split_by P (a @ c # s) = a # split_by P s"
  by (induction a) auto

lemma lines_compose_header: "list_all clean_line ls \<Longrightarrow> lines (compose_header ls) = ls @ [[]]"
proof -
  assume ok: "list_all clean_line ls"
  have "split_by (\<lambda>c. c = 10) (compose_header ls) = map (\<lambda>l. l @ [13]) (ls @ [[]]) @ [[]]"
    using ok
  proof (induction ls)
    case (Cons l ls)
    have "split_by (\<lambda>c. c = 10) ((l @ [13]) @ 10 # compose_header ls) =
      (l @ [13]) # split_by (\<lambda>c. c = 10) (compose_header ls)"
      using Cons.prems by (intro split_by_skip) (auto simp: clean_line_def list_all_iff)
    then show ?case using Cons by (simp add: compose_header_simps CRLF_def)
  qed (simp add: compose_header_simps CRLF_def)
  then show ?thesis by (simp add: lines_def strip_cr_def comp_def butlast_append map_idI)
qed

text \<open>A composed request with the body it announces is complete.\<close>

lemma filter_clean: "list_all clean_line ls \<Longrightarrow> filter (\<lambda>l. l \<noteq> []) (ls @ [[], []]) = ls"
  by (induction ls) (auto simp: clean_line_def)

lemma request_body_compose:
  assumes clean: "list_all clean_line (rl # fs)" and scan: "body_length fs None = Inr len"
    and body: "length body = (case len of None \<Rightarrow> 0 | Some n \<Rightarrow> n)"
    and fits: "length (compose_header (rl # fs)) + length body \<le> MAX_REQUEST"
  shows "request_body (utf8_encode (compose_header (rl # fs)) @ body) = Inr (Some (rl, body))"
proof -
  let ?h = "compose_header (rl # fs)"
  note len = length_encode_compose [OF clean]
  have e: "header_end (utf8_encode ?h @ body) = Some (length ?h)"
    by (rule header_end_compose [OF clean]) simp
  have t: "take (length ?h) (utf8_encode ?h @ body) = utf8_encode ?h" using len by simp
  have ls: "filter (\<lambda>l. l \<noteq> []) (tl (split_str CRLF ?h)) = fs" "hd (split_str CRLF ?h) = rl"
    using split_compose_header [OF clean] filter_clean [of fs] clean by simp_all
  have tot: "\<not> \<not> (length ?h + length body < 2 ^ 64 \<and> length ?h + length body \<le> MAX_REQUEST)"
    using fits by (simp add: MAX_REQUEST_def)
  show ?thesis
    unfolding request_body_def e option.case t from_utf8_header [OF clean] and_then_simps Let_def ls scan
      body [symmetric] if_not_P [OF tot]
    using len fits by (simp add: subslice_def)
qed

end
