(* ===== verification/Gateway.thy ===== *)
theory Gateway
  imports Http BrowserHub ExecHelpers
begin

text \<open>
  \<open>apps/wiredesk-browser/src/http.rs\<close>: reading a request header, \<open>authenticate\<close>, the discovery
  of targets and the decision made for one accepted connection. A stream is the list of what its
  reads will deliver; the end of the list, like an empty piece, is the end of the stream.
  \<open>serde_json\<close> is a parameter that maps a JSON text to its canonical form. A reply is its
  status, content type and body; that a reply could not be written is not modelled.
\<close>

section \<open>Reading\<close>

type_synonym stream = "(http_error + bytes) list"

text \<open>One \<open>read\<close> into a buffer of \<open>n\<close> bytes.\<close>

definition stream_read :: "nat \<Rightarrow> stream \<Rightarrow> (http_error + bytes) \<times> stream" where
  "stream_read n s =
     (case s of
        [] \<Rightarrow> (Inr [], [])
      | Inl e # r \<Rightarrow> (Inl e, r)
      | Inr d # r \<Rightarrow> if length d \<le> n then (Inr d, r) else (Inr (take n d), Inr (drop n d) # r))"

definition piece_size :: "http_error + bytes \<Rightarrow> nat" where
  "piece_size p = (case p of Inl e \<Rightarrow> 1 | Inr d \<Rightarrow> Suc (length d))"

definition stream_size :: "stream \<Rightarrow> nat" where
  "stream_size s = sum_list (map piece_size s)"

lemma stream_read_size:
  assumes "stream_read n s = (Inr d, s')" "d \<noteq> []"
  shows "stream_size s' < stream_size s"
  using assms by (auto simp: stream_read_def stream_size_def piece_size_def split: list.splits sum.splits if_splits)

definition MAX_HEADER :: nat where "MAX_HEADER = 16 * 1024"

function read_header_loop :: "bytes \<Rightarrow> stream \<Rightarrow> (http_error + bytes) \<times> stream" where
  "read_header_loop data s =
     (case stream_read 1024 s of
        (Inl e, s1) \<Rightarrow> (Inl e, s1)
      | (Inr got, s1) \<Rightarrow>
          if got = [] then (Inl (Refused ''HTTP header EOF''), s1)
          else if length (data @ got) > MAX_HEADER then (Inl (Refused ''HTTP header too large''), s1)
          else if header_end (data @ got) \<noteq> None then (Inr (data @ got), s1)
          else read_header_loop (data @ got) s1)"
  by pat_completeness auto
termination
  by (relation "measure (\<lambda>(data, s). stream_size s)") (auto dest: stream_read_size [OF sym])

declare read_header_loop.simps [simp del]

definition read_header :: "stream \<Rightarrow> (http_error + bytes) \<times> stream" where
  "read_header = read_header_loop []"

text \<open>\<open>stream_read_exact\<close> for the \<open>n\<close> bytes still missing.\<close>

function stream_read_exact :: "nat \<Rightarrow> bytes \<Rightarrow> stream \<Rightarrow> http_error + bytes" where
  "stream_read_exact n got s =
     (if n = 0 then Inr got
      else case stream_read n s of
             (Inl e, s1) \<Rightarrow> Inl e
           | (Inr d, s1) \<Rightarrow> if d = [] then Inl UnexpectedEof else stream_read_exact (n - length d) (got @ d) s1)"
  by pat_completeness auto
termination
  by (relation "measure (\<lambda>(n, got, s). stream_size s)") (auto dest: stream_read_size [OF sym])

declare stream_read_exact.simps [simp del]

section \<open>Authentication\<close>

definition VIEWER_URL :: ustring where "VIEWER_URL = lit ''http://wiredesk.localhost/''"
definition VIEWER_URL_WITH_PORT :: ustring where
  "VIEWER_URL_WITH_PORT = lit ''http://wiredesk.localhost:19223/''"

definition request_parts :: "ustring \<Rightarrow> ustring list" where
  "request_parts request = filter (\<lambda>p. p \<noteq> []) (split_by is_whitespace request)"

definition request_target :: "ustring \<Rightarrow> http_error + ustring \<times> ustring" where
  "request_target request =
     (let parts = request_parts request in
      if length parts \<noteq> 3 \<or> \<not> starts_with (parts ! 1) (lit ''/'') \<or> parts ! 2 \<noteq> lit ''HTTP/1.1''
      then Inl (Refused ''invalid request line'') else Inr (parts ! 0, parts ! 1))"

text \<open>The loop over the parts of the query: whether the token was given, and what remains.\<close>

fun scan_query :: "ustring \<Rightarrow> ustring list \<Rightarrow> bool \<Rightarrow> ustring list \<Rightarrow> http_error + bool \<times> ustring list" where
  "scan_query token [] ok kept = Inr (ok, kept)"
| "scan_query token (p # ps) ok kept =
     (case strip_prefix (lit ''token='') p of
        Some v \<Rightarrow>
          if ok \<or> v \<noteq> token then Inl (Refused ''invalid token'') else scan_query token ps True kept
      | None \<Rightarrow> scan_query token ps ok (kept @ [p]))"

definition host_allowed :: "nat \<Rightarrow> ustring \<Rightarrow> bool" where
  "host_allowed port v =
     (v = lit ''127.0.0.1:'' @ dec_text port \<or> v = lit ''localhost:'' @ dec_text port
      \<or> (port = 19223
         \<and> v \<in> {lit ''wiredesk.localhost:19223'', lit ''wiredesk.localhost'', lit ''wiredesk.localhost:80''}))"

definition origin_allowed :: "ustring \<Rightarrow> bool" where
  "origin_allowed v =
     (v = lit ''http://127.0.0.1:19223'' \<or> v = lit ''http://localhost:19223''
      \<or> v = trim_end_matches (\<lambda>c. c = 47) VIEWER_URL
      \<or> v = trim_end_matches (\<lambda>c. c = 47) VIEWER_URL_WITH_PORT)"

definition bearer :: "ustring \<Rightarrow> ustring" where
  "bearer token = lit ''Bearer '' @ token"

record gate_scan =
  gs_forwarded :: ustring
  gs_hosts :: nat
  gs_auths :: nat
  gs_ok :: bool

definition scan_header :: "ustring \<Rightarrow> nat \<Rightarrow> ustring \<Rightarrow> gate_scan \<Rightarrow> http_error + gate_scan" where
  "scan_header token port line g =
     and_then (split_header line) (\<lambda>(name, v0).
       let v = trim v0; host = header_is name ''host'';
           g1 = (if host then g\<lparr>gs_hosts := gs_hosts g + 1\<rparr> else g) in
       if host \<and> \<not> host_allowed port v then Inl (Refused ''invalid Host'')
       else if header_is name ''authorization'' then
         (if gs_auths g1 + 1 > 1 \<or> v \<noteq> bearer token then Inl (Refused ''invalid authorization'')
          else Inr (g1\<lparr>gs_auths := gs_auths g1 + 1, gs_ok := True\<rparr>))
       else if header_is name ''origin'' then
         (if \<not> origin_allowed v then Inl (Refused ''invalid Origin'') else Inr g1)
       else Inr (g1\<lparr>gs_forwarded := gs_forwarded g1 @ line @ CRLF\<rparr>))"

fun scan_headers :: "ustring \<Rightarrow> nat \<Rightarrow> ustring list \<Rightarrow> gate_scan \<Rightarrow> http_error + gate_scan" where
  "scan_headers token port [] g = Inr g"
| "scan_headers token port (l # ls) g = and_then (scan_header token port l g) (scan_headers token port ls)"

text \<open>The request line that is passed on.\<close>

definition forwarded_path :: "ustring \<Rightarrow> ustring list \<Rightarrow> ustring" where
  "forwarded_path path kept = (if kept = [] then path else path @ lit ''?'' @ join (lit ''&'') kept)"

definition forwarded_line :: "ustring \<Rightarrow> ustring \<Rightarrow> ustring" where
  "forwarded_line verb path = verb @ lit '' '' @ path @ lit '' HTTP/1.1'' @ CRLF"

definition split_target :: "ustring \<Rightarrow> ustring \<times> ustring" where
  "split_target target = (case split_once 63 target of None \<Rightarrow> (target, []) | Some pq \<Rightarrow> pq)"

definition query_pairs :: "ustring \<Rightarrow> ustring list" where
  "query_pairs query = filter (\<lambda>p. p \<noteq> []) (split_by (\<lambda>c. c = 38) query)"

definition authenticate :: "bytes \<Rightarrow> ustring \<Rightarrow> nat \<Rightarrow> http_error + bytes" where
  "authenticate raw token port =
     (case header_end raw of
        None \<Rightarrow> Inl (Refused ''missing header end'')
      | Some end \<Rightarrow>
          and_then (from_utf8 (take end raw)) (\<lambda>header.
          let ls = split_str CRLF header in
          and_then (request_target (hd ls)) (\<lambda>(verb, target).
          let (path, query) = split_target target in
          and_then (scan_query token (query_pairs query) False []) (\<lambda>(ok, kept).
          and_then (scan_headers token port (filter (\<lambda>l. l \<noteq> []) (tl ls))
                     \<lparr>gs_forwarded = forwarded_line verb (forwarded_path path kept),
                      gs_hosts = 0, gs_auths = 0, gs_ok = ok\<rparr>) (\<lambda>g.
          if gs_hosts g \<noteq> 1 \<or> \<not> gs_ok g then Inl (Refused ''unauthorized'')
          else Inr (utf8_encode (gs_forwarded g @ CRLF) @ drop end raw))))))"

section \<open>What authentication admits\<close>

definition http_fields :: "ustring list \<Rightarrow> (ustring \<times> ustring) list" where
  "http_fields ls = List.map_filter (split_once 58) ls"

text \<open>The trimmed values of the fields of one name, in order.\<close>

definition header_values :: "string \<Rightarrow> ustring list \<Rightarrow> ustring list" where
  "header_values s ls = map (\<lambda>(n, v). trim v) (filter (\<lambda>(n, v). header_is n s) (http_fields ls))"

text \<open>The tokens of a query.\<close>

definition query_tokens :: "ustring list \<Rightarrow> ustring list" where
  "query_tokens ps = List.map_filter (strip_prefix (lit ''token='')) ps"

definition is_field :: "string \<Rightarrow> ustring \<Rightarrow> bool" where
  "is_field s line = (case split_once 58 line of None \<Rightarrow> False | Some (n, v) \<Rightarrow> header_is n s)"

text \<open>The lines that are passed on.\<close>

definition kept_lines :: "ustring list \<Rightarrow> ustring list" where
  "kept_lines ls = filter (\<lambda>l. \<not> is_field ''authorization'' l \<and> \<not> is_field ''origin'' l) ls"

text \<open>
  The contract of the gateway: a field on every line, one loopback host, allowed origins, and at
  least one credential, all of them right, at most one of each kind.
\<close>

definition admitted :: "ustring \<Rightarrow> nat \<Rightarrow> ustring list \<Rightarrow> ustring list \<Rightarrow> bool" where
  "admitted token port pairs ls =
     (list_all (\<lambda>l. split_once 58 l \<noteq> None) ls
      \<and> length (header_values ''host'' ls) = 1 \<and> list_all (host_allowed port) (header_values ''host'' ls)
      \<and> list_all origin_allowed (header_values ''origin'' ls)
      \<and> length (query_tokens pairs) \<le> 1 \<and> list_all (\<lambda>t. t = token) (query_tokens pairs)
      \<and> length (header_values ''authorization'' ls) \<le> 1
      \<and> list_all (\<lambda>v. v = bearer token) (header_values ''authorization'' ls)
      \<and> (query_tokens pairs \<noteq> [] \<or> header_values ''authorization'' ls \<noteq> []))"

lemma http_fields_simps [simp]:
  "http_fields [] = []"
  "http_fields (l # ls) = (case split_once 58 l of None \<Rightarrow> [] | Some nv \<Rightarrow> [nv]) @ http_fields ls"
  by (simp_all add: http_fields_def map_filter_simps split: option.splits)

lemma header_values_Nil [simp]: "header_values s [] = []"
  by (simp add: header_values_def)

lemma header_values_Cons:
  "header_values s (l # ls) =
    (case split_once 58 l of None \<Rightarrow> [] | Some (n, v) \<Rightarrow> if header_is n s then [trim v] else []) @ header_values s ls"
  by (simp add: header_values_def split: option.splits)

lemma query_tokens_simps [simp]:
  "query_tokens [] = []"
  "query_tokens (p # ps) =
    (case strip_prefix (lit ''token='') p of None \<Rightarrow> query_tokens ps | Some v \<Rightarrow> v # query_tokens ps)"
  by (simp_all add: query_tokens_def map_filter_simps split: option.splits)


lemma scan_query_iff:
  "scan_query token ps ok kept = Inr (ok', kept') \<longleftrightarrow>
     list_all (\<lambda>t. t = token) (query_tokens ps)
     \<and> (query_tokens ps = [] \<or> (\<not> ok \<and> length (query_tokens ps) = 1))
     \<and> ok' = (ok \<or> query_tokens ps \<noteq> [])
     \<and> kept' = kept @ filter (\<lambda>p. strip_prefix (lit ''token='') p = None) ps"
proof (induction ps arbitrary: ok kept)
  case (Cons p ps)
  then show ?case by (cases "strip_prefix (lit ''token='') p") auto
qed auto

text \<open>The three names the gateway looks for exclude each other.\<close>

lemma header_is_length: "header_is n s \<Longrightarrow> length n = length s"
  by (auto simp: header_is_def eq_ignore_ascii_case_def lit_def dest: map_eq_imp_length_eq)

lemma header_is_apart:
  "header_is n ''authorization'' \<Longrightarrow> \<not> header_is n ''host'' \<and> \<not> header_is n ''origin''"
  "header_is n ''origin'' \<Longrightarrow> \<not> header_is n ''host''"
  by (auto dest!: header_is_length)

lemma at_most_one: "length xs \<le> Suc 0 \<longleftrightarrow> xs = [] \<or> length xs = Suc 0"
  by (cases xs) auto

lemma scan_header_iff:
  "scan_header token port l g = Inr g' \<longleftrightarrow>
     split_once 58 l \<noteq> None
     \<and> list_all (host_allowed port) (header_values ''host'' [l])
     \<and> list_all origin_allowed (header_values ''origin'' [l])
     \<and> list_all (\<lambda>v. v = bearer token) (header_values ''authorization'' [l])
     \<and> (header_values ''authorization'' [l] = [] \<or> gs_auths g = 0)
     \<and> g' = \<lparr>gs_forwarded = gs_forwarded g @ concat (map (\<lambda>l. l @ CRLF) (kept_lines [l])),
             gs_hosts = gs_hosts g + length (header_values ''host'' [l]),
             gs_auths = gs_auths g + length (header_values ''authorization'' [l]),
             gs_ok = (gs_ok g \<or> header_values ''authorization'' [l] \<noteq> [])\<rparr>"
proof (cases "split_once 58 l")
  case None
  then show ?thesis by (simp add: scan_header_def split_header_def)
next
  case (Some nv)
  then show ?thesis
    using header_is_apart [of "fst nv"]
    by (cases nv) (auto simp: scan_header_def split_header_def header_values_Cons kept_lines_def is_field_def
        Let_def)
qed

lemma header_values_split: "header_values s (l # ls) = header_values s [l] @ header_values s ls"
  by (simp add: header_values_Cons)

lemma kept_lines_split: "kept_lines (l # ls) = kept_lines [l] @ kept_lines ls"
  by (simp add: kept_lines_def)

lemma scan_headers_iff:
  "scan_headers token port ls g = Inr g' \<longleftrightarrow>
     list_all (\<lambda>l. split_once 58 l \<noteq> None) ls
     \<and> list_all (host_allowed port) (header_values ''host'' ls)
     \<and> list_all origin_allowed (header_values ''origin'' ls)
     \<and> list_all (\<lambda>v. v = bearer token) (header_values ''authorization'' ls)
     \<and> (header_values ''authorization'' ls = []
        \<or> (gs_auths g = 0 \<and> length (header_values ''authorization'' ls) = 1))
     \<and> g' = \<lparr>gs_forwarded = gs_forwarded g @ concat (map (\<lambda>l. l @ CRLF) (kept_lines ls)),
             gs_hosts = gs_hosts g + length (header_values ''host'' ls),
             gs_auths = gs_auths g + length (header_values ''authorization'' ls),
             gs_ok = (gs_ok g \<or> header_values ''authorization'' ls \<noteq> [])\<rparr>"
proof (induction ls arbitrary: g)
  case Nil
  show ?case by (auto simp: kept_lines_def)
next
  case (Cons l ls)
  have "length (header_values ''authorization'' [l]) \<le> Suc 0"
    by (simp add: header_values_Cons split: option.splits)
  then consider "header_values ''authorization'' [l] = []"
    | "length (header_values ''authorization'' [l]) = Suc 0" "header_values ''authorization'' [l] \<noteq> []"
    by (auto simp: at_most_one)
  then show ?case
    unfolding header_values_split [of _ l ls] kept_lines_split [of l ls]
    by cases (auto simp: and_then_Inr_iff scan_header_iff Cons.IH)
qed

text \<open>What is passed on, in full.\<close>

definition forwarded_request :: "ustring \<Rightarrow> ustring \<Rightarrow> ustring list \<Rightarrow> ustring list \<Rightarrow> ustring" where
  "forwarded_request verb path pairs ls =
     forwarded_line verb (forwarded_path path (filter (\<lambda>p. strip_prefix (lit ''token='') p = None) pairs))
     @ concat (map (\<lambda>l. l @ CRLF) (kept_lines ls)) @ CRLF"

lemma authenticate_spec:
  "authenticate raw token port = Inr fwd \<longleftrightarrow>
     (\<exists>e header verb target.
        header_end raw = Some e \<and> from_utf8 (take e raw) = Inr header
        \<and> request_target (hd (split_str CRLF header)) = Inr (verb, target)
        \<and> (let pairs = query_pairs (snd (split_target target));
               ls = filter (\<lambda>l. l \<noteq> []) (tl (split_str CRLF header))
           in admitted token port pairs ls
              \<and> fwd = utf8_encode (forwarded_request verb (fst (split_target target)) pairs ls) @ drop e raw))"
    (is "_ \<longleftrightarrow> ?spec")
proof (cases "header_end raw")
  case (Some e)
  show ?thesis
  proof (cases "from_utf8 (take e raw)")
    case (Inr header)
    note h = this
    show ?thesis
    proof (cases "request_target (hd (split_str CRLF header))")
      case (Inr vt)
      then show ?thesis using Some h
        by (cases vt) (auto simp: authenticate_def Let_def case_prod_beta and_then_Inr_iff scan_query_iff
            scan_headers_iff admitted_def forwarded_request_def at_most_one split: if_splits)
    qed (use Some h in \<open>simp add: authenticate_def\<close>)
  qed (use Some in \<open>simp add: authenticate_def\<close>)
qed (simp add: authenticate_def)

end
