(* ===== verification/GatewayServe.thy ===== *)
theory GatewayServe
  imports Gateway
begin

text \<open>
  The rest of \<open>apps/wiredesk-browser\<close>: the discovery of targets, what the gateway of \<open>http.rs\<close>
  decides for one accepted connection and the streams it attaches to the hub, the forwarder of
  \<open>web_forwarder.rs\<close>, and the client of the desktop view, \<open>desktop_client.rs\<close>. Connecting to a
  port is an operation of the system: what the new connection will deliver is a parameter.
\<close>

section \<open>Header reading\<close>

lemma stream_read_take:
  assumes "stream_read n s = (Inr d, s')" "0 < n"
  shows "length d \<le> n"
  using assms by (auto simp: stream_read_def split: list.splits sum.splits if_splits)

text \<open>What is read is a header with the end in it, below the limit, and the end is new.\<close>

lemma read_header_loop_ok:
  "read_header_loop data s = (Inr raw, s') \<Longrightarrow>
   length raw \<le> MAX_HEADER \<and> header_end raw \<noteq> None \<and> (\<exists>t. raw = data @ t)"
proof (induction data s rule: read_header_loop.induct)
  case (1 data s)
  show ?case
  proof (cases "stream_read 1024 s")
    case (Pair r s1)
    then show ?thesis
      using 1 by (cases r) (auto simp: read_header_loop.simps [of data s] split: if_splits)
  qed
qed

lemma read_header_ok:
  "read_header s = (Inr raw, s') \<Longrightarrow> length raw \<le> MAX_HEADER \<and> header_end raw \<noteq> None"
  using read_header_loop_ok by (auto simp: read_header_def)

lemma read_exact_length: "stream_read_exact n got s = Inr d \<Longrightarrow> length d = length got + n"
proof (induction n got s rule: stream_read_exact.induct)
  case (1 n got s)
  show ?case
  proof (cases "stream_read n s")
    case (Pair r s1)
    then show ?thesis
      using 1 stream_read_take [of n s]
      by (cases r) (fastforce simp: stream_read_exact.simps [of n got s] split: if_splits)+
  qed
qed

section \<open>Discovery\<close>

text \<open>Chrome keeps its sockets open: the body ends where its length says.\<close>

definition MAX_DISCOVERY :: nat where "MAX_DISCOVERY = 2 * 1024 * 1024"

definition field_values :: "string \<Rightarrow> ustring list \<Rightarrow> ustring list" where
  "field_values s ls =
     map (\<lambda>(n, v). trim v) (filter (\<lambda>(n, v). header_is n s) (List.map_filter (split_once 58) ls))"

definition read_discovery :: "(bytes \<Rightarrow> bytes option) \<Rightarrow> stream \<Rightarrow> http_error + bytes" where
  "read_discovery json s =
     (let (r, s1) = read_header s in
      and_then r (\<lambda>raw.
      if \<not> str_prefix (blit ''HTTP/1.1 200'') raw then Inl (Refused ''CDP discovery failed'')
      else case header_end raw of
             None \<Rightarrow> Inl (Refused ''invalid CDP response'')
           | Some start \<Rightarrow>
               and_then (from_utf8 (take start raw)) (\<lambda>headers.
               let lengths = field_values ''content-length'' (lines headers) in
               if length lengths \<noteq> 1 \<or> field_values ''transfer-encoding'' (lines headers) \<noteq> []
               then Inl (Refused ''invalid CDP response framing'')
               else and_then (parse_usize (hd lengths)) (\<lambda>n.
               if n > MAX_DISCOVERY \<or> length raw - start > n
               then Inl (Refused ''CDP response too large or malformed'')
               else and_then (stream_read_exact (n - length (drop start raw)) (drop start raw) s1) (\<lambda>body.
               case json body of None \<Rightarrow> Inl IoFailed | Some v \<Rightarrow> Inr v)))))"

text \<open>\<open>targets\<close>: the request it writes, and its answer.\<close>

definition targets_request :: "ustring \<Rightarrow> bytes" where
  "targets_request token =
     utf8_encode (compose_header
       [lit ''GET /json/list HTTP/1.1'', lit ''Host: 127.0.0.1:19222'',
        lit ''Authorization: '' @ bearer token, lit ''Connection: close''])"

definition fetch_targets :: "(bytes \<Rightarrow> bytes option) \<Rightarrow> http_error + stream \<Rightarrow> http_error + bytes" where
  "fetch_targets json connected = and_then connected (read_discovery json)"

section \<open>One connection\<close>

datatype gate_reply = PanelPage | PanelScript | HostOutdated | TargetList bytes

record gate_env =
  ge_token :: ustring
  ge_json :: "bytes \<Rightarrow> bytes option"
  ge_cdp :: "http_error + stream" \<comment> \<open>the connection to port 19222\<close>
  ge_clone :: "http_error + unit" \<comment> \<open>\<open>stream.try_clone()\<close>\<close>
  ge_alive1 :: bool \<comment> \<open>the two loads of \<open>alive\<close>\<close>
  ge_alive2 :: bool
  ge_version :: u8
  ge_now :: nat

definition first_line :: "string \<Rightarrow> bytes \<Rightarrow> bool" where
  "first_line s raw = str_prefix (blit s @ [13, 10]) raw"

definition desktop_request :: "nat \<Rightarrow> bytes \<Rightarrow> bool" where
  "desktop_request port initial =
     (port = 19223
      \<and> (first_line ''GET /desktop/frame HTTP/1.1'' initial \<or> first_line ''POST /desktop/input HTTP/1.1'' initial))"

text \<open>The counter of stream ids and the hub are shared by all connections.\<close>

type_synonym gate_state = "u32 \<times> hub"

definition attach_stream :: "gate_env \<Rightarrow> bool \<Rightarrow> bytes \<Rightarrow> gate_state \<Rightarrow> (http_error + gate_reply option) \<times> gate_state" where
  "attach_stream env desktop initial s =
     (let (sid, h) = s in
      if sid = 0 then (Inl (Refused ''stream id exhausted''), sid + 1, h)
      else if \<not> ge_alive2 env then (Inr None, sid + 1, h)
      else case ge_clone env of
             Inl e \<Rightarrow> (Inl e, sid + 1, h)
           | Inr u \<Rightarrow>
               let (attached, h1) =
                     (if desktop then hub_attach_desktop sid initial (ge_now env) h
                      else hub_attach sid initial (ge_now env) h) in
               if \<not> attached then (Inl (Refused ''browser connection limit reached''), sid + 1, h1)
               else (Inr None, sid + 1, h1))"

definition gateway_request :: "gate_env \<Rightarrow> nat \<Rightarrow> bytes \<Rightarrow> gate_state \<Rightarrow> (http_error + gate_reply option) \<times> gate_state" where
  "gateway_request env port raw s =
     (if port = 19223 \<and> first_line ''GET / HTTP/1.1'' raw then (Inr (Some PanelPage), s)
      else if port = 19223 \<and> first_line ''GET /desktop.js HTTP/1.1'' raw then (Inr (Some PanelScript), s)
      else case authenticate raw (ge_token env) port of
             Inl e \<Rightarrow> (Inl e, s)
           | Inr initial \<Rightarrow>
               if \<not> ge_alive1 env then (Inr None, s)
               else let desktop = desktop_request port initial in
                 if desktop \<and> \<not> desktop_supported (ge_version env) then (Inr (Some HostOutdated), s)
                 else if port = 19223 \<and> \<not> desktop then
                   (if \<not> first_line ''GET /targets HTTP/1.1'' initial
                    then (Inl (Refused ''unknown viewer path''), s)
                    else (and_then (fetch_targets (ge_json env) (ge_cdp env))
                                   (\<lambda>b. Inr (Some (TargetList b))), s))
                 else attach_stream env desktop initial s)"

text \<open>The connection's thread: what is read is decided on, and a failure is answered with 403.\<close>

datatype gate_outcome = Answered gate_reply | Forbidden | Handed

definition gateway_serve :: "gate_env \<Rightarrow> nat \<Rightarrow> http_error + bytes \<Rightarrow> gate_state \<Rightarrow> gate_outcome \<times> gate_state" where
  "gateway_serve env port header s =
     (let (r, s1) = (case header of Inl e \<Rightarrow> (Inl e, s) | Inr raw \<Rightarrow> gateway_request env port raw s) in
      (case r of Inl e \<Rightarrow> Forbidden | Inr (Some reply) \<Rightarrow> Answered reply | Inr None \<Rightarrow> Handed, s1))"

text \<open>The acceptor: at most 16 headers are read at a time.\<close>

definition gateway_accept :: "nat \<Rightarrow> bool \<times> nat" where
  "gateway_accept active = (if active \<ge> 16 then (False, active) else (True, active + 1))"

section \<open>The forwarder\<close>

definition HEALTH :: bytes where "HEALTH = blit ''wiredesk-web-forwarder-v1''"

function forward_header_loop :: "bytes \<Rightarrow> stream \<Rightarrow> http_error + bytes \<times> nat" where
  "forward_header_loop header s =
     (case stream_read 2048 s of
        (Inl e, s1) \<Rightarrow> Inl e
      | (Inr got, s1) \<Rightarrow>
          if got = [] \<or> length header + length got > 16 * 1024 then Inl (Refused ''invalid header size'')
          else case header_end (header @ got) of
                 Some e \<Rightarrow> Inr (header @ got, e)
               | None \<Rightarrow> forward_header_loop (header @ got) s1)"
  by pat_completeness auto
termination
  by (relation "measure (\<lambda>(header, s). stream_size s)") (auto dest: stream_read_size [OF sym])

declare forward_header_loop.simps [simp del]

datatype forward_outcome = BadAddress | Healthy | BackendDown | Relayed bytes

text \<open>\<open>serve\<close>: only the fixed address is answered, and the bytes read so far are sent as they are.\<close>

definition forward_serve :: "stream \<Rightarrow> bool \<Rightarrow> http_error + forward_outcome" where
  "forward_serve s backend =
     and_then (forward_header_loop [] s) (\<lambda>(header, e).
     and_then (from_utf8 (take e header)) (\<lambda>head_text.
     let ls = split_str CRLF head_text;
         hosts = field_values ''Host'' (tl ls) in
     if length hosts \<noteq> 1 \<or> hd hosts \<notin> {lit ''wiredesk.localhost'', lit ''wiredesk.localhost:80''}
     then Inr BadAddress
     else if hd ls = lit ''GET /__wiredesk__/health HTTP/1.1'' then Inr Healthy
     else if \<not> backend then Inr BackendDown
     else Inr (Relayed header)))"

text \<open>\<open>is_available\<close>: the answer to the probe, at most 1024 bytes of it.\<close>

definition forwarder_available :: "http_error + bytes \<Rightarrow> bool" where
  "forwarder_available answer =
     (case answer of
        Inl e \<Rightarrow> False
      | Inr response \<Rightarrow>
          let r = take 1024 response in
          str_prefix (blit ''HTTP/1.1 200 '') r \<and> str_prefix (rev HEALTH) (rev r))"

section \<open>The desktop client\<close>

definition frame_request :: "ustring \<Rightarrow> bytes" where
  "frame_request token =
     utf8_encode (compose_header
       [lit ''GET /desktop/frame HTTP/1.1'', lit ''Host: 127.0.0.1:19223'',
        lit ''Authorization: '' @ bearer token, lit ''Connection: close''])"

definition MAX_FRAME_RESPONSE :: nat where "MAX_FRAME_RESPONSE = 2 * 1024 * 1024"

text \<open>\<open>frame\<close> on what the connection delivers until it ends.\<close>

definition frame_response :: "bytes \<Rightarrow> http_error + bytes" where
  "frame_response delivered =
     (let response = take (MAX_FRAME_RESPONSE + 1) delivered in
      if length response > MAX_FRAME_RESPONSE then Inl (Refused ''desktop response too large'')
      else case header_end response of
             None \<Rightarrow> Inl (Refused ''invalid desktop response'')
           | Some end \<Rightarrow>
               if str_prefix (blit ''HTTP/1.1 412 '') response then Inl (Refused ''host outdated'')
               else if \<not> str_prefix (blit ''HTTP/1.1 200 '') response then Inl (Refused ''screen unavailable'')
               else and_then (from_utf8 (take end response)) (\<lambda>headers.
                 let lengths = field_values ''content-length'' (lines headers) in
                 if length lengths \<noteq> 1 then Inl (Refused ''truncated desktop image'')
                 else and_then (parse_usize (hd lengths)) (\<lambda>n.
                   if n \<noteq> length response - end then Inl (Refused ''truncated desktop image'')
                   else Inr (drop end response))))"

section \<open>What reaches the hub\<close>

text \<open>Only an authenticated request takes a stream id or touches the hub.\<close>

lemma gateway_request_cases:
  assumes "gateway_request env port raw s = (r, s1)"
  obtains "s1 = s" "r \<in> {Inr (Some PanelPage), Inr (Some PanelScript)}" "port = 19223"
  | e where "s1 = s" "r = Inl e"
  | initial where "authenticate raw (ge_token env) port = Inr initial" "s1 = s"
  | initial where "authenticate raw (ge_token env) port = Inr initial"
      "(r, s1) = attach_stream env (desktop_request port initial) initial s"
      "desktop_request port initial \<longrightarrow> desktop_supported (ge_version env)"
      "port = 19223 \<longrightarrow> desktop_request port initial"
proof (cases "authenticate raw (ge_token env) port")
  case (Inl e)
  then show thesis using assms that(1,2) by (auto simp: gateway_request_def split: if_splits)
next
  case (Inr initial)
  then show thesis using assms that(1,3,4) by (auto simp: gateway_request_def Let_def split: if_splits)
qed

end
