(* ===== verification/HostDesktop.thy ===== *)
theory HostDesktop
  imports Http
begin

text \<open>
  \<open>apps/wiredesk-host/src/desktop.rs\<close>: the endpoint behind the request socket of the host. It
  captures the screen or injects one validated action. The capture, \<open>serde_json\<close> and
  \<open>SendInput\<close> are the operating system's and a library's: fields of an environment. Flags of an
  injected event are kept by name, as the set the code joins with a bitwise or.
\<close>

section \<open>Actions\<close>

datatype desktop_action =
    Click u16 u16 u8
  | Drag "(u16 \<times> u16) list"
  | Wheel u16 u16 i16
  | KeyStroke u16 u8
  | TypeText ustring

definition action_valid :: "desktop_action \<Rightarrow> bool" where
  "action_valid a =
     (case a of
        Click x y button \<Rightarrow> button \<le> 2
      | Drag points \<Rightarrow> 2 \<le> length points \<and> length points \<le> 64
      | Wheel x y delta \<Rightarrow> \<bar>sint delta\<bar> \<le> 1200
      | KeyStroke vk modifiers \<Rightarrow> 1 \<le> vk \<and> vk \<le> 254 \<and> modifiers AND NOT 7 = 0
      | TypeText s \<Rightarrow> s \<noteq> [] \<and> length (utf8_encode s) \<le> 4096)"

definition validate_action :: "desktop_action \<Rightarrow> http_error + unit" where
  "validate_action a = (if action_valid a then Inr () else Inl (Refused ''invalid desktop input''))"

section \<open>Injected events\<close>

datatype mouse_flag =
    MMove | MAbsolute | LeftDown | LeftUp | RightDown | RightUp | MiddleDown | MiddleUp | MWheel

datatype key_flag = KeyUpFlag | Unicode

datatype input_event =
    InKey u16 u16 "key_flag list" \<comment> \<open>virtual key, scan code\<close>
  | InMouse u16 u16 "mouse_flag list" u32

definition move_to :: "u16 \<times> u16 \<Rightarrow> input_event" where
  "move_to p = InMouse (fst p) (snd p) [MMove, MAbsolute] 0"

definition button_flags :: "u8 \<Rightarrow> mouse_flag \<times> mouse_flag" where
  "button_flags button =
     (if button = 0 then (LeftDown, LeftUp) else if button = 1 then (RightDown, RightUp)
      else (MiddleDown, MiddleUp))"

definition modifier_codes :: "(u8 \<times> u16) list" where
  "modifier_codes = [(1, 0x12), (2, 0x11), (4, 0x10)]"

text \<open>\<open>str::encode_utf16\<close>.\<close>

definition utf16_units :: "rchar \<Rightarrow> u16 list" where
  "utf16_units c =
     (if c < 0x10000 then [of_nat c]
      else [of_nat (0xD800 + (c - 0x10000) div 1024), of_nat (0xDC00 + (c - 0x10000) mod 1024)])"

definition encode_utf16 :: "ustring \<Rightarrow> u16 list" where
  "encode_utf16 s = concat (map utf16_units s)"

text \<open>The events of an action; \<open>points[0]\<close> of an empty drag would panic.\<close>

definition action_events :: "desktop_action \<Rightarrow> input_event list" where
  "action_events a =
     (case a of
        Click x y button \<Rightarrow>
          (let (down, up) = button_flags button in
           [move_to (x, y), InMouse 0 0 [down] 0, InMouse 0 0 [up] 0])
      | Drag points \<Rightarrow>
          [move_to (hd points), InMouse 0 0 [LeftDown] 0] @ map move_to (tl points)
          @ [InMouse 0 0 [LeftUp] 0]
      | Wheel x y delta \<Rightarrow> [move_to (x, y), InMouse 0 0 [MWheel] (scast delta)]
      | KeyStroke vk modifiers \<Rightarrow>
          (let held = map snd (filter (\<lambda>(bit, code). modifiers AND bit \<noteq> 0) modifier_codes) in
           map (\<lambda>code. InKey code 0 []) held @ [InKey vk 0 [], InKey vk 0 [KeyUpFlag]]
           @ map (\<lambda>code. InKey code 0 [KeyUpFlag]) (rev held))
      | TypeText s \<Rightarrow>
          concat (map (\<lambda>unit. [InKey 0 unit [Unicode], InKey 0 unit [Unicode, KeyUpFlag]])
                      (encode_utf16 s)))"

definition is_release :: "input_event \<Rightarrow> bool" where
  "is_release e =
     (case e of
        InKey vk scan flags \<Rightarrow> KeyUpFlag \<in> set flags
      | InMouse x y flags d \<Rightarrow> set flags \<inter> {LeftUp, RightUp, MiddleUp} \<noteq> {})"

text \<open>
  \<open>inject\<close>: the events that reached the system, and the result. \<open>accepts\<close> says how many events
  of a batch \<open>SendInput\<close> inserts.
\<close>

definition inject_action :: "(input_event list \<Rightarrow> nat) \<Rightarrow> desktop_action \<Rightarrow> input_event list \<times> (http_error + unit)" where
  "inject_action accepts a =
     (let events = action_events a; sent = accepts events in
      if sent \<noteq> length events then
        let ups = filter is_release events in
        (take sent events @ take (accepts ups) ups, Inl (Refused ''desktop input was blocked''))
      else (events, Inr ()))"

section \<open>The endpoint\<close>

record desktop_env =
  de_capture :: "http_error + bytes"
  de_action :: "bytes \<Rightarrow> desktop_action option" \<comment> \<open>\<open>serde_json::from_slice\<close>\<close>
  de_accepts :: "input_event list \<Rightarrow> nat"

definition http_reply :: "string \<Rightarrow> string \<Rightarrow> bytes \<Rightarrow> bytes" where
  "http_reply status content_type body =
     utf8_encode (lit ''HTTP/1.1 '' @ lit status @ CRLF @ lit ''Content-Type: '' @ lit content_type @ CRLF
       @ lit ''Content-Length: '' @ dec_text (length body) @ CRLF @ lit ''Connection: close'' @ CRLF
       @ lit ''Cache-Control: no-store'' @ CRLF @ lit ''X-Content-Type-Options: nosniff'' @ CRLF @ CRLF)
     @ body"

text \<open>\<open>handle\<close>: the events injected, and the response.\<close>

definition desktop_handle :: "desktop_env \<Rightarrow> bytes \<Rightarrow> input_event list \<times> (http_error + bytes)" where
  "desktop_handle env request =
     (case request_body request of
        Inl e \<Rightarrow> ([], Inl e)
      | Inr None \<Rightarrow> ([], Inl (Refused ''incomplete desktop request''))
      | Inr (Some (line, body)) \<Rightarrow>
          if line = lit ''GET /desktop/frame HTTP/1.1'' \<and> body = [] then
            ([], and_then (de_capture env) (\<lambda>jpeg. Inr (http_reply ''200 OK'' ''image/jpeg'' jpeg)))
          else if line = lit ''POST /desktop/input HTTP/1.1'' then
            (case de_action env body of
               None \<Rightarrow> ([], Inl IoFailed)
             | Some a \<Rightarrow>
                 (case validate_action a of
                    Inl e \<Rightarrow> ([], Inl e)
                  | Inr u \<Rightarrow>
                      let (evs, r) = inject_action (de_accepts env) a in
                      (evs, and_then r (\<lambda>u. Inr (http_reply ''200 OK'' ''application/json'' (blit ''{}''))))))
          else ([], Inl (Refused ''unknown desktop endpoint'')))"

text \<open>\<open>handler\<close>: a failure is answered, never returned.\<close>

definition desktop_handler :: "desktop_env \<Rightarrow> request_handler" where
  "desktop_handler env request =
     (case snd (desktop_handle env request) of
        Inr r \<Rightarrow> Inr r
      | Inl e \<Rightarrow> Inr (http_reply ''400 Bad Request'' ''text/plain'' (blit ''Desktop request failed'')))"

section \<open>Nothing stays pressed\<close>

datatype held_thing = HeldKey u16 u16 | HeldLeft | HeldRight | HeldMiddle

definition thing_of :: "mouse_flag \<Rightarrow> held_thing option" where
  "thing_of f =
     (case f of LeftDown \<Rightarrow> Some HeldLeft | LeftUp \<Rightarrow> Some HeldLeft | RightDown \<Rightarrow> Some HeldRight
      | RightUp \<Rightarrow> Some HeldRight | MiddleDown \<Rightarrow> Some HeldMiddle | MiddleUp \<Rightarrow> Some HeldMiddle | _ \<Rightarrow> None)"

text \<open>What the system holds down after an event.\<close>

definition press_event :: "held_thing set \<Rightarrow> input_event \<Rightarrow> held_thing set" where
  "press_event held e =
     (case e of
        InKey vk scan flags \<Rightarrow>
          if KeyUpFlag \<in> set flags then held - {HeldKey vk scan} else insert (HeldKey vk scan) held
      | InMouse x y flags d \<Rightarrow>
          let things = set (List.map_filter thing_of flags) in
          if is_release e then held - things else held \<union> things)"

definition pressed_after :: "held_thing set \<Rightarrow> input_event list \<Rightarrow> held_thing set" where
  "pressed_after = foldl press_event"

text \<open>The things an event presses and those it releases.\<close>

definition pressed_by :: "input_event \<Rightarrow> held_thing set" where
  "pressed_by e = press_event {} e"

definition released_by :: "input_event \<Rightarrow> held_thing set" where
  "released_by e = UNIV - press_event UNIV e"

lemma press_event_eq: "press_event held e = (held - released_by e) \<union> pressed_by e"
  by (auto simp: press_event_def released_by_def pressed_by_def Let_def split: input_event.splits if_splits)

lemma pressed_after_append: "pressed_after held (xs @ ys) = pressed_after (pressed_after held xs) ys"
  by (simp add: pressed_after_def)

lemma pressed_after_subset:
  "pressed_after held es \<subseteq> held \<union> \<Union> (pressed_by ` set es)"
proof (induction es arbitrary: held)
  case (Cons e es)
  then show ?case using Cons [of "press_event held e"]
    by (auto simp: pressed_after_def press_event_eq)
qed (simp add: pressed_after_def)

lemma release_presses_nothing: "is_release e \<Longrightarrow> pressed_by e = {}"
  by (auto simp: pressed_by_def press_event_def is_release_def Let_def split: input_event.splits)

text \<open>Releases alone leave nothing of what they release.\<close>

lemma pressed_after_releases:
  assumes "list_all is_release es"
  shows "pressed_after held es = held - \<Union> (released_by ` set es)"
  using assms
proof (induction es arbitrary: held)
  case (Cons e es)
  then show ?case
    using release_presses_nothing [of e] by (auto simp: pressed_after_def press_event_eq)
qed (simp add: pressed_after_def)

text \<open>An action releases whatever it presses, in its own events.\<close>

definition balanced :: "input_event list \<Rightarrow> bool" where
  "balanced es = (\<Union> (pressed_by ` set es) \<subseteq> \<Union> (released_by ` set (filter is_release es)))"

lemma released_by_simps:
  "released_by (InKey vk scan kf) = (if KeyUpFlag \<in> set kf then {HeldKey vk scan} else {})"
  "pressed_by (InKey vk scan kf) = (if KeyUpFlag \<in> set kf then {} else {HeldKey vk scan})"
  "pressed_by (InMouse x y mf d) =
    (if is_release (InMouse x y mf d) then {} else set (List.map_filter thing_of mf))"
  "released_by (InMouse x y mf d) =
    (if is_release (InMouse x y mf d) then set (List.map_filter thing_of mf) else {})"
  by (auto simp: released_by_def pressed_by_def press_event_def Let_def)

lemma move_to_moves: "pressed_by (move_to p) = {}" "\<not> is_release (move_to p)"
  by (auto simp: move_to_def released_by_simps is_release_def map_filter_simps thing_of_def)

lemma button_flags_cases:
  obtains "button_flags b = (LeftDown, LeftUp)" | "button_flags b = (RightDown, RightUp)"
    | "button_flags b = (MiddleDown, MiddleUp)"
  unfolding button_flags_def by presburger

lemma action_balanced: "balanced (action_events a)"
proof (cases a)
  case (Click x y button)
  then show ?thesis
    by (cases button rule: button_flags_cases)
       (simp_all add: action_events_def balanced_def move_to_moves released_by_simps
        is_release_def map_filter_simps thing_of_def)
next
  case (Drag points)
  then show ?thesis
    by (auto simp: action_events_def balanced_def move_to_moves released_by_simps
        is_release_def map_filter_simps thing_of_def)
next
  case (Wheel x y delta)
  then show ?thesis
    by (auto simp: action_events_def balanced_def move_to_moves released_by_simps
        is_release_def map_filter_simps thing_of_def)
next
  case (KeyStroke vk modifiers)
  then show ?thesis
    by (auto simp: action_events_def balanced_def released_by_simps is_release_def Let_def)
next
  case (TypeText s)
  then show ?thesis
    by (fastforce simp: action_events_def balanced_def released_by_simps is_release_def)
qed

lemma blocked_batch_released:
  assumes "balanced es"
  shows "pressed_after held (take n es @ filter is_release es) \<subseteq> held"
proof -
  let ?r = "\<Union> (released_by ` set (filter is_release es))"
  have "list_all is_release (filter is_release es)" by (simp add: list_all_iff)
  then have all: "pressed_after held (take n es @ filter is_release es) = pressed_after held (take n es) - ?r"
    by (simp add: pressed_after_append pressed_after_releases)
  have "(\<Union>e \<in> set (take n es). pressed_by e) \<subseteq> (\<Union>e \<in> set es. pressed_by e)"
    by (intro UN_mono set_take_subset order_refl)
  also have "\<dots> \<subseteq> ?r" using assms by (simp add: balanced_def)
  finally have "pressed_after held (take n es) \<subseteq> held \<union> ?r"
    by (rule order_trans [OF pressed_after_subset Un_mono [OF order_refl]])
  then show ?thesis unfolding all by (simp only: Diff_subset_conv Un_commute)
qed

text \<open>A batch that went through leaves nothing pressed either.\<close>

lemma pressed_after_simps [simp]:
  "pressed_after held [] = held"
  "pressed_after held (e # es) = pressed_after (press_event held e) es"
  by (simp_all add: pressed_after_def)

lemma press_move_to [simp]: "press_event held (move_to p) = held"
  by (simp add: press_event_eq move_to_moves) (simp add: move_to_def released_by_simps is_release_def)

lemma pressed_after_moves: "pressed_after held (map move_to ps) = held"
  by (induction ps) simp_all

lemma pressed_after_keys:
  "pressed_after held (map (\<lambda>c. InKey c 0 []) cs) = held \<union> (\<lambda>c. HeldKey c 0) ` set cs"
  by (induction cs arbitrary: held) (auto simp: press_event_eq released_by_simps)

lemma pressed_after_typed:
  "pressed_after held
     (concat (map (\<lambda>unit. [InKey 0 unit [Unicode], InKey 0 unit [Unicode, KeyUpFlag]]) us)) \<subseteq> held"
proof (induction us arbitrary: held)
  case (Cons u us)
  show ?case
    using Cons [of "held - {HeldKey 0 u}"] by (auto simp: press_event_eq released_by_simps)
qed simp

lemma action_clean: "pressed_after held (action_events a) \<subseteq> held"
proof (cases a)
  case (Click x y button)
  then show ?thesis
    by (cases button rule: button_flags_cases)
       (auto simp: action_events_def press_event_eq [of _ "InMouse x y f d" for x y f d] released_by_simps
        is_release_def map_filter_simps thing_of_def)
next
  case (Drag points)
  then show ?thesis
    by (auto simp: action_events_def pressed_after_append pressed_after_moves press_event_eq [of _ "InMouse x y f d" for x y f d]
        released_by_simps is_release_def map_filter_simps thing_of_def)
next
  case (Wheel x y delta)
  then show ?thesis
    by (auto simp: action_events_def press_event_eq [of _ "InMouse x y f d" for x y f d]
        released_by_simps is_release_def map_filter_simps thing_of_def)
next
  case (KeyStroke vk modifiers)
  have ups: "list_all is_release (map (\<lambda>code. InKey code 0 [KeyUpFlag]) cs)" for cs
    by (simp add: list_all_iff is_release_def)
  show ?thesis using KeyStroke
    by (auto simp: action_events_def pressed_after_append pressed_after_keys pressed_after_releases [OF ups]
        press_event_eq released_by_simps Let_def simp del: map_map)
next
  case (TypeText s)
  then show ?thesis using pressed_after_typed by (simp add: action_events_def)
qed

end
