(* ===== verification/DesktopView.thy ===== *)
theory DesktopView
  imports GatewayServe HostDesktop ExecMarks
begin

text \<open>
  The path of one desktop frame: the client's request through the gateway of the browser service,
  the forwarded bytes into the host's request socket in whatever pieces the tunnel delivers, the
  host's answer, and what the client reads from it.
\<close>

section \<open>The client's request at the gateway\<close>

lemma uuid_char:
  "uuid_text t \<Longrightarrow> c \<in> set t \<Longrightarrow> c \<noteq> 13 \<and> c \<noteq> 10 \<and> c < 128 \<and> \<not> is_whitespace c"
  by (auto simp: uuid_text_def list_all_iff is_ascii_digit_def is_whitespace_def)

lemma bearer_line:
  assumes "uuid_text t"
  shows "clean_line (lit ''Authorization: '' @ bearer t)"
    and "trim (32 # bearer t) = bearer t"
proof -
  show "clean_line (lit ''Authorization: '' @ bearer t)"
    using uuid_char [OF assms] by (auto simp: clean_line_def bearer_def list_all_iff)
  have "t \<noteq> []" using assms by (simp add: uuid_text_def)
  then have "last (bearer t) \<in> set t" by (simp add: bearer_def)
  then show "trim (32 # bearer t) = bearer t"
    using uuid_char [OF assms] by (intro trim_tight) (auto simp: bearer_def is_whitespace_def)
qed

lemma concrete_lines:
  "clean_line (lit ''GET /desktop/frame HTTP/1.1'')" "clean_line (lit ''Host: 127.0.0.1:19223'')"
  "clean_line (lit ''Connection: close'')" "clean_line (lit ''GET /json/list HTTP/1.1'')"
  "clean_line (lit ''Host: 127.0.0.1:19222'')" "clean_line (lit ''HTTP/1.1 200 OK'')"
  "clean_line (lit ''Content-Type: image/jpeg'')" "clean_line (lit ''Cache-Control: no-store'')"
  "clean_line (lit ''X-Content-Type-Options: nosniff'')"
  by (simp_all add: clean_line_def)

lemma frame_target: "request_target (lit ''GET /desktop/frame HTTP/1.1'') = Inr (lit ''GET'', lit ''/desktop/frame'')"
  by (simp add: request_target_def request_parts_def is_whitespace_def Let_def starts_with_def)

lemma frame_path: "split_target (lit ''/desktop/frame'') = (lit ''/desktop/frame'', [])"
  by (simp add: split_target_def split_once_def)

lemma port_text: "dec_text 19223 = lit ''19223''" "dec_text 19222 = lit ''19222''"
  by (simp_all add: dec_text.simps)

text \<open>The four lines of a request of the service's own clients, as fields.\<close>

lemma own_fields:
  assumes "uuid_text t"
  defines "ls \<equiv> [lit ''Host: 127.0.0.1:19223'', lit ''Authorization: '' @ bearer t, lit ''Connection: close'']"
  shows "header_values ''host'' ls = [lit ''127.0.0.1:19223'']"
    and "header_values ''origin'' ls = []"
    and "header_values ''authorization'' ls = [bearer t]"
    and "list_all (\<lambda>l. split_once 58 l \<noteq> None) ls"
    and "kept_lines ls = [lit ''Host: 127.0.0.1:19223'', lit ''Connection: close'']"
proof -
  have host: "split_once 58 (lit ''Host: 127.0.0.1:19223'') = Some (lit ''Host'', lit '' 127.0.0.1:19223'')"
    by (simp add: split_once_def)
  have auth: "split_once 58 (lit ''Authorization: '' @ bearer t) = Some (lit ''Authorization'', 32 # bearer t)"
    by (simp add: split_once_def)
  have conn: "split_once 58 (lit ''Connection: close'') = Some (lit ''Connection'', lit '' close'')"
    by (simp add: split_once_def)
  have names: "header_is (lit ''Host'') s \<longleftrightarrow> map to_ascii_upper (lit s) = lit ''HOST''"
    "header_is (lit ''Authorization'') s \<longleftrightarrow> map to_ascii_upper (lit s) = lit ''AUTHORIZATION''"
    "header_is (lit ''Connection'') s \<longleftrightarrow> map to_ascii_upper (lit s) = lit ''CONNECTION''" for s
    by (auto simp: header_is_def eq_ignore_ascii_case_def to_ascii_upper_def is_ascii_lower_def)
  have upper: "map to_ascii_upper (lit ''host'') = lit ''HOST''"
    "map to_ascii_upper (lit ''origin'') = lit ''ORIGIN''"
    "map to_ascii_upper (lit ''authorization'') = lit ''AUTHORIZATION''"
    by (simp_all add: to_ascii_upper_def is_ascii_lower_def)
  have loopback: "trim (lit '' 127.0.0.1:19223'') = lit ''127.0.0.1:19223''"
    using trim_tight [of "lit ''127.0.0.1:19223''"] by (simp add: is_whitespace_def)
  show "header_values ''host'' ls = [lit ''127.0.0.1:19223'']" "header_values ''origin'' ls = []"
    "header_values ''authorization'' ls = [bearer t]" "list_all (\<lambda>l. split_once 58 l \<noteq> None) ls"
    "kept_lines ls = [lit ''Host: 127.0.0.1:19223'', lit ''Connection: close'']"
    unfolding ls_def
    by (simp_all add: header_values_Cons kept_lines_def is_field_def host auth conn names upper loopback
        bearer_line(2) [OF assms(1)] del: lit_simps) (simp_all)
qed

definition frame_forwarded :: bytes where
  "frame_forwarded =
     utf8_encode (compose_header
       [lit ''GET /desktop/frame HTTP/1.1'', lit ''Host: 127.0.0.1:19223'', lit ''Connection: close''])"

lemma frame_authenticated:
  assumes t: "uuid_text t"
  shows "authenticate (frame_request t) t 19223 = Inr frame_forwarded"
proof -
  let ?fields = "[lit ''Host: 127.0.0.1:19223'', lit ''Authorization: '' @ bearer t, lit ''Connection: close'']"
  let ?ls = "lit ''GET /desktop/frame HTTP/1.1'' # ?fields"
  have clean: "list_all clean_line ?ls"
    using concrete_lines bearer_line(1) [OF t] by (simp del: lit_simps)
  have raw: "frame_request t = utf8_encode (compose_header ?ls)" by (simp add: frame_request_def)
  have end_: "header_end (frame_request t) = Some (length (frame_request t))"
    using header_end_compose [OF clean, of "[]"] length_encode_compose [OF clean]
    by (simp add: raw del: lit_simps)
  have header: "from_utf8 (take (length (frame_request t)) (frame_request t)) = Inr (compose_header ?ls)"
    using from_utf8_header [OF clean] by (simp add: raw del: lit_simps)
  have split: "split_str CRLF (compose_header ?ls) = ?ls @ [[], []]"
    by (rule split_compose_header [OF clean])
  have nonempty: "filter (\<lambda>l. l \<noteq> [])
      [lit ''Host: 127.0.0.1:19223'', lit ''Authorization: '' @ bearer t, lit ''Connection: close'', [], []] = ?fields"
    by simp
  have host: "host_allowed 19223 (lit ''127.0.0.1:19223'')"
    by (simp add: host_allowed_def port_text)
  have adm: "admitted t 19223 [] ?fields"
    unfolding admitted_def own_fields(1-3) [OF t]
    using own_fields(4) [OF t] host by (simp add: query_tokens_def map_filter_simps del: lit_simps)
  have fwd: "frame_forwarded =
      utf8_encode (forwarded_request (lit ''GET'') (lit ''/desktop/frame'') [] ?fields)"
    by (simp add: frame_forwarded_def forwarded_request_def own_fields [OF t] forwarded_line_def
        forwarded_path_def compose_header_def del: lit_simps) simp
  have pairs: "query_pairs [] = []" by (simp add: query_pairs_def)
  show ?thesis
    unfolding authenticate_spec
    using end_ header
    by (simp add: split frame_target frame_path pairs nonempty adm fwd Let_def del: lit_simps filter.simps)
qed

section \<open>The forwarded request at the host\<close>

lemma frame_request_body: "request_body frame_forwarded = Inr (Some (lit ''GET /desktop/frame HTTP/1.1'', []))"
proof -
  let ?fields = "[lit ''Host: 127.0.0.1:19223'', lit ''Connection: close'']"
  have clean: "list_all clean_line (lit ''GET /desktop/frame HTTP/1.1'' # ?fields)"
    using concrete_lines by (simp del: lit_simps)
  have scan: "body_length ?fields None = Inr None"
    by (simp add: split_header_def split_once_def header_is_def eq_ignore_ascii_case_def to_ascii_upper_def
        is_ascii_lower_def)
  show ?thesis
    using request_body_compose [OF clean scan, of "[]"]
    by (simp add: frame_forwarded_def MAX_REQUEST_def compose_header_def CRLF_def del: lit_simps)
       (simp)
qed

text \<open>An input request, as the viewer's script sends it.\<close>

definition input_request :: bytes where
  "input_request =
     utf8_encode (compose_header
       [lit ''POST /desktop/input HTTP/1.1'', lit ''Host: localhost:19223'', lit ''Content-Length: 2''])
     @ blit ''{}''"

lemma input_request_body:
  "request_body input_request = Inr (Some (lit ''POST /desktop/input HTTP/1.1'', blit ''{}''))"
proof -
  let ?fields = "[lit ''Host: localhost:19223'', lit ''Content-Length: 2'']"
  have clean: "list_all clean_line (lit ''POST /desktop/input HTTP/1.1'' # ?fields)"
    by (simp add: clean_line_def)
  have two: "parse_usize (trim (lit '' 2'')) = Inr 2"
    using trim_tight [of "lit ''2''"]
    by (simp add: is_whitespace_def parse_usize_def parse_unsigned_def is_ascii_digit_def digits_value_def)
  have scan: "body_length ?fields None = Inr (Some 2)"
    using two by (simp add: split_header_def split_once_def header_is_def eq_ignore_ascii_case_def
        to_ascii_upper_def is_ascii_lower_def)
  show ?thesis
    using request_body_compose [OF clean scan, of "blit ''{}''"]
    by (simp add: input_request_def MAX_REQUEST_def compose_header_def CRLF_def del: lit_simps)
       (simp)
qed

lemma frame_handled:
  assumes "de_capture env = Inr jpeg"
  shows "desktop_handler env frame_forwarded = Inr (http_reply ''200 OK'' ''image/jpeg'' jpeg)"
  using assms by (simp add: desktop_handler_def desktop_handle_def frame_request_body)

section \<open>The answer at the client\<close>

lemma dec_text_length: "0 < k \<Longrightarrow> n < 10 ^ k \<Longrightarrow> length (dec_text n) \<le> k"
proof (induction n arbitrary: k rule: dec_text.induct)
  case (1 n)
  show ?case
  proof (cases "n < 10")
    case True
    then show ?thesis using 1(2) by (subst dec_text.simps) simp
  next
    case False
    then obtain j where j: "k = Suc j" "0 < j" using 1(2,3) by (cases k; cases "k = 1") auto
    then have "n div 10 < 10 ^ j" using 1(3) by (simp add: div_less_iff_less_mult mult.commute)
    then show ?thesis using 1(1) [of j] False j by (subst dec_text.simps) simp
  qed
qed

definition reply_lines :: "bytes \<Rightarrow> ustring list" where
  "reply_lines body =
     [lit ''HTTP/1.1 200 OK'', lit ''Content-Type: image/jpeg'', lit ''Content-Length: '' @ dec_text (length body),
      lit ''Connection: close'', lit ''Cache-Control: no-store'', lit ''X-Content-Type-Options: nosniff'']"

lemma reply_clean: "list_all clean_line (reply_lines body)"
proof -
  have "clean_line (lit ''Content-Length: '' @ dec_text n)" for n
    using dec_text_digits [of n] by (auto simp: clean_line_def list_all_iff is_ascii_digit_def)
  then show ?thesis using concrete_lines by (simp add: reply_lines_def del: lit_simps)
qed

lemma http_reply_compose:
  "http_reply ''200 OK'' ''image/jpeg'' body = utf8_encode (compose_header (reply_lines body)) @ body"
  by (simp add: http_reply_def reply_lines_def compose_header_def)

lemma reply_lengths: "field_values ''content-length'' (reply_lines body @ [[]]) = [dec_text (length body)]"
proof -
  have split: "split_once 58 (lit ''Content-Length: '' @ d) = Some (lit ''Content-Length'', 32 # d)" for d
    by (simp add: split_once_def)
  have other: "split_once 58 (lit ''HTTP/1.1 200 OK'') = None" "split_once 58 [] = None"
    "split_once 58 (lit ''Content-Type: image/jpeg'') = Some (lit ''Content-Type'', lit '' image/jpeg'')"
    "split_once 58 (lit ''Connection: close'') = Some (lit ''Connection'', lit '' close'')"
    "split_once 58 (lit ''Cache-Control: no-store'') = Some (lit ''Cache-Control'', lit '' no-store'')"
    "split_once 58 (lit ''X-Content-Type-Options: nosniff'') = Some (lit ''X-Content-Type-Options'', lit '' nosniff'')"
    by (simp_all add: split_once_def)
  have names: "header_is (lit ''Content-Length'') ''content-length''"
    "\<not> header_is (lit ''Content-Type'') ''content-length''" "\<not> header_is (lit ''Connection'') ''content-length''"
    "\<not> header_is (lit ''Cache-Control'') ''content-length''"
    "\<not> header_is (lit ''X-Content-Type-Options'') ''content-length''"
    by (simp_all add: header_is_def eq_ignore_ascii_case_def to_ascii_upper_def is_ascii_lower_def)
  show ?thesis
    by (simp add: field_values_def reply_lines_def map_filter_simps split other names trim_dec_text
        del: lit_simps)
qed

lemma reply_header_length:
  assumes "length jpeg \<le> 2 * 1024 * 1024 - 1024"
  shows "length (utf8_encode (compose_header (reply_lines jpeg))) \<le> 1024"
proof -
  have "length (dec_text (length jpeg)) \<le> 7" using dec_text_length [of 7 "length jpeg"] assms by simp
  then show ?thesis
    using length_encode_compose [OF reply_clean [of jpeg]]
    by (simp add: reply_lines_def compose_header_def CRLF_def length_lit del: lit_simps)
qed

lemma frame_reply_read:
  assumes "length jpeg \<le> 2 * 1024 * 1024 - 1024"
  shows "frame_response (http_reply ''200 OK'' ''image/jpeg'' jpeg) = Inr jpeg"
proof -
  let ?h = "utf8_encode (compose_header (reply_lines jpeg))"
  let ?r = "http_reply ''200 OK'' ''image/jpeg'' jpeg"
  note clean = reply_clean [of jpeg]
  have r: "?r = ?h @ jpeg" by (rule http_reply_compose)
  have hlen: "length ?h \<le> 1024" by (rule reply_header_length [OF assms])
  then have len: "length ?r \<le> MAX_FRAME_RESPONSE" using assms r by (simp add: MAX_FRAME_RESPONSE_def)
  then have all: "take (MAX_FRAME_RESPONSE + 1) ?r = ?r" by simp
  have end_: "header_end ?r = Some (length ?h)"
    using header_end_compose [OF clean, of jpeg] length_encode_compose [OF clean] r
    by (simp add: reply_lines_def del: lit_simps)
  have header: "from_utf8 (take (length ?h) ?r) = Inr (compose_header (reply_lines jpeg))"
    using from_utf8_header [OF clean] r by simp
  have ok: "str_prefix (blit ''HTTP/1.1 200 '') ?r" "\<not> str_prefix (blit ''HTTP/1.1 412 '') ?r"
    unfolding r by (simp_all add: reply_lines_def compose_header_def char_bytes_def)
  have num: "parse_usize (dec_text (length jpeg)) = Inr (length jpeg)"
    using assms by (intro parse_usize_dec_text) simp
  show ?thesis
    using len all end_ header ok num lines_compose_header [OF clean] reply_lengths [of jpeg] r
    by (simp add: frame_response_def Let_def)
qed

lemma reply_fits:
  assumes "length jpeg \<le> 2 * 1024 * 1024 - 1024"
  shows "length (http_reply ''200 OK'' ''image/jpeg'' jpeg) \<le> MAX_RESPONSE"
  using reply_header_length [OF assms] assms unfolding http_reply_compose by (simp add: MAX_RESPONSE_def)

section \<open>The socket\<close>

lemma socket_serves:
  assumes "request_body raw = Inr (Some r)" "concat pieces = raw" "[] \<notin> set pieces"
    and "handler raw = Inr response" "length response \<le> MAX_RESPONSE"
  shows "\<exists>s. request_writes handler pieces request_socket_new = (map (\<lambda>d. Inr (length d)) pieces, s, [raw])
    \<and> (\<forall>ns. \<exists>got. fst (request_reads ns s) = map Inr got \<and> concat got = take (sum_list ns) response)
    \<and> (\<forall>d. fst (request_write handler d s) = Inl (Refused ''invalid desktop request size/state'')
           \<and> snd (snd (request_write handler d s)) = [])"
proof -
  let ?s = "\<lparr>rs_request = [], rs_response = Some (response, 0)\<rparr>"
  have "raw \<noteq> []" using request_body_length [OF assms(1)] by auto
  then have "pieces \<noteq> []" using assms(2) by auto
  then have "request_writes handler pieces request_socket_new = (map (\<lambda>d. Inr (length d)) pieces, ?s, [raw])"
    using request_writes_collect [where handler = handler and raw = raw and got = "[]" and pieces = pieces,
        OF assms(1,4,5)] assms(2,3)
    by (simp add: gathering_def request_socket_new_def)
  moreover have "\<exists>got. fst (request_reads ns ?s) = map Inr got \<and> concat got = take (sum_list ns) response" for ns
    using request_reads_concat [of ?s response 0 ns] by simp
  ultimately show ?thesis by (intro exI [of _ ?s]) (simp add: request_write_after)
qed

end
