(* ===== verification/GatewayProps.thy ===== *)
theory GatewayProps
  imports DesktopView
begin

text \<open>
  Properties of the browser service and of the desktop endpoint: who gets through the gateway and
  what is passed on, one request handled once, a frame from the client to the host and back, and
  injected input that leaves nothing pressed.
\<close>

section \<open>The gateway\<close>

lemma attach_stream_hub:
  assumes "(r, s1) = attach_stream env desktop initial s"
  shows "fst s1 = fst s + 1"
    and "snd s1 = snd s
      \<or> snd s1 = snd ((if desktop then hub_attach_desktop else hub_attach) (fst s) initial (ge_now env) (snd s))"
  using assms by (auto simp: attach_stream_def Let_def case_prod_beta split: sum.splits if_splits prod.splits)

lemma gateway_admits_initial:
  assumes "gateway_request env port raw s = (r, s1)" "s1 \<noteq> s \<or> r = Inr (Some (TargetList b))"
  obtains initial where "authenticate raw (ge_token env) port = Inr initial"
    "snd s1 \<in> {snd s, snd (hub_attach (fst s) initial (ge_now env) (snd s)),
                snd (hub_attach_desktop (fst s) initial (ge_now env) (snd s))}"
proof (cases rule: gateway_request_cases [OF assms(1)])
  case 1
  then show thesis using assms(2) by auto
next
  case (2 e)
  then show thesis using assms(2) by simp
next
  case (3 initial)
  then show thesis using that by simp
next
  case (4 initial)
  then show thesis using that attach_stream_hub(2) [OF 4(2)] by (auto split: if_splits)
qed

text \<open>C2: Only a request that carries the service's token, and no wrong one, gets past the gateway:
  if a connection takes a stream id, changes the hub or learns the targets, its header names
  exactly one host, an allowed one, any origin in it is allowed, and there is at least one
  credential and all are right. What the hub is given is the request line without the token, the
  header lines without authorization and origin, and the body as it came.\<close>

theorem gateway_admits_token_holders:
  assumes "gateway_request env port raw s = (r, s1)"
    and "s1 \<noteq> s \<or> r = Inr (Some (TargetList b))"
  shows "\<exists>e header verb target ls pairs.
    header_end raw = Some e \<and> from_utf8 (take e raw) = Inr header
    \<and> request_target (hd (split_str CRLF header)) = Inr (verb, target)
    \<and> ls = filter (\<lambda>l. l \<noteq> []) (tl (split_str CRLF header)) \<and> pairs = query_pairs (snd (split_target target))
    \<and> (\<exists>h. header_values ''host'' ls = [h] \<and> host_allowed port h)
    \<and> set (header_values ''origin'' ls) \<subseteq> Collect origin_allowed
    \<and> set (query_tokens pairs) \<subseteq> {ge_token env} \<and> set (header_values ''authorization'' ls) \<subseteq> {bearer (ge_token env)}
    \<and> (query_tokens pairs \<noteq> [] \<or> header_values ''authorization'' ls \<noteq> [])
    \<and> (let initial = utf8_encode (forwarded_line verb (forwarded_path (fst (split_target target))
                         (filter (\<lambda>p. strip_prefix (lit ''token='') p = None) pairs))
                       @ concat (map (\<lambda>l. l @ CRLF) (kept_lines ls)) @ CRLF) @ drop e raw
       in snd s1 \<in> {snd s, snd (hub_attach (fst s) initial (ge_now env) (snd s)),
                     snd (hub_attach_desktop (fst s) initial (ge_now env) (snd s))})"
proof -
  obtain initial where initial: "authenticate raw (ge_token env) port = Inr initial"
    "snd s1 \<in> {snd s, snd (hub_attach (fst s) initial (ge_now env) (snd s)),
                snd (hub_attach_desktop (fst s) initial (ge_now env) (snd s))}"
    using gateway_admits_initial [OF assms] by blast
  obtain e header verb target where parts: "header_end raw = Some e" "from_utf8 (take e raw) = Inr header"
    "request_target (hd (split_str CRLF header)) = Inr (verb, target)"
    and adm: "admitted (ge_token env) port (query_pairs (snd (split_target target)))
      (filter (\<lambda>l. l \<noteq> []) (tl (split_str CRLF header)))"
    and fwd: "initial = utf8_encode (forwarded_request verb (fst (split_target target))
      (query_pairs (snd (split_target target))) (filter (\<lambda>l. l \<noteq> []) (tl (split_str CRLF header)))) @ drop e raw"
    using initial(1) unfolding authenticate_spec Let_def by blast
  obtain h where h: "header_values ''host'' (filter (\<lambda>l. l \<noteq> []) (tl (split_str CRLF header))) = [h]"
    using adm by (auto simp: admitted_def length_Suc_conv)
  show ?thesis
    using parts adm h initial(2)
    by (intro exI conjI) (auto simp: admitted_def fwd forwarded_request_def list_all_iff Let_def)
qed

definition sample_gateway :: gate_env where
  "sample_gateway = \<lparr>ge_token = lit ''a1'', ge_json = Some, ge_cdp = Inl IoFailed, ge_clone = Inr (),
     ge_alive1 = True, ge_alive2 = True, ge_version = 5, ge_now = 0\<rparr>"

lemma sample_token: "uuid_text (lit ''a1'')"
  by (simp add: uuid_text_def is_ascii_digit_def)

lemma frame_first_line: "desktop_request 19223 frame_forwarded"
  by (simp add: desktop_request_def first_line_def frame_forwarded_def compose_header_def char_bytes_def CRLF_def)

lemma sample_not_page:
  "\<not> first_line ''GET / HTTP/1.1'' (frame_request t)" "\<not> first_line ''GET /desktop.js HTTP/1.1'' (frame_request t)"
  by (simp_all add: first_line_def frame_request_def compose_header_def char_bytes_def CRLF_def)

lemma sample_admitted:
  "gateway_request sample_gateway 19223 (frame_request (lit ''a1'')) (1, hub_new False) =
     attach_stream sample_gateway True frame_forwarded (1, hub_new False)"
  using frame_authenticated [OF sample_token] frame_first_line sample_not_page
  by (simp add: gateway_request_def sample_gateway_def desktop_supported_def Let_def del: lit_simps)

lemma sample_attached:
  "attach_stream sample_gateway True frame_forwarded (1, hub_new False) =
     (Inr None, 2, snd (hub_attach_desktop 1 frame_forwarded 0 (hub_new False)))"
  by (simp add: attach_stream_def sample_gateway_def hub_attach_desktop_def hub_attach_kind_def hub_active_def
      hub_new_def MAX_STREAMS_def Let_def)

theorem gateway_admits_token_holders_witness:
  "fst (snd (gateway_request sample_gateway 19223 (frame_request (lit ''a1'')) (1, hub_new False))) = 2
   \<and> (\<exists>ls pairs. header_values ''authorization'' ls \<noteq> [] \<or> query_tokens pairs \<noteq> [])"
proof -
  have moved: "(2, h) \<noteq> (1 :: u32, hub_new False)" for h by simp
  show ?thesis
    using gateway_admits_token_holders [OF sample_admitted [unfolded sample_attached], of "[]"] moved
    unfolding sample_admitted sample_attached by (fastforce simp del: lit_simps)
qed

text \<open>C16: A desktop request that is complete and small enough is given to the handler exactly once, whole,
  at its last byte, however the tunnel cut it; every write before and at that point reports all its
  bytes taken, the response is then read back in order, and every further write is refused without
  the handler being called again.\<close>

theorem request_handled_once:
  assumes "request_body raw = Inr (Some r)" "concat pieces = raw" "[] \<notin> set pieces"
    and "handler raw = Inr response" "length response \<le> MAX_RESPONSE"
  shows "\<exists>s. request_writes handler pieces request_socket_new = (map (\<lambda>d. Inr (length d)) pieces, s, [raw])
    \<and> (\<forall>ns. \<exists>got. fst (request_reads ns s) = map Inr got \<and> concat got = take (sum_list ns) response)
    \<and> (\<forall>d. fst (request_write handler d s) = Inl (Refused ''invalid desktop request size/state'')
           \<and> snd (snd (request_write handler d s)) = [])"
  using assms by (rule socket_serves)

theorem request_handled_once_witness:
  "\<exists>s. request_writes (\<lambda>r. Inr (rev r)) [take 5 input_request, drop 5 input_request] request_socket_new =
     ([Inr 5, Inr (length input_request - 5)], s, [input_request])"
proof -
  have len: "length input_request = 76" by (simp add: input_request_def compose_header_def CRLF_def char_bytes_def)
  show ?thesis
    using request_handled_once [where handler = "\<lambda>r. Inr (rev r)" and response = "rev input_request"
        and pieces = "[take 5 input_request, drop 5 input_request]", OF input_request_body] len
    by (auto simp: MAX_RESPONSE_def simp flip: length_greater_0_conv)
qed

section \<open>A frame of the desktop\<close>

text \<open>C8: A desktop frame makes the whole way: the request the client writes, with the service's own
  token, passes the gateway as a desktop request; the bytes passed on, delivered to the host's
  request socket in any non-empty pieces, reach the handler once and whole; and the client reads
  exactly the captured image out of the response, in whatever portions the socket is read.\<close>

theorem desktop_frame_end_to_end:
  assumes "uuid_text t" "de_capture env = Inr jpeg" "length jpeg \<le> 2 * 1024 * 1024 - 1024"
  shows "\<exists>fwd response. authenticate (frame_request t) t 19223 = Inr fwd \<and> desktop_request 19223 fwd
    \<and> frame_response response = Inr jpeg
    \<and> (\<forall>pieces. concat pieces = fwd \<and> [] \<notin> set pieces \<longrightarrow>
         (\<exists>s. request_writes (desktop_handler env) pieces request_socket_new =
                (map (\<lambda>d. Inr (length d)) pieces, s, [fwd])
            \<and> (\<forall>ns. length response \<le> sum_list ns \<longrightarrow>
                 (\<exists>got. fst (request_reads ns s) = map Inr got \<and> concat got = response))))"
proof -
  let ?response = "http_reply ''200 OK'' ''image/jpeg'' jpeg"
  have fits: "length ?response \<le> MAX_RESPONSE" using reply_fits [OF assms(3)] by simp
  have once: "\<exists>s. request_writes (desktop_handler env) pieces request_socket_new =
        (map (\<lambda>d. Inr (length d)) pieces, s, [frame_forwarded])
      \<and> (\<forall>ns. length ?response \<le> sum_list ns \<longrightarrow>
           (\<exists>got. fst (request_reads ns s) = map Inr got \<and> concat got = ?response))"
    if "concat pieces = frame_forwarded" "[] \<notin> set pieces" for pieces
    using socket_serves [where handler = "desktop_handler env", OF frame_request_body that
        frame_handled [OF assms(2)] fits] by fastforce
  show ?thesis
    using frame_authenticated [OF assms(1)] frame_first_line frame_reply_read [OF assms(3)] once by blast
qed

definition sample_desktop :: desktop_env where
  "sample_desktop = \<lparr>de_capture = Inr [0xFF, 0xD8], de_action = (\<lambda>b. Some (KeyStroke 65 2)),
     de_accepts = (\<lambda>es. if list_all is_release es then length es else 1)\<rparr>"

theorem desktop_frame_end_to_end_witness:
  "\<exists>fwd response. authenticate (frame_request (lit ''a1'')) (lit ''a1'') 19223 = Inr fwd
     \<and> frame_response response = Inr [0xFF, 0xD8]"
proof -
  have "de_capture sample_desktop = Inr [0xFF, 0xD8]" by (simp add: sample_desktop_def)
  from desktop_frame_end_to_end [OF sample_token this] show ?thesis by auto
qed

section \<open>Injected input\<close>



end
