(* ===== verification/Keymap.thy ===== *)
theory Keymap
  imports Packet
begin

text \<open>
  \<open>apps/wiredesk-client/src/input/keymap.rs\<close> and \<open>mapper.rs\<close>: the two key tables, the changes of the
  macOS modifier bitmap as presses and releases, the scan codes of a Windows hook, and the packets
  of the mouse and the keys. An \<open>egui\<close> key is the name of its variant. Normalising a mouse position
  is floating-point arithmetic: the mapper is given the two coordinates.
\<close>

section \<open>The tables\<close>

definition egui_keys :: "(string \<times> u16) list" where
  "egui_keys = [
    (''A'', 0x1E), (''B'', 0x30), (''C'', 0x2E), (''D'', 0x20), (''E'', 0x12), (''F'', 0x21),
    (''G'', 0x22), (''H'', 0x23), (''I'', 0x17), (''J'', 0x24), (''K'', 0x25), (''L'', 0x26),
    (''M'', 0x32), (''N'', 0x31), (''O'', 0x18), (''P'', 0x19), (''Q'', 0x10), (''R'', 0x13),
    (''S'', 0x1F), (''T'', 0x14), (''U'', 0x16), (''V'', 0x2F), (''W'', 0x11), (''X'', 0x2D),
    (''Y'', 0x15), (''Z'', 0x2C), (''Num0'', 0x0B), (''Num1'', 0x02), (''Num2'', 0x03),
    (''Num3'', 0x04), (''Num4'', 0x05), (''Num5'', 0x06), (''Num6'', 0x07), (''Num7'', 0x08),
    (''Num8'', 0x09), (''Num9'', 0x0A), (''F1'', 0x3B), (''F2'', 0x3C), (''F3'', 0x3D), (''F4'', 0x3E),
    (''F5'', 0x3F), (''F6'', 0x40), (''F7'', 0x41), (''F8'', 0x42), (''F9'', 0x43), (''F10'', 0x44),
    (''F11'', 0x57), (''F12'', 0x58), (''Escape'', 0x01), (''Tab'', 0x0F), (''Backspace'', 0x0E),
    (''Enter'', 0x1C), (''Space'', 0x39), (''Insert'', 0xE052), (''Delete'', 0xE053),
    (''Home'', 0xE047), (''End'', 0xE04F), (''PageUp'', 0xE049), (''PageDown'', 0xE051),
    (''ArrowUp'', 0xE048), (''ArrowDown'', 0xE050), (''ArrowLeft'', 0xE04B), (''ArrowRight'', 0xE04D),
    (''Minus'', 0x0C), (''Equals'', 0x0D), (''OpenBracket'', 0x1A), (''CloseBracket'', 0x1B),
    (''Backslash'', 0x2B), (''Semicolon'', 0x27), (''Quote'', 0x28), (''Backtick'', 0x29),
    (''Comma'', 0x33), (''Period'', 0x34), (''Slash'', 0x35)]"

definition egui_key_to_scancode :: "string \<Rightarrow> u16 option" where
  "egui_key_to_scancode = map_of egui_keys"

definition cg_keys :: "(u16 \<times> u16) list" where
  "cg_keys = [
    (0x00, 0x1E), (0x0B, 0x30), (0x08, 0x2E), (0x02, 0x20), (0x0E, 0x12), (0x03, 0x21), (0x05, 0x22),
    (0x04, 0x23), (0x22, 0x17), (0x26, 0x24), (0x28, 0x25), (0x25, 0x26), (0x2E, 0x32), (0x2D, 0x31),
    (0x1F, 0x18), (0x23, 0x19), (0x0C, 0x10), (0x0F, 0x13), (0x01, 0x1F), (0x11, 0x14), (0x20, 0x16),
    (0x09, 0x2F), (0x0D, 0x11), (0x07, 0x2D), (0x10, 0x15), (0x06, 0x2C), (0x1D, 0x0B), (0x12, 0x02),
    (0x13, 0x03), (0x14, 0x04), (0x15, 0x05), (0x17, 0x06), (0x16, 0x07), (0x1A, 0x08), (0x1C, 0x09),
    (0x19, 0x0A), (0x18, 0x0D), (0x1B, 0x0C), (0x21, 0x1A), (0x1E, 0x1B), (0x2A, 0x2B), (0x29, 0x27),
    (0x27, 0x28), (0x32, 0x29), (0x2B, 0x33), (0x2F, 0x34), (0x2C, 0x35), (0x24, 0x1C), (0x30, 0x0F),
    (0x31, 0x39), (0x33, 0x0E), (0x35, 0x01), (0x7B, 0xE04B), (0x7C, 0xE04D), (0x7D, 0xE050),
    (0x7E, 0xE048), (0x73, 0xE047), (0x77, 0xE04F), (0x74, 0xE049), (0x79, 0xE051), (0x75, 0xE053),
    (0x7A, 0x3B), (0x78, 0x3C), (0x63, 0x3D), (0x76, 0x3E), (0x60, 0x3F), (0x61, 0x40), (0x62, 0x41),
    (0x64, 0x42), (0x65, 0x43), (0x6D, 0x44), (0x67, 0x57), (0x6F, 0x58)]"

definition cgkeycode_to_scancode :: "u16 \<Rightarrow> u16 option" where
  "cgkeycode_to_scancode = map_of cg_keys"

text \<open>No two keys of a table share a scan code, and none is a modifier's.\<close>

definition WIN_SCAN_LCTRL :: u16 where "WIN_SCAN_LCTRL = 0x1D"
definition WIN_SCAN_LSHIFT :: u16 where "WIN_SCAN_LSHIFT = 0x2A"
definition WIN_SCAN_LALT :: u16 where "WIN_SCAN_LALT = 0x38"

definition modifier_scans :: "u16 set" where
  "modifier_scans = {WIN_SCAN_LCTRL, WIN_SCAN_LSHIFT, WIN_SCAN_LALT}"

lemma distinct_by: "distinct (map f xs) \<Longrightarrow> distinct xs"
  by (simp add: distinct_map)

lemma cg_keys_distinct: "distinct (map fst cg_keys) \<and> distinct (map snd cg_keys)"
proof
  have "distinct (map unat (map fst cg_keys))" unfolding cg_keys_def by simp
  then show "distinct (map fst cg_keys)" by (rule distinct_by)
  have "distinct (map unat (map snd cg_keys))" unfolding cg_keys_def by simp
  then show "distinct (map snd cg_keys)" by (rule distinct_by)
qed

lemma cg_keys_apart: "list_all (\<lambda>sc. sc \<notin> {0x1D, 0x2A, 0x38}) (map snd cg_keys)"
  by code_simp

text \<open>What the keyboard of a Mac can type, the local keyboard events can type too.\<close>

lemma member_by_unat:
  "list_all (\<lambda>x. x \<in> set (map unat ys)) (map unat xs) \<Longrightarrow> list_all (\<lambda>x. x \<in> set ys) xs"
  for xs ys :: "'a :: len word list"
  by (auto simp: list_all_iff image_iff word_unat_eq_iff [symmetric])

lemma cg_keys_covered: "list_all (\<lambda>sc. sc \<in> set (map snd egui_keys)) (map snd cg_keys)"
proof (rule member_by_unat)
  show "list_all (\<lambda>sc. sc \<in> set (map unat (map snd egui_keys))) (map unat (map snd cg_keys))"
    unfolding cg_keys_def egui_keys_def by simp
qed

lemma map_of_inject:
  assumes "distinct (map snd xs)" "map_of xs a = Some c" "map_of xs b = Some c"
  shows "a = b"
  using assms by (metis distinct_map inj_onD map_of_SomeD prod.inject snd_conv)

lemma cgkeycode_inject:
  "cgkeycode_to_scancode a = Some c \<Longrightarrow> cgkeycode_to_scancode b = Some c \<Longrightarrow> a = b"
  using map_of_inject cg_keys_distinct unfolding cgkeycode_to_scancode_def by metis

lemma cgkeycode_no_modifier: "cgkeycode_to_scancode kc = Some sc \<Longrightarrow> sc \<notin> modifier_scans"
  using cg_keys_apart
  by (fastforce simp: cgkeycode_to_scancode_def modifier_scans_def WIN_SCAN_LCTRL_def WIN_SCAN_LSHIFT_def
      WIN_SCAN_LALT_def list_all_iff dest!: map_of_SomeD)

section \<open>Modifiers\<close>

definition CG_FLAG_SHIFT :: u64 where "CG_FLAG_SHIFT = push_bit 17 1"
definition CG_FLAG_CONTROL :: u64 where "CG_FLAG_CONTROL = push_bit 18 1"
definition CG_FLAG_ALT :: u64 where "CG_FLAG_ALT = push_bit 19 1"
definition CG_FLAG_COMMAND :: u64 where "CG_FLAG_COMMAND = push_bit 20 1"

text \<open>One modifier: \<open>was\<close> and \<open>is\<close> of the code, for a set of bits.\<close>

definition flag_change :: "u64 \<Rightarrow> u16 \<Rightarrow> u64 \<Rightarrow> u64 \<Rightarrow> (u16 \<times> bool) list" where
  "flag_change bits scan flags prev =
     (let was = (prev AND bits \<noteq> 0); now = (flags AND bits \<noteq> 0) in
      if \<not> was \<and> now then [(scan, True)] else if was \<and> \<not> now then [(scan, False)] else [])"

definition cg_flag_change_to_scancodes :: "u64 \<Rightarrow> u64 \<Rightarrow> (u16 \<times> bool) list" where
  "cg_flag_change_to_scancodes flags prev =
     flag_change (CG_FLAG_COMMAND OR CG_FLAG_CONTROL) WIN_SCAN_LCTRL flags prev
     @ flag_change CG_FLAG_SHIFT WIN_SCAN_LSHIFT flags prev
     @ flag_change CG_FLAG_ALT WIN_SCAN_LALT flags prev"

definition swap_cmd_alt_bits :: "u64 \<Rightarrow> u64" where
  "swap_cmd_alt_bits f =
     (let cmd = (f AND CG_FLAG_COMMAND \<noteq> 0); alt = (f AND CG_FLAG_ALT \<noteq> 0);
          out0 = f AND NOT (CG_FLAG_COMMAND OR CG_FLAG_ALT);
          out1 = (if cmd then out0 OR CG_FLAG_ALT else out0)
      in if alt then out1 OR CG_FLAG_COMMAND else out1)"

definition cg_flag_change_to_scancodes_swapped :: "u64 \<Rightarrow> u64 \<Rightarrow> (u16 \<times> bool) list" where
  "cg_flag_change_to_scancodes_swapped flags prev =
     cg_flag_change_to_scancodes (swap_cmd_alt_bits flags) (swap_cmd_alt_bits prev)"

text \<open>\<open>egui_modifiers_to_u8\<close>.\<close>

record egui_modifiers =
  em_ctrl :: bool
  em_command :: bool
  em_shift :: bool
  em_alt :: bool

definition egui_modifiers_to_u8 :: "egui_modifiers \<Rightarrow> u8" where
  "egui_modifiers_to_u8 m =
     (let m0 = (if em_ctrl m \<or> em_command m then 1 else 0);
          m1 = (if em_shift m then m0 OR 2 else m0)
      in if em_alt m then m1 OR 4 else m1)"

section \<open>Scan codes of the Windows hook\<close>

definition compose_scancode :: "u32 \<Rightarrow> bool \<Rightarrow> u16 option" where
  "compose_scancode scan extended =
     (let base = ucast (scan AND 0xFF) in
      if base = 0 then None else Some (if extended then 0xE000 OR base else base))"

text \<open>What the host's injector makes of a scan code: the code it injects and the extended flag.\<close>

definition inject_scan :: "u16 \<Rightarrow> u16 \<times> bool" where
  "inject_scan scancode =
     (if scancode AND 0xFF00 = 0xE000 then (scancode AND 0xFF, True) else (scancode, False))"

lemma byte_of_scan: "((ucast (scan AND 0xFF :: u32)) :: u16) AND 0xFF00 = 0"
proof -
  have "(ucast (scan AND 0xFF :: u32) :: u16) AND ucast (0xFF00 :: u32) = ucast (scan AND (0xFF AND 0xFF00))"
    by (simp only: unsigned_and_eq [symmetric] and.assoc)
  then show ?thesis by simp
qed

lemma inject_compose:
  assumes "compose_scancode scan extended = Some sc"
  shows "inject_scan sc = (ucast (scan AND 0xFF), extended)"
proof -
  let ?b = "ucast (scan AND 0xFF) :: u16"
  have "?b AND ucast (0xFF :: u32) = ucast (scan AND (0xFF AND 0xFF))"
    by (simp only: unsigned_and_eq [symmetric] and.assoc)
  then have low: "?b AND 0xFF = ?b" by simp
  have "(0xE000 OR ?b) AND 0xFF00 = 0xE000" "(0xE000 OR ?b) AND 0xFF = ?b"
    using byte_of_scan [of scan] low by (simp_all add: bit.conj_disj_distrib2)
  then show ?thesis
    using assms byte_of_scan [of scan] by (auto simp: compose_scancode_def inject_scan_def Let_def split: if_splits)
qed

section \<open>The mapper\<close>

record input_mapper =
  im_seq :: u16
  im_last_x :: u16
  im_last_y :: u16

definition input_mapper_new :: input_mapper where
  "input_mapper_new = \<lparr>im_seq = 0, im_last_x = 0, im_last_y = 0\<rparr>"

text \<open>The senders: the packets for the channel, and the mapper.\<close>

definition send_numbered :: "message \<Rightarrow> input_mapper \<Rightarrow> packet list \<times> input_mapper" where
  "send_numbered msg m = ([packet_new msg (im_seq m)], m\<lparr>im_seq := im_seq m + 1\<rparr>)"

definition send_mouse_move :: "u16 \<times> u16 \<Rightarrow> input_mapper \<Rightarrow> packet list \<times> input_mapper" where
  "send_mouse_move p m =
     (if fst p = im_last_x m \<and> snd p = im_last_y m then ([], m)
      else send_numbered (MouseMove (fst p) (snd p)) (m\<lparr>im_last_x := fst p, im_last_y := snd p\<rparr>))"

definition send_mouse_button :: "u8 \<Rightarrow> bool \<Rightarrow> input_mapper \<Rightarrow> packet list \<times> input_mapper" where
  "send_mouse_button button pressed = send_numbered (MouseButton button pressed)"

definition send_mouse_scroll :: "i16 \<Rightarrow> i16 \<Rightarrow> input_mapper \<Rightarrow> packet list \<times> input_mapper" where
  "send_mouse_scroll dx dy = send_numbered (MouseScroll dx dy)"

definition send_key :: "string \<Rightarrow> egui_modifiers \<Rightarrow> bool \<Rightarrow> input_mapper \<Rightarrow> packet list \<times> input_mapper" where
  "send_key key modifiers pressed m =
     (case egui_key_to_scancode key of
        None \<Rightarrow> ([], m)
      | Some scancode \<Rightarrow>
          let mods = egui_modifiers_to_u8 modifiers in
          send_numbered (if pressed then KeyDown scancode mods else KeyUp scancode mods) m)"

end
