(* ===== verification/KeyTap.thy ===== *)
theory KeyTap
  imports Keymap Interfaces
begin

text \<open>
  \<open>apps/wiredesk-client/src/keyboard_tap.rs\<close>: the keyboard hijack of capture mode. The callback of the
  macOS event tap and the procedure of the Windows hook are functions of the event and the handle's
  shared state; what they send is the list of packets on the outgoing channel. The events
  themselves, the state of the Ctrl key and the code the system maps a virtual key to come from the
  system, so an event carries them.
\<close>

section \<open>Held keys\<close>

text \<open>What the receiver of the packets has pressed and not released.\<close>

definition key_held :: "u16 set \<Rightarrow> packet \<Rightarrow> u16 set" where
  "key_held held p =
     (case p_message p of KeyDown sc m \<Rightarrow> insert sc held | KeyUp sc m \<Rightarrow> held - {sc} | _ \<Rightarrow> held)"

definition keys_held :: "packet list \<Rightarrow> u16 set" where
  "keys_held ps = foldl key_held {} ps"

definition key_packet :: "u16 \<times> bool \<Rightarrow> packet" where
  "key_packet c = packet_new (if snd c then KeyDown (fst c) 0 else KeyUp (fst c) 0) 0"

lemma keys_held_simps [simp]:
  "keys_held [] = {}"
  "keys_held (ps @ [p]) = key_held (keys_held ps) p"
  by (simp_all add: keys_held_def)

lemma keys_held_append: "keys_held (ps @ qs) = foldl key_held (keys_held ps) qs"
  by (simp add: keys_held_def)

lemma key_held_packet [simp]:
  "key_held held (key_packet (sc, d)) = (if d then insert sc held else held - {sc})"
  by (simp add: key_held_def key_packet_def packet_new_def)

lemma held_releases: "foldl key_held held (map (\<lambda>sc. key_packet (sc, False)) scs) = held - set scs"
  by (induction scs arbitrary: held) auto

text \<open>
  The contract of a tap: what it has booked is what the host holds, among the keys it watches, and
  what it does when capture ends leaves nothing booked.
\<close>

locale key_book = inv_machine step inv ok
  for step :: "'s \<Rightarrow> 'e \<Rightarrow> 's" and inv :: "'s \<Rightarrow> bool" and ok :: "'e \<Rightarrow> bool" +
  fixes sent :: "'s \<Rightarrow> packet list" and booked :: "'s \<Rightarrow> u16 set" and watched :: "u16 set"
    and drain :: "'s \<Rightarrow> 's"
  assumes faithful: "inv s \<Longrightarrow> keys_held (sent s) \<inter> watched = booked s"
    and drain_inv: "inv s \<Longrightarrow> inv (drain s)"
    and drain_empty: "booked (drain s) = {}"
begin

lemma drained:
  assumes "inv s" "list_all ok es"
  shows "keys_held (sent (drain (foldl step s es))) \<inter> watched = {}"
  using faithful [OF drain_inv [OF run_inv [OF assms]]] drain_empty by simp

end

section \<open>Hotkeys\<close>

definition CG_KEY_RETURN :: u16 where "CG_KEY_RETURN = 0x24"
definition CG_KEY_ESCAPE :: u16 where "CG_KEY_ESCAPE = 0x35"
definition CG_KEY_V :: u16 where "CG_KEY_V = 0x09"

definition CG_MODIFIER_MASK :: u64 where
  "CG_MODIFIER_MASK = CG_FLAG_COMMAND OR CG_FLAG_CONTROL OR CG_FLAG_ALT OR CG_FLAG_SHIFT"

definition matches_cmd_only :: "u64 \<Rightarrow> bool \<Rightarrow> bool" where
  "matches_cmd_only flags swap =
     (let masked = flags AND CG_MODIFIER_MASK in
      if swap then masked = CG_FLAG_COMMAND \<or> masked = CG_FLAG_ALT else masked = CG_FLAG_COMMAND)"

definition is_cmd_enter :: "u16 \<Rightarrow> u64 \<Rightarrow> bool \<Rightarrow> bool" where
  "is_cmd_enter keycode flags swap = (keycode = CG_KEY_RETURN \<and> matches_cmd_only flags swap)"

definition is_desktop_enter :: "u16 \<Rightarrow> u64 \<Rightarrow> bool \<Rightarrow> bool" where
  "is_desktop_enter keycode flags swap =
     (keycode = CG_KEY_RETURN \<and> flags AND CG_FLAG_CONTROL \<noteq> 0
      \<and> matches_cmd_only (flags AND NOT CG_FLAG_CONTROL) swap)"

definition is_synthetic_paste :: "u16 \<Rightarrow> u64 \<Rightarrow> bool" where
  "is_synthetic_paste keycode flags = (keycode = CG_KEY_V \<and> flags AND CG_FLAG_COMMAND \<noteq> 0)"

definition is_release_capture :: "u16 \<Rightarrow> u64 \<Rightarrow> bool \<Rightarrow> bool" where
  "is_release_capture keycode flags swap = (keycode = CG_KEY_ESCAPE \<and> matches_cmd_only flags swap)"

datatype tap_event = ReleaseCapture | EngageCapture | ToggleFullscreen | ToggleDesktopFullscreen

section \<open>The macOS tap\<close>

datatype cg_type = CgKeyDown | CgKeyUp | CgFlagsChanged | CgTapDisabled | CgOther

record cg_event =
  cg_type :: cg_type
  cg_code :: u16
  cg_flags :: u64
  cg_source :: int \<comment> \<open>\<open>EVENT_SOURCE_STATE_ID\<close>\<close>

record mac_tap =
  mt_enabled :: bool
  mt_passive :: bool
  mt_swap :: bool
  mt_prev :: u64
  mt_return :: bool \<comment> \<open>\<open>desktop_return_down\<close>\<close>
  mt_sent :: "packet list"
  mt_synth :: "packet list list"
  mt_events :: "tap_event list"
  mt_kicks :: nat

definition mac_tap_new :: "bool \<Rightarrow> mac_tap" where
  "mac_tap_new swap =
     \<lparr>mt_enabled = False, mt_passive = False, mt_swap = swap, mt_prev = 0, mt_return = False, mt_sent = [],
      mt_synth = [], mt_events = [], mt_kicks = 0\<rparr>"

definition tap_notify :: "tap_event \<Rightarrow> mac_tap \<Rightarrow> mac_tap" where
  "tap_notify e t = t\<lparr>mt_events := mt_events t @ [e]\<rparr>"

definition tap_send :: "(u16 \<times> bool) list \<Rightarrow> mac_tap \<Rightarrow> mac_tap" where
  "tap_send cs t = t\<lparr>mt_sent := mt_sent t @ map key_packet cs\<rparr>"

definition scan_changes :: "u16 \<Rightarrow> bool \<Rightarrow> (u16 \<times> bool) list" where
  "scan_changes kc pressed = (case cgkeycode_to_scancode kc of None \<Rightarrow> [] | Some sc \<Rightarrow> [(sc, pressed)])"

text \<open>The combination of a synthetic press, and that of its release.\<close>

definition synthetic_down :: "u16 \<Rightarrow> u64 \<Rightarrow> packet list" where
  "synthetic_down kc flags =
     (if flags AND CG_MODIFIER_MASK \<noteq> 0
      then map (\<lambda>(sc, d). key_packet (sc, True)) (cg_flag_change_to_scancodes flags 0) else [])
     @ map key_packet (scan_changes kc True)"

definition synthetic_up :: "u16 \<Rightarrow> u64 \<Rightarrow> packet list" where
  "synthetic_up kc flags =
     map key_packet (scan_changes kc False)
     @ (if flags AND CG_MODIFIER_MASK \<noteq> 0
        then map (\<lambda>(sc, d). key_packet (sc, False)) (cg_flag_change_to_scancodes 0 flags) else [])"

definition tap_combo :: "packet list \<Rightarrow> mac_tap \<Rightarrow> mac_tap" where
  "tap_combo combo t = (if combo = [] then t else t\<lparr>mt_synth := mt_synth t @ [combo]\<rparr>)"

definition modifier_changes :: "bool \<Rightarrow> u64 \<Rightarrow> u64 \<Rightarrow> (u16 \<times> bool) list" where
  "modifier_changes swap cur prev =
     (if swap then cg_flag_change_to_scancodes_swapped cur prev else cg_flag_change_to_scancodes cur prev)"

text \<open>The arms for an event in capture mode; the first component says whether macOS keeps the event.\<close>

definition tap_active :: "bool \<Rightarrow> bool \<Rightarrow> cg_event \<Rightarrow> mac_tap \<Rightarrow> bool \<times> mac_tap" where
  "tap_active physical swap ev t =
     (let kc = cg_code ev; flags = cg_flags ev in
      case cg_type ev of
        CgKeyDown \<Rightarrow>
          if is_cmd_enter kc flags swap then (False, tap_notify ToggleFullscreen t)
          else if is_release_capture kc flags swap then (False, tap_notify ReleaseCapture t)
          else if \<not> physical then
            (False, tap_combo (synthetic_down kc flags)
                      (if is_synthetic_paste kc flags then t\<lparr>mt_kicks := mt_kicks t + 1\<rparr> else t))
          else (False, tap_send (scan_changes kc True) t)
      | CgKeyUp \<Rightarrow>
          if \<not> physical then (False, tap_combo (synthetic_up kc flags) t)
          else (False, tap_send (scan_changes kc False) t)
      | CgFlagsChanged \<Rightarrow>
          (True, tap_send (modifier_changes swap flags (mt_prev t)) (t\<lparr>mt_prev := flags\<rparr>))
      | _ \<Rightarrow> (True, t))"

definition tap_passive :: "bool \<Rightarrow> cg_event \<Rightarrow> mac_tap \<Rightarrow> bool \<times> mac_tap" where
  "tap_passive swap ev t =
     (if cg_type ev = CgKeyDown \<and> is_cmd_enter (cg_code ev) (cg_flags ev) swap
      then (False, tap_notify ToggleFullscreen t)
      else if cg_type ev = CgKeyDown \<and> is_release_capture (cg_code ev) (cg_flags ev) swap
      then (False, tap_notify EngageCapture t)
      else (True, t))"

definition tap_callback :: "cg_event \<Rightarrow> mac_tap \<Rightarrow> bool \<times> mac_tap" where
  "tap_callback ev t =
     (if cg_type ev = CgTapDisabled then (False, t)
      else
        let physical = (cg_source ev = 1); swap = (mt_swap t \<and> physical);
            ret = (cg_code ev = CG_KEY_RETURN) in
        if cg_type ev = CgKeyDown \<and> ret \<and> mt_return t then (False, t)
        else if cg_type ev = CgKeyUp \<and> ret \<and> mt_return t then (False, t\<lparr>mt_return := False\<rparr>)
        else if (mt_enabled t \<or> mt_passive t) \<and> cg_type ev \<in> {CgKeyDown, CgKeyUp}
             \<and> is_desktop_enter (cg_code ev) (cg_flags ev) swap
        then (False,
              if cg_type ev = CgKeyDown \<and> \<not> mt_return t
              then tap_notify ToggleDesktopFullscreen (t\<lparr>mt_return := True\<rparr>) else t)
        else if \<not> mt_enabled t \<and> mt_passive t then tap_passive swap ev t
        else if \<not> mt_enabled t then (True, t)
        else tap_active physical swap ev t)"

text \<open>The handle's operations: \<open>enable\<close>, \<open>disable\<close>, \<open>enable_passive\<close>.\<close>

definition mac_enable :: "mac_tap \<Rightarrow> mac_tap" where
  "mac_enable t = t\<lparr>mt_passive := False, mt_enabled := True\<rparr>"

definition mac_disable :: "mac_tap \<Rightarrow> mac_tap" where
  "mac_disable t =
     (let prev = mt_prev t; t1 = t\<lparr>mt_enabled := False, mt_passive := False, mt_prev := 0\<rparr> in
      t1\<lparr>mt_sent := mt_sent t1
           @ map (\<lambda>(sc, d). key_packet (sc, False)) (modifier_changes (mt_swap t) 0 prev)\<rparr>)"

definition mac_enable_passive :: "mac_tap \<Rightarrow> mac_tap" where
  "mac_enable_passive t =
     (let t1 = (if mt_enabled t then mac_disable t else t) in t1\<lparr>mt_enabled := False, mt_passive := True\<rparr>)"

text \<open>The tap thread, the interface thread and the settings, one operation after the other.\<close>

datatype mac_key_event =
    MacKey cg_event
  | MacEnable
  | MacPassive
  | MacDisable
  | MacSwap bool

definition mac_key_step :: "mac_tap \<Rightarrow> mac_key_event \<Rightarrow> mac_tap" where
  "mac_key_step t e =
     (case e of
        MacKey ev \<Rightarrow> snd (tap_callback ev t)
      | MacEnable \<Rightarrow> mac_enable t
      | MacPassive \<Rightarrow> mac_enable_passive t
      | MacDisable \<Rightarrow> mac_disable t
      | MacSwap b \<Rightarrow> t\<lparr>mt_swap := b\<rparr>)"

section \<open>The macOS tap and its modifiers\<close>

text \<open>The modifiers of the host that a bitmap stands for.\<close>

definition mods_down :: "bool \<Rightarrow> u64 \<Rightarrow> u16 set" where
  "mods_down swap f =
     (let g = (if swap then swap_cmd_alt_bits f else f) in
      (if g AND (CG_FLAG_COMMAND OR CG_FLAG_CONTROL) \<noteq> 0 then {WIN_SCAN_LCTRL} else {})
      \<union> (if g AND CG_FLAG_SHIFT \<noteq> 0 then {WIN_SCAN_LSHIFT} else {})
      \<union> (if g AND CG_FLAG_ALT \<noteq> 0 then {WIN_SCAN_LALT} else {}))"

lemma mods_down_zero [simp]: "mods_down swap 0 = {}"
  by (simp add: mods_down_def swap_cmd_alt_bits_def)

lemma modifiers_differ:
  "WIN_SCAN_LCTRL \<noteq> WIN_SCAN_LSHIFT" "WIN_SCAN_LCTRL \<noteq> WIN_SCAN_LALT" "WIN_SCAN_LSHIFT \<noteq> WIN_SCAN_LALT"
  by (simp_all add: WIN_SCAN_LCTRL_def WIN_SCAN_LSHIFT_def WIN_SCAN_LALT_def)

text \<open>A change of the bitmap takes the host from the modifiers of the old one to those of the new.\<close>

lemma flag_change_held:
  assumes "scan \<in> held \<longleftrightarrow> prev AND bits \<noteq> 0"
  shows "foldl key_held held (map key_packet (flag_change bits scan cur prev))
    = held - {scan} \<union> (if cur AND bits \<noteq> 0 then {scan} else {})"
  using assms by (auto simp: flag_change_def Let_def)

lemma plain_changes:
  assumes "held \<inter> modifier_scans = mods_down False prev"
  shows "foldl key_held held (map key_packet (cg_flag_change_to_scancodes cur prev)) \<inter> modifier_scans
    = mods_down False cur"
proof -
  have mem: "sc \<in> held \<longleftrightarrow> sc \<in> mods_down False prev" if "sc \<in> modifier_scans" for sc
    using assms that by blast
  have bits: "WIN_SCAN_LCTRL \<in> held \<longleftrightarrow> prev AND (CG_FLAG_COMMAND OR CG_FLAG_CONTROL) \<noteq> 0"
    "WIN_SCAN_LSHIFT \<in> held \<longleftrightarrow> prev AND CG_FLAG_SHIFT \<noteq> 0" "WIN_SCAN_LALT \<in> held \<longleftrightarrow> prev AND CG_FLAG_ALT \<noteq> 0"
    using mem [of WIN_SCAN_LCTRL] mem [of WIN_SCAN_LSHIFT] mem [of WIN_SCAN_LALT] modifiers_differ
    by (simp_all add: modifier_scans_def mods_down_def)
  let ?c = "if cur AND (CG_FLAG_COMMAND OR CG_FLAG_CONTROL) \<noteq> 0 then {WIN_SCAN_LCTRL} else {}"
  let ?s = "if cur AND CG_FLAG_SHIFT \<noteq> 0 then {WIN_SCAN_LSHIFT} else {}"
  let ?a = "if cur AND CG_FLAG_ALT \<noteq> 0 then {WIN_SCAN_LALT} else {}"
  have "foldl key_held held (map key_packet (cg_flag_change_to_scancodes cur prev)) =
    (((held - {WIN_SCAN_LCTRL} \<union> ?c) - {WIN_SCAN_LSHIFT} \<union> ?s) - {WIN_SCAN_LALT} \<union> ?a)"
    unfolding cg_flag_change_to_scancodes_def map_append foldl_append
    by (subst flag_change_held, use bits modifiers_differ in \<open>simp split: if_split\<close>)+ simp
  then show ?thesis using modifiers_differ by (auto simp: modifier_scans_def mods_down_def)
qed

lemma modifier_changes_held:
  assumes "held \<inter> modifier_scans = mods_down swap prev"
  shows "foldl key_held held (map key_packet (modifier_changes swap cur prev)) \<inter> modifier_scans
    = mods_down swap cur"
proof (cases swap)
  case True
  then have "mods_down swap f = mods_down False (swap_cmd_alt_bits f)" for f by (simp add: mods_down_def)
  then show ?thesis
    using plain_changes [of held "swap_cmd_alt_bits prev" "swap_cmd_alt_bits cur"] assms True
    by (simp add: modifier_changes_def cg_flag_change_to_scancodes_swapped_def)
next
  case False
  then show ?thesis using plain_changes assms by (simp add: modifier_changes_def)
qed

text \<open>The changes towards an empty bitmap are releases.\<close>

lemma flag_change_zero: "map (\<lambda>(sc, d). key_packet (sc, False)) (flag_change bits scan 0 prev)
    = map key_packet (flag_change bits scan 0 prev)"
  by (simp add: flag_change_def Let_def)

lemma swap_zero: "swap_cmd_alt_bits 0 = 0"
  by (simp add: swap_cmd_alt_bits_def)

lemma plain_changes_zero: "map (\<lambda>(sc, d). key_packet (sc, False)) (cg_flag_change_to_scancodes 0 prev)
    = map key_packet (cg_flag_change_to_scancodes 0 prev)"
  unfolding cg_flag_change_to_scancodes_def map_append flag_change_zero by (rule refl)

lemma modifier_changes_zero:
  "map (\<lambda>(sc, d). key_packet (sc, False)) (modifier_changes swap 0 prev)
    = map key_packet (modifier_changes swap 0 prev)"
  unfolding modifier_changes_def cg_flag_change_to_scancodes_swapped_def swap_zero
  using plain_changes_zero by (cases swap) simp_all

definition mac_key_inv :: "bool \<Rightarrow> mac_tap \<Rightarrow> bool" where
  "mac_key_inv swap t =
     (mt_swap t = swap \<and> keys_held (mt_sent t) \<inter> modifier_scans = mods_down swap (mt_prev t))"

text \<open>
  The setting stays as it is, and where it is on the modifier keys are those of the keyboard: a
  posted change of the bitmap is read without the swap.
\<close>

definition mac_key_ok :: "bool \<Rightarrow> mac_key_event \<Rightarrow> bool" where
  "mac_key_ok swap e =
     (case e of
        MacSwap b \<Rightarrow> b = swap
      | MacKey ev \<Rightarrow> swap \<and> cg_type ev = CgFlagsChanged \<longrightarrow> cg_source ev = 1
      | _ \<Rightarrow> True)"

lemma scan_changes_held:
  "foldl key_held held (map key_packet (scan_changes kc d)) \<inter> modifier_scans = held \<inter> modifier_scans"
  using cgkeycode_no_modifier [of kc] by (auto simp: scan_changes_def split: option.splits)

lemma tap_frame [simp]:
  "mt_swap (tap_notify e t) = mt_swap t" "mt_prev (tap_notify e t) = mt_prev t"
  "mt_sent (tap_notify e t) = mt_sent t"
  "mt_swap (tap_combo c t) = mt_swap t" "mt_prev (tap_combo c t) = mt_prev t"
  "mt_sent (tap_combo c t) = mt_sent t"
  "mt_swap (tap_send cs t) = mt_swap t" "mt_prev (tap_send cs t) = mt_prev t"
  "mt_sent (tap_send cs t) = mt_sent t @ map key_packet cs"
  by (simp_all add: tap_notify_def tap_combo_def tap_send_def)

lemma tap_callback_inv:
  assumes inv: "mac_key_inv swap t" and ok: "mac_key_ok swap (MacKey ev)"
  shows "mac_key_inv swap (snd (tap_callback ev t))"
proof -
  have active: "mac_key_inv swap (snd (tap_active p (mt_swap t \<and> p) ev t))" if p: "p = (cg_source ev = 1)" for p
  proof (cases "cg_type ev")
    case CgFlagsChanged
    then have "(mt_swap t \<and> p) = swap" using inv ok p by (auto simp: mac_key_inv_def mac_key_ok_def)
    then show ?thesis
      using inv modifier_changes_held [of "keys_held (mt_sent t)" swap "mt_prev t" "cg_flags ev"] CgFlagsChanged
      by (simp add: tap_active_def mac_key_inv_def keys_held_append Let_def)
  qed (use inv in \<open>auto simp: tap_active_def mac_key_inv_def keys_held_append scan_changes_held Let_def\<close>)
  have watching: "mac_key_inv swap (snd (tap_passive b ev t))" for b
    using inv by (simp add: tap_passive_def mac_key_inv_def)
  have notified: "mac_key_inv swap (tap_notify e (t\<lparr>mt_return := b\<rparr>))" "mac_key_inv swap (t\<lparr>mt_return := b\<rparr>)" for e b
    using inv by (simp_all add: mac_key_inv_def)
  show ?thesis
    using inv active watching notified by (simp add: tap_callback_def Let_def)
qed

lemma mac_disable_inv: "mac_key_inv swap t \<Longrightarrow> mac_key_inv swap (mac_disable t)"
  using modifier_changes_held [of "keys_held (mt_sent t)" swap "mt_prev t" 0]
  by (simp add: mac_disable_def mac_key_inv_def Let_def modifier_changes_zero keys_held_append)

lemma mac_disable_prev [simp]: "mt_prev (mac_disable t) = 0" "mt_swap (mac_disable t) = mt_swap t"
  by (simp_all add: mac_disable_def Let_def)

lemma mac_enable_inv:
  "mac_key_inv swap t \<Longrightarrow> mac_key_inv swap (mac_enable t)"
  "mac_key_inv swap t \<Longrightarrow> mac_key_inv swap (mac_enable_passive t)"
  using mac_disable_inv [of swap t]
  by (simp_all add: mac_enable_def mac_enable_passive_def mac_key_inv_def Let_def)

interpretation mac_book: key_book mac_key_step "mac_key_inv swap" "mac_key_ok swap" mt_sent
    "\<lambda>t. mods_down (mt_swap t) (mt_prev t)" modifier_scans mac_disable for swap
proof
  fix t e
  assume inv: "mac_key_inv swap t" and ok: "mac_key_ok swap e"
  show "mac_key_inv swap (mac_key_step t e)"
  proof (cases e)
    case (MacKey ev)
    then show ?thesis using tap_callback_inv inv ok by (simp add: mac_key_step_def)
  next
    case (MacSwap b)
    then show ?thesis using inv ok by (simp add: mac_key_step_def mac_key_ok_def mac_key_inv_def)
  qed (use inv in \<open>simp_all add: mac_key_step_def mac_disable_inv mac_enable_inv\<close>)
next
  show "mac_key_inv swap t \<Longrightarrow> keys_held (mt_sent t) \<inter> modifier_scans = mods_down (mt_swap t) (mt_prev t)" for t
    by (simp add: mac_key_inv_def)
  show "mac_key_inv swap t \<Longrightarrow> mac_key_inv swap (mac_disable t)" for t by (rule mac_disable_inv)
  show "mods_down (mt_swap (mac_disable t)) (mt_prev (mac_disable t)) = {}" for t by simp
qed

end
