(* ===== verification/WinHook.thy ===== *)
theory WinHook
  imports KeyTap
begin

text \<open>
  The Windows half of \<open>keyboard_tap.rs\<close>: the low-level hook procedure, in the three pieces between
  which the interface thread can run (the decision, the set of held keys, the packet), the release
  of held keys, the modes of the handle. Last, what the client's window does to the tap
  (\<open>sync_tap_to_focus\<close> of \<open>app.rs\<close>) and the dispatcher of synthetic combinations (\<open>main.rs\<close>).
\<close>

section \<open>Keys\<close>

definition VK_RETURN :: u32 where "VK_RETURN = 0x0D"
definition VK_ESCAPE :: u32 where "VK_ESCAPE = 0x1B"

definition modifier_vks :: "u32 list" where
  "modifier_vks = [0x10, 0x11, 0x12, 0x14, 0xA0, 0xA1, 0xA2, 0xA3, 0xA4, 0xA5]"

definition is_modifier_vk :: "u32 \<Rightarrow> bool" where
  "is_modifier_vk vk = (vk \<in> set modifier_vks)"

definition is_win_toggle_fullscreen :: "u32 \<Rightarrow> bool \<Rightarrow> bool" where
  "is_win_toggle_fullscreen vk ctrl = (ctrl \<and> vk = VK_RETURN)"

definition is_win_toggle_capture :: "u32 \<Rightarrow> bool \<Rightarrow> bool" where
  "is_win_toggle_capture vk ctrl = (ctrl \<and> vk = VK_ESCAPE)"

section \<open>The hook\<close>

datatype hook_msg = WmDown | WmUp | WmOther

record hook_event =
  he_code :: int
  he_msg :: hook_msg
  he_vk :: u32
  he_scan :: u32
  he_extended :: bool
  he_ctrl :: bool \<comment> \<open>\<open>GetAsyncKeyState(VK_CONTROL)\<close>\<close>
  he_mapped :: u32 \<comment> \<open>\<open>MapVirtualKeyW\<close>\<close>

record win_tap =
  wt_enabled :: bool
  wt_passive :: bool
  wt_held :: "u16 set"
  wt_hot :: "u32 set"
  wt_sent :: "packet list"
  wt_events :: "tap_event list"

definition win_tap_new :: win_tap where
  "win_tap_new = \<lparr>wt_enabled = False, wt_passive = False, wt_held = {}, wt_hot = {}, wt_sent = [], wt_events = []\<rparr>"

text \<open>\<open>HookDone passed\<close>: the call is over; \<open>HookForward\<close>: a key for the host, pressed or released, and
  whether the local desktop sees it too.\<close>

datatype hook_next = HookDone bool | HookForward u16 bool bool

definition win_hotkey :: "hook_event \<Rightarrow> bool \<Rightarrow> tap_event option" where
  "win_hotkey ev active =
     (if is_win_toggle_fullscreen (he_vk ev) (he_ctrl ev) then Some ToggleFullscreen
      else if is_win_toggle_capture (he_vk ev) (he_ctrl ev)
      then Some (if active then ReleaseCapture else EngageCapture) else None)"

definition hook_enter :: "hook_event \<Rightarrow> win_tap \<Rightarrow> hook_next \<times> win_tap" where
  "hook_enter ev w =
     (let vk = he_vk ev; down = (he_msg ev = WmDown); up = (he_msg ev = WmUp);
          active = wt_enabled w; listening = wt_passive w in
      if he_code ev < 0 \<or> (\<not> down \<and> \<not> up) then (HookDone True, w)
      else if up \<and> vk \<in> wt_hot w then (HookDone False, w\<lparr>wt_hot := wt_hot w - {vk}\<rparr>)
      else case (if (active \<or> listening) \<and> down then win_hotkey ev active else None) of
             Some e \<Rightarrow> (HookDone False, w\<lparr>wt_hot := insert vk (wt_hot w), wt_events := wt_events w @ [e]\<rparr>)
           | None \<Rightarrow>
               if \<not> active then (HookDone True, w)
               else case (case compose_scancode (he_scan ev) (he_extended ev) of
                            Some sc \<Rightarrow> Some sc
                          | None \<Rightarrow> compose_scancode (he_mapped ev) (he_extended ev)) of
                      None \<Rightarrow> (HookDone False, w)
                    | Some sc \<Rightarrow> (HookForward sc down (is_modifier_vk vk), w))"

definition hook_book :: "u16 \<Rightarrow> bool \<Rightarrow> win_tap \<Rightarrow> win_tap" where
  "hook_book sc down w = w\<lparr>wt_held := (if down then insert sc (wt_held w) else wt_held w - {sc})\<rparr>"

definition hook_send :: "u16 \<Rightarrow> bool \<Rightarrow> win_tap \<Rightarrow> win_tap" where
  "hook_send sc down w = w\<lparr>wt_sent := wt_sent w @ [key_packet (sc, down)]\<rparr>"

definition hook_proc :: "hook_event \<Rightarrow> win_tap \<Rightarrow> bool \<times> win_tap" where
  "hook_proc ev w =
     (case hook_enter ev w of
        (HookDone passed, w1) \<Rightarrow> (passed, w1)
      | (HookForward sc down passed, w1) \<Rightarrow> (passed, hook_send sc down (hook_book sc down w1)))"

section \<open>The handle\<close>

definition release_held_keys :: "win_tap \<Rightarrow> win_tap" where
  "release_held_keys w =
     w\<lparr>wt_held := {}, wt_sent := wt_sent w @ map (\<lambda>sc. key_packet (sc, False)) (sorted_list_of_set (wt_held w))\<rparr>"

definition win_enable :: "win_tap \<Rightarrow> win_tap" where
  "win_enable w = w\<lparr>wt_passive := False, wt_enabled := True\<rparr>"

definition win_disable :: "win_tap \<Rightarrow> win_tap" where
  "win_disable w = release_held_keys (w\<lparr>wt_enabled := False, wt_passive := False\<rparr>)"

definition win_enable_passive :: "win_tap \<Rightarrow> win_tap" where
  "win_enable_passive w =
     (let w1 = (if wt_enabled w then win_disable w else w) in w1\<lparr>wt_enabled := False, wt_passive := True\<rparr>)"

datatype win_key_event = WinHook hook_event | WinEnable | WinPassive | WinDisable

definition win_key_step :: "win_tap \<Rightarrow> win_key_event \<Rightarrow> win_tap" where
  "win_key_step w e =
     (case e of
        WinHook ev \<Rightarrow> snd (hook_proc ev w)
      | WinEnable \<Rightarrow> win_enable w
      | WinPassive \<Rightarrow> win_enable_passive w
      | WinDisable \<Rightarrow> win_disable w)"

definition win_key_inv :: "win_tap \<Rightarrow> bool" where
  "win_key_inv w = (finite (wt_held w) \<and> keys_held (wt_sent w) = wt_held w)"

lemma hook_enter_frame:
  assumes "hook_enter ev w = (r, w1)"
  shows "wt_held w1 = wt_held w" "wt_sent w1 = wt_sent w" "wt_enabled w1 = wt_enabled w"
  using assms by (auto simp: hook_enter_def Let_def split: if_splits option.splits)

lemma hook_pair_inv: "win_key_inv w \<Longrightarrow> win_key_inv (hook_send sc down (hook_book sc down w))"
  by (simp add: win_key_inv_def hook_send_def hook_book_def)

lemma hook_proc_inv:
  assumes "win_key_inv w"
  shows "win_key_inv (snd (hook_proc ev w))"
proof (cases "hook_enter ev w")
  case (Pair r w1)
  then have "win_key_inv w1" using hook_enter_frame [OF Pair] assms by (simp add: win_key_inv_def)
  then show ?thesis using Pair hook_pair_inv by (cases r) (simp_all add: hook_proc_def)
qed

lemma win_disable_inv: "win_key_inv w \<Longrightarrow> win_key_inv (win_disable w)"
  by (simp add: win_key_inv_def win_disable_def release_held_keys_def keys_held_append held_releases)

lemma win_disable_held [simp]: "wt_held (win_disable w) = {}" "\<not> wt_enabled (win_disable w)"
  by (simp_all add: win_disable_def release_held_keys_def)

interpretation win_book: key_book win_key_step win_key_inv "\<lambda>e. True" wt_sent wt_held UNIV win_disable
proof
  fix w e
  assume inv: "win_key_inv w"
  show "win_key_inv (win_key_step w e)"
  proof (cases e)
    case WinPassive
    then show ?thesis using inv win_disable_inv [OF inv]
      by (simp add: win_key_step_def win_enable_passive_def win_key_inv_def Let_def)
  next
    case WinEnable
    then show ?thesis using inv by (simp add: win_key_step_def win_enable_def win_key_inv_def)
  qed (use inv in \<open>simp_all add: win_key_step_def hook_proc_inv win_disable_inv\<close>)
next
  show "win_key_inv w \<Longrightarrow> keys_held (wt_sent w) \<inter> UNIV = wt_held w" for w by (simp add: win_key_inv_def)
  show "win_key_inv w \<Longrightarrow> win_key_inv (win_disable w)" for w by (rule win_disable_inv)
  show "wt_held (win_disable w) = {}" for w by simp
qed

lemma win_new_inv: "win_key_inv win_tap_new"
  by (simp add: win_key_inv_def win_tap_new_def)

text \<open>Both halves of a hotkey are swallowed: its release reaches neither the host nor the desktop.\<close>

lemma hotkey_release_swallowed:
  assumes "he_vk ev \<in> wt_hot w" "he_msg ev = WmUp" "0 \<le> he_code ev"
  shows "fst (hook_proc ev w) = False" "wt_sent (snd (hook_proc ev w)) = wt_sent w"
  using assms by (simp_all add: hook_proc_def hook_enter_def Let_def)

section \<open>The window\<close>

text \<open>\<open>sync_tap_to_focus\<close>: one of the three modes.\<close>

definition sync_tap_to_focus :: "bool \<Rightarrow> bool \<Rightarrow> win_key_event" where
  "sync_tap_to_focus focused capturing =
     (if focused then (if capturing then WinEnable else WinPassive) else WinDisable)"

section \<open>The dispatcher of synthetic combinations\<close>

definition MAX_WAIT :: nat where "MAX_WAIT = 4000"
definition GRACE :: nat where "GRACE = 400"
definition DISPATCH_POLL :: nat where "DISPATCH_POLL = 25"

text \<open>The wait, over the values the flag is seen to have; it is clear when they run out.\<close>

fun dispatch_wait :: "nat \<Rightarrow> bool list \<Rightarrow> nat" where
  "dispatch_wait waited [] = waited"
| "dispatch_wait waited (busy # seen) =
     (if busy \<and> waited < MAX_WAIT then dispatch_wait (waited + DISPATCH_POLL) seen else waited)"

definition dispatch_combo :: "bool list \<Rightarrow> packet list \<Rightarrow> packet list \<Rightarrow> nat \<times> packet list" where
  "dispatch_combo seen combo outgoing = (dispatch_wait 0 seen + GRACE, outgoing @ combo)"

lemma dispatch_wait_bounded:
  "DISPATCH_POLL dvd waited \<Longrightarrow> waited \<le> MAX_WAIT \<Longrightarrow> dispatch_wait waited seen \<le> MAX_WAIT"
proof (induction seen arbitrary: waited)
  case (Cons busy seen)
  show ?case
  proof (cases "busy \<and> waited < MAX_WAIT")
    case True
    have "DISPATCH_POLL dvd MAX_WAIT" by (simp add: DISPATCH_POLL_def MAX_WAIT_def)
    then have "DISPATCH_POLL dvd MAX_WAIT - waited" using Cons.prems dvd_diff_nat by blast
    then have "DISPATCH_POLL \<le> MAX_WAIT - waited" using True by (auto dest: dvd_imp_le)
    then have "waited + DISPATCH_POLL \<le> MAX_WAIT" using True by linarith
    then show ?thesis using True Cons.IH [of "waited + DISPATCH_POLL"] Cons.prems by simp
  qed (use Cons.prems in auto)
qed simp

text \<open>A synthetic combination releases all it pressed: press and release, one after the other.\<close>

lemma synthetic_changes_down:
  "flag_change bits scan flags 0 = (if flags AND bits \<noteq> 0 then [(scan, True)] else [])"
  "flag_change bits scan 0 flags = (if flags AND bits \<noteq> 0 then [(scan, False)] else [])"
  by (simp_all add: flag_change_def Let_def)

lemma synthetic_pair_clean:
  "foldl key_held held (synthetic_down kc flags @ synthetic_up kc flags) \<subseteq> held"
  by (auto simp: synthetic_down_def synthetic_up_def cg_flag_change_to_scancodes_def synthetic_changes_down
      scan_changes_def split: option.splits)

end
