(* ===== verification/KeyProps.thy ===== *)
theory KeyProps
  imports WinHook
begin

text \<open>
  Properties of capture mode: what the host still holds down when capture ends. On Windows the hook's
  book is exact and its release complete, except for a call of the hook that is under way; on macOS
  the modifiers are released and nothing else is.
\<close>

section \<open>When capture ends\<close>

text \<open>On Windows, whatever keys, hotkeys and mode changes came before, when capture is switched off
  between two calls of the hook the packets sent leave no key pressed on the host.\<close>

lemma windows_release_complete:
  "keys_held (wt_sent (win_disable (foldl win_key_step win_tap_new es))) = {}"
  using win_book.drained [OF win_new_inv, of es] by (simp add: list_all_iff)

text \<open>On macOS, as long as the option swap is not changed and the modifier events are those of the
  keyboard where it is on, whatever was typed, switching capture off leaves neither Ctrl, Shift nor
  Alt pressed on the host.\<close>

lemma macos_release_frees_modifiers:
  assumes "list_all (mac_key_ok swap) es"
  shows "keys_held (mt_sent (mac_disable (foldl mac_key_step (mac_tap_new swap) es)))
    \<inter> {WIN_SCAN_LCTRL, WIN_SCAN_LSHIFT, WIN_SCAN_LALT} = {}"
proof -
  have "mac_key_inv swap (mac_tap_new swap)" by (simp add: mac_key_inv_def mac_tap_new_def)
  from mac_book.drained [OF this assms] show ?thesis by (simp add: modifier_scans_def)
qed

text \<open>Shift pressed on the keyboard in capture mode, with the swap on.\<close>

definition shift_down :: mac_key_event where
  "shift_down = MacKey \<lparr>cg_type = CgFlagsChanged, cg_code = 0x38, cg_flags = CG_FLAG_SHIFT OR CG_FLAG_COMMAND, cg_source = 1\<rparr>"

lemma macos_release_frees_modifiers_witness:
  "keys_held (mt_sent (mac_disable (foldl mac_key_step (mac_tap_new True) [MacEnable, shift_down])))
     \<inter> {WIN_SCAN_LCTRL, WIN_SCAN_LSHIFT, WIN_SCAN_LALT} = {}"
  by (rule macos_release_frees_modifiers) (simp add: mac_key_ok_def shift_down_def)

section \<open>What stays pressed\<close>

text \<open>An event of a key, without modifiers.\<close>

definition plain_key :: "cg_type \<Rightarrow> u16 \<Rightarrow> mac_key_event" where
  "plain_key ty kc = MacKey \<lparr>cg_type = ty, cg_code = kc, cg_flags = 0, cg_source = 1\<rparr>"

text \<open>On macOS a key that is not a modifier stays pressed on the host when capture ends while it is
  down: its press was sent, the release sends modifiers only, and the key's own release then passes
  to macOS. The comment over the release says that no key is left stuck on either platform.\<close>

lemma macos_key_stays_down:
  assumes "cgkeycode_to_scancode kc = Some sc" "kc \<noteq> CG_KEY_RETURN" "kc \<noteq> CG_KEY_ESCAPE"
  shows "sc \<in> keys_held (mt_sent (foldl mac_key_step (mac_tap_new swap)
    [MacEnable, plain_key CgKeyDown kc, MacDisable, plain_key CgKeyUp kc]))"
  using assms
  by (simp add: mac_key_step_def mac_enable_def mac_tap_new_def plain_key_def tap_callback_def tap_active_def
      is_desktop_enter_def is_cmd_enter_def is_release_capture_def scan_changes_def tap_send_def mac_disable_def
      modifier_changes_def cg_flag_change_to_scancodes_swapped_def cg_flag_change_to_scancodes_def
      flag_change_def swap_zero keys_held_def Let_def)

lemma macos_key_stays_down_witness:
  "0x1E \<in> keys_held (mt_sent (foldl mac_key_step (mac_tap_new False)
     [MacEnable, plain_key CgKeyDown 0x00, MacDisable, plain_key CgKeyUp 0x00]))"
proof (rule macos_key_stays_down)
  show "cgkeycode_to_scancode 0x00 = Some 0x1E" by (simp add: cgkeycode_to_scancode_def cg_keys_def)
qed (simp_all add: CG_KEY_RETURN_def CG_KEY_ESCAPE_def)

text \<open>On Windows the release can miss a key: if the interface switches capture off after the hook
  has booked a press and before it sends it, the host gets the release first and then the press. The
  key stays down there, capture is off and nothing is booked, so no later release will free it.\<close>

lemma windows_release_races:
  assumes "hook_enter ev w = (HookForward sc True passed, w1)"
  shows "let w2 = hook_send sc True (win_disable (hook_book sc True w1))
    in sc \<in> keys_held (wt_sent w2) \<and> wt_held w2 = {} \<and> \<not> wt_enabled w2
      \<and> sc \<in> keys_held (wt_sent (win_disable w2))"
  by (simp add: hook_send_def Let_def win_disable_def release_held_keys_def keys_held_append)

definition press_a :: hook_event where
  "press_a = \<lparr>he_code = 0, he_msg = WmDown, he_vk = 0x41, he_scan = 0x1E, he_extended = False,
     he_ctrl = False, he_mapped = 0\<rparr>"

lemma press_a_forwarded:
  "hook_enter press_a (win_enable win_tap_new) = (HookForward 0x1E True False, win_enable win_tap_new)"
  by (simp add: hook_enter_def press_a_def win_enable_def win_tap_new_def win_hotkey_def
      is_win_toggle_fullscreen_def is_win_toggle_capture_def compose_scancode_def is_modifier_vk_def
      modifier_vks_def Let_def)

lemma windows_release_races_witness:
  "0x1E \<in> keys_held (wt_sent (hook_send 0x1E True (win_disable (hook_book 0x1E True (win_enable win_tap_new)))))"
  using windows_release_races [OF press_a_forwarded] by (simp add: Let_def)

end
