(* ===== verification/ClientWindow.thy ===== *)
theory ClientWindow
  imports WinHook ClientLink
begin

text \<open>
  \<open>apps/wiredesk-client/src/app.rs\<close>: what the client's window does in a frame. The record
  \<open>window_app\<close> has the fields of \<open>WireDeskApp\<close> that frames read and write; the record \<open>frame_env\<close> has
  what one frame observes: the clock, the events of the link and of the keyboard tap, the answers
  of the window system, what was clicked and the input events. A rectangle of the window is a value of a type
  parameter: the code compares rectangles in floating point, and the comparisons are answers of the
  environment. This is the macOS build; a window without a desktop view does what the Windows
  build does. Drawing, the settings panel and the Dock icon are left out.
\<close>

section \<open>The window's state\<close>

datatype connection_state = CsDisconnected | CsConnecting | CsConnected | CsReconnecting

definition reconnect_state :: "bool \<Rightarrow> connection_state" where
  "reconnect_state ever_connected = (if ever_connected then CsReconnecting else CsConnecting)"

text \<open>The texts of the status line that the code composes.\<close>

datatype status_msg =
    MsgReady
  | MsgConnected rstring
  | MsgDisconnected down_reason
  | MsgReconnecting u32
  | MsgConnecting u32
  | MsgCaptured
  | MsgReleased

datatype status_text =
    TextConnected rstring u16 u16
  | TextConnecting
  | TextReconnecting u32
  | TextDisconnected down_reason
  | TextNotConnected

record 'g pending_restore =
  pr_rect :: 'g
  pr_next_at :: nat
  pr_attempts :: nat

datatype 'g window_cmd =
    CmdDecorations bool
  | CmdPosition 'g
  | CmdSize 'g
  | CmdResizable bool
  | CmdFocus
  | CmdFullscreen bool
  | CmdAbove bool
  | CmdPlace 'g
  | CmdToSpace

record 'g window_app =
  wa_state :: connection_state
  wa_reconnect_attempt :: u32
  wa_ever_connected :: bool
  wa_capturing :: bool
  wa_fullscreen :: bool
  wa_host_name :: rstring
  wa_screen :: "u16 \<times> u16"
  wa_status_msg :: status_msg
  wa_sent :: "packet list"
  wa_tap_calls :: "win_key_event list"
  wa_tap_running :: bool
  wa_mapper :: input_mapper
  wa_mapper_screen :: "u16 \<times> u16"
  wa_seq :: u16
  wa_permission :: bool
  wa_last_perm_check :: nat
  wa_native :: bool
  wa_above :: bool
  wa_has_preferred :: bool
  wa_fallback_msg :: "nat option"
  wa_restore :: "'g pending_restore option"
  wa_pre_geometry :: "'g option"
  wa_cmd_at :: "nat option"
  wa_persisted :: "'g option"
  wa_pending_geometry :: "('g \<times> nat) option"
  wa_offscreen_check :: "nat option"
  wa_outgoing :: "u64 \<times> u64"
  wa_incoming :: "u64 \<times> u64"
  wa_label :: rstring
  wa_outgoing_cancel :: bool
  wa_incoming_cancel :: bool
  wa_toast :: "(toast \<times> nat) option"
  wa_requests :: nat
  wa_view :: "bool option"
  wa_desktop :: bool
  wa_desktop_pending :: bool
  wa_cmds :: "'g window_cmd list"

text \<open>The fields \<open>new\<close> sets and the ones that \<open>set_browser_service\<close> and \<open>set_restored_geometry\<close> fill in.\<close>

definition window_new ::
  "nat \<Rightarrow> u16 \<times> u16 \<Rightarrow> bool \<Rightarrow> bool \<Rightarrow> bool \<Rightarrow> bool \<Rightarrow> 'g option \<Rightarrow> 'g window_app" where
  "window_new now screen permission tap_running has_preferred view persisted =
     \<lparr>wa_state = CsDisconnected, wa_reconnect_attempt = 0, wa_ever_connected = False, wa_capturing = False,
      wa_fullscreen = False, wa_host_name = [], wa_screen = screen, wa_status_msg = MsgReady, wa_sent = [],
      wa_tap_calls = [], wa_tap_running = tap_running, wa_mapper = input_mapper_new,
      wa_mapper_screen = screen, wa_seq = 0, wa_permission = permission, wa_last_perm_check = now,
      wa_native = False, wa_above = False, wa_has_preferred = has_preferred, wa_fallback_msg = None,
      wa_restore = None, wa_pre_geometry = None, wa_cmd_at = None, wa_persisted = persisted,
      wa_pending_geometry = None, wa_offscreen_check = Some now, wa_outgoing = (0, 0), wa_incoming = (0, 0),
      wa_label = [], wa_outgoing_cancel = False, wa_incoming_cancel = False, wa_toast = None, wa_requests = 0,
      wa_view = (if view then Some False else None), wa_desktop = False, wa_desktop_pending = False,
      wa_cmds = []\<rparr>"

definition status_text_of :: "'g window_app \<Rightarrow> status_text" where
  "status_text_of a =
     (case wa_state a of
        CsConnected \<Rightarrow> TextConnected (wa_host_name a) (fst (wa_screen a)) (snd (wa_screen a))
      | CsConnecting \<Rightarrow> TextConnecting
      | CsReconnecting \<Rightarrow> TextReconnecting (wa_reconnect_attempt a)
      | CsDisconnected \<Rightarrow>
          (case wa_status_msg a of MsgDisconnected r \<Rightarrow> TextDisconnected r | _ \<Rightarrow> TextNotConnected))"

section \<open>What a frame observes\<close>

datatype window_click =
    ClickCancelOutgoing
  | ClickCancelIncoming
  | ClickCapture
  | ClickDesktop
  | ClickCtrlAltDel
  | ClickWinKey
  | ClickLang

datatype pointer_button = Primary | Secondary | Middle | Extra1 | Extra2

datatype ui_event =
    UiKey string egui_modifiers bool
  | UiButton pointer_button bool
  | UiWheel i16 i16
  | UiOther

text \<open>
  \<open>fe_target\<close> is the display that the saved preference names, \<open>fe_display\<close> the one that holds the window, or
  the first; \<open>fe_real\<close> and \<open>fe_winit\<close> whether AppKit and the window library, if they answer, see the
  window where it was asked to be; \<open>fe_rescue\<close> a place on the primary display if the window is on none; \<open>fe_mouse\<close> the
  pointer, as the mapper normalises it for a screen size.
\<close>

record 'g frame_env =
  fe_now :: nat
  fe_events :: "transport_event list"
  fe_permission :: bool
  fe_late_start :: bool
  fe_focused :: bool
  fe_reported :: "bool option"
  fe_rect :: "'g option"
  fe_target :: "'g option"
  fe_display :: "'g option \<Rightarrow> 'g option"
  fe_real :: "('g \<Rightarrow> bool) option"
  fe_winit :: "('g \<Rightarrow> bool) option"
  fe_placed :: bool
  fe_rescue :: "'g option"
  fe_sample :: "'g option"
  fe_changed :: "'g \<Rightarrow> 'g \<Rightarrow> bool"
  fe_save_ok :: bool
  fe_taps :: "tap_event list"
  fe_clicks :: "window_click set"
  fe_frame_size :: "(u16 \<times> u16) option"
  fe_mouse :: "(u16 \<times> u16 \<Rightarrow> u16 \<times> u16) option"
  fe_input :: "ui_event list"

section \<open>Link events\<close>

definition on_transport_event :: "nat \<Rightarrow> 'g window_app \<Rightarrow> transport_event \<Rightarrow> 'g window_app" where
  "on_transport_event now a ev =
     (case ev of
        TeConnected host w h \<Rightarrow>
          a\<lparr>wa_state := CsConnected, wa_ever_connected := True, wa_host_name := host, wa_screen := (w, h),
            wa_mapper_screen := (w, h), wa_status_msg := MsgConnected host\<rparr>
      | TeDisconnected r \<Rightarrow>
          a\<lparr>wa_desktop_pending := False, wa_state := CsDisconnected, wa_capturing := False,
            wa_status_msg := MsgDisconnected r, wa_outgoing := (0, 0), wa_incoming := (0, 0),
            wa_label := [], wa_requests := wa_requests a + 1\<rparr>
      | TeReconnecting n \<Rightarrow>
          a\<lparr>wa_state := reconnect_state (wa_ever_connected a), wa_reconnect_attempt := n,
            wa_status_msg := (if wa_ever_connected a then MsgReconnecting n else MsgConnecting n)\<rparr>
      | TeHeartbeat \<Rightarrow> a
      | TeToast t \<Rightarrow> a\<lparr>wa_toast := Some (t, now)\<rparr>)"

definition PERM_CHECK :: nat where "PERM_CHECK = 2000"

definition recheck_permission :: "'g frame_env \<Rightarrow> 'g window_app \<Rightarrow> 'g window_app" where
  "recheck_permission f a =
     (if fe_now f - wa_last_perm_check a \<ge> PERM_CHECK
      then a\<lparr>wa_permission := fe_permission f, wa_last_perm_check := fe_now f,
             wa_tap_running := (wa_tap_running a \<or> fe_permission f \<and> fe_late_start f)\<rparr>
      else a)"

section \<open>Capture and fullscreen\<close>

definition toggle_capture :: "'g window_app \<Rightarrow> 'g window_app" where
  "toggle_capture a =
     a\<lparr>wa_desktop_pending := False, wa_capturing := \<not> wa_capturing a,
       wa_status_msg := (if wa_capturing a then MsgReleased else MsgCaptured)\<rparr>"

definition window_cmds :: "'g window_cmd list \<Rightarrow> 'g window_app \<Rightarrow> 'g window_app" where
  "window_cmds cs a = a\<lparr>wa_cmds := wa_cmds a @ cs\<rparr>"

definition set_window_above :: "bool \<Rightarrow> 'g window_app \<Rightarrow> 'g window_app" where
  "set_window_above up a = window_cmds [CmdAbove up] (a\<lparr>wa_above := up\<rparr>)"

definition wants_above_menu_bar :: "bool \<Rightarrow> bool \<Rightarrow> bool \<Rightarrow> bool" where
  "wants_above_menu_bar fullscreen native focused = (fullscreen \<and> \<not> native \<and> focused)"

definition sync_fullscreen_level :: "bool \<Rightarrow> 'g window_app \<Rightarrow> 'g window_app" where
  "sync_fullscreen_level focused a =
     (let want = wants_above_menu_bar (wa_fullscreen a) (wa_native a) focused in
      if want = wa_above a then a else set_window_above want a)"

definition decide_fullscreen_sync :: "bool \<Rightarrow> bool \<Rightarrow> bool \<Rightarrow> bool option" where
  "decide_fullscreen_sync ours reported native =
     (if reported = ours then None
      else if ours \<and> \<not> native \<and> \<not> reported then None
      else Some reported)"

definition FULLSCREEN_SETTLE :: nat where "FULLSCREEN_SETTLE = 600"
definition RESTORE_RETRY :: nat where "RESTORE_RETRY = 300"
definition RESTORE_MAX_ATTEMPTS :: nat where "RESTORE_MAX_ATTEMPTS = 6"
definition FULLSCREEN_CONFIRM_TIMEOUT :: nat where "FULLSCREEN_CONFIRM_TIMEOUT = 2000"
definition GEOMETRY_SETTLE :: nat where "GEOMETRY_SETTLE = 800"

definition queue_position_restore :: "nat \<Rightarrow> 'g window_app \<Rightarrow> 'g window_app" where
  "queue_position_restore now a =
     (let target = (case wa_pre_geometry a of Some g \<Rightarrow> Some g | None \<Rightarrow> wa_persisted a);
          a1 = a\<lparr>wa_pre_geometry := None\<rparr> in
      case target of
        None \<Rightarrow> a1
      | Some g \<Rightarrow> a1\<lparr>wa_restore := Some \<lparr>pr_rect = g, pr_next_at = now + FULLSCREEN_SETTLE, pr_attempts = 0\<rparr>\<rparr>)"

definition enter_borderless_fullscreen :: "'g \<Rightarrow> 'g window_app \<Rightarrow> 'g window_app" where
  "enter_borderless_fullscreen g a =
     set_window_above True
       (window_cmds [CmdDecorations False, CmdPosition g, CmdSize g, CmdResizable False, CmdFocus]
         (a\<lparr>wa_native := False\<rparr>))"

definition exit_borderless_fullscreen :: "nat \<Rightarrow> 'g window_app \<Rightarrow> 'g window_app" where
  "exit_borderless_fullscreen now a =
     queue_position_restore now
       (window_cmds [CmdResizable True, CmdDecorations True, CmdFullscreen False]
         (set_window_above False (a\<lparr>wa_native := False\<rparr>)))"

definition remember_pre_fullscreen_geometry :: "'g frame_env \<Rightarrow> 'g window_app \<Rightarrow> 'g window_app" where
  "remember_pre_fullscreen_geometry f a =
     (case fe_rect f of Some g \<Rightarrow> a\<lparr>wa_pre_geometry := Some g\<rparr> | None \<Rightarrow> a)"

definition toggle_fullscreen :: "'g frame_env \<Rightarrow> 'g window_app \<Rightarrow> 'g window_app" where
  "toggle_fullscreen f a =
     (let a1 = a\<lparr>wa_fullscreen := \<not> wa_fullscreen a, wa_cmd_at := Some (fe_now f)\<rparr> in
      if wa_fullscreen a1 then
        let a2 = remember_pre_fullscreen_geometry f a1;
            a3 = (case (if wa_has_preferred a then fe_target f else None) of
                    Some g \<Rightarrow> enter_borderless_fullscreen g a2
                  | None \<Rightarrow>
                      let b = (if wa_has_preferred a then a2\<lparr>wa_fallback_msg := Some (fe_now f)\<rparr> else a2) in
                      (case fe_display f (wa_pre_geometry b) of
                         Some g \<Rightarrow> enter_borderless_fullscreen g b
                       | None \<Rightarrow> window_cmds [CmdFullscreen True] (b\<lparr>wa_native := True\<rparr>)))
        in if wa_capturing a3 then a3 else toggle_capture a3
      else exit_borderless_fullscreen (fe_now f) (if wa_capturing a1 then toggle_capture a1 else a1))"

definition sync_fullscreen_state :: "'g frame_env \<Rightarrow> 'g window_app \<Rightarrow> 'g window_app" where
  "sync_fullscreen_state f a =
     (case fe_reported f of
        None \<Rightarrow> a
      | Some reported \<Rightarrow>
          (case decide_fullscreen_sync (wa_fullscreen a) reported (wa_native a) of
             None \<Rightarrow> a\<lparr>wa_cmd_at := None\<rparr>
           | Some actual \<Rightarrow>
               if (case wa_cmd_at a of Some sent \<Rightarrow> fe_now f - sent < FULLSCREEN_CONFIRM_TIMEOUT | None \<Rightarrow> False)
               then a
               else
                 let a1 = a\<lparr>wa_cmd_at := None, wa_fullscreen := actual, wa_native := actual\<rparr> in
                 if actual then a1\<lparr>wa_pre_geometry := None\<rparr>
                 else queue_position_restore (fe_now f) (if wa_capturing a1 then toggle_capture a1 else a1)))"

text \<open>\<open>drain_pending_position_restore\<close>: verified, then retried until the attempts run out.\<close>

definition answers :: "('g \<Rightarrow> bool) option \<Rightarrow> 'g \<Rightarrow> bool" where
  "answers q g = (case q of None \<Rightarrow> False | Some landed \<Rightarrow> landed g)"

definition drain_restore :: "'g frame_env \<Rightarrow> 'g window_app \<Rightarrow> 'g window_app" where
  "drain_restore f a =
     (case wa_restore a of
        None \<Rightarrow> a
      | Some p \<Rightarrow>
          if fe_now f < pr_next_at p then a
          else if 0 < pr_attempts p \<and> answers (fe_real f) (pr_rect p)
          then window_cmds [CmdToSpace] (a\<lparr>wa_restore := None\<rparr>)
          else if 0 < pr_attempts p \<and> fe_real f = None \<and> answers (fe_winit f) (pr_rect p)
          then a\<lparr>wa_restore := None\<rparr>
          else if RESTORE_MAX_ATTEMPTS \<le> pr_attempts p
          then
            let a1 = window_cmds [CmdPlace (pr_rect p)] (a\<lparr>wa_restore := None\<rparr>) in
            if fe_placed f then window_cmds [CmdToSpace] a1
            else if wa_fullscreen a1 then a1
            else (case fe_rescue f of
                    None \<Rightarrow> a1
                  | Some g \<Rightarrow> window_cmds [CmdPosition g, CmdFocus] a1)
          else
            window_cmds [CmdPosition (pr_rect p), CmdSize (pr_rect p), CmdFocus, CmdToSpace]
              (a\<lparr>wa_restore := Some (p\<lparr>pr_attempts := pr_attempts p + 1,
                                        pr_next_at := fe_now f + RESTORE_RETRY\<rparr>)\<rparr>))"

definition rescue_offscreen :: "'g frame_env \<Rightarrow> 'g window_app \<Rightarrow> 'g window_app" where
  "rescue_offscreen f a =
     (case wa_offscreen_check a of
        None \<Rightarrow> a
      | Some since \<Rightarrow>
          if fe_now f - since < GEOMETRY_SETTLE then a
          else
            let a1 = a\<lparr>wa_offscreen_check := None\<rparr> in
            if wa_fullscreen a1 then a1
            else (case fe_rescue f of
                    None \<Rightarrow> a1
                  | Some g \<Rightarrow> window_cmds [CmdPosition g, CmdFocus] a1))"

definition geometry_changed :: "'g frame_env \<Rightarrow> 'g option \<Rightarrow> 'g \<Rightarrow> bool" where
  "geometry_changed f persisted sampled = (case persisted of None \<Rightarrow> True | Some prev \<Rightarrow> fe_changed f prev sampled)"

definition write_window_geometry :: "'g frame_env \<Rightarrow> 'g \<Rightarrow> 'g window_app \<Rightarrow> 'g window_app" where
  "write_window_geometry f g a = (if fe_save_ok f then a\<lparr>wa_persisted := Some g\<rparr> else a)"

definition track_window_geometry :: "'g frame_env \<Rightarrow> 'g window_app \<Rightarrow> 'g window_app" where
  "track_window_geometry f a =
     (if wa_fullscreen a \<or> wa_restore a \<noteq> None then a
      else case fe_sample f of
             None \<Rightarrow> a
           | Some sampled \<Rightarrow>
               if \<not> geometry_changed f (wa_persisted a) sampled then a\<lparr>wa_pending_geometry := None\<rparr>
               else (case wa_pending_geometry a of
                       Some (prev, since) \<Rightarrow>
                         if \<not> geometry_changed f (Some prev) sampled then
                           (if fe_now f - since \<ge> GEOMETRY_SETTLE
                            then (write_window_geometry f prev a)\<lparr>wa_pending_geometry := None\<rparr> else a)
                         else a\<lparr>wa_pending_geometry := Some (sampled, fe_now f)\<rparr>
                     | None \<Rightarrow> a\<lparr>wa_pending_geometry := Some (sampled, fe_now f)\<rparr>))"

section \<open>The desktop view\<close>

definition stop_desktop_fullscreen :: "'g window_app \<Rightarrow> 'g window_app" where
  "stop_desktop_fullscreen a =
     a\<lparr>wa_desktop := False, wa_desktop_pending := False, wa_view := map_option (\<lambda>v. False) (wa_view a)\<rparr>"

definition toggle_desktop_fullscreen :: "'g frame_env \<Rightarrow> 'g window_app \<Rightarrow> 'g window_app" where
  "toggle_desktop_fullscreen f a =
     (if wa_desktop a then
        let a1 = stop_desktop_fullscreen a;
            a2 = (if wa_fullscreen a1 then toggle_fullscreen f a1 else a1)
        in if wa_capturing a2 then toggle_capture a2 else a2
      else if wa_view a = None then a
      else
        let a1 = a\<lparr>wa_view := Some True, wa_desktop := True\<rparr>;
            a2 = (if \<not> wa_fullscreen a1 then toggle_fullscreen f a1 else a1);
            a3 = (if wa_capturing a2 then toggle_capture a2 else a2)
        in a3\<lparr>wa_desktop_pending := True\<rparr>)"

definition reconcile_desktop_capture :: "bool \<Rightarrow> 'g window_app \<Rightarrow> 'g window_app" where
  "reconcile_desktop_capture frame_ready a =
     (if frame_ready \<and> wa_desktop_pending a \<and> wa_permission a \<and> wa_state a = CsConnected
         \<and> wa_desktop a \<and> wa_fullscreen a
      then (if \<not> wa_capturing a then toggle_capture a else a)\<lparr>wa_desktop_pending := False\<rparr>
      else if \<not> frame_ready \<and> wa_capturing a then toggle_capture a else a)"

section \<open>Hotkeys and buttons\<close>

definition on_tap_event :: "'g frame_env \<Rightarrow> 'g window_app \<Rightarrow> tap_event \<Rightarrow> 'g window_app" where
  "on_tap_event f a ev =
     (case ev of
        ReleaseCapture \<Rightarrow>
          let a1 = a\<lparr>wa_desktop_pending := False\<rparr> in if wa_capturing a1 then toggle_capture a1 else a1
      | EngageCapture \<Rightarrow> if wa_capturing a then a else toggle_capture a
      | ToggleFullscreen \<Rightarrow> toggle_fullscreen f a
      | ToggleDesktopFullscreen \<Rightarrow> toggle_desktop_fullscreen f a)"

definition should_show_chrome :: "'g window_app \<Rightarrow> bool" where
  "should_show_chrome a = (\<not> wa_capturing a \<and> \<not> wa_fullscreen a)"

text \<open>\<open>send_key_sequence\<close> and the three combinations.\<close>

fun send_key_sequence :: "(u16 \<times> u8 \<times> bool) list \<Rightarrow> 'g window_app \<Rightarrow> 'g window_app" where
  "send_key_sequence [] a = a"
| "send_key_sequence ((sc, m, pressed) # ks) a =
     send_key_sequence ks
       (a\<lparr>wa_sent := wa_sent a @ [packet_new (if pressed then KeyDown sc m else KeyUp sc m) (wa_seq a)],
          wa_seq := wa_seq a + 1\<rparr>)"

definition ctrl_alt_del :: "(u16 \<times> u8 \<times> bool) list" where
  "ctrl_alt_del = [(0x1D, 0x01, True), (0x38, 0x05, True), (0xE053, 0x05, True),
     (0xE053, 0x00, False), (0x38, 0x00, False), (0x1D, 0x00, False)]"

definition win_key :: "(u16 \<times> u8 \<times> bool) list" where
  "win_key = [(0xE05B, 0x00, True), (0xE05B, 0x00, False)]"

definition lang_keys :: "(u16 \<times> u8 \<times> bool) list" where
  "lang_keys = [(0xE05B, 0x08, True), (0x39, 0x08, True), (0x39, 0x00, False), (0xE05B, 0x00, False)]"

text \<open>A row of a transfer is there while its total is positive; its button cancels.\<close>

definition progress_rows :: "window_click set \<Rightarrow> 'g window_app \<Rightarrow> 'g window_app" where
  "progress_rows clicks a =
     (let a1 = (if ClickCancelOutgoing \<in> clicks \<and> snd (wa_outgoing a) \<noteq> 0
                then a\<lparr>wa_outgoing_cancel := True, wa_outgoing := (0, 0), wa_label := []\<rparr> else a)
      in if ClickCancelIncoming \<in> clicks \<and> snd (wa_incoming a1) \<noteq> 0
         then a1\<lparr>wa_incoming_cancel := True, wa_incoming := (0, 0)\<rparr> else a1)"

definition capture_buttons :: "'g frame_env \<Rightarrow> 'g window_app \<Rightarrow> 'g window_app" where
  "capture_buttons f a =
     (let a1 = (if ClickCapture \<in> fe_clicks f then toggle_capture a else a) in
      if wa_view a1 \<noteq> None \<and> ClickDesktop \<in> fe_clicks f then toggle_desktop_fullscreen f a1 else a1)"

definition special_keys :: "window_click set \<Rightarrow> 'g window_app \<Rightarrow> 'g window_app" where
  "special_keys clicks a =
     (if wa_state a \<noteq> CsConnected then a
      else send_key_sequence
             ((if ClickCtrlAltDel \<in> clicks then ctrl_alt_del else [])
              @ (if ClickWinKey \<in> clicks then win_key else [])
              @ (if ClickLang \<in> clicks then lang_keys else [])) a)"

definition expire_toast :: "nat \<Rightarrow> 'g window_app \<Rightarrow> 'g window_app" where
  "expire_toast now a =
     (case wa_toast a of
        Some (t, at) \<Rightarrow> if now - at \<ge> 3000 then a\<lparr>wa_toast := None\<rparr> else a
      | None \<Rightarrow> a)"

definition chrome_panel :: "'g frame_env \<Rightarrow> 'g window_app \<Rightarrow> 'g window_app" where
  "chrome_panel f a =
     expire_toast (fe_now f)
       (special_keys (fe_clicks f) (capture_buttons f (progress_rows (fe_clicks f) a)))"

section \<open>Captured input\<close>

definition pointer_button_to_proto :: "pointer_button \<Rightarrow> u8" where
  "pointer_button_to_proto b =
     (case b of Primary \<Rightarrow> 0 | Secondary \<Rightarrow> 1 | Middle \<Rightarrow> 2 | Extra1 \<Rightarrow> 3 | Extra2 \<Rightarrow> 4)"

definition with_mapper :: "(input_mapper \<Rightarrow> packet list \<times> input_mapper) \<Rightarrow> 'g window_app \<Rightarrow> 'g window_app" where
  "with_mapper send a =
     (case send (wa_mapper a) of (ps, m) \<Rightarrow> a\<lparr>wa_sent := wa_sent a @ ps, wa_mapper := m\<rparr>)"

definition forward_event :: "'g window_app \<Rightarrow> ui_event \<Rightarrow> 'g window_app" where
  "forward_event a ev =
     (case ev of
        UiKey key mods pressed \<Rightarrow>
          if wa_tap_running a then a
          else if key = ''Escape'' \<and> em_command mods then a
          else if key = ''Enter'' \<and> em_command mods then a
          else with_mapper (send_key key mods pressed) a
      | UiButton b pressed \<Rightarrow> with_mapper (send_mouse_button (pointer_button_to_proto b) pressed) a
      | UiWheel dx dy \<Rightarrow> with_mapper (send_mouse_scroll dx dy) a
      | UiOther \<Rightarrow> a)"

definition forward_input :: "'g frame_env \<Rightarrow> 'g window_app \<Rightarrow> 'g window_app" where
  "forward_input f a =
     (let a1 = (case fe_mouse f of
                  None \<Rightarrow> a
                | Some at \<Rightarrow> with_mapper (send_mouse_move (at (wa_mapper_screen a))) a)
      in foldl forward_event a1 (fe_input f))"

section \<open>A frame\<close>

text \<open>The steps before the panel: events, permission, tap, window.\<close>

definition frame_events :: "'g frame_env \<Rightarrow> 'g window_app \<Rightarrow> 'g window_app" where
  "frame_events f a = recheck_permission f (foldl (on_transport_event (fe_now f)) a (fe_events f))"

definition frame_syncs :: "'g frame_env \<Rightarrow> 'g window_app \<Rightarrow> 'g window_app" where
  "frame_syncs f a =
     (let a1 = a\<lparr>wa_tap_calls := wa_tap_calls a @ [sync_tap_to_focus (fe_focused f) (wa_capturing a)]\<rparr>;
          a2 = sync_fullscreen_state f (sync_fullscreen_level (fe_focused f) a1);
          a3 = (if wa_desktop a2 \<and> \<not> wa_fullscreen a2 then stop_desktop_fullscreen a2 else a2)
      in track_window_geometry f (rescue_offscreen f (drain_restore f a3)))"

definition desktop_enabled :: "'g window_app \<Rightarrow> bool" where
  "desktop_enabled a = (wa_view a = Some True)"

definition frame_panel :: "'g frame_env \<Rightarrow> 'g window_app \<Rightarrow> 'g window_app" where
  "frame_panel f a =
     (if desktop_enabled a \<or> \<not> should_show_chrome a \<or> \<not> wa_permission a then a else chrome_panel f a)"

text \<open>The size the mapper scales to, and capture in desktop mode.\<close>

definition shown_size :: "'g frame_env \<Rightarrow> bool \<Rightarrow> 'g window_app \<Rightarrow> (u16 \<times> u16) option" where
  "shown_size f enabled a =
     (if enabled then (if wa_view a = None then None else fe_frame_size f) else Some (wa_screen a))"

definition adjust_capture :: "(u16 \<times> u16) option \<Rightarrow> bool \<Rightarrow> 'g window_app \<Rightarrow> 'g window_app" where
  "adjust_capture shown enabled a =
     (let a1 = (case shown of None \<Rightarrow> a | Some wh \<Rightarrow> a\<lparr>wa_mapper_screen := wh\<rparr>) in
      if enabled then reconcile_desktop_capture (shown \<noteq> None) a1 else a1)"

definition frame_input :: "'g frame_env \<Rightarrow> bool \<Rightarrow> bool \<Rightarrow> 'g window_app \<Rightarrow> 'g window_app" where
  "frame_input f capturing_at_start enabled a =
     (let a1 = adjust_capture (shown_size f enabled a) enabled a in
      if wa_capturing a1 \<and> wa_state a1 = CsConnected \<and> (\<not> enabled \<or> capturing_at_start)
      then forward_input f a1 else a1)"

definition window_frame :: "'g window_app \<Rightarrow> 'g frame_env \<Rightarrow> 'g window_app" where
  "window_frame a f =
     (let a1 = frame_syncs f (frame_events f a);
          a2 = foldl (on_tap_event f) a1 (fe_taps f)
      in frame_input f (wa_capturing a) (desktop_enabled a2) (frame_panel f a2))"

definition flush_window_geometry :: "'g frame_env \<Rightarrow> 'g window_app \<Rightarrow> 'g window_app" where
  "flush_window_geometry f a =
     (case wa_pending_geometry a of
        None \<Rightarrow> a
      | Some (g, since) \<Rightarrow>
          let a1 = a\<lparr>wa_pending_geometry := None\<rparr> in
          if geometry_changed f (wa_persisted a1) g then write_window_geometry f g a1 else a1)"

definition on_exit :: "'g frame_env \<Rightarrow> 'g window_app \<Rightarrow> 'g window_app" where
  "on_exit f a =
     (let a1 = flush_window_geometry f a in
      if wa_state a1 = CsConnected then a1\<lparr>wa_sent := wa_sent a1 @ [packet_new Disconnect 0]\<rparr> else a1)"

end
