(* ===== verification/WindowRuns.thy ===== *)
theory WindowRuns
  imports ClientWindow
begin

text \<open>
  What frames keep: the invariant of the window, what a frame sends and when, and which mode the
  keyboard tap is put into.
\<close>

section \<open>The window's invariant\<close>

text \<open>
  Native fullscreen is fullscreen; the window floats above the others in borderless fullscreen only;
  capture waits for a frame of the desktop only in desktop mode, which is when the view is on; a
  link that is up or being reopened was up once; the restore counts its attempts.
\<close>

definition window_inv :: "'g window_app \<Rightarrow> bool" where
  "window_inv a =
     ((wa_native a \<longrightarrow> wa_fullscreen a)
      \<and> (wa_above a \<longrightarrow> wa_fullscreen a \<and> \<not> wa_native a)
      \<and> (wa_desktop_pending a \<longrightarrow> wa_view a = Some True)
      \<and> (wa_desktop a \<longleftrightarrow> wa_view a = Some True)
      \<and> (wa_state a \<in> {CsConnected, CsReconnecting} \<longrightarrow> wa_ever_connected a)
      \<and> (case wa_restore a of None \<Rightarrow> True | Some p \<Rightarrow> pr_attempts p \<le> RESTORE_MAX_ATTEMPTS))"

named_theorems window_steps

lemmas [window_steps] =
  window_inv_def window_cmds_def set_window_above_def toggle_capture_def queue_position_restore_def
  with_mapper_def Let_def

lemma transport_inv: "window_inv a \<Longrightarrow> window_inv (on_transport_event now a ev)"
  by (auto simp: window_steps on_transport_event_def reconnect_state_def split: transport_event.split)

lemma events_inv: "window_inv a \<Longrightarrow> window_inv (frame_events f a)"
proof -
  have "window_inv (foldl (on_transport_event now) a es)" if "window_inv a" for now a es
    using that by (induction es arbitrary: a) (simp_all add: transport_inv)
  then show "window_inv a \<Longrightarrow> window_inv (frame_events f a)"
    by (simp add: frame_events_def recheck_permission_def window_inv_def)
qed

lemma capture_inv: "window_inv a \<Longrightarrow> window_inv (toggle_capture a)"
  by (simp add: window_steps)

lemma level_inv: "window_inv a \<Longrightarrow> window_inv (sync_fullscreen_level b a)"
  by (auto simp: window_steps sync_fullscreen_level_def wants_above_menu_bar_def)

lemma queue_inv: "window_inv a \<Longrightarrow> window_inv (queue_position_restore now a)"
  by (auto simp: window_steps split: option.split)

lemma cmds_inv [simp]: "window_inv (window_cmds cs a) = window_inv a"
  by (simp add: window_steps)

text \<open>Entering and leaving fullscreen touch the flags of the window and its capture only.\<close>

lemma enter_inv: "window_inv a \<Longrightarrow> wa_fullscreen a \<Longrightarrow> window_inv (enter_borderless_fullscreen g a)"
  by (auto simp: window_steps enter_borderless_fullscreen_def)

lemma exit_inv:
  assumes "window_inv (a\<lparr>wa_native := False, wa_above := False\<rparr>)"
  shows "window_inv (exit_borderless_fullscreen now a)"
  using assms unfolding exit_borderless_fullscreen_def set_window_above_def
  by (intro queue_inv) (auto simp: window_inv_def window_cmds_def)

lemma native_inv: "window_inv a \<Longrightarrow> wa_fullscreen a \<Longrightarrow> \<not> wa_above a \<Longrightarrow> window_inv (a\<lparr>wa_native := True\<rparr>)"
  by (simp add: window_inv_def)

lemma window_inv_irrelevant [simp]:
  "window_inv (a\<lparr>wa_cmd_at := c\<rparr>) = window_inv a" "window_inv (a\<lparr>wa_fallback_msg := m\<rparr>) = window_inv a"
  "window_inv (a\<lparr>wa_pre_geometry := g\<rparr>) = window_inv a" "window_inv (a\<lparr>wa_toast := t\<rparr>) = window_inv a"
  "window_inv (a\<lparr>wa_offscreen_check := n\<rparr>) = window_inv a" "window_inv (a\<lparr>wa_pending_geometry := pg\<rparr>) = window_inv a"
  "window_inv (a\<lparr>wa_persisted := g\<rparr>) = window_inv a" "window_inv (a\<lparr>wa_tap_calls := cs\<rparr>) = window_inv a"
  "window_inv (a\<lparr>wa_sent := ps\<rparr>) = window_inv a" "window_inv (a\<lparr>wa_seq := n'\<rparr>) = window_inv a"
  "window_inv (a\<lparr>wa_mapper := im\<rparr>) = window_inv a" "window_inv (a\<lparr>wa_mapper_screen := wh\<rparr>) = window_inv a"
  "window_inv (a\<lparr>wa_label := l\<rparr>) = window_inv a" "window_inv (a\<lparr>wa_outgoing := pt\<rparr>) = window_inv a"
  "window_inv (a\<lparr>wa_incoming := pt\<rparr>) = window_inv a" "window_inv (a\<lparr>wa_outgoing_cancel := b\<rparr>) = window_inv a"
  "window_inv (a\<lparr>wa_incoming_cancel := b\<rparr>) = window_inv a"
  by (simp_all add: window_inv_def)

lemma remembered [simp]:
  "window_inv (remember_pre_fullscreen_geometry f a) = window_inv a"
  "wa_fullscreen (remember_pre_fullscreen_geometry f a) = wa_fullscreen a"
  "wa_above (remember_pre_fullscreen_geometry f a) = wa_above a"
  by (simp_all add: remember_pre_fullscreen_geometry_def split: option.split)

lemma toggle_fullscreen_inv:
  assumes "window_inv a"
  shows "window_inv (toggle_fullscreen f a)"
proof (cases "wa_fullscreen a")
  case True
  let ?a1 = "a\<lparr>wa_fullscreen := False, wa_cmd_at := Some (fe_now f)\<rparr>"
  let ?a2 = "if wa_capturing ?a1 then toggle_capture ?a1 else ?a1"
  have "window_inv (?a2\<lparr>wa_native := False, wa_above := False\<rparr>)"
    using assms unfolding toggle_capture_def window_inv_def by (cases "wa_capturing a") auto
  from exit_inv [OF this] show ?thesis using True by (simp add: toggle_fullscreen_def Let_def)
next
  case False
  let ?a1 = "a\<lparr>wa_fullscreen := True, wa_cmd_at := Some (fe_now f)\<rparr>"
  have a1: "window_inv ?a1" "wa_fullscreen ?a1" "\<not> wa_above ?a1"
    using assms False by (auto simp: window_inv_def)
  show ?thesis
    using False a1 unfolding toggle_fullscreen_def Let_def
    by (auto intro!: capture_inv enter_inv native_inv split: option.split)
qed

lemma decided: "decide_fullscreen_sync ours r native = Some r' \<Longrightarrow> r' = r \<and> r \<noteq> ours \<and> (ours \<longrightarrow> native)"
  by (simp add: decide_fullscreen_sync_def split: if_splits)

lemma fullscreen_state_inv:
  assumes "window_inv a"
  shows "window_inv (sync_fullscreen_state f a)"
proof -
  have on: "window_inv (a\<lparr>wa_cmd_at := None, wa_fullscreen := True, wa_native := True\<rparr>)"
    if "\<not> wa_fullscreen a"
    using assms that by (auto simp: window_inv_def)
  have off: "window_inv (a\<lparr>wa_cmd_at := None, wa_fullscreen := False, wa_native := False\<rparr>)" if "wa_native a"
    using assms that by (auto simp: window_inv_def)
  have leave: "window_inv (queue_position_restore n (if wa_capturing b then toggle_capture b else b))"
    if "window_inv b" for n and b :: "'a window_app"
    using that by (simp add: queue_inv capture_inv)
  show ?thesis
  proof (cases "fe_reported f")
    case (Some r)
    show ?thesis
    proof (cases "decide_fullscreen_sync (wa_fullscreen a) r (wa_native a)")
      case dec: (Some r')
      from decided [OF dec] have r: "r' = r" "r \<noteq> wa_fullscreen a" "wa_fullscreen a \<longrightarrow> wa_native a" by auto
      show ?thesis
        using Some dec r on leave [OF off] assms
        by (cases r) (simp_all add: sync_fullscreen_state_def Let_def)
    qed (use Some assms in \<open>simp add: sync_fullscreen_state_def\<close>)
  qed (use assms in \<open>simp add: sync_fullscreen_state_def\<close>)
qed

lemma restore_inv: "window_inv a \<Longrightarrow> window_inv (drain_restore f a)"
proof -
  have "window_inv (a\<lparr>wa_restore := None\<rparr>)" if "window_inv a" for a :: "'a window_app"
    using that by (simp add: window_inv_def)
  moreover have "window_inv (a\<lparr>wa_restore := Some p\<rparr>)" if "window_inv a" "pr_attempts p \<le> RESTORE_MAX_ATTEMPTS"
    for a :: "'a window_app" and p
    using that by (simp add: window_inv_def)
  ultimately show "window_inv a \<Longrightarrow> window_inv (drain_restore f a)"
    by (simp add: drain_restore_def Let_def split: option.split)
qed

lemma rescue_inv: "window_inv a \<Longrightarrow> window_inv (rescue_offscreen f a)"
  by (simp add: rescue_offscreen_def Let_def split: option.split)

lemma track_inv: "window_inv a \<Longrightarrow> window_inv (track_window_geometry f a)"
  by (simp add: track_window_geometry_def write_window_geometry_def split: option.split prod.split)

lemma desktop_inv:
  "window_inv a \<Longrightarrow> window_inv (stop_desktop_fullscreen a)"
  "window_inv a \<Longrightarrow> window_inv (reconcile_desktop_capture b a)"
  by (auto simp: window_steps stop_desktop_fullscreen_def reconcile_desktop_capture_def)

lemma syncs_inv: "window_inv a \<Longrightarrow> window_inv (frame_syncs f a)"
  by (simp add: frame_syncs_def Let_def track_inv rescue_inv restore_inv desktop_inv fullscreen_state_inv level_inv)

text \<open>The desktop view survives a change of fullscreen.\<close>

lemma toggle_fullscreen_frame [simp]:
  "wa_view (toggle_fullscreen f a) = wa_view a" "wa_desktop (toggle_fullscreen f a) = wa_desktop a"
  "wa_state (toggle_fullscreen f a) = wa_state a" "wa_sent (toggle_fullscreen f a) = wa_sent a"
  "wa_tap_calls (toggle_fullscreen f a) = wa_tap_calls a"
  by (auto simp: toggle_fullscreen_def Let_def remember_pre_fullscreen_geometry_def enter_borderless_fullscreen_def
      exit_borderless_fullscreen_def set_window_above_def window_cmds_def toggle_capture_def
      queue_position_restore_def split: option.split)

lemma toggle_capture_frame [simp]:
  "wa_view (toggle_capture a) = wa_view a" "wa_desktop (toggle_capture a) = wa_desktop a"
  "wa_state (toggle_capture a) = wa_state a" "wa_sent (toggle_capture a) = wa_sent a"
  "wa_tap_calls (toggle_capture a) = wa_tap_calls a" "wa_capturing (toggle_capture a) = (\<not> wa_capturing a)"
  by (simp_all add: toggle_capture_def)

lemma pending_inv: "window_inv a \<Longrightarrow> wa_view a = Some True \<Longrightarrow> window_inv (a\<lparr>wa_desktop_pending := True\<rparr>)"
  by (simp add: window_inv_def)

lemma toggle_desktop_inv:
  assumes "window_inv a"
  shows "window_inv (toggle_desktop_fullscreen f a)"
proof (cases "wa_desktop a")
  case True
  then show ?thesis
    using assms by (simp add: toggle_desktop_fullscreen_def Let_def desktop_inv toggle_fullscreen_inv capture_inv)
next
  case False
  have "window_inv (a\<lparr>wa_view := Some True, wa_desktop := True\<rparr>)" using assms by (auto simp: window_inv_def)
  then show ?thesis
    using False assms unfolding toggle_desktop_fullscreen_def Let_def
    by (auto intro!: pending_inv capture_inv toggle_fullscreen_inv)
qed

lemma tap_event_inv: "window_inv a \<Longrightarrow> window_inv (on_tap_event f a ev)"
proof -
  have "window_inv (a\<lparr>wa_desktop_pending := False\<rparr>)" if "window_inv a" for a :: "'a window_app"
    using that by (simp add: window_inv_def)
  then show "window_inv a \<Longrightarrow> window_inv (on_tap_event f a ev)"
    by (simp add: on_tap_event_def Let_def toggle_fullscreen_inv toggle_desktop_inv capture_inv split: tap_event.split)
qed

lemma taps_inv: "window_inv a \<Longrightarrow> window_inv (foldl (on_tap_event f) a evs)"
  by (induction evs arbitrary: a) (simp_all add: tap_event_inv)

lemma keys_inv [simp]: "window_inv (send_key_sequence ks a) = window_inv a"
  by (induction ks a rule: send_key_sequence.induct) simp_all

lemma chrome_inv:
  assumes "window_inv a"
  shows "window_inv (chrome_panel f a)"
proof -
  have rows: "window_inv (progress_rows cs a) = window_inv a" for cs and a :: "'a window_app"
    by (simp add: progress_rows_def Let_def)
  have buttons: "window_inv (capture_buttons f a)" if "window_inv a" for a :: "'a window_app"
    using that by (simp add: capture_buttons_def Let_def capture_inv toggle_desktop_inv)
  have toasted: "window_inv (expire_toast n a) = window_inv a" for n and a :: "'a window_app"
    by (simp add: expire_toast_def split: option.split prod.split)
  show ?thesis using assms by (simp add: chrome_panel_def toasted special_keys_def buttons rows)
qed

lemma with_mapper_inv [simp]: "window_inv (with_mapper m a) = window_inv a"
  by (simp add: with_mapper_def split: prod.split)

lemma forward_inv [simp]: "window_inv (forward_input f a) = window_inv a"
proof -
  have one: "window_inv (forward_event b ev) = window_inv b" for ev and b :: "'a window_app"
    by (simp add: forward_event_def split: ui_event.split)
  have "window_inv (foldl forward_event b evs) = window_inv b" for evs and b :: "'a window_app"
    by (induction evs arbitrary: b) (simp_all add: one)
  then show ?thesis by (simp add: forward_input_def Let_def split: option.split)
qed

lemma input_inv: "window_inv a \<Longrightarrow> window_inv (frame_input f b enabled a)"
  by (simp add: frame_input_def adjust_capture_def Let_def desktop_inv split: option.split)

interpretation windowm: inv_machine window_frame window_inv "\<lambda>f. True"
  by unfold_locales
    (simp add: window_frame_def Let_def input_inv frame_panel_def chrome_inv taps_inv syncs_inv events_inv)

lemma window_new_inv: "window_inv (window_new now screen permission tap_running has_preferred view persisted)"
  by (simp add: window_inv_def window_new_def)

section \<open>What a frame sends\<close>

lemma events_keep [simp]:
  "wa_sent (frame_events f a) = wa_sent a" "wa_tap_calls (frame_events f a) = wa_tap_calls a"
proof -
  have "wa_sent (foldl (on_transport_event n) a es) = wa_sent a
      \<and> wa_tap_calls (foldl (on_transport_event n) a es) = wa_tap_calls a" for n es
    by (induction es arbitrary: a) (simp_all add: on_transport_event_def split: transport_event.split)
  then show "wa_sent (frame_events f a) = wa_sent a" "wa_tap_calls (frame_events f a) = wa_tap_calls a"
    by (simp_all add: frame_events_def recheck_permission_def)
qed

text \<open>A disconnect ends capture, and nothing the link reports starts it.\<close>

lemma events_capturing:
  "wa_capturing (frame_events f a) \<longleftrightarrow> wa_capturing a \<and> (\<forall>r. TeDisconnected r \<notin> set (fe_events f))"
proof -
  have "wa_capturing (foldl (on_transport_event n) a es) \<longleftrightarrow> wa_capturing a \<and> (\<forall>r. TeDisconnected r \<notin> set es)" for n es
    by (induction es arbitrary: a) (auto simp: on_transport_event_def split: transport_event.split)
  then show ?thesis by (simp add: frame_events_def recheck_permission_def)
qed

lemma sync_parts_keep [simp]:
  "wa_sent (sync_fullscreen_level b a) = wa_sent a" "wa_state (sync_fullscreen_level b a) = wa_state a"
  "wa_tap_calls (sync_fullscreen_level b a) = wa_tap_calls a"
  "wa_sent (queue_position_restore n a) = wa_sent a" "wa_state (queue_position_restore n a) = wa_state a"
  "wa_tap_calls (queue_position_restore n a) = wa_tap_calls a"
  "wa_sent (stop_desktop_fullscreen a) = wa_sent a" "wa_state (stop_desktop_fullscreen a) = wa_state a"
  "wa_tap_calls (stop_desktop_fullscreen a) = wa_tap_calls a"
  "wa_sent (rescue_offscreen f a) = wa_sent a" "wa_state (rescue_offscreen f a) = wa_state a"
  "wa_tap_calls (rescue_offscreen f a) = wa_tap_calls a"
  by (simp_all add: sync_fullscreen_level_def set_window_above_def window_cmds_def queue_position_restore_def
      stop_desktop_fullscreen_def rescue_offscreen_def Let_def split: option.split)

lemma fullscreen_state_keep [simp]:
  "wa_sent (sync_fullscreen_state f a) = wa_sent a" "wa_state (sync_fullscreen_state f a) = wa_state a"
  "wa_tap_calls (sync_fullscreen_state f a) = wa_tap_calls a"
  by (simp_all add: sync_fullscreen_state_def Let_def split: option.split)

lemma restore_keep [simp]:
  "wa_sent (drain_restore f a) = wa_sent a" "wa_state (drain_restore f a) = wa_state a"
  "wa_tap_calls (drain_restore f a) = wa_tap_calls a"
  by (simp_all add: drain_restore_def Let_def window_cmds_def split: option.split)

lemma track_keep [simp]:
  "wa_sent (track_window_geometry f a) = wa_sent a" "wa_state (track_window_geometry f a) = wa_state a"
  "wa_tap_calls (track_window_geometry f a) = wa_tap_calls a"
  by (simp_all add: track_window_geometry_def write_window_geometry_def split: option.split prod.split)

lemma syncs_keep:
  "wa_sent (frame_syncs f a) = wa_sent a" "wa_state (frame_syncs f a) = wa_state a"
  "wa_tap_calls (frame_syncs f a) = wa_tap_calls a @ [sync_tap_to_focus (fe_focused f) (wa_capturing a)]"
  by (simp_all add: frame_syncs_def Let_def)

lemma toggle_desktop_frame [simp]:
  "wa_state (toggle_desktop_fullscreen f a) = wa_state a" "wa_sent (toggle_desktop_fullscreen f a) = wa_sent a"
  "wa_tap_calls (toggle_desktop_fullscreen f a) = wa_tap_calls a"
  by (simp_all add: toggle_desktop_fullscreen_def Let_def stop_desktop_fullscreen_def)

lemma tap_event_keep:
  "wa_sent (on_tap_event f a ev) = wa_sent a" "wa_tap_calls (on_tap_event f a ev) = wa_tap_calls a"
  "wa_state (on_tap_event f a ev) = wa_state a"
  by (simp_all add: on_tap_event_def Let_def split: tap_event.split)

lemma taps_keep:
  "wa_sent (foldl (on_tap_event f) a evs) = wa_sent a"
  "wa_tap_calls (foldl (on_tap_event f) a evs) = wa_tap_calls a"
  "wa_state (foldl (on_tap_event f) a evs) = wa_state a"
  by (induction evs arbitrary: a) (simp_all add: tap_event_keep)

lemma keys_keep [simp]:
  "wa_state (send_key_sequence ks a) = wa_state a" "wa_tap_calls (send_key_sequence ks a) = wa_tap_calls a"
  "wa_capturing (send_key_sequence ks a) = wa_capturing a" "wa_view (send_key_sequence ks a) = wa_view a"
  by (induction ks a rule: send_key_sequence.induct) simp_all

lemma chrome_parts_keep [simp]:
  "wa_sent (progress_rows cs a) = wa_sent a" "wa_state (progress_rows cs a) = wa_state a"
  "wa_tap_calls (progress_rows cs a) = wa_tap_calls a"
  "wa_sent (capture_buttons f a) = wa_sent a" "wa_state (capture_buttons f a) = wa_state a"
  "wa_tap_calls (capture_buttons f a) = wa_tap_calls a"
  "wa_sent (expire_toast n a) = wa_sent a" "wa_state (expire_toast n a) = wa_state a"
  "wa_tap_calls (expire_toast n a) = wa_tap_calls a"
  by (simp_all add: progress_rows_def capture_buttons_def expire_toast_def Let_def split: option.split prod.split)

lemma chrome_keep:
  "wa_state (chrome_panel f a) = wa_state a" "wa_tap_calls (chrome_panel f a) = wa_tap_calls a"
  "wa_sent (chrome_panel f a) \<noteq> wa_sent a \<Longrightarrow> wa_state a = CsConnected
     \<and> {ClickCtrlAltDel, ClickWinKey, ClickLang} \<inter> fe_clicks f \<noteq> {}"
  by (auto simp: chrome_panel_def special_keys_def split: if_splits)

lemma with_mapper_keep [simp]:
  "wa_state (with_mapper m a) = wa_state a" "wa_tap_calls (with_mapper m a) = wa_tap_calls a"
  "wa_capturing (with_mapper m a) = wa_capturing a" "wa_view (with_mapper m a) = wa_view a"
  by (simp_all add: with_mapper_def split: prod.split)

lemma forward_keep [simp]:
  "wa_state (forward_input f a) = wa_state a" "wa_tap_calls (forward_input f a) = wa_tap_calls a"
  "wa_capturing (forward_input f a) = wa_capturing a" "wa_view (forward_input f a) = wa_view a"
proof -
  have one: "wa_state (forward_event b ev) = wa_state b \<and> wa_tap_calls (forward_event b ev) = wa_tap_calls b
    \<and> wa_capturing (forward_event b ev) = wa_capturing b \<and> wa_view (forward_event b ev) = wa_view b"
    for ev and b :: "'a window_app"
    by (simp add: forward_event_def split: ui_event.split)
  have "wa_state (foldl forward_event b evs) = wa_state b \<and> wa_tap_calls (foldl forward_event b evs) = wa_tap_calls b
    \<and> wa_capturing (foldl forward_event b evs) = wa_capturing b \<and> wa_view (foldl forward_event b evs) = wa_view b"
    for evs and b :: "'a window_app"
    by (induction evs arbitrary: b) (simp_all add: one)
  then show "wa_state (forward_input f a) = wa_state a" "wa_tap_calls (forward_input f a) = wa_tap_calls a"
    "wa_capturing (forward_input f a) = wa_capturing a" "wa_view (forward_input f a) = wa_view a"
    by (simp_all add: forward_input_def Let_def split: option.split)
qed

lemma reconcile_keep [simp]:
  "wa_state (reconcile_desktop_capture b a) = wa_state a" "wa_sent (reconcile_desktop_capture b a) = wa_sent a"
  "wa_tap_calls (reconcile_desktop_capture b a) = wa_tap_calls a"
  "wa_view (reconcile_desktop_capture b a) = wa_view a"
  by (simp_all add: reconcile_desktop_capture_def)

lemma reconcile_blind: "\<not> wa_capturing (reconcile_desktop_capture False a)"
  by (simp add: reconcile_desktop_capture_def)

lemma adjust_keep [simp]:
  "wa_sent (adjust_capture shown enabled a) = wa_sent a" "wa_state (adjust_capture shown enabled a) = wa_state a"
  "wa_tap_calls (adjust_capture shown enabled a) = wa_tap_calls a"
  "wa_view (adjust_capture shown enabled a) = wa_view a"
  "wa_capturing (adjust_capture shown False a) = wa_capturing a"
  "\<not> wa_capturing (adjust_capture None True a)"
  by (simp_all add: adjust_capture_def Let_def reconcile_blind split: option.split)

text \<open>What the last part of a frame does: input only when connected and captured, and over a shown desktop.\<close>

lemma input_keep:
  "wa_state (frame_input f started enabled a) = wa_state a"
  "wa_tap_calls (frame_input f started enabled a) = wa_tap_calls a"
  "wa_view (frame_input f started enabled a) = wa_view a"
  by (simp_all add: frame_input_def Let_def)

lemma input_sends:
  assumes "wa_sent (frame_input f started enabled a) \<noteq> wa_sent a"
  shows "wa_state a = CsConnected" "wa_capturing (frame_input f started enabled a)"
    "enabled \<longrightarrow> started \<and> fe_frame_size f \<noteq> None"
    "\<not> enabled \<longrightarrow> wa_capturing a"
proof -
  let ?a1 = "adjust_capture (shown_size f enabled a) enabled a"
  have cond: "wa_capturing ?a1 \<and> wa_state ?a1 = CsConnected \<and> (\<not> enabled \<or> started)"
    using assms by (simp add: frame_input_def Let_def split: if_splits)
  then have "frame_input f started enabled a = forward_input f ?a1" by (simp add: frame_input_def Let_def)
  then show "wa_capturing (frame_input f started enabled a)" using cond by simp
  show "wa_state a = CsConnected" using cond by simp
  show "\<not> enabled \<longrightarrow> wa_capturing a" using cond by auto
  show "enabled \<longrightarrow> started \<and> fe_frame_size f \<noteq> None"
    using cond by (cases "fe_frame_size f") (auto simp: shown_size_def split: if_splits)
qed

lemma frame_calls:
  "wa_tap_calls (window_frame a f)
     = wa_tap_calls a @ [sync_tap_to_focus (fe_focused f) (wa_capturing (frame_events f a))]"
  by (simp add: window_frame_def Let_def input_keep frame_panel_def chrome_keep taps_keep syncs_keep)

text \<open>A view that is switched on in the panel leaves capture off.\<close>

lemma panel_view:
  assumes "\<not> desktop_enabled a" "wa_view (frame_panel f a) = Some True"
  shows "\<not> wa_capturing (frame_panel f a)"
proof -
  have rows: "wa_view (progress_rows cs a) = wa_view a" for cs
    by (simp add: progress_rows_def Let_def)
  have toasts: "wa_view (expire_toast n b) = wa_view b" "wa_capturing (expire_toast n b) = wa_capturing b"
    for n and b :: "'a window_app"
    by (simp_all add: expire_toast_def split: option.split prod.split)
  have toggled: "\<not> wa_capturing (toggle_desktop_fullscreen f b)" if "wa_view b \<noteq> None" for b :: "'a window_app"
    using that by (auto simp: toggle_desktop_fullscreen_def Let_def)
  have "\<not> wa_capturing (capture_buttons f b)"
    if "wa_view b \<noteq> Some True" "wa_view (capture_buttons f b) = Some True" for b :: "'a window_app"
    using that toggled by (auto simp: capture_buttons_def Let_def split: if_splits)
  then show ?thesis
    using assms by (auto simp: desktop_enabled_def frame_panel_def chrome_panel_def special_keys_def rows toasts
        split: if_splits)
qed

section \<open>The keyboard and the window\<close>

text \<open>
  A window that frames and a keyboard that a tap watches: the frame's call switches the tap, a key goes
  through it.
\<close>

definition desk_step ::
  "('s \<Rightarrow> win_key_event \<Rightarrow> 's) \<Rightarrow> ('s \<Rightarrow> 'k \<Rightarrow> 's) \<Rightarrow> 'g window_app \<times> 's \<Rightarrow> 'g frame_env + 'k \<Rightarrow> 'g window_app \<times> 's" where
  "desk_step switch press d e =
     (case e of
        Inl f \<Rightarrow>
          let a = window_frame (fst d) f in
          (a, foldl switch (snd d) (drop (length (wa_tap_calls (fst d))) (wa_tap_calls a)))
      | Inr k \<Rightarrow> (fst d, press (snd d) k))"

text \<open>
  What the window relies on: a tap that is not in capture mode has nothing booked, and taking it out
  of capture mode empties the book.
\<close>

locale window_book = key_book press inv ok sent booked watched drain
  for press :: "'s \<Rightarrow> 'k \<Rightarrow> 's" and inv :: "'s \<Rightarrow> bool" and ok :: "'k \<Rightarrow> bool" and sent :: "'s \<Rightarrow> packet list"
    and booked :: "'s \<Rightarrow> u16 set" and watched :: "u16 set" and drain :: "'s \<Rightarrow> 's" +
  fixes switch :: "'s \<Rightarrow> win_key_event \<Rightarrow> 's"
  assumes switch_inv: "inv s \<Longrightarrow> inv (switch s m)"
    and switch_off: "inv s \<Longrightarrow> m = WinPassive \<or> m = WinDisable \<Longrightarrow> booked (switch s m) = {}"
begin

lemma desk_frame:
  "snd (desk_step switch press d (Inl f))
     = switch (snd d) (sync_tap_to_focus (fe_focused f) (wa_capturing (frame_events f (fst d))))"
  by (simp add: desk_step_def Let_def frame_calls)

lemma desk_inv:
  assumes "inv (snd d)" "\<forall>k. Inr k \<in> set es \<longrightarrow> ok k"
  shows "inv (snd (foldl (desk_step switch press) d es))"
  using assms
proof (induction es arbitrary: d)
  case (Cons e es)
  have "inv (snd (desk_step switch press d e))"
  proof (cases e)
    case (Inl f)
    then show ?thesis using Cons.prems(1) switch_inv by (simp add: desk_frame)
  next
    case (Inr k)
    then show ?thesis using Cons.prems step_inv by (simp add: desk_step_def)
  qed
  then show ?case using Cons by simp
qed simp

lemma let_go:
  assumes "inv (snd d)" "\<forall>k. Inr k \<in> set es \<longrightarrow> ok k"
    and "\<not> fe_focused f \<or> (\<exists>r. TeDisconnected r \<in> set (fe_events f))"
  shows "keys_held (sent (snd (foldl (desk_step switch press) d (es @ [Inl f])))) \<inter> watched = {}"
proof -
  let ?d = "foldl (desk_step switch press) d es"
  let ?m = "sync_tap_to_focus (fe_focused f) (wa_capturing (frame_events f (fst ?d)))"
  have "?m = WinPassive \<or> ?m = WinDisable"
    using assms(3) by (auto simp: sync_tap_to_focus_def events_capturing)
  moreover have "inv (snd ?d)" by (rule desk_inv [OF assms(1,2)])
  ultimately have "booked (switch (snd ?d) ?m) = {}" "inv (switch (snd ?d) ?m)"
    using switch_inv switch_off by blast+
  then show ?thesis using faithful [of "switch (snd ?d) ?m"] desk_frame [of ?d f] by simp
qed

end

text \<open>The calls of the window on the Windows hook and on the macOS tap.\<close>

definition win_switch :: "win_tap \<Rightarrow> win_key_event \<Rightarrow> win_tap" where
  "win_switch w m = (case m of WinHook ev \<Rightarrow> w | _ \<Rightarrow> win_key_step w m)"

definition mac_switch :: "mac_tap \<Rightarrow> win_key_event \<Rightarrow> mac_tap" where
  "mac_switch t m =
     (case m of
        WinHook ev \<Rightarrow> t
      | WinEnable \<Rightarrow> mac_enable t
      | WinPassive \<Rightarrow> mac_enable_passive t
      | WinDisable \<Rightarrow> mac_disable t)"

definition win_idle_inv :: "win_tap \<Rightarrow> bool" where
  "win_idle_inv w = (win_key_inv w \<and> (wt_held w \<noteq> {} \<longrightarrow> wt_enabled w))"

definition mac_idle_inv :: "bool \<Rightarrow> mac_tap \<Rightarrow> bool" where
  "mac_idle_inv swap t = (mac_key_inv swap t \<and> (mods_down swap (mt_prev t) \<noteq> {} \<longrightarrow> mt_enabled t))"

lemma hook_enter_enabled: "hook_enter ev w = (HookForward sc down passed, w1) \<Longrightarrow> wt_enabled w"
  by (auto simp: hook_enter_def Let_def split: if_splits option.splits)

lemma hook_idle:
  assumes "win_idle_inv w"
  shows "win_idle_inv (snd (hook_proc ev w))"
proof (cases "hook_enter ev w")
  case (Pair r w1)
  have inv: "win_key_inv (snd (hook_proc ev w))" using assms by (simp add: win_idle_inv_def hook_proc_inv)
  show ?thesis
  proof (cases r)
    case (HookDone passed)
    then show ?thesis using inv Pair assms hook_enter_frame [OF Pair] by (simp add: win_idle_inv_def hook_proc_def)
  next
    case (HookForward sc down passed)
    then have "wt_enabled w" using hook_enter_enabled Pair by simp
    then show ?thesis
      using inv Pair HookForward hook_enter_frame [OF Pair]
      by (simp add: win_idle_inv_def hook_proc_def hook_send_def hook_book_def)
  qed
qed

interpretation win_window: window_book "\<lambda>w ev. snd (hook_proc ev w)" win_idle_inv "\<lambda>e. True" wt_sent wt_held
    UNIV win_disable win_switch
proof
  show "win_idle_inv w \<Longrightarrow> win_idle_inv (snd (hook_proc ev w))" for w ev by (rule hook_idle)
  show "win_idle_inv w \<Longrightarrow> keys_held (wt_sent w) \<inter> UNIV = wt_held w" for w
    by (simp add: win_idle_inv_def win_key_inv_def)
  show "win_idle_inv w \<Longrightarrow> win_idle_inv (win_disable w)" for w by (simp add: win_idle_inv_def win_disable_inv)
  show "wt_held (win_disable w) = {}" for w by simp
  show "win_idle_inv w \<Longrightarrow> win_idle_inv (win_switch w m)" for w m
    using win_book.step_inv [of w m] win_disable_inv [of w]
    by (cases m) (auto simp: win_idle_inv_def win_switch_def win_key_step_def win_enable_def win_enable_passive_def Let_def)
  show "win_idle_inv w \<Longrightarrow> m = WinPassive \<or> m = WinDisable \<Longrightarrow> wt_held (win_switch w m) = {}" for w m
    by (cases "wt_enabled w") (auto simp: win_idle_inv_def win_switch_def win_key_step_def win_enable_passive_def Let_def)
qed

lemma tap_idle:
  assumes "mac_idle_inv swap t" "mac_key_ok swap (MacKey ev)"
  shows "mac_idle_inv swap (snd (tap_callback ev t))"
proof -
  have "mt_prev (snd (tap_callback ev t)) = mt_prev t \<or> mt_enabled t"
    "mt_enabled (snd (tap_callback ev t)) = mt_enabled t"
    by (auto simp: tap_callback_def tap_passive_def tap_active_def tap_notify_def tap_combo_def tap_send_def Let_def
        split: cg_type.split)
  then show ?thesis using assms tap_callback_inv [of swap t ev] by (auto simp: mac_idle_inv_def)
qed

interpretation mac_window: window_book "\<lambda>t ev. snd (tap_callback ev t)" "mac_idle_inv swap"
    "\<lambda>ev. mac_key_ok swap (MacKey ev)" mt_sent "\<lambda>t. mods_down (mt_swap t) (mt_prev t)" modifier_scans mac_disable
    mac_switch for swap
proof
  show "mac_idle_inv swap t \<Longrightarrow> mac_key_ok swap (MacKey ev) \<Longrightarrow> mac_idle_inv swap (snd (tap_callback ev t))" for t ev
    by (rule tap_idle)
  show "mac_idle_inv swap t \<Longrightarrow> keys_held (mt_sent t) \<inter> modifier_scans = mods_down (mt_swap t) (mt_prev t)" for t
    by (simp add: mac_idle_inv_def mac_key_inv_def)
  show "mac_idle_inv swap t \<Longrightarrow> mac_idle_inv swap (mac_disable t)" for t
    by (simp add: mac_idle_inv_def mac_disable_inv)
  show "mods_down (mt_swap (mac_disable t)) (mt_prev (mac_disable t)) = {}" for t by simp
  show "mac_idle_inv swap t \<Longrightarrow> mac_idle_inv swap (mac_switch t m)" for t m
    using mac_enable_inv [of swap t] mac_disable_inv [of swap t]
    by (cases m) (auto simp: mac_idle_inv_def mac_switch_def mac_enable_def mac_enable_passive_def Let_def)
  show "mac_idle_inv swap t \<Longrightarrow> m = WinPassive \<or> m = WinDisable \<Longrightarrow>
      mods_down (mt_swap (mac_switch t m)) (mt_prev (mac_switch t m)) = {}" for t m
    by (cases "mt_enabled t") (auto simp: mac_idle_inv_def mac_key_inv_def mac_switch_def mac_enable_passive_def Let_def)
qed

end
