(* ===== verification/WindowProps.thy ===== *)
theory WindowProps
  imports WindowRuns KeyProps
begin

text \<open>
  Properties of the client's window: its invariant, when it sends input, that it takes the keyboard
  away from the host when it loses the focus or the link, that putting the window back ends, and
  three sequences of events that it does not handle.
\<close>

section \<open>Every frame\<close>

text \<open>C21: After any frames, whatever the link, the keyboard, the window system and the user do, the
  flags of the window agree: native fullscreen is fullscreen, the window floats above the others only in
  borderless fullscreen, capture waits for a picture of the desktop only while the desktop view is
  on, which is exactly desktop mode, and connected or reconnecting means there was a connection.\<close>

theorem window_invariant:
  "window_inv (foldl window_frame (window_new now screen permission tap_running has_preferred view persisted) fs)"
  by (rule windowm.run_inv [OF window_new_inv]) (simp add: list_all_iff)

text \<open>C17: A frame queues packets only on a connected link, and then only the key combinations whose
  button was clicked, or input while capture is on; in desktop mode only if a picture of the
  desktop is shown and capture was on before the frame.\<close>

theorem window_input_guarded:
  assumes "wa_sent (window_frame a f) \<noteq> wa_sent a"
  shows "wa_state (window_frame a f) = CsConnected
    \<and> ({ClickCtrlAltDel, ClickWinKey, ClickLang} \<inter> fe_clicks f \<noteq> {}
       \<or> wa_capturing (window_frame a f)
         \<and> (wa_view (window_frame a f) = Some True \<longrightarrow> wa_capturing a \<and> fe_frame_size f \<noteq> None))"
proof -
  let ?a2 = "foldl (on_tap_event f) (frame_syncs f (frame_events f a)) (fe_taps f)"
  let ?a3 = "frame_panel f ?a2"
  have frame: "window_frame a f = frame_input f (wa_capturing a) (desktop_enabled ?a2) ?a3"
    by (simp add: window_frame_def Let_def)
  have a2: "wa_sent ?a2 = wa_sent a" by (simp add: taps_keep syncs_keep)
  show ?thesis
  proof (cases "wa_sent ?a3 = wa_sent ?a2")
    case True
    then have sends: "wa_sent (frame_input f (wa_capturing a) (desktop_enabled ?a2) ?a3) \<noteq> wa_sent ?a3"
      using assms frame a2 by simp
    have "wa_capturing a \<and> fe_frame_size f \<noteq> None" if "wa_view ?a3 = Some True"
      using input_sends(3,4) [OF sends] panel_view [OF _ that] by blast
    then show ?thesis using input_sends(1,2) [OF sends] frame by (simp add: input_keep)
  next
    case False
    then have "wa_sent (chrome_panel f ?a2) \<noteq> wa_sent ?a2" "?a3 = chrome_panel f ?a2"
      by (simp_all add: frame_panel_def split: if_splits)
    then show ?thesis using chrome_keep [of f ?a2] frame by (simp add: input_keep)
  qed
qed

definition calm :: "nat \<Rightarrow> nat frame_env" where
  "calm now = \<lparr>fe_now = now, fe_events = [], fe_permission = True, fe_late_start = False, fe_focused = True,
     fe_reported = Some False, fe_rect = Some 7, fe_target = None, fe_display = (\<lambda>g. Some 100),
     fe_real = Some (\<lambda>g. False), fe_winit = None, fe_placed = True, fe_rescue = None, fe_sample = Some 7,
     fe_changed = (\<lambda>g h. g \<noteq> h), fe_save_ok = True, fe_taps = [], fe_clicks = {}, fe_frame_size = None,
     fe_mouse = None, fe_input = []\<rparr>"

definition new_window :: "nat window_app" where
  "new_window = window_new 0 (1920, 1080) True True False False (Some 7)"

definition connecting :: "nat frame_env" where
  "connecting = (calm 1000)\<lparr>fe_events := [TeConnected [104] 1920 1080], fe_taps := [EngageCapture]\<rparr>"

definition press_left :: "nat frame_env" where
  "press_left = (calm 1100)\<lparr>fe_input := [UiButton Primary True]\<rparr>"

lemmas window_run =
  window_frame_def frame_events_def recheck_permission_def on_transport_event_def frame_syncs_def
  sync_fullscreen_level_def wants_above_menu_bar_def sync_fullscreen_state_def decide_fullscreen_sync_def
  drain_restore_def rescue_offscreen_def track_window_geometry_def geometry_changed_def
  write_window_geometry_def on_tap_event_def toggle_capture_def frame_panel_def desktop_enabled_def
  should_show_chrome_def frame_input_def shown_size_def adjust_capture_def forward_input_def forward_event_def
  with_mapper_def calm_def new_window_def window_new_def connecting_def PERM_CHECK_def GEOMETRY_SETTLE_def
  input_mapper_new_def Let_def

lemma after_press:
  "wa_sent (foldl window_frame new_window [connecting, press_left]) = [packet_new (MouseButton 0 True) 0]"
  "wa_sent (window_frame new_window connecting) = []"
  by (simp_all add: window_run press_left_def send_mouse_button_def send_numbered_def pointer_button_to_proto_def)

theorem window_input_guarded_witness:
  "wa_state (foldl window_frame new_window [connecting, press_left]) = CsConnected"
  using window_input_guarded [of "window_frame new_window connecting" press_left] after_press by simp

section \<open>Window and keyboard\<close>



section \<open>Putting the window back\<close>



lemma restore_untouched [simp]:
  "wa_restore (frame_events f a) = wa_restore a"
  "wa_restore (sync_fullscreen_level b a) = wa_restore a"
  "wa_restore (stop_desktop_fullscreen a) = wa_restore a"
  "wa_restore (rescue_offscreen f a) = wa_restore a"
  "wa_restore (track_window_geometry f a) = wa_restore a"
  "wa_restore (toggle_capture a) = wa_restore a"
  "wa_restore (progress_rows cs a) = wa_restore a"
  "wa_restore (expire_toast n a) = wa_restore a"
  "wa_restore (with_mapper m a) = wa_restore a"
  "wa_restore (reconcile_desktop_capture b a) = wa_restore a"
proof -
  have "wa_restore (foldl (on_transport_event n) a es) = wa_restore a" for n es
    by (induction es arbitrary: a) (simp_all add: on_transport_event_def split: transport_event.split)
  then show "wa_restore (frame_events f a) = wa_restore a" by (simp add: frame_events_def recheck_permission_def)
qed (simp_all add: sync_fullscreen_level_def set_window_above_def window_cmds_def stop_desktop_fullscreen_def
    rescue_offscreen_def track_window_geometry_def write_window_geometry_def toggle_capture_def progress_rows_def
    expire_toast_def with_mapper_def reconcile_desktop_capture_def Let_def split: option.split prod.split)

lemma restore_of_keys [simp]: "wa_restore (send_key_sequence ks a) = wa_restore a"
  by (induction ks a rule: send_key_sequence.induct) simp_all

lemma restore_of_input [simp]: "wa_restore (frame_input f b enabled a) = wa_restore a"
proof -
  have "wa_restore (foldl forward_event a evs) = wa_restore a" for evs and a :: "'a window_app"
    by (induction evs arbitrary: a) (simp_all add: forward_event_def split: ui_event.split)
  then show ?thesis
    by (simp add: frame_input_def adjust_capture_def forward_input_def Let_def split: option.split)
qed









section \<open>What the window does not handle\<close>

text \<open>Entering fullscreen again before the window is back shrinks the fullscreen: the move queued
  when fullscreen was left is neither cancelled nor held back, so its first attempt puts the borderless
  window, which has just been given the size of a display, at the old place and size.\<close>

lemma reentered_fullscreen_shrinks:
  assumes "wa_fullscreen a" "wa_pre_geometry a = Some g" "fe_display f2 (fe_rect f2) = Some whole"
    and "fe_rect f2 = Some now_at" "\<not> wa_has_preferred a" "fe_now f1 + FULLSCREEN_SETTLE \<le> fe_now f3"
  shows "let a3 = drain_restore f3 (toggle_fullscreen f2 (toggle_fullscreen f1 a)) in
    wa_fullscreen a3 \<and> \<not> wa_native a3
    \<and> (\<exists>cs. wa_cmds a3 = cs @ [CmdDecorations False, CmdPosition whole, CmdSize whole, CmdResizable False, CmdFocus,
         CmdAbove True] @ [CmdPosition g, CmdSize g, CmdFocus, CmdToSpace])"
  using assms
  by (simp add: toggle_fullscreen_def toggle_capture_def exit_borderless_fullscreen_def set_window_above_def
      window_cmds_def queue_position_restore_def remember_pre_fullscreen_geometry_def
      enter_borderless_fullscreen_def drain_restore_def RESTORE_MAX_ATTEMPTS_def Let_def)

lemma reentered_fullscreen_shrinks_witness:
  "wa_fullscreen (drain_restore (calm 3000) (toggle_fullscreen (calm 2200) (toggle_fullscreen (calm 2000)
     (toggle_fullscreen (calm 1000) new_window))))"
proof -
  have "wa_fullscreen (toggle_fullscreen (calm 1000) new_window)"
    "wa_pre_geometry (toggle_fullscreen (calm 1000) new_window) = Some 7"
    "\<not> wa_has_preferred (toggle_fullscreen (calm 1000) new_window)"
    by (simp_all add: toggle_fullscreen_def remember_pre_fullscreen_geometry_def enter_borderless_fullscreen_def
        set_window_above_def window_cmds_def toggle_capture_def calm_def new_window_def window_new_def Let_def)
  from reentered_fullscreen_shrinks [OF this(1,2), of "calm 2200" 100 7 "calm 2000" "calm 3000"] this(3)
  show ?thesis by (simp add: calm_def FULLSCREEN_SETTLE_def Let_def)
qed








text \<open>
  Capture can be engaged while the link is down, and the tap does not ask for the link: what is typed
  then waits in the channel for the next connection.
\<close>

lemma keys_queued_while_down:
  "let d = foldl (desk_step win_switch (\<lambda>w ev. snd (hook_proc ev w))) (new_window, win_tap_new)
       [Inl connecting, Inl ((calm 1100)\<lparr>fe_events := [TeDisconnected DownSilent], fe_taps := [EngageCapture]\<rparr>),
        Inl (calm 1200), Inr press_a]
   in wa_state (fst d) = CsDisconnected \<and> keys_held (wt_sent (snd d)) = {0x1E}"
proof -
  let ?lost = "(calm 1100)\<lparr>fe_events := [TeDisconnected DownSilent], fe_taps := [EngageCapture]\<rparr>"
  have state: "wa_state (foldl window_frame new_window [connecting, ?lost, calm 1200]) = CsDisconnected"
    "wa_capturing (foldl window_frame new_window [connecting, ?lost])"
    by (simp_all add: window_run)
  have capture: "\<not> wa_capturing (frame_events connecting new_window)"
    "\<not> wa_capturing (frame_events ?lost (window_frame new_window connecting))"
    "wa_capturing (frame_events (calm 1200) (foldl window_frame new_window [connecting, ?lost]))"
    using state(2) by (simp_all add: events_capturing new_window_def window_new_def calm_def)
  have focus: "fe_focused connecting" "fe_focused ?lost" "fe_focused (calm n)" for n
    by (simp_all add: connecting_def calm_def)
  have "win_switch (win_switch (win_switch win_tap_new WinPassive) WinPassive) WinEnable = win_enable win_tap_new"
    by (simp add: win_switch_def win_key_step_def win_enable_passive_def win_enable_def win_tap_new_def)
  then have "snd (foldl (desk_step win_switch (\<lambda>w ev. snd (hook_proc ev w))) (new_window, win_tap_new)
      [Inl connecting, Inl ?lost, Inl (calm 1200), Inr press_a]) = snd (hook_proc press_a (win_enable win_tap_new))"
    using capture focus by (simp add: desk_step_def frame_calls Let_def sync_tap_to_focus_def)
  moreover have "keys_held (wt_sent (snd (hook_proc press_a (win_enable win_tap_new)))) = {0x1E}"
    using press_a_forwarded
    by (simp add: hook_proc_def hook_send_def hook_book_def win_enable_def win_tap_new_def keys_held_def
        key_held_packet)
  ultimately show ?thesis using state(1) by (simp add: Let_def desk_step_def frame_calls)
qed

end
