(* ===== verification/Spec2Isabelle.thy ===== *)
theory Spec2Isabelle
  imports WireProps BrowserProps DeliveryProps ExecProps ClientProps LinkProps IpcProps
    GatewayProps KeyProps WindowProps
begin

text \<open>
  WireDesk gives a Mac the keyboard, clipboard, shell and browser of a Windows host over one
  serial, BLE or RFCOMM link. A client sends packets (\<open>wiredesk-protocol\<close>) over a transport
  (\<open>wiredesk-transport\<close>); the host's session thread (\<open>apps/wiredesk-host\<close>) injects input, runs two
  shells, exchanges clipboards and hands browser frames to a hub of stream workers
  (\<open>wiredesk-browser\<close>). This development models those parts and proves what they promise.

  \<^bold>\<open>Theories and code\<close>

  \<^item> \<open>Prelude\<close>, \<open>Interfaces\<close>, \<open>Actions\<close>, \<open>BTree\<close>, \<open>Chars\<close>: machine integers, little-endian fields,
    \<open>chunks\<close>; the contracts shared by codecs and by machines with an invariant, each interpreted where
    it is provided; methods with \<open>&mut self\<close> and \<open>?\<close> as state transformers; \<open>BTreeMap\<close> and
    string functions of the standard library.
  \<^item> \<open>Errors\<close>, \<open>Message\<close>, \<open>Packet\<close>, \<open>Cobs\<close>, \<open>Framing\<close>, \<open>Serial\<close>: \<open>error.rs\<close>, \<open>message.rs\<close>,
    \<open>packet.rs\<close>, \<open>cobs.rs\<close>, \<open>framing.rs\<close>, \<open>serial.rs\<close>. Round trips, resynchronisation, and what a
    damaged frame does to the serial reader.
  \<^item> \<open>Fragment\<close>: \<open>bluetooth/fragment.rs\<close>, splitting and reassembly. \<open>Storm\<close>: \<open>storm.rs\<close> and the
    reconnect schedules of \<open>reconnect.rs\<close>, \<open>session_thread.rs\<close>, \<open>link.rs\<close>. \<open>Utf8\<close>: \<open>utf8_stream.rs\<close>.
    \<open>ClipFile\<close>: \<open>clip_file.rs\<close>.
  \<^item> \<open>HostFlow\<close>, \<open>HostSession\<close>: \<open>session.rs\<close>. The record \<open>host_session\<close> has the fields of
    \<open>Session\<close>; each arm of \<open>handle_packet\<close> is a definition; \<open>tick\<close> composes them as the code does.
    \<open>HostInvariant\<close> proves the session's invariant for every operation, early returns included;
    \<open>HostBehaviour\<close>, \<open>HostRules\<close>, \<open>HostTicks\<close> prove what pumps, packets and ticks do.
  \<^item> \<open>HostShell\<close>: \<open>shell.rs\<close>. \<open>HostClipboard\<close>, \<open>ClipTransfer\<close>: \<open>clipboard.rs\<close>.
    \<open>HostThread\<close>: \<open>session_thread.rs\<close> around the session, as a machine over the thread's steps and
    the environment's.
  \<^item> \<open>BrowserStream\<close>, \<open>BrowserHub\<close>: \<open>wiredesk-browser/src/lib.rs\<close>. One turn of \<open>worker\<close>, two
    workers over a lossy link, the hub between workers and link. \<open>ShellChannel\<close>: the client's
    \<open>shell_channel.rs\<close>.
  \<^item> \<open>Text\<close>, \<open>ExecHelpers\<close>, \<open>ExecRunner\<close>: \<open>wiredesk-exec-core\<close>, the payloads and markers of
    \<open>helpers.rs\<close> and the loop of \<open>runner.rs\<close>, over a script of events with the time each took.
    \<open>ExecMarks\<close>, \<open>ExecRuns\<close>, \<open>ExecSafety\<close>, \<open>ExecHears\<close> prove that markers are found where they are, that a run
    depends on the concatenated output alone, and what every run keeps. \<open>ExecIpc\<close>: the socket
    frames of \<open>ipc.rs\<close> and the stream transport of \<open>ipc_transport.rs\<close>.
  \<^item> \<open>ClipPeer\<close>: the contract of a clipboard receiver, kept by the host's and the client's.
    \<open>ClientClip\<close>, \<open>ClientSync\<close>, \<open>ClientPoll\<close>: the client's \<open>clipboard.rs\<close>, its receiver as a refinement
    of the host's, and what the poll thread sends.
  \<^item> \<open>ClientRoute\<close>: \<open>exec_bridge.rs\<close>, the slots and their routing. \<open>ClientLink\<close>: \<open>link.rs\<close>; the record
    \<open>link_context\<close> has the shared fields of \<open>LinkContext\<close>, each pass of the reader, the writer and the
    supervisor is a definition, and \<open>link_step\<close> interleaves them with the threads that queue packets,
    install slots, poll the pasteboard and cancel. \<open>ClientLinkRuns\<close>, \<open>ClientLinkFlow\<close>,
    \<open>ClientLinkWriter\<close>: the gate, the end of a link, the queue. \<open>ClientIpc\<close>, \<open>ClientIpcRuns\<close>: the
    socket server of \<open>ipc.rs\<close>, its handlers as functions of what they observe, and the way of a
    command's output from the host's shell to the caller.
  \<^item> \<open>Terminal\<close>: \<open>wiredesk-term\<close> and \<open>detect.rs\<close>. Port and baud, the socket before the serial port, the
    handshake, exit codes, the threads of the bridge, and \<open>term_run\<close>, the order of it all.
  \<^item> \<open>Http\<close>, \<open>HostDesktop\<close>: \<open>request.rs\<close> of \<open>wiredesk-browser\<close> and the host's \<open>desktop.rs\<close>; a request
    socket between a stream worker and the handler of desktop requests, and the input it injects.
    \<open>Gateway\<close>, \<open>GatewayServe\<close>: \<open>http.rs\<close>, \<open>web_forwarder.rs\<close>, \<open>desktop_client.rs\<close> of the browser
    service; \<open>authenticate\<close> is proved equal to a specification over the header's fields.
    \<open>DesktopView\<close> follows one frame through both.
  \<^item> \<open>Keymap\<close>, \<open>KeyTap\<close>, \<open>WinHook\<close>: \<open>keymap.rs\<close>, \<open>mapper.rs\<close>, \<open>keyboard_tap.rs\<close> and the dispatcher of the
    client's \<open>main.rs\<close>. The locale \<open>key_book\<close> states what a book of held keys owes the host; the macOS
    tap and the Windows hook each interpret it.
  \<^item> \<open>ClientWindow\<close>, \<open>WindowRuns\<close>: \<open>app.rs\<close>. The record \<open>window_app\<close> has the fields of \<open>WireDeskApp\<close>;
    \<open>window_frame\<close> is one call of \<open>update\<close>, composed of the same steps in the same order. The locale
    \<open>window_book\<close> joins frames and keystrokes, for either tap.
  \<^item> \<open>WireProps\<close>, \<open>HostProps\<close>, \<open>DeliveryProps\<close>, \<open>BrowserProps\<close>, \<open>ExecProps\<close>, \<open>ClientProps\<close>,
    \<open>LinkProps\<close>, \<open>IpcProps\<close>, \<open>GatewayProps\<close>, \<open>KeyProps\<close>,
    \<open>WindowProps\<close>: the properties, each with a witness where it has hypotheses.

  \<^bold>\<open>Conventions\<close>

  Errors are values of \<open>werror\<close>; formatted texts are replaced by the values they carry, except where
  the code looks into them. Time is in milliseconds. The link and the injector of a session are a log
  of what was handed over and a script of the answers, with the time each call took; an empty script
  answers success, and an empty inbox the receive timeout. Counters of type \<open>u64\<close> that only
  grow with transferred bytes are naturals where the proof shows that no subtraction underflows.

  \<^bold>\<open>Bounds\<close>

  No definition runs on fuel: loops that the code bounds (packets per tick, frames per turn) recurse
  on that bound, the others on the list they consume. Runs of whole components are lists of events,
  so every statement about a history is about all finite histories.

  \<^bold>\<open>Parameters\<close>

  The CRC-16, the standard library's hash, the PNG codec, bincode, base64, gzip, JSON, screen capture,
  process creation and lower-casing are
  functions the definitions take as arguments; no law about them is assumed.

  \<^bold>\<open>What is not modelled\<close>

  Not modelled: drawing, the settings panel and tray code, process start, logging, configuration files, the age rules of the
  file caches, launching the browser and its service, and Win32, macOS and Bluetooth calls. Their state is
  the operating system's, or a picture of state that is modelled.
\<close>

end
